(* ===== verification/Prelude.thy ===== *)
theory Prelude
  imports Main "HOL-Library.Word" "HOL-Library.List_Lexorder"
begin

text \<open>
  Shared vocabulary of the development: byte strings, the Rust integer operations whose wrap-around
  or overflow check matters, the error type, sub-slices of buffers, big-endian encodings and the
  byte-wise key order of the key-value store.

  Conventions.  \<open>u32\<close>, \<open>u64\<close> and \<open>usize\<close> values are natural numbers (a 64-bit target is assumed);
  an operation that can leave the range is one of \<open>u64_add\<close>, \<open>as_u32\<close>, \<open>checked_add_u64\<close>,
  \<open>checked_mul_u64\<close>, so the wrap-around or the check is visible in the model.  Bit-level state
  (bitmaps, the method byte) is kept as words.  A Rust \<open>Result\<close> is a sum, the error on the left.
\<close>

unbundle bit_operations_syntax

named_theorems bytes_simps \<open>slices, splices and big-endian encodings of byte strings\<close>
named_theorems wrap_simps \<open>integer operations that do not leave their range\<close>

subsection \<open>Types\<close>

type_synonym byte = "8 word"
type_synonym bytes = "byte list"

datatype ErrorKind =
    InvalidInput | InvalidData | UnexpectedEof | WriteZero | TimedOut | BrokenPipe
  | NotFound | Unsupported | WouldBlock | Other

datatype MdbError = MapFull | MdbOther nat

text \<open>
  Every error value the modelled code can return: an \<open>io::Error\<close> by its kind, a raw OS error
  number, an error of the store, another \<open>anyhow\<close> error by its message, and a Rust panic.
\<close>

datatype error = Io ErrorKind | Os nat | Mdb MdbError | Anyhow string | Panic

text \<open>\<open>std::cmp::Ordering\<close> and \<open>Ord::cmp\<close> of a type whose derived order is Isabelle's.\<close>

datatype ordering = Less | Equal | Greater

definition cmp :: "'a::linorder \<Rightarrow> 'a \<Rightarrow> ordering" where
  "cmp a b = (if a < b then Less else if a = b then Equal else Greater)"

lemma cmp_simps [simp]:
  "cmp a b = Less \<longleftrightarrow> a < b" "cmp a b = Equal \<longleftrightarrow> a = b" "cmp a b = Greater \<longleftrightarrow> b < a"
  by (auto simp: cmp_def)

subsection \<open>Machine integers\<close>

definition u64_add :: "nat \<Rightarrow> nat \<Rightarrow> nat" where
  "u64_add a b = (a + b) mod 2 ^ 64"

definition u64_sub :: "nat \<Rightarrow> nat \<Rightarrow> nat" where
  "u64_sub a b = (a + 2 ^ 64 - b) mod 2 ^ 64"

definition as_u32 :: "nat \<Rightarrow> nat" where
  "as_u32 n = n mod 2 ^ 32"

definition checked_add_u64 :: "nat \<Rightarrow> nat \<Rightarrow> nat option" where
  "checked_add_u64 a b = (if a + b < 2 ^ 64 then Some (a + b) else None)"

definition checked_mul_u64 :: "nat \<Rightarrow> nat \<Rightarrow> nat option" where
  "checked_mul_u64 a b = (if a * b < 2 ^ 64 then Some (a * b) else None)"

lemma u64_add_exact [wrap_simps]: "a + b < 2 ^ 64 \<Longrightarrow> u64_add a b = a + b"
  by (simp add: u64_add_def)

lemma u64_add_less: "u64_add a b < 2 ^ 64"
  by (simp add: u64_add_def)

lemma u64_sub_exact [wrap_simps]:
  assumes "b \<le> a" "a < 2 ^ 64"
  shows "u64_sub a b = a - b"
proof -
  have "a + 2 ^ 64 - b = (a - b) + 2 ^ 64" using assms(1) by linarith
  moreover have "a - b < 2 ^ 64" using assms(2) by linarith
  ultimately show ?thesis by (simp only: u64_sub_def mod_add_self2 mod_less)
qed

lemma as_u32_exact [wrap_simps]: "n < 2 ^ 32 \<Longrightarrow> as_u32 n = n"
  by (simp add: as_u32_def)

lemma as_u32_less: "as_u32 n < 2 ^ 32"
  by (simp add: as_u32_def)

subsection \<open>Slices of buffers\<close>

text \<open>\<open>&xs[a..b]\<close> and \<open>xs[a..a + ys.len()].copy_from_slice(ys)\<close>, for ranges inside the buffer.\<close>

definition slice :: "'a list \<Rightarrow> nat \<Rightarrow> nat \<Rightarrow> 'a list" where
  "slice xs a b = take (b - a) (drop a xs)"

definition splice :: "'a list \<Rightarrow> nat \<Rightarrow> 'a list \<Rightarrow> 'a list" where
  "splice xs a ys = take a xs @ ys @ drop (a + length ys) xs"

lemma length_slice [bytes_simps]: "b \<le> length xs \<Longrightarrow> length (slice xs a b) = b - a"
  by (simp add: slice_def)

lemma length_splice [bytes_simps]: "a + length ys \<le> length xs \<Longrightarrow> length (splice xs a ys) = length xs"
  by (simp add: splice_def)

lemma slice_empty [simp]: "slice xs a a = []"
  by (simp add: slice_def)

lemma slice_all [simp]: "slice xs 0 (length xs) = xs"
  by (simp add: slice_def)

lemma slice_nth: "a + i < b \<Longrightarrow> b \<le> length xs \<Longrightarrow> slice xs a b ! i = xs ! (a + i)"
  by (simp add: slice_def)

lemma splice_nth:
  "a + length ys \<le> length xs \<Longrightarrow> i < length xs \<Longrightarrow>
   splice xs a ys ! i = (if a \<le> i \<and> i < a + length ys then ys ! (i - a) else xs ! i)"
  by (auto simp: splice_def nth_append)

lemma slice_splice_same [bytes_simps]:
  "a + length ys \<le> length xs \<Longrightarrow> b = a + length ys \<Longrightarrow> slice (splice xs a ys) a b = ys"
  by (simp add: slice_def splice_def)

lemma splice_slice_id [bytes_simps]: "a \<le> b \<Longrightarrow> b \<le> length xs \<Longrightarrow> splice xs a (slice xs a b) = xs"
  by (rule nth_equalityI) (auto simp: slice_def splice_def nth_append min_def)

lemma slice_eqI:
  assumes "length xs = length ys" "b \<le> length xs" "\<And>i. a \<le> i \<Longrightarrow> i < b \<Longrightarrow> xs ! i = ys ! i"
  shows "slice xs a b = slice ys a b"
  using assms by (intro nth_equalityI) (auto simp: bytes_simps slice_nth)

lemma slice_eq_nth:
  assumes "slice xs a b = slice ys a b" "b \<le> length xs" "b \<le> length ys" "a \<le> i" "i < b"
  shows "xs ! i = ys ! i"
proof -
  have "slice xs a b ! (i - a) = slice ys a b ! (i - a)" using assms(1) by simp
  then show ?thesis using assms(2-) by (simp add: slice_nth)
qed

lemma slice_append:
  "a \<le> b \<Longrightarrow> b \<le> c \<Longrightarrow> c \<le> length xs \<Longrightarrow> slice xs a b @ slice xs b c = slice xs a c"
  by (rule nth_equalityI) (auto simp: bytes_simps slice_nth nth_append add.commute)

lemma slice_slice:
  "a + d \<le> b \<Longrightarrow> b \<le> length xs \<Longrightarrow> c \<le> d \<Longrightarrow> slice (slice xs a b) c d = slice xs (a + c) (a + d)"
  by (rule nth_equalityI) (auto simp: bytes_simps slice_nth add.assoc)

lemma take_splice: "a + length ys \<le> length xs \<Longrightarrow> take (a + length ys) (splice xs a ys) = take a xs @ ys"
  by (simp add: splice_def)

subsection \<open>Big-endian integers\<close>

fun be_bytes :: "nat \<Rightarrow> nat \<Rightarrow> bytes" where
  "be_bytes 0 n = []"
| "be_bytes (Suc k) n = be_bytes k (n div 256) @ [of_nat n]"

definition be_val :: "bytes \<Rightarrow> nat" where
  "be_val bs = foldl (\<lambda>acc b. acc * 256 + unat b) 0 bs"

lemma length_be_bytes [simp]: "length (be_bytes k n) = k"
  by (induction k arbitrary: n) auto

lemma be_val_snoc: "be_val (bs @ [b]) = be_val bs * 256 + unat b"
  by (simp add: be_val_def)

lemma unat_byte_less: "unat (b :: byte) < 256"
  using unsigned_less [of b] by simp

lemma be_val_less: "be_val bs < 256 ^ length bs"
proof (induction bs rule: rev_induct)
  case Nil
  then show ?case by (simp add: be_val_def)
next
  case (snoc b bs)
  then have "be_val bs + 1 \<le> 256 ^ length bs" by simp
  then have "(be_val bs + 1) * 256 \<le> 256 ^ length bs * 256" by (rule mult_le_mono1)
  then show ?case using unat_byte_less [of b] by (simp add: be_val_snoc)
qed

lemma unat_of_nat_byte: "unat (of_nat n :: byte) = n mod 256"
  by (simp add: unat_of_nat)

lemma be_val_be_bytes [bytes_simps]: "n < 256 ^ k \<Longrightarrow> be_val (be_bytes k n) = n"
proof (induction k arbitrary: n)
  case 0
  then show ?case by (simp add: be_val_def)
next
  case (Suc k)
  then have "n div 256 < 256 ^ k" by (simp add: less_mult_imp_div_less mult.commute)
  with Suc.IH show ?case by (simp add: be_val_snoc unat_of_nat)
qed

lemma be_bytes_be_val: "length bs = k \<Longrightarrow> be_bytes k (be_val bs) = bs"
proof (induction k arbitrary: bs)
  case 0
  then show ?case by simp
next
  case (Suc k)
  then obtain cs b where bs: "bs = cs @ [b]" and len: "length cs = k"
    by (cases bs rule: rev_cases) auto
  have "(be_val cs * 256 + unat b) div 256 = be_val cs" using unat_byte_less [of b] by simp
  moreover have "(of_nat (be_val cs * 256 + unat b) :: byte) = b"
    using unat_byte_less [of b] unat_of_nat_byte [of "be_val cs * 256 + unat b"]
    by (simp only: word_unat_eq_iff) simp
  ultimately show ?case using Suc.IH [OF len] by (simp add: bs be_val_snoc)
qed

lemma be_bytes_inj: "m < 256 ^ k \<Longrightarrow> n < 256 ^ k \<Longrightarrow> be_bytes k m = be_bytes k n \<longleftrightarrow> m = n"
  by (metis be_val_be_bytes)

subsection \<open>The byte-wise key order\<close>

text \<open>
  Lists of bytes carry the lexicographic order of \<open>List_Lexorder\<close> (a proper prefix comes first),
  which is the order in which the store compares keys.
\<close>

lemma lex_append_less:
  fixes xs ys us vs :: "'a::linorder list"
  assumes "length xs = length ys"
  shows "xs @ us < ys @ vs \<longleftrightarrow> xs < ys \<or> xs = ys \<and> us < vs"
  using assms by (induction xs ys rule: list_induct2) auto

lemma lex_append_le:
  fixes xs ys us vs :: "'a::linorder list"
  assumes "length xs = length ys"
  shows "xs @ us \<le> ys @ vs \<longleftrightarrow> xs < ys \<or> xs = ys \<and> us \<le> vs"
  using assms by (induction xs ys rule: list_induct2) auto

lemma be_bytes_less:
  assumes "m < 256 ^ k" "n < 256 ^ k"
  shows "be_bytes k m < be_bytes k n \<longleftrightarrow> m < n"
  using assms
proof (induction k arbitrary: m n)
  case 0
  then show ?case by simp
next
  case (Suc k)
  have d: "m div 256 < 256 ^ k" "n div 256 < 256 ^ k"
    using Suc.prems by (simp_all add: less_mult_imp_div_less mult.commute)
  have b: "(of_nat m :: byte) < of_nat n \<longleftrightarrow> m mod 256 < n mod 256"
    by (simp add: word_less_nat_alt unat_of_nat)
  have "m < n \<longleftrightarrow> m div 256 < n div 256 \<or> m div 256 = n div 256 \<and> m mod 256 < n mod 256"
  proof -
    have "m div 256 < n div 256 \<Longrightarrow> m < n" by (metis div_le_mono not_less)
    moreover have "n div 256 < m div 256 \<Longrightarrow> \<not> m < n" by (metis div_le_mono less_imp_le not_less)
    moreover have "m div 256 = n div 256 \<Longrightarrow> m < n \<longleftrightarrow> m mod 256 < n mod 256"
      using div_mult_mod_eq [of m 256] div_mult_mod_eq [of n 256] by linarith
    ultimately show ?thesis by (metis linorder_neqE_nat)
  qed
  then show ?case using Suc.IH [OF d] d b by (simp add: lex_append_less be_bytes_inj)
qed

lemma be_bytes_le:
  assumes "m < 256 ^ k" "n < 256 ^ k"
  shows "be_bytes k m \<le> be_bytes k n \<longleftrightarrow> m \<le> n"
  using be_bytes_less [OF assms] be_bytes_inj [OF assms] by (auto simp: order_le_less)

end
