(* ===== verification/Store.thy ===== *)
theory Store
  imports Prelude "HOL-Library.AList" "HOL-Library.Multiset"
begin

text \<open>
  The key-value store (the \<open>heed\<close> crate over LMDB) is not part of the repository, so it is an
  argument of the model: a record of the operations the code calls, over a type \<open>'s\<close> of store states.
  The code relies on the documented behaviour stated by \<open>txn_ok\<close>, \<open>db_ok\<close> and \<open>db_frame\<close>: a
  transaction starts from the committed contents, the operations of a database act on its contents
  as a finite map does, iteration follows the byte order of the encoded keys, and databases do not
  interfere.  Any operation may fail; a failed operation changes nothing.  An error met while
  iterating is reported when the iteration starts.

  The last part of the theory is a bounded in-memory store; the witnesses of the development use it.
\<close>

subsection \<open>The operations\<close>

record ('s, 'k, 'v) db =
  db_get :: "'s \<Rightarrow> 'k \<Rightarrow> error + 'v option"
  db_put :: "'s \<Rightarrow> 'k \<Rightarrow> 'v \<Rightarrow> error + 's"
  db_get_or_put :: "'s \<Rightarrow> 'k \<Rightarrow> 'v \<Rightarrow> error + ('s \<times> 'v option)"
  db_delete :: "'s \<Rightarrow> 'k \<Rightarrow> error + 's"
  db_iter :: "'s \<Rightarrow> error + ('k \<times> 'v) list"
  db_from :: "'s \<Rightarrow> 'k \<Rightarrow> error + ('k \<times> 'v) list"
  db_after :: "'s \<Rightarrow> 'k \<Rightarrow> error + ('k \<times> 'v) list"

record 's txns =
  read_txn :: "'s \<Rightarrow> error + 's"
  write_txn :: "'s \<Rightarrow> error + 's"
  commit :: "'s \<Rightarrow> error + 's"

subsection \<open>The behaviour relied on\<close>

definition txn_ok :: "('s, 'm) txns_scheme \<Rightarrow> ('s \<Rightarrow> 'c) \<Rightarrow> bool" where
  "txn_ok T view \<longleftrightarrow>
     (\<forall>s t. read_txn T s = Inr t \<longrightarrow> view t = view s) \<and>
     (\<forall>s t. write_txn T s = Inr t \<longrightarrow> view t = view s) \<and>
     (\<forall>s t. commit T s = Inr t \<longrightarrow> view t = view s)"

definition listing :: "('k \<Rightarrow> bytes) \<Rightarrow> ('k \<rightharpoonup> 'v) \<Rightarrow> ('k \<times> 'v) list \<Rightarrow> bool" where
  "listing enc m xs \<longleftrightarrow> map_of xs = m \<and> distinct (map fst xs) \<and> sorted (map (enc \<circ> fst) xs)"

definition db_ok :: "('k \<Rightarrow> bytes) \<Rightarrow> ('s \<Rightarrow> 'k \<rightharpoonup> 'v) \<Rightarrow> ('s, 'k, 'v) db \<Rightarrow> bool" where
  "db_ok enc view D \<longleftrightarrow>
     (\<forall>s k x. db_get D s k = Inr x \<longrightarrow> x = view s k) \<and>
     (\<forall>s k x t. db_put D s k x = Inr t \<longrightarrow> view t = (view s)(k \<mapsto> x)) \<and>
     (\<forall>s k x t old. db_get_or_put D s k x = Inr (t, old) \<longrightarrow>
        old = view s k \<and> view t = (case view s k of None \<Rightarrow> (view s)(k \<mapsto> x) | Some _ \<Rightarrow> view s)) \<and>
     (\<forall>s k t. db_delete D s k = Inr t \<longrightarrow> view t = (view s)(k := None)) \<and>
     (\<forall>s xs. db_iter D s = Inr xs \<longrightarrow> listing enc (view s) xs) \<and>
     (\<forall>s k ys. db_from D s k = Inr ys \<longrightarrow>
        (\<exists>xs. listing enc (view s) xs \<and> ys = filter (\<lambda>x. enc k \<le> enc (fst x)) xs)) \<and>
     (\<forall>s k ys. db_after D s k = Inr ys \<longrightarrow>
        (\<exists>xs. listing enc (view s) xs \<and> ys = filter (\<lambda>x. enc k < enc (fst x)) xs))"

definition db_frame :: "('s, 'k, 'v) db \<Rightarrow> ('s \<Rightarrow> 'c) \<Rightarrow> bool" where
  "db_frame D other \<longleftrightarrow>
     (\<forall>s k x t. db_put D s k x = Inr t \<longrightarrow> other t = other s) \<and>
     (\<forall>s k x t old. db_get_or_put D s k x = Inr (t, old) \<longrightarrow> other t = other s) \<and>
     (\<forall>s k t. db_delete D s k = Inr t \<longrightarrow> other t = other s)"

lemma txn_okD:
  assumes "txn_ok T view"
  shows "read_txn T s = Inr t \<Longrightarrow> view t = view s"
    and "write_txn T s = Inr t \<Longrightarrow> view t = view s"
    and "commit T s = Inr t \<Longrightarrow> view t = view s"
  using assms unfolding txn_ok_def by - blast+

lemma db_okD:
  assumes "db_ok enc view D"
  shows "db_get D s k = Inr x \<Longrightarrow> x = view s k"
    and "db_put D s k v = Inr t \<Longrightarrow> view t = (view s)(k \<mapsto> v)"
    and "db_get_or_put D s k v = Inr (t, old) \<Longrightarrow> old = view s k"
    and "db_get_or_put D s k v = Inr (t, old) \<Longrightarrow>
           view t = (case view s k of None \<Rightarrow> (view s)(k \<mapsto> v) | Some _ \<Rightarrow> view s)"
    and "db_delete D s k = Inr t \<Longrightarrow> view t = (view s)(k := None)"
    and "db_iter D s = Inr xs \<Longrightarrow> listing enc (view s) xs"
    and "db_from D s k = Inr ys \<Longrightarrow> \<exists>xs. listing enc (view s) xs \<and> ys = filter (\<lambda>x. enc k \<le> enc (fst x)) xs"
    and "db_after D s k = Inr ys \<Longrightarrow> \<exists>xs. listing enc (view s) xs \<and> ys = filter (\<lambda>x. enc k < enc (fst x)) xs"
  using assms unfolding db_ok_def by - (elim conjE, metis)+

lemma db_frameD:
  assumes "db_frame D other"
  shows "db_put D s k v = Inr t \<Longrightarrow> other t = other s"
    and "db_get_or_put D s k v = Inr (t, old) \<Longrightarrow> other t = other s"
    and "db_delete D s k = Inr t \<Longrightarrow> other t = other s"
  using assms unfolding db_frame_def by - blast+

lemma listing_dom: "listing enc m xs \<Longrightarrow> dom m = set (map fst xs)"
  by (force simp: listing_def dom_map_of_conv_image_fst)

lemma listing_finite: "listing enc m xs \<Longrightarrow> finite (dom m)"
  by (simp add: listing_dom)

lemma listing_card: "listing enc m xs \<Longrightarrow> card (dom m) = length xs"
  by (simp add: listing_dom listing_def distinct_card del: set_map)

lemma listing_in_iff: "listing enc m xs \<Longrightarrow> (k, v) \<in> set xs \<longleftrightarrow> m k = Some v"
  by (metis listing_def map_of_eq_Some_iff)

lemma listing_sorted:
  "listing enc m xs \<Longrightarrow> i \<le> j \<Longrightarrow> j < length xs \<Longrightarrow> enc (fst (xs ! i)) \<le> enc (fst (xs ! j))"
  using sorted_nth_mono [of "map (enc \<circ> fst) xs" i j] by (simp add: listing_def)

subsection \<open>A bounded in-memory store\<close>

text \<open>
  One database: an association list read from the front; a list of states of several databases is
  addressed through a getter and a setter.  \<open>full\<close> says when a new key does not fit.
\<close>

definition mem_list :: "('k \<Rightarrow> bytes) \<Rightarrow> ('k \<times> 'v) list \<Rightarrow> ('k \<times> 'v) list" where
  "mem_list enc al = sort_key (enc \<circ> fst) (AList.clearjunk al)"

definition mem_db ::
  "('k \<Rightarrow> bytes) \<Rightarrow> ('s \<Rightarrow> bool) \<Rightarrow> ('s \<Rightarrow> ('k \<times> 'v) list) \<Rightarrow> (('k \<times> 'v) list \<Rightarrow> 's \<Rightarrow> 's) \<Rightarrow> ('s, 'k, 'v) db" where
  "mem_db enc full get set_al =
     \<lparr>db_get = (\<lambda>s k. Inr (map_of (get s) k)),
      db_put = (\<lambda>s k v. Inr (set_al (AList.update k v (get s)) s)),
      db_get_or_put = (\<lambda>s k v. case map_of (get s) k of
          Some old \<Rightarrow> Inr (s, Some old)
        | None \<Rightarrow> if full s then Inl (Mdb MapFull) else Inr (set_al (AList.update k v (get s)) s, None)),
      db_delete = (\<lambda>s k. Inr (set_al (AList.delete k (get s)) s)),
      db_iter = (\<lambda>s. Inr (mem_list enc (get s))),
      db_from = (\<lambda>s k. Inr (filter (\<lambda>x. enc k \<le> enc (fst x)) (mem_list enc (get s)))),
      db_after = (\<lambda>s k. Inr (filter (\<lambda>x. enc k < enc (fst x)) (mem_list enc (get s))))\<rparr>"

lemma mem_list_listing: "listing enc (map_of al) (mem_list enc al)"
proof -
  have "mset (map fst (mem_list enc al)) = mset (map fst (AList.clearjunk al))"
    by (simp add: mem_list_def)
  then have d: "distinct (map fst (mem_list enc al))"
    using distinct_clearjunk mset_eq_imp_distinct_iff by metis
  moreover have "map_of (mem_list enc al) = map_of al"
  proof -
    have "set (mem_list enc al) = set (AList.clearjunk al)" by (simp add: mem_list_def)
    with d have "map_of (mem_list enc al) = map_of (AList.clearjunk al)"
      by (metis distinct_clearjunk map_of_inject_set)
    then show ?thesis by (simp add: map_of_clearjunk)
  qed
  ultimately show ?thesis
    using sorted_sort_key [of "enc \<circ> fst" "AList.clearjunk al"] by (simp add: listing_def mem_list_def)
qed

lemma mem_list_filter: "\<exists>xs. listing enc (map_of al) xs \<and> filter P (mem_list enc al) = filter P xs"
  using mem_list_listing by blast

lemma mem_db_ok:
  assumes "\<And>al s. get (set_al al s) = al"
  shows "db_ok enc (\<lambda>s. map_of (get s)) (mem_db enc full get set_al)"
  using assms
  by (auto simp: mem_list_listing mem_list_filter db_ok_def mem_db_def update_conv delete_conv split: option.splits if_splits)

lemma mem_db_frame:
  assumes "\<And>al s. other (set_al al s) = other s"
  shows "db_frame (mem_db enc full get set_al) other"
  using assms by (auto simp: db_frame_def mem_db_def split: option.splits if_splits)

definition mem_txns :: "'s txns" where
  "mem_txns = \<lparr>read_txn = Inr, write_txn = Inr, commit = Inr\<rparr>"

lemma mem_txns_ok: "txn_ok mem_txns view"
  by (simp add: txn_ok_def mem_txns_def)

end
