(* ===== verification/CheckSums.thy ===== *)
theory CheckSums
  imports Prelude
begin

text \<open>
  The key and value types of \<open>src/backend/chunkdb.rs\<close>: checksums, their on-disk form, access times
  and access-index keys, with the encodings the store sees and the orders the code declares.  The
  digest functions (the \<open>sha2\<close> and \<open>blake3\<close> crates) are the fields of an argument.
\<close>

subsection \<open>Checksum methods\<close>

datatype CheckSumMethod = Sha256 | Blake3 | Unknown

definition method_of_u8 :: "byte \<Rightarrow> CheckSumMethod" where
  "method_of_u8 v = (if v = 0 then Sha256 else if v = 1 then Blake3 else Unknown)"

definition u8_of_method :: "CheckSumMethod \<Rightarrow> byte" where
  "u8_of_method m = (case m of Sha256 \<Rightarrow> 0 | Blake3 \<Rightarrow> 1 | Unknown \<Rightarrow> 2)"

text \<open>The derived order is the order of the discriminants.\<close>

instantiation CheckSumMethod :: linorder
begin

definition less_eq_CheckSumMethod :: "CheckSumMethod \<Rightarrow> CheckSumMethod \<Rightarrow> bool" where
  "less_eq_CheckSumMethod a b \<longleftrightarrow> u8_of_method a \<le> u8_of_method b"

definition less_CheckSumMethod :: "CheckSumMethod \<Rightarrow> CheckSumMethod \<Rightarrow> bool" where
  "less_CheckSumMethod a b \<longleftrightarrow> u8_of_method a < u8_of_method b"

instance
  by standard
    (auto simp: less_eq_CheckSumMethod_def less_CheckSumMethod_def u8_of_method_def
      word_le_nat_alt word_less_nat_alt split: CheckSumMethod.splits)

end

lemma method_of_u8_of_method [simp]: "method_of_u8 (u8_of_method m) = m"
  by (cases m) (simp_all add: method_of_u8_def u8_of_method_def)

lemma u8_of_method_of_u8: "u8_of_method (method_of_u8 v) = (if v \<le> 1 then v else 2)"
proof -
  have "v \<le> 1 \<longleftrightarrow> v = 0 \<or> v = (1 :: byte)"
    using word_le_nat_alt [of v 1] by (simp only: word_unat_eq_iff [of v]) auto
  then show ?thesis by (auto simp: method_of_u8_def u8_of_method_def)
qed

lemma u8_of_method_inject [simp]: "u8_of_method a = u8_of_method b \<longleftrightarrow> a = b"
  by (metis method_of_u8_of_method)

subsection \<open>Checksums\<close>

record CheckSum =
  cs_raw :: bytes
  cs_method :: CheckSumMethod

record digests =
  sha256_digest :: "bytes \<Rightarrow> bytes"
  blake3_digest :: "bytes \<Rightarrow> bytes"

definition CheckSum_cmp :: "CheckSum \<Rightarrow> CheckSum \<Rightarrow> ordering" where
  "CheckSum_cmp a b =
     (if cs_method a \<noteq> cs_method b then cmp (cs_method a) (cs_method b) else cmp (cs_raw a) (cs_raw b))"

definition CheckSum_empty :: CheckSum where
  "CheckSum_empty = \<lparr>cs_raw = replicate 32 0, cs_method = Unknown\<rparr>"

definition CheckSum_new :: "bytes \<Rightarrow> CheckSumMethod \<Rightarrow> error + CheckSum" where
  "CheckSum_new raw m =
     (if length raw \<noteq> 32 then Inl (Io InvalidInput) else Inr \<lparr>cs_raw = raw, cs_method = m\<rparr>)"

text \<open>
  \<open>from_data\<close>: the digest is an array of 32 bytes by its Rust type, so the \<open>unwrap\<close> of \<open>new\<close> there
  is \<open>CheckSum_new_digest\<close> below.  An unknown method hashes with BLAKE3 and keeps its tag.
\<close>

definition CheckSum_from_data :: "digests \<Rightarrow> bytes \<Rightarrow> CheckSumMethod \<Rightarrow> CheckSum" where
  "CheckSum_from_data H data m =
     \<lparr>cs_raw = (case m of Sha256 \<Rightarrow> sha256_digest H data | Blake3 \<Rightarrow> blake3_digest H data
                | _ \<Rightarrow> blake3_digest H data),
      cs_method = m\<rparr>"

definition digests_ok :: "digests \<Rightarrow> bool" where
  "digests_ok H \<longleftrightarrow> (\<forall>d. length (sha256_digest H d) = 32 \<and> length (blake3_digest H d) = 32)"

lemma CheckSum_new_digest:
  "digests_ok H \<Longrightarrow> CheckSum_new (cs_raw (CheckSum_from_data H d m)) m = Inr (CheckSum_from_data H d m)"
  by (simp add: CheckSum_new_def CheckSum_from_data_def digests_ok_def split: CheckSumMethod.split)

lemma cs_method_from_data [simp]: "cs_method (CheckSum_from_data H d m) = m"
  by (simp add: CheckSum_from_data_def)

definition wf_checksum :: "CheckSum \<Rightarrow> bool" where
  "wf_checksum c \<longleftrightarrow> length (cs_raw c) = 32"

lemma wf_checksum_new: "CheckSum_new raw m = Inr c \<Longrightarrow> wf_checksum c \<and> cs_raw c = raw \<and> cs_method c = m"
  by (auto simp: CheckSum_new_def wf_checksum_def split: if_splits)

lemma wf_checksum_from_data: "digests_ok H \<Longrightarrow> wf_checksum (CheckSum_from_data H d m)"
  using CheckSum_new_digest wf_checksum_new by blast

lemma wf_checksum_empty: "wf_checksum CheckSum_empty"
  by (simp add: wf_checksum_def CheckSum_empty_def)

subsection \<open>The on-disk form\<close>

record CheckSumOnDisk =
  d_raw :: bytes
  d_method :: byte
  d_reserved :: bytes

definition is_valid :: "CheckSumOnDisk \<Rightarrow> bool" where
  "is_valid d \<longleftrightarrow> d_method d < 2"

definition disk_of :: "CheckSum \<Rightarrow> CheckSumOnDisk" where
  "disk_of c = \<lparr>d_raw = cs_raw c, d_method = u8_of_method (cs_method c), d_reserved = replicate 7 0\<rparr>"

definition checksum_of :: "CheckSumOnDisk \<Rightarrow> CheckSum" where
  "checksum_of d = \<lparr>cs_raw = d_raw d, cs_method = method_of_u8 (d_method d)\<rparr>"

definition disk_encode :: "CheckSumOnDisk \<Rightarrow> bytes" where
  "disk_encode d = d_raw d @ [d_method d] @ d_reserved d"

text \<open>\<open>bytemuck::from_bytes\<close> panics on a slice of the wrong length.\<close>

definition disk_decode :: "bytes \<Rightarrow> error + CheckSumOnDisk" where
  "disk_decode bs =
     (if length bs \<noteq> 40 then Inl Panic
      else Inr \<lparr>d_raw = slice bs 0 32, d_method = bs ! 32, d_reserved = slice bs 33 40\<rparr>)"

definition CheckSumOnDisk_cmp :: "CheckSumOnDisk \<Rightarrow> CheckSumOnDisk \<Rightarrow> ordering" where
  "CheckSumOnDisk_cmp a b =
     (if d_method a \<noteq> d_method b then cmp (d_method a) (d_method b) else cmp (d_raw a) (d_raw b))"

definition wf_disk :: "CheckSumOnDisk \<Rightarrow> bool" where
  "wf_disk d \<longleftrightarrow> length (d_raw d) = 32 \<and> length (d_reserved d) = 7"

lemma wf_disk_of [simp]: "wf_disk (disk_of c) \<longleftrightarrow> wf_checksum c"
  by (simp add: wf_disk_def disk_of_def wf_checksum_def)

lemma checksum_of_disk_of [simp]: "checksum_of (disk_of c) = c"
  by (simp add: checksum_of_def disk_of_def)

lemma disk_of_inject [simp]: "disk_of a = disk_of b \<longleftrightarrow> a = b"
  by (metis checksum_of_disk_of)

lemma is_valid_disk_of [simp]: "is_valid (disk_of c) \<longleftrightarrow> cs_method c \<noteq> Unknown"
  by (cases "cs_method c") (simp_all add: is_valid_def disk_of_def u8_of_method_def)

lemma length_disk_encode [simp]: "wf_disk d \<Longrightarrow> length (disk_encode d) = 40"
  by (simp add: disk_encode_def wf_disk_def)

lemma disk_decode_encode: "wf_disk d \<Longrightarrow> disk_decode (disk_encode d) = Inr d"
  by (simp add: disk_decode_def disk_encode_def wf_disk_def slice_def nth_append)

lemma disk_encode_decode: "disk_decode bs = Inr d \<Longrightarrow> disk_encode d = bs \<and> wf_disk d"
proof -
  assume d: "disk_decode bs = Inr d"
  then have len: "length bs = 40"
    and d_eq: "d = \<lparr>d_raw = slice bs 0 32, d_method = bs ! 32, d_reserved = slice bs 33 40\<rparr>"
    by (auto simp: disk_decode_def split: if_splits)
  have "slice bs 0 32 @ [bs ! 32] @ slice bs 33 40 = bs"
    using len id_take_nth_drop [of 32 bs] by (simp add: slice_def)
  with len d_eq show ?thesis by (simp add: disk_encode_def wf_disk_def bytes_simps)
qed

lemma disk_encode_inject: "wf_disk a \<Longrightarrow> wf_disk b \<Longrightarrow> disk_encode a = disk_encode b \<longleftrightarrow> a = b"
  by (metis disk_decode_encode sum.inject(2))

text \<open>
  The on-disk form of a checksum decodes from its 40 bytes and converts back to the checksum, is
  accepted as valid exactly when its method is known, and compares as the checksums compare.
\<close>

theorem checksum_disk_roundtrip:
  assumes "wf_checksum a" "wf_checksum b"
  shows "length (disk_encode (disk_of a)) = 40 \<and>
    disk_decode (disk_encode (disk_of a)) = Inr (disk_of a) \<and>
    checksum_of (disk_of a) = a \<and>
    (is_valid (disk_of a) \<longleftrightarrow> cs_method a \<noteq> Unknown) \<and>
    CheckSumOnDisk_cmp (disk_of a) (disk_of b) = CheckSum_cmp a b"
proof -
  have "CheckSumOnDisk_cmp (disk_of a) (disk_of b) = CheckSum_cmp a b"
    by (auto simp: CheckSumOnDisk_cmp_def CheckSum_cmp_def disk_of_def cmp_def less_CheckSumMethod_def)
  with assms show ?thesis by (simp add: disk_decode_encode)
qed

theorem checksum_disk_roundtrip_witness:
  "disk_decode (disk_encode (disk_of CheckSum_empty)) = Inr (disk_of CheckSum_empty)"
  using checksum_disk_roundtrip [OF wf_checksum_empty wf_checksum_empty] by blast

subsection \<open>Access times and access-index keys\<close>

definition AccessTime_encode :: "nat \<Rightarrow> bytes" where
  "AccessTime_encode secs = be_bytes 8 secs"

definition AccessTime_decode :: "bytes \<Rightarrow> error + nat" where
  "AccessTime_decode bs =
     (if length bs \<noteq> 8 then Inl (Anyhow ''Invalid access time length'') else Inr (be_val bs))"

record AccessKey =
  last_access :: nat
  ak_cs :: CheckSumOnDisk

definition AccessKey_new :: "nat \<Rightarrow> CheckSumOnDisk \<Rightarrow> AccessKey" where
  "AccessKey_new t cs = \<lparr>last_access = t, ak_cs = cs\<rparr>"

definition AccessKey_cmp :: "AccessKey \<Rightarrow> AccessKey \<Rightarrow> ordering" where
  "AccessKey_cmp a b =
     (case cmp (last_access a) (last_access b) of
        Equal \<Rightarrow> CheckSumOnDisk_cmp (ak_cs a) (ak_cs b)
      | other \<Rightarrow> other)"

definition AccessKey_encode :: "AccessKey \<Rightarrow> bytes" where
  "AccessKey_encode k = be_bytes 8 (last_access k) @ disk_encode (ak_cs k)"

definition AccessKey_decode :: "bytes \<Rightarrow> error + AccessKey" where
  "AccessKey_decode bs =
     (if length bs \<noteq> 48 then Inl (Anyhow ''Invalid access key length'')
      else case disk_decode (slice bs 8 48) of
             Inl e \<Rightarrow> Inl e
           | Inr cs \<Rightarrow> Inr \<lparr>last_access = be_val (slice bs 0 8), ak_cs = cs\<rparr>)"

definition wf_key :: "AccessKey \<Rightarrow> bool" where
  "wf_key k \<longleftrightarrow> last_access k < 2 ^ 64 \<and> wf_disk (ak_cs k)"

lemma wf_key_new [simp]: "wf_key (AccessKey_new t cs) \<longleftrightarrow> t < 2 ^ 64 \<and> wf_disk cs"
  by (simp add: wf_key_def AccessKey_new_def)

lemma AccessKey_new_sel [simp]: "last_access (AccessKey_new t cs) = t" "ak_cs (AccessKey_new t cs) = cs"
  by (simp_all add: AccessKey_new_def)

lemma AccessKey_new_inject [simp]: "AccessKey_new t cs = AccessKey_new t' cs' \<longleftrightarrow> t = t' \<and> cs = cs'"
  by (simp add: AccessKey_new_def)

lemma AccessKey_new_eta [simp]: "AccessKey_new (last_access k) (ak_cs k) = k"
  by (simp add: AccessKey_new_def)

lemma AccessKey_encode_less:
  assumes "wf_key a" "wf_key b"
  shows "AccessKey_encode a < AccessKey_encode b \<longleftrightarrow>
    last_access a < last_access b \<or> last_access a = last_access b \<and> disk_encode (ak_cs a) < disk_encode (ak_cs b)"
  using assms by (simp add: AccessKey_encode_def lex_append_less be_bytes_less be_bytes_inj wf_key_def)

text \<open>
  C26: access times and access-index keys survive their encoding, and the byte order in which the
  store keeps the encoded keys is the order of the access times first, so a scan from the front
  meets the oldest accesses first.
\<close>

theorem access_key_codec:
  assumes "wf_key a" "wf_key b"
  shows "AccessTime_decode (AccessTime_encode (last_access a)) = Inr (last_access a) \<and>
    AccessKey_decode (AccessKey_encode a) = Inr a \<and>
    (last_access a < last_access b \<longrightarrow> AccessKey_encode a < AccessKey_encode b) \<and>
    (AccessKey_encode a \<le> AccessKey_encode b \<longrightarrow> last_access a \<le> last_access b)"
proof -
  have t: "last_access a < 256 ^ 8" using assms(1) by (simp add: wf_key_def)
  then have "AccessTime_decode (AccessTime_encode (last_access a)) = Inr (last_access a)"
    by (simp add: AccessTime_decode_def AccessTime_encode_def be_val_be_bytes)
  moreover have "AccessKey_decode (AccessKey_encode a) = Inr a"
    using assms(1) t
    by (simp add: AccessKey_decode_def AccessKey_encode_def wf_key_def slice_def disk_decode_encode be_val_be_bytes)
  ultimately show ?thesis
    using AccessKey_encode_less [OF assms] AccessKey_encode_less [OF assms(2,1)]
    by (simp add: linorder_not_less [symmetric])
qed

theorem access_key_codec_witness:
  "AccessKey_encode (AccessKey_new 5 (disk_of CheckSum_empty)) < AccessKey_encode (AccessKey_new 300 (disk_of CheckSum_empty))"
  using access_key_codec [of "AccessKey_new 5 (disk_of CheckSum_empty)" "AccessKey_new 300 (disk_of CheckSum_empty)"]
  by (simp add: wf_checksum_empty)

end
