(* ===== verification/Utils.thy ===== *)
theory Utils
  imports Prelude
begin

text \<open>
  \<open>src/utils/mod.rs\<close>: the generic \<open>align_up\<close>, the page size, and the lock-free log rate limiter.
  The limiter's \<open>should_log\<close> is split at its two atomic accesses, so that concurrent callers are
  interleavings of the two steps.
\<close>

subsection \<open>Alignment\<close>

text \<open>
  \<open>align_up::<T>\<close> for an unsigned \<open>T\<close> whose largest value is \<open>tmax\<close>; \<open>None\<close> is one of its two panics.
\<close>

definition align_up :: "nat \<Rightarrow> nat \<Rightarrow> nat \<Rightarrow> nat option" where
  "align_up tmax v align =
     (if align = 0 then None
      else let align_minus_one = align - 1 in
        if v + align_minus_one > tmax then None
        else let numerator = v + align_minus_one in Some (numerator div align * align))"

definition usize_max :: nat where
  "usize_max = 2 ^ 64 - 1"

lemma align_up_value:
  "align_up tmax v a = Some r \<Longrightarrow> r = (v + (a - 1)) div a * a \<and> 0 < a \<and> v + (a - 1) \<le> tmax"
  by (auto simp: align_up_def Let_def split: if_splits)

lemma ceil_div_bounds:
  assumes "0 < (a::nat)"
  shows "v \<le> (v + (a - 1)) div a * a" "(v + (a - 1)) div a * a < v + a"
proof -
  let ?q = "(v + (a - 1)) div a"
  have "?q * a + (v + (a - 1)) mod a = v + (a - 1)" by (rule div_mult_mod_eq)
  moreover have "(v + (a - 1)) mod a \<le> a - 1" using assms by (simp add: less_Suc_eq_le [symmetric])
  ultimately show "v \<le> ?q * a" "?q * a < v + a" using assms by linarith+
qed

lemma ceil_div_le:
  assumes "0 < (a::nat)" "v \<le> k * a"
  shows "(v + (a - 1)) div a \<le> k"
proof -
  have "(v + (a - 1)) div a \<le> (k * a + (a - 1)) div a" using assms(2) by (simp add: div_le_mono)
  also have "\<dots> = k + (a - 1) div a" using assms(1) by (intro div_mult_self3) simp
  also have "\<dots> = k" using assms(1) by simp
  finally show ?thesis .
qed

text \<open>
  \<open>align_up\<close> returns the least multiple of the alignment that is not below the value, and it
  panics exactly when the alignment is zero or the intermediate sum leaves the integer type.
\<close>

theorem align_up_least_multiple:
  assumes "v \<le> tmax"
  shows "(align_up tmax v a = None \<longleftrightarrow> a = 0 \<or> tmax < v + (a - 1)) \<and>
    (\<forall>r. align_up tmax v a = Some r \<longrightarrow>
       a dvd r \<and> v \<le> r \<and> r \<le> tmax \<and> (\<forall>m. a dvd m \<longrightarrow> v \<le> m \<longrightarrow> r \<le> m))"
proof (intro conjI allI impI)
  show "align_up tmax v a = None \<longleftrightarrow> a = 0 \<or> tmax < v + (a - 1)"
    by (auto simp: align_up_def Let_def)
next
  fix r
  assume r: "align_up tmax v a = Some r"
  note eq = align_up_value [OF r]
  from eq show "a dvd r" by simp
  from eq ceil_div_bounds [of a v] show "v \<le> r" by simp
  have "r \<le> v + (a - 1)" using eq by (metis div_times_less_eq_dividend)
  with eq show "r \<le> tmax" by linarith
  fix m
  assume "a dvd m" and m: "v \<le> m"
  then obtain k where "m = k * a" by (metis dvd_def mult.commute)
  with m eq ceil_div_le [of a v k] show "r \<le> m" by simp
qed

theorem align_up_least_multiple_witness:
  "align_up 255 9 8 = Some 16 \<and> align_up 255 250 8 = None"
  using align_up_least_multiple [of 9 255 8] align_up_least_multiple [of 250 255 8]
  by (simp add: align_up_def)

subsection \<open>The log rate limiter\<close>

record RateLimitedLog =
  last_epoch_secs :: nat
  interval_secs :: nat

definition RateLimitedLog_new :: "nat \<Rightarrow> RateLimitedLog" where
  "RateLimitedLog_new interval = \<lparr>last_epoch_secs = 0, interval_secs = interval\<rparr>"

text \<open>The compare-exchange on \<open>last_epoch_secs\<close>: the new state and whether it succeeded.\<close>

definition cas_last :: "RateLimitedLog \<Rightarrow> nat \<Rightarrow> nat \<Rightarrow> RateLimitedLog \<times> bool" where
  "cas_last l prev now =
     (if last_epoch_secs l = prev then (l\<lparr>last_epoch_secs := now\<rparr>, True) else (l, False))"

text \<open>
  \<open>should_log\<close> after its load returned \<open>prev\<close> at the clock reading \<open>now\<close>: the sum
  \<open>prev + interval\<close> wraps in a release build, and the exchange runs only when the interval is over.
\<close>

definition should_log_after_load :: "RateLimitedLog \<Rightarrow> nat \<Rightarrow> nat \<Rightarrow> RateLimitedLog \<times> bool" where
  "should_log_after_load l prev now =
     (if now \<ge> u64_add prev (interval_secs l) then cas_last l prev now else (l, False))"

definition should_log :: "RateLimitedLog \<Rightarrow> nat \<Rightarrow> RateLimitedLog \<times> bool" where
  "should_log l now = should_log_after_load l (last_epoch_secs l) now"

text \<open>
  Callers that run concurrently: each has loaded some \<open>prev\<close> and read the clock; their exchanges
  happen in the order of the list.  The result lists who logs.
\<close>

fun should_log_all :: "RateLimitedLog \<Rightarrow> (nat \<times> nat) list \<Rightarrow> RateLimitedLog \<times> bool list" where
  "should_log_all l [] = (l, [])"
| "should_log_all l ((prev, now) # cs) =
     (let (l', ok) = should_log_after_load l prev now; (l'', oks) = should_log_all l' cs
      in (l'', ok # oks))"

lemma should_log_interval [simp]: "interval_secs (fst (should_log_after_load l p n)) = interval_secs l"
  by (simp add: should_log_after_load_def cas_last_def)

lemma should_log_all_stale:
  assumes "last_epoch_secs l \<noteq> prev" "\<forall>c \<in> set cs. fst c = prev"
  shows "True \<notin> set (snd (should_log_all l cs))"
proof -
  have "should_log_after_load l prev now = (l, False)" for now
    using assms(1) by (simp add: should_log_after_load_def cas_last_def)
  with assms(2) show ?thesis by (induction cs) (auto simp: split_beta)
qed

text \<open>
  Of any number of concurrent callers that loaded the same timestamp, at most one logs, so a
  burst of slow operations yields one line per interval (the interval being positive and the clock
  not at its end).
\<close>

theorem concurrent_callers_log_once:
  assumes "0 < interval_secs l" "prev + interval_secs l < 2 ^ 64" "\<forall>c \<in> set cs. fst c = prev"
  shows "length (filter id (snd (should_log_all l cs))) \<le> 1"
  using assms
proof (induction cs arbitrary: l)
  case Nil
  then show ?case by simp
next
  case (Cons c cs)
  obtain now where c: "c = (prev, now)" using Cons.prems(3) by (cases c) auto
  obtain l' ok where step: "should_log_after_load l prev now = (l', ok)" by force
  have int: "interval_secs l' = interval_secs l" using should_log_interval [of l prev now] step by simp
  show ?case
  proof (cases ok)
    case True
    then have "last_epoch_secs l' = now" "prev < now"
      using step Cons.prems(1,2)
      by (auto simp: should_log_after_load_def cas_last_def u64_add_exact split: if_splits)
    then have "True \<notin> set (snd (should_log_all l' cs))"
      using Cons.prems(3) by (intro should_log_all_stale) auto
    then have "filter id (snd (should_log_all l' cs)) = []" by (auto simp: filter_empty_conv)
    then show ?thesis by (simp add: c step True split_beta del: id_apply)
  next
    case False
    then show ?thesis using Cons.IH [of l'] Cons.prems int by (simp add: c step split_beta)
  qed
qed

theorem concurrent_callers_log_once_witness:
  "length (filter id (snd (should_log_all (RateLimitedLog_new 30) [(0, 100), (0, 101), (0, 20)]))) \<le> 1
   \<and> snd (should_log_all (RateLimitedLog_new 30) [(0, 100), (0, 101), (0, 20)]) = [True, False, False]"
  using concurrent_callers_log_once [of "RateLimitedLog_new 30" 0 "[(0, 100), (0, 101), (0, 20)]"]
  by (simp add: RateLimitedLog_new_def should_log_after_load_def cas_last_def u64_add_def)

subsection \<open>The page size\<close>

text \<open>\<open>PAGE_SIZE\<close>: what \<open>sysconf\<close> answers (an argument), or 4096 when it fails.\<close>

definition page_size :: "int \<Rightarrow> nat" where
  "page_size sysconf = (if sysconf \<le> 0 then 4096 else nat sysconf)"

lemma page_size_pos: "0 < page_size s"
  by (simp add: page_size_def)

end
