(* ===== verification/ChunkDB.thy ===== *)
theory ChunkDB
  imports Store CheckSums Utils
begin

text \<open>
  \<open>src/backend/chunkdb.rs\<close>: the chunk database.  The store keeps three databases: chunk payloads by
  checksum, the last access time of each chunk, and an index of the access times.  All writes go
  through one writer thread, which takes requests from a queue; readers use their own transactions.

  The record \<open>chunkdb\<close> holds the committed contents of the store, the writer's queue, the calls made
  to the chunk-index control, and the replies sent.  \<open>L\<close> is the store (see \<open>Store\<close>); the clock is an
  argument.  Metrics and logging are not modelled.
\<close>

subsection \<open>Constants and types\<close>

definition GC_BATCH :: nat where "GC_BATCH = 128"
definition ACCESS_BATCH_SIZE :: nat where "ACCESS_BATCH_SIZE = 1024"
definition ADD_CHUNKS_BATCH_SIZE :: nat where "ADD_CHUNKS_BATCH_SIZE = 16"
definition ACCESS_UPDATE_MIN_INTERVAL_SECS :: nat where "ACCESS_UPDATE_MIN_INTERVAL_SECS = 60"

record 's chunk_env = "'s txns" +
  data_db :: "('s, CheckSumOnDisk, bytes) db"
  access_db :: "('s, CheckSumOnDisk, nat) db"
  access_index :: "('s, AccessKey, unit) db"

record GcDeleteResult =
  removed :: nat
  checksums :: "CheckSum list"

text \<open>A request carries the channel of its reply, a number here.\<close>

datatype WriteRequest =
    AddChunk CheckSum bytes nat
  | AddChunksBatch "(CheckSum \<times> bytes) list" nat
  | DeleteKeys "AccessKey list" nat

datatype Reply = AddReply "error + unit" | DeleteReply "error + GcDeleteResult"

datatype ctl_call = RegisterCall "CheckSum list" | UnregisterCall "CheckSum list"

record 's chunkdb =
  env :: 's
  index_ctl :: bool
  ctl_calls :: "ctl_call list"
  high :: "WriteRequest list"
  medium :: "WriteRequest list"
  access_pending :: "CheckSumOnDisk list"
  stop :: bool
  replies :: "(nat \<times> Reply) list"
  next_reply :: nat

definition chunkdb_new :: "'s \<Rightarrow> bool \<Rightarrow> 's chunkdb" where
  "chunkdb_new s ctl =
     \<lparr>env = s, index_ctl = ctl, ctl_calls = [], high = [], medium = [], access_pending = [], stop = False,
      replies = [], next_reply = 0\<rparr>"

subsection \<open>The queue\<close>

definition submit_high :: "WriteRequest \<Rightarrow> 's chunkdb \<Rightarrow> 's chunkdb" where
  "submit_high req q = q\<lparr>high := high q @ [req]\<rparr>"

definition submit_medium :: "WriteRequest \<Rightarrow> 's chunkdb \<Rightarrow> 's chunkdb" where
  "submit_medium req q = q\<lparr>medium := medium q @ [req]\<rparr>"

text \<open>\<open>access_pending\<close> is a hash set: a list without repetition here.\<close>

definition enqueue_access :: "CheckSumOnDisk \<Rightarrow> 's chunkdb \<Rightarrow> 's chunkdb" where
  "enqueue_access cs q =
     (if cs \<in> set (access_pending q) then q else q\<lparr>access_pending := access_pending q @ [cs]\<rparr>)"

definition enqueue_access_many :: "CheckSumOnDisk list \<Rightarrow> 's chunkdb \<Rightarrow> 's chunkdb" where
  "enqueue_access_many css q = fold enqueue_access css q"

text \<open>The calls to the optional chunk-index control; their results are ignored or only logged.\<close>

definition register_chunks :: "CheckSum list \<Rightarrow> 's chunkdb \<Rightarrow> 's chunkdb" where
  "register_chunks css q = (if index_ctl q then q\<lparr>ctl_calls := ctl_calls q @ [RegisterCall css]\<rparr> else q)"

definition unregister_chunks :: "CheckSum list \<Rightarrow> 's chunkdb \<Rightarrow> 's chunkdb" where
  "unregister_chunks css q = (if index_ctl q then q\<lparr>ctl_calls := ctl_calls q @ [UnregisterCall css]\<rparr> else q)"

definition send_reply :: "nat \<Rightarrow> Reply \<Rightarrow> 's chunkdb \<Rightarrow> 's chunkdb" where
  "send_reply i r q = q\<lparr>replies := replies q @ [(i, r)]\<rparr>"

subsection \<open>Deleting keys\<close>

text \<open>A failed delete inside a transaction is logged or ignored, and the transaction goes on.\<close>

definition try_delete :: "('s, 'k, 'v) db \<Rightarrow> 'k \<Rightarrow> 's \<Rightarrow> 's" where
  "try_delete D k t = (case db_delete D t k of Inl _ \<Rightarrow> t | Inr t' \<Rightarrow> t')"

definition delete_key :: "('s, 'm) chunk_env_scheme \<Rightarrow> AccessKey \<Rightarrow> 's \<Rightarrow> 's" where
  "delete_key L key t =
     (let t1 = try_delete (data_db L) (ak_cs key) t;
          t2 = try_delete (access_db L) (ak_cs key) t1
      in try_delete (access_index L) key t2)"

definition do_delete_keys ::
  "('s, 'm) chunk_env_scheme \<Rightarrow> AccessKey list \<Rightarrow> 's chunkdb \<Rightarrow> 's chunkdb \<times> (error + GcDeleteResult)" where
  "do_delete_keys L keys q =
     (if keys = [] then (q, Inr \<lparr>removed = 0, checksums = []\<rparr>)
      else case write_txn L (env q) of
        Inl e \<Rightarrow> (q, Inl e)
      | Inr t \<Rightarrow>
          (case commit L (fold (delete_key L) keys t) of
             Inl e \<Rightarrow> (q, Inl e)
           | Inr s \<Rightarrow> (q\<lparr>env := s\<rparr>, Inr \<lparr>removed = length keys, checksums = map (checksum_of \<circ> ak_cs) keys\<rparr>)))"

text \<open>The scan of \<open>gc_lru\<close>: a key is taken before the count is compared.\<close>

fun lru_targets :: "nat \<Rightarrow> AccessKey list \<Rightarrow> (AccessKey \<times> unit) list \<Rightarrow> AccessKey list" where
  "lru_targets max_delete targets [] = targets"
| "lru_targets max_delete targets ((key, _) # it) =
     (let targets' = targets @ [key] in
      if length targets' \<ge> max_delete then targets' else lru_targets max_delete targets' it)"

definition gc_lru_direct ::
  "('s, 'm) chunk_env_scheme \<Rightarrow> nat \<Rightarrow> 's chunkdb \<Rightarrow> 's chunkdb \<times> (error + nat)" where
  "gc_lru_direct L max_delete q =
     (case read_txn L (env q) of
        Inl e \<Rightarrow> (q, Inl e)
      | Inr r \<Rightarrow>
          (case db_iter (access_index L) r of
             Inl e \<Rightarrow> (q, Inl e)
           | Inr it \<Rightarrow>
               (let targets = lru_targets max_delete [] it in
                if targets = [] then (q, Inr 0)
                else case write_txn L (env q) of
                  Inl e \<Rightarrow> (q, Inl e)
                | Inr t \<Rightarrow>
                    (case commit L (fold (delete_key L) targets t) of
                       Inl e \<Rightarrow> (q, Inl e)
                     | Inr s \<Rightarrow>
                         (unregister_chunks (map (checksum_of \<circ> ak_cs) targets) (q\<lparr>env := s\<rparr>),
                          Inr (length targets))))))"

subsection \<open>Adding chunks\<close>

text \<open>
  Each addition retries after evicting a batch of the least recently used chunks while the store is
  full.  The loop has no bound of its own, so the functions are partial: \<open>None\<close> is a run that does
  not return.
\<close>

partial_function (option) do_add_chunk ::
  "('s, 'm) chunk_env_scheme \<Rightarrow> CheckSum \<Rightarrow> bytes \<Rightarrow> 's chunkdb \<Rightarrow> ('s chunkdb \<times> (error + unit)) option" where
  "do_add_chunk L cs data q =
     (case write_txn L (env q) of
        Inl e \<Rightarrow> Some (q, Inl e)
      | Inr t \<Rightarrow>
          (case db_get_or_put (data_db L) t (disk_of cs) data of
             Inr (t', _) \<Rightarrow>
               (case commit L t' of
                  Inl e \<Rightarrow> Some (q, Inl e)
                | Inr s \<Rightarrow> Some (enqueue_access (disk_of cs) (register_chunks [cs] (q\<lparr>env := s\<rparr>)), Inr ()))
           | Inl e \<Rightarrow>
               (if e = Mdb MapFull then
                  (case gc_lru_direct L GC_BATCH q of
                     (q', Inl e') \<Rightarrow> Some (q', Inl e')
                   | (q', Inr n) \<Rightarrow> if n = 0 then Some (q', Inl (Mdb MapFull)) else do_add_chunk L cs data q')
                else Some (q, Inl e))))"

fun put_all :: "('s, 'm) chunk_env_scheme \<Rightarrow> (CheckSum \<times> bytes) list \<Rightarrow> 's \<Rightarrow> error + 's" where
  "put_all L [] t = Inr t"
| "put_all L ((cs, data) # batch) t =
     (case db_get_or_put (data_db L) t (disk_of cs) data of
        Inr (t', _) \<Rightarrow> put_all L batch t'
      | Inl e \<Rightarrow> Inl e)"

partial_function (option) do_add_chunks_sub_batch ::
  "('s, 'm) chunk_env_scheme \<Rightarrow> (CheckSum \<times> bytes) list \<Rightarrow> 's chunkdb \<Rightarrow> ('s chunkdb \<times> (error + unit)) option" where
  "do_add_chunks_sub_batch L batch q =
     (case write_txn L (env q) of
        Inl e \<Rightarrow> Some (q, Inl e)
      | Inr t \<Rightarrow>
          (case put_all L batch t of
             Inr t' \<Rightarrow>
               (case commit L t' of
                  Inl e \<Rightarrow> Some (q, Inl e)
                | Inr s \<Rightarrow> Some (enqueue_access_many (map (disk_of \<circ> fst) batch)
                                  (register_chunks (map fst batch) (q\<lparr>env := s\<rparr>)), Inr ()))
           | Inl e \<Rightarrow>
               (if e = Mdb MapFull then
                  (case gc_lru_direct L GC_BATCH q of
                     (q', Inl e') \<Rightarrow> Some (q', Inl e')
                   | (q', Inr n) \<Rightarrow> if n = 0 then Some (q', Inl (Mdb MapFull))
                                   else do_add_chunks_sub_batch L batch q')
                else Some (q, Inl e))))"

text \<open>\<open>slice::chunks(n)\<close> for a positive \<open>n\<close>.\<close>

function chunks_of :: "nat \<Rightarrow> 'a list \<Rightarrow> 'a list list" where
  "chunks_of n xs = (if xs = [] \<or> n = 0 then [] else take n xs # chunks_of n (drop n xs))"
  by pat_completeness auto
termination
  by (relation "measure (\<lambda>(n, xs). length xs)") auto

declare chunks_of.simps [simp del]

fun add_sub_batches ::
  "('s, 'm) chunk_env_scheme \<Rightarrow> (CheckSum \<times> bytes) list list \<Rightarrow> 's chunkdb \<Rightarrow> ('s chunkdb \<times> (error + unit)) option" where
  "add_sub_batches L [] q = Some (q, Inr ())"
| "add_sub_batches L (batch # rest) q =
     (case do_add_chunks_sub_batch L batch q of
        None \<Rightarrow> None
      | Some (q', Inl e) \<Rightarrow> Some (q', Inl e)
      | Some (q', Inr _) \<Rightarrow> add_sub_batches L rest q')"

definition do_add_chunks_batch ::
  "('s, 'm) chunk_env_scheme \<Rightarrow> (CheckSum \<times> bytes) list \<Rightarrow> 's chunkdb \<Rightarrow> ('s chunkdb \<times> (error + unit)) option" where
  "do_add_chunks_batch L chunks q = add_sub_batches L (chunks_of ADD_CHUNKS_BATCH_SIZE chunks) q"

subsection \<open>Access updates\<close>

text \<open>
  The transaction's state is returned with the error, because the caller logs the error and keeps
  using the transaction.
\<close>

definition update_access ::
  "('s, 'm) chunk_env_scheme \<Rightarrow> CheckSumOnDisk \<Rightarrow> nat \<Rightarrow> 's \<Rightarrow> 's \<times> (error + unit)" where
  "update_access L cs now t =
     (let put_new = (\<lambda>t.
        case db_put (access_db L) t cs now of
          Inl e \<Rightarrow> (t, Inl e)
        | Inr t1 \<Rightarrow>
            (case db_put (access_index L) t1 (AccessKey_new now cs) () of
               Inl e \<Rightarrow> (t1, Inl e)
             | Inr t2 \<Rightarrow> (t2, Inr ())))
      in case db_get (access_db L) t cs of
           Inl e \<Rightarrow> (t, Inl e)
         | Inr None \<Rightarrow> put_new t
         | Inr (Some old) \<Rightarrow>
             (if now \<le> old \<or> now - old < ACCESS_UPDATE_MIN_INTERVAL_SECS then (t, Inr ())
              else case db_delete (access_index L) t (AccessKey_new old cs) of
                Inl e \<Rightarrow> (t, Inl e)
              | Inr t' \<Rightarrow> put_new t'))"

definition commit_access_batch ::
  "('s, 'm) chunk_env_scheme \<Rightarrow> nat \<Rightarrow> CheckSumOnDisk list \<Rightarrow> 's chunkdb \<Rightarrow> 's chunkdb" where
  "commit_access_batch L now batch q =
     (case write_txn L (env q) of
        Inl _ \<Rightarrow> q
      | Inr t \<Rightarrow>
          (case commit L (fold (\<lambda>cs t. fst (update_access L cs now t)) batch t) of
             Inl _ \<Rightarrow> q
           | Inr s \<Rightarrow> q\<lparr>env := s\<rparr>))"

text \<open>
  The loop over the remaining batches: before each one, the queue is looked at; when work of a
  higher priority has arrived, all remaining checksums are queued again.
\<close>

function access_rest ::
  "('s, 'm) chunk_env_scheme \<Rightarrow> nat \<Rightarrow> CheckSumOnDisk list \<Rightarrow> 's chunkdb \<Rightarrow> 's chunkdb" where
  "access_rest L now rest q =
     (if rest = [] then q
      else if high q \<noteq> [] \<or> medium q \<noteq> [] then enqueue_access_many rest q
      else access_rest L now (drop ACCESS_BATCH_SIZE rest)
             (commit_access_batch L now (take ACCESS_BATCH_SIZE rest) q))"
  by pat_completeness auto
termination
  by (relation "measure (\<lambda>(L, now, rest, q). length rest)") (auto simp: ACCESS_BATCH_SIZE_def)

declare access_rest.simps [simp del]

definition process_access_updates ::
  "('s, 'm) chunk_env_scheme \<Rightarrow> nat \<Rightarrow> CheckSumOnDisk list \<Rightarrow> 's chunkdb \<Rightarrow> 's chunkdb" where
  "process_access_updates L now css q =
     (if css = [] then q
      else access_rest L now (drop ACCESS_BATCH_SIZE css)
             (commit_access_batch L now (take ACCESS_BATCH_SIZE css) q))"

end
