(* ===== verification/ChunkApi.thy ===== *)
theory ChunkApi
  imports ChunkDB
begin

text \<open>
  \<open>src/backend/chunkdb.rs\<close>, continued: a round of the writer thread, and the operations of \<open>ChunkDB\<close>
  that other components call.  A caller that waits for the writer's reply is modelled by running one
  round of the writer between the submission and the receipt.
\<close>

subsection \<open>The writer thread\<close>

text \<open>
  A request of the wrong queue meets \<open>unreachable!\<close>, which ends the writer thread: the result is
  \<open>Inl Panic\<close>, and the remaining requests are dropped with their reply channels.
\<close>

fun process_high ::
  "('s, 'm) chunk_env_scheme \<Rightarrow> WriteRequest list \<Rightarrow> 's chunkdb \<Rightarrow> ('s chunkdb \<times> (error + unit)) option" where
  "process_high L [] q = Some (q, Inr ())"
| "process_high L (AddChunk cs data reply # reqs) q =
     (case do_add_chunk L cs data q of
        None \<Rightarrow> None
      | Some (q', r) \<Rightarrow> process_high L reqs (send_reply reply (AddReply r) q'))"
| "process_high L (AddChunksBatch chunks reply # reqs) q =
     (case do_add_chunks_batch L chunks q of
        None \<Rightarrow> None
      | Some (q', r) \<Rightarrow> process_high L reqs (send_reply reply (AddReply r) q'))"
| "process_high L (DeleteKeys keys reply # reqs) q = Some (q, Inl Panic)"

fun process_medium ::
  "('s, 'm) chunk_env_scheme \<Rightarrow> WriteRequest list \<Rightarrow> 's chunkdb \<Rightarrow> 's chunkdb \<times> (error + unit)" where
  "process_medium L [] q = (q, Inr ())"
| "process_medium L (DeleteKeys keys reply # reqs) q =
     (case do_delete_keys L keys q of
        (q', r) \<Rightarrow> process_medium L reqs (send_reply reply (DeleteReply r) q'))"
| "process_medium L (req # reqs) q = (q, Inl Panic)"

text \<open>One iteration of \<open>run\<close>; the result says whether the loop stops.\<close>

definition drain :: "'s chunkdb \<Rightarrow> 's chunkdb" where
  "drain q = q\<lparr>high := [], medium := [], access_pending := []\<rparr>"

definition writer_round ::
  "('s, 'm) chunk_env_scheme \<Rightarrow> nat \<Rightarrow> 's chunkdb \<Rightarrow> ('s chunkdb \<times> (error + bool)) option" where
  "writer_round L now q =
     (case process_high L (high q) (drain q) of
        None \<Rightarrow> None
      | Some (q1, Inl e) \<Rightarrow> Some (q1, Inl e)
      | Some (q1, Inr _) \<Rightarrow>
          (case process_medium L (medium q) q1 of
             (q2, Inl e) \<Rightarrow> Some (q2, Inl e)
           | (q2, Inr _) \<Rightarrow> Some (process_access_updates L now (access_pending q) q2, Inr (stop q))))"

subsection \<open>Requests that wait for the reply\<close>

definition wait_reply ::
  "('s, 'm) chunk_env_scheme \<Rightarrow> nat \<Rightarrow> nat \<Rightarrow> 's chunkdb \<Rightarrow> ('s chunkdb \<times> Reply option) option" where
  "wait_reply L now i q =
     (case writer_round L now q of
        None \<Rightarrow> None
      | Some (q', _) \<Rightarrow> Some (q', map_of (replies q') i))"

definition recv_add :: "Reply option \<Rightarrow> error + unit" where
  "recv_add r = (case r of Some (AddReply x) \<Rightarrow> x | _ \<Rightarrow> Inl (Anyhow ''Writer thread dropped''))"

definition recv_delete :: "Reply option \<Rightarrow> error + GcDeleteResult" where
  "recv_delete r = (case r of Some (DeleteReply x) \<Rightarrow> x | _ \<Rightarrow> Inl (Anyhow ''Writer thread dropped''))"

definition add_chunk ::
  "('s, 'm) chunk_env_scheme \<Rightarrow> nat \<Rightarrow> CheckSum \<Rightarrow> bytes \<Rightarrow> 's chunkdb \<Rightarrow> ('s chunkdb \<times> (error + unit)) option" where
  "add_chunk L now cs data q =
     map_option (map_prod id recv_add)
       (wait_reply L now (next_reply q)
         (submit_high (AddChunk cs data (next_reply q)) (q\<lparr>next_reply := Suc (next_reply q)\<rparr>)))"

definition add_chunks ::
  "('s, 'm) chunk_env_scheme \<Rightarrow> nat \<Rightarrow> (CheckSum \<times> bytes) list \<Rightarrow> 's chunkdb \<Rightarrow> ('s chunkdb \<times> (error + unit)) option" where
  "add_chunks L now chunks q =
     (if chunks = [] then Some (q, Inr ())
      else map_option (map_prod id recv_add)
        (wait_reply L now (next_reply q)
          (submit_high (AddChunksBatch chunks (next_reply q)) (q\<lparr>next_reply := Suc (next_reply q)\<rparr>))))"

definition delete_keys ::
  "('s, 'm) chunk_env_scheme \<Rightarrow> nat \<Rightarrow> AccessKey list \<Rightarrow> 's chunkdb \<Rightarrow> ('s chunkdb \<times> (error + GcDeleteResult)) option" where
  "delete_keys L now keys q =
     (if keys = [] then Some (q, Inr \<lparr>removed = 0, checksums = []\<rparr>)
      else map_option (map_prod id recv_delete)
        (wait_reply L now (next_reply q)
          (submit_medium (DeleteKeys keys (next_reply q)) (q\<lparr>next_reply := Suc (next_reply q)\<rparr>))))"

subsection \<open>Reading chunks\<close>

definition has_chunk :: "('s, 'm) chunk_env_scheme \<Rightarrow> CheckSum \<Rightarrow> 's chunkdb \<Rightarrow> error + bool" where
  "has_chunk L cs q =
     (case read_txn L (env q) of
        Inl e \<Rightarrow> Inl e
      | Inr r \<Rightarrow>
          (case db_get (data_db L) r (disk_of cs) of
             Inl e \<Rightarrow> Inl e
           | Inr x \<Rightarrow> Inr (x \<noteq> None)))"

text \<open>
  The callback \<open>f\<close> sees the stored bytes and may change the state \<open>w\<close> of the operation it belongs to;
  the access is recorded only when it succeeds.
\<close>

definition with_chunk ::
  "('s, 'm) chunk_env_scheme \<Rightarrow> CheckSum \<Rightarrow> ('w \<Rightarrow> bytes \<Rightarrow> 'w \<times> (error + 'a)) \<Rightarrow> 's chunkdb \<Rightarrow> 'w \<Rightarrow>
   's chunkdb \<times> 'w \<times> (error + 'a option)" where
  "with_chunk L cs f q w =
     (case read_txn L (env q) of
        Inl e \<Rightarrow> (q, w, Inl e)
      | Inr r \<Rightarrow>
          (case db_get (data_db L) r (disk_of cs) of
             Inl e \<Rightarrow> (q, w, Inl e)
           | Inr None \<Rightarrow> (q, w, Inr None)
           | Inr (Some chunk) \<Rightarrow>
               (case f w chunk of
                  (w', Inl e) \<Rightarrow> (q, w', Inl e)
                | (w', Inr v) \<Rightarrow> (enqueue_access (disk_of cs) q, w', Inr (Some v)))))"

definition with_chunk_range ::
  "('s, 'm) chunk_env_scheme \<Rightarrow> CheckSum \<Rightarrow> nat \<Rightarrow> nat \<Rightarrow> ('w \<Rightarrow> bytes \<Rightarrow> 'w \<times> (error + 'a)) \<Rightarrow>
   's chunkdb \<Rightarrow> 'w \<Rightarrow> 's chunkdb \<times> 'w \<times> (error + 'a option)" where
  "with_chunk_range L cs start len f q w =
     (case read_txn L (env q) of
        Inl e \<Rightarrow> (q, w, Inl e)
      | Inr r \<Rightarrow>
          (case db_get (data_db L) r (disk_of cs) of
             Inl e \<Rightarrow> (q, w, Inl e)
           | Inr None \<Rightarrow> (q, w, Inr None)
           | Inr (Some b) \<Rightarrow>
               (let hi = u64_add start len in
                if hi > length b then (q, w, Inl (Io InvalidData))
                else if start > hi then (q, w, Inl Panic)
                else case f w (slice b start hi) of
                  (w', Inl e) \<Rightarrow> (q, w', Inl e)
                | (w', Inr v) \<Rightarrow> (enqueue_access (disk_of cs) q, w', Inr (Some v)))))"

definition get_chunk ::
  "('s, 'm) chunk_env_scheme \<Rightarrow> CheckSum \<Rightarrow> 's chunkdb \<Rightarrow> 's chunkdb \<times> (error + bytes option)" where
  "get_chunk L cs q = (case with_chunk L cs (\<lambda>w d. (w, Inr d)) q () of (q', _, r) \<Rightarrow> (q', r))"

definition touch_chunk :: "CheckSum \<Rightarrow> 's chunkdb \<Rightarrow> 's chunkdb \<times> (error + unit)" where
  "touch_chunk cs q = (enqueue_access (disk_of cs) q, Inr ())"

subsection \<open>Listing chunks\<close>

fun valid_batch :: "nat \<Rightarrow> CheckSum list \<Rightarrow> (CheckSumOnDisk \<times> bytes) list \<Rightarrow> CheckSum list" where
  "valid_batch n batch [] = batch"
| "valid_batch n batch ((cs, _) # it) =
     (if is_valid cs then
        (let batch' = batch @ [checksum_of cs] in
         if length batch' \<ge> n then batch' else valid_batch n batch' it)
      else valid_batch n batch it)"

definition next_chunk_batch ::
  "('s, 'm) chunk_env_scheme \<Rightarrow> CheckSum option \<Rightarrow> nat \<Rightarrow> 's chunkdb \<Rightarrow> error + CheckSum list" where
  "next_chunk_batch L cursor batch_size q =
     (let n = max batch_size 1 in
      case read_txn L (env q) of
        Inl e \<Rightarrow> Inl e
      | Inr r \<Rightarrow>
          (case (case map_option disk_of cursor of
                   Some after \<Rightarrow> db_after (data_db L) r after
                 | None \<Rightarrow> db_iter (data_db L) r) of
             Inl e \<Rightarrow> Inl e
           | Inr it \<Rightarrow> Inr (valid_batch n [] it)))"

text \<open>
  The loop that reads all batches (\<open>list_all_chunks\<close>, and the snapshot of the peer's index
  maintenance with another batch size).
\<close>

partial_function (option) list_batches ::
  "('s, 'm) chunk_env_scheme \<Rightarrow> nat \<Rightarrow> CheckSum option \<Rightarrow> CheckSum list \<Rightarrow> 's chunkdb \<Rightarrow>
   (error + CheckSum list) option" where
  "list_batches L batch_size cursor acc q =
     (case next_chunk_batch L cursor batch_size q of
        Inl e \<Rightarrow> Some (Inl e)
      | Inr batch \<Rightarrow>
          if batch = [] then Some (Inr acc)
          else list_batches L batch_size (Some (last batch)) (acc @ batch) q)"

definition list_all_chunks :: "('s, 'm) chunk_env_scheme \<Rightarrow> 's chunkdb \<Rightarrow> (error + CheckSum list) option" where
  "list_all_chunks L q = list_batches L 1024 None [] q"

subsection \<open>Garbage collection\<close>

fun expired_keys :: "nat \<Rightarrow> (AccessKey \<times> unit) list \<Rightarrow> AccessKey list" where
  "expired_keys cutoff [] = []"
| "expired_keys cutoff ((key, _) # it) =
     (if last_access key \<ge> cutoff then [] else key # expired_keys cutoff it)"

text \<open>The deletion in batches; an error ends it and drops what was counted.\<close>

fun gc_batches ::
  "('s, 'm) chunk_env_scheme \<Rightarrow> nat \<Rightarrow> AccessKey list list \<Rightarrow> GcDeleteResult \<Rightarrow> 's chunkdb \<Rightarrow>
   ('s chunkdb \<times> (error + GcDeleteResult)) option" where
  "gc_batches L now [] tot q = Some (q, Inr tot)"
| "gc_batches L now (batch # batches) tot q =
     (case delete_keys L now batch q of
        None \<Rightarrow> None
      | Some (q', Inl e) \<Rightarrow> Some (q', Inl e)
      | Some (q', Inr r) \<Rightarrow>
          gc_batches L now batches
            \<lparr>removed = removed tot + removed r, checksums = checksums tot @ checksums r\<rparr> q')"

text \<open>\<open>now_epoch_secs().saturating_sub(timeout)\<close> is subtraction of natural numbers.\<close>

definition gc_expired ::
  "('s, 'm) chunk_env_scheme \<Rightarrow> nat \<Rightarrow> nat \<Rightarrow> 's chunkdb \<Rightarrow> ('s chunkdb \<times> (error + GcDeleteResult)) option" where
  "gc_expired L now timeout q =
     (let cutoff = now - timeout in
      case read_txn L (env q) of
        Inl e \<Rightarrow> Some (q, Inl e)
      | Inr r \<Rightarrow>
          (case db_iter (access_index L) r of
             Inl e \<Rightarrow> Some (q, Inl e)
           | Inr it \<Rightarrow>
               gc_batches L now (chunks_of GC_BATCH (expired_keys cutoff it)) \<lparr>removed = 0, checksums = []\<rparr> q))"

definition gc_lru ::
  "('s, 'm) chunk_env_scheme \<Rightarrow> nat \<Rightarrow> nat \<Rightarrow> 's chunkdb \<Rightarrow> ('s chunkdb \<times> (error + GcDeleteResult)) option" where
  "gc_lru L now max_delete q =
     (case read_txn L (env q) of
        Inl e \<Rightarrow> Some (q, Inl e)
      | Inr r \<Rightarrow>
          (case db_iter (access_index L) r of
             Inl e \<Rightarrow> Some (q, Inl e)
           | Inr it \<Rightarrow> delete_keys L now (lru_targets max_delete [] it) q))"

end
