(* ===== verification/ChunkSpec.thy ===== *)
theory ChunkSpec
  imports ChunkApi
begin

text \<open>
  What the chunk database promises, over the contents of the three databases: additions store the
  data and never change another payload, eviction removes the least recently used keys, the access
  table and the access index mirror each other, expiry removes exactly the old keys, listing in
  batches lists every chunk once.  \<open>V\<close> gives the contents of a store state.
\<close>

subsection \<open>The contents of the store\<close>

record 's views =
  v_data :: "'s \<Rightarrow> CheckSumOnDisk \<rightharpoonup> bytes"
  v_access :: "'s \<Rightarrow> CheckSumOnDisk \<rightharpoonup> nat"
  v_index :: "'s \<Rightarrow> AccessKey \<rightharpoonup> unit"

definition chunk_env_ok :: "('s, 'm) chunk_env_scheme \<Rightarrow> 's views \<Rightarrow> bool" where
  "chunk_env_ok L V \<longleftrightarrow>
     txn_ok L (\<lambda>s. (v_data V s, v_access V s, v_index V s)) \<and>
     db_ok disk_encode (v_data V) (data_db L) \<and> db_frame (data_db L) (\<lambda>s. (v_access V s, v_index V s)) \<and>
     db_ok disk_encode (v_access V) (access_db L) \<and> db_frame (access_db L) (\<lambda>s. (v_data V s, v_index V s)) \<and>
     db_ok AccessKey_encode (v_index V) (access_index L) \<and>
     db_frame (access_index L) (\<lambda>s. (v_data V s, v_access V s))"

definition deletes_ok :: "('s, 'm) chunk_env_scheme \<Rightarrow> bool" where
  "deletes_ok L \<longleftrightarrow>
     (\<forall>s k e. db_delete (data_db L) s k \<noteq> Inl e) \<and> (\<forall>s k e. db_delete (access_db L) s k \<noteq> Inl e) \<and>
     (\<forall>s k e. db_delete (access_index L) s k \<noteq> Inl e)"

definition puts_ok :: "('s, 'm) chunk_env_scheme \<Rightarrow> bool" where
  "puts_ok L \<longleftrightarrow>
     (\<forall>s k v e. db_put (access_db L) s k v \<noteq> Inl e) \<and> (\<forall>s k v e. db_put (access_index L) s k v \<noteq> Inl e)"

definition same_view :: "'s views \<Rightarrow> 's \<Rightarrow> 's \<Rightarrow> bool" where
  "same_view V s t \<longleftrightarrow> v_data V t = v_data V s \<and> v_access V t = v_access V s \<and> v_index V t = v_index V s"

lemma same_viewD:
  assumes "same_view V s t"
  shows "v_data V t = v_data V s" "v_access V t = v_access V s" "v_index V t = v_index V s"
  using assms by (simp_all add: same_view_def)

lemma env_okD:
  assumes "chunk_env_ok L V"
  shows "txn_ok L (\<lambda>s. (v_data V s, v_access V s, v_index V s))"
    and "db_ok disk_encode (v_data V) (data_db L)" and "db_frame (data_db L) (\<lambda>s. (v_access V s, v_index V s))"
    and "db_ok disk_encode (v_access V) (access_db L)" and "db_frame (access_db L) (\<lambda>s. (v_data V s, v_index V s))"
    and "db_ok AccessKey_encode (v_index V) (access_index L)"
    and "db_frame (access_index L) (\<lambda>s. (v_data V s, v_access V s))"
  using assms by (simp_all add: chunk_env_ok_def)

lemma env_txn:
  assumes "chunk_env_ok L V"
  shows "read_txn L s = Inr t \<Longrightarrow> same_view V s t" "write_txn L s = Inr t \<Longrightarrow> same_view V s t"
    "commit L s = Inr t \<Longrightarrow> same_view V s t"
  using txn_okD [OF env_okD(1) [OF assms]] by (auto simp: same_view_def)

lemma env_get_or_put:
  assumes "chunk_env_ok L V" "db_get_or_put (data_db L) s k x = Inr (t, old)"
  shows "v_data V t = (case v_data V s k of None \<Rightarrow> (v_data V s)(k \<mapsto> x) | Some _ \<Rightarrow> v_data V s)"
    and "v_access V t = v_access V s" and "v_index V t = v_index V s"
  using db_okD(4) [OF env_okD(2) [OF assms(1)] assms(2)] db_frameD(2) [OF env_okD(3) [OF assms(1)] assms(2)]
  by simp_all

lemma env_delete:
  assumes "chunk_env_ok L V"
  shows "db_delete (data_db L) s k = Inr t \<Longrightarrow>
           v_data V t = (v_data V s)(k := None) \<and> v_access V t = v_access V s \<and> v_index V t = v_index V s"
    and "db_delete (access_db L) s k = Inr t \<Longrightarrow>
           v_data V t = v_data V s \<and> v_access V t = (v_access V s)(k := None) \<and> v_index V t = v_index V s"
    and "db_delete (access_index L) s key = Inr t \<Longrightarrow>
           v_data V t = v_data V s \<and> v_access V t = v_access V s \<and> v_index V t = (v_index V s)(key := None)"
  using db_okD(5) [OF env_okD(2) [OF assms]] db_frameD(3) [OF env_okD(3) [OF assms]]
    db_okD(5) [OF env_okD(4) [OF assms]] db_frameD(3) [OF env_okD(5) [OF assms]]
    db_okD(5) [OF env_okD(6) [OF assms]] db_frameD(3) [OF env_okD(7) [OF assms]]
  by fastforce+

lemma env_put:
  assumes "chunk_env_ok L V"
  shows "db_put (access_db L) s k x = Inr t \<Longrightarrow>
           v_data V t = v_data V s \<and> v_access V t = (v_access V s)(k \<mapsto> x) \<and> v_index V t = v_index V s"
    and "db_put (access_index L) s key u = Inr t \<Longrightarrow>
           v_data V t = v_data V s \<and> v_access V t = v_access V s \<and> v_index V t = (v_index V s)(key \<mapsto> u)"
  using db_okD(2) [OF env_okD(4) [OF assms]] db_frameD(1) [OF env_okD(5) [OF assms]]
    db_okD(2) [OF env_okD(6) [OF assms]] db_frameD(1) [OF env_okD(7) [OF assms]]
  by fastforce+

subsection \<open>A bounded store in memory\<close>

text \<open>At most \<open>cap\<close> payloads fit; used by the witnesses.\<close>

record mem_chunks =
  m_data :: "(CheckSumOnDisk \<times> bytes) list"
  m_access :: "(CheckSumOnDisk \<times> nat) list"
  m_index :: "(AccessKey \<times> unit) list"

definition mem_chunk_env :: "nat \<Rightarrow> mem_chunks chunk_env" where
  "mem_chunk_env cap =
     \<lparr>read_txn = Inr, write_txn = Inr, commit = Inr,
      data_db = mem_db disk_encode (\<lambda>s. cap \<le> length (m_data s)) m_data (\<lambda>al. m_data_update (\<lambda>_. al)),
      access_db = mem_db disk_encode (\<lambda>_. False) m_access (\<lambda>al. m_access_update (\<lambda>_. al)),
      access_index = mem_db AccessKey_encode (\<lambda>_. False) m_index (\<lambda>al. m_index_update (\<lambda>_. al))\<rparr>"

definition mem_views :: "mem_chunks views" where
  "mem_views = \<lparr>v_data = (\<lambda>s. map_of (m_data s)), v_access = (\<lambda>s. map_of (m_access s)), v_index = (\<lambda>s. map_of (m_index s))\<rparr>"

lemma mem_chunk_env_ok: "chunk_env_ok (mem_chunk_env cap) mem_views"
  unfolding chunk_env_ok_def mem_chunk_env_def mem_views_def
  by (simp add: mem_db_ok mem_db_frame txn_ok_def)

lemma mem_deletes_ok: "deletes_ok (mem_chunk_env cap)"
  by (simp add: deletes_ok_def mem_chunk_env_def mem_db_def)

lemma mem_puts_ok: "puts_ok (mem_chunk_env cap)"
  by (simp add: puts_ok_def mem_chunk_env_def mem_db_def)

text \<open>Two chunks, the second used first.\<close>

definition demo_cs :: "byte \<Rightarrow> CheckSum" where
  "demo_cs b = \<lparr>cs_raw = replicate 32 b, cs_method = Blake3\<rparr>"

lemma wf_demo_cs [simp]: "wf_checksum (demo_cs b)"
  by (simp add: demo_cs_def wf_checksum_def)

definition demo_store :: mem_chunks where
  "demo_store =
     \<lparr>m_data = [(disk_of (demo_cs 1), [10]), (disk_of (demo_cs 2), [20])],
      m_access = [(disk_of (demo_cs 1), 700), (disk_of (demo_cs 2), 500)],
      m_index = [(AccessKey_new 700 (disk_of (demo_cs 1)), ()), (AccessKey_new 500 (disk_of (demo_cs 2)), ())]\<rparr>"

subsection \<open>Deleting keys\<close>

text \<open>Whatever fails, a deletion only removes; when no delete fails, it removes exactly the keys given.\<close>

lemma map_le_upd_None: "m' = m(k := None) \<Longrightarrow> m' \<subseteq>\<^sub>m m"
  by (auto simp: map_le_def)

lemma try_delete_le:
  assumes "chunk_env_ok L V"
  shows "v_data V (try_delete (data_db L) k s) \<subseteq>\<^sub>m v_data V s"
    and "v_access V (try_delete (data_db L) k s) = v_access V s"
    and "v_index V (try_delete (data_db L) k s) = v_index V s"
    and "v_data V (try_delete (access_db L) k s) = v_data V s"
    and "v_access V (try_delete (access_db L) k s) \<subseteq>\<^sub>m v_access V s"
    and "v_index V (try_delete (access_db L) k s) = v_index V s"
    and "v_data V (try_delete (access_index L) key s) = v_data V s"
    and "v_access V (try_delete (access_index L) key s) = v_access V s"
    and "v_index V (try_delete (access_index L) key s) \<subseteq>\<^sub>m v_index V s"
  using env_delete [OF assms] by (auto simp: try_delete_def map_le_upd_None split: sum.splits)

lemma delete_key_le:
  assumes "chunk_env_ok L V"
  shows "v_data V (delete_key L key s) \<subseteq>\<^sub>m v_data V s"
    and "v_access V (delete_key L key s) \<subseteq>\<^sub>m v_access V s"
    and "v_index V (delete_key L key s) \<subseteq>\<^sub>m v_index V s"
  using try_delete_le [OF assms] unfolding delete_key_def Let_def by - (metis)+

lemma delete_keys_le:
  assumes "chunk_env_ok L V"
  shows "v_data V (fold (delete_key L) keys s) \<subseteq>\<^sub>m v_data V s \<and>
    v_access V (fold (delete_key L) keys s) \<subseteq>\<^sub>m v_access V s \<and>
    v_index V (fold (delete_key L) keys s) \<subseteq>\<^sub>m v_index V s"
proof (induction keys arbitrary: s)
  case (Cons k keys)
  then show ?case using delete_key_le [OF assms] map_le_trans by (metis fold_simps(2))
qed simp

lemma try_delete_eq:
  assumes "chunk_env_ok L V" "deletes_ok L"
  shows "v_data V (try_delete (data_db L) k s) = (v_data V s)(k := None)"
    and "v_access V (try_delete (access_db L) k s) = (v_access V s)(k := None)"
    and "v_index V (try_delete (access_index L) key s) = (v_index V s)(key := None)"
  using env_delete [OF assms(1)] assms(2) by (auto simp: try_delete_def deletes_ok_def split: sum.splits)

lemma delete_key_eq:
  assumes "chunk_env_ok L V" "deletes_ok L"
  shows "v_data V (delete_key L key s) = (v_data V s)(ak_cs key := None)"
    and "v_access V (delete_key L key s) = (v_access V s)(ak_cs key := None)"
    and "v_index V (delete_key L key s) = (v_index V s)(key := None)"
  using try_delete_eq [OF assms] try_delete_le [OF assms(1)] by (simp_all add: delete_key_def Let_def)

lemma delete_keys_eq:
  assumes "chunk_env_ok L V" "deletes_ok L"
  shows "v_data V (fold (delete_key L) keys s) = v_data V s |` (- (ak_cs ` set keys)) \<and>
    v_access V (fold (delete_key L) keys s) = v_access V s |` (- (ak_cs ` set keys)) \<and>
    v_index V (fold (delete_key L) keys s) = v_index V s |` (- set keys)"
proof (induction keys arbitrary: s)
  case Nil
  then show ?case by simp
next
  case (Cons k keys)
  then show ?case by (auto simp: delete_key_eq [OF assms] restrict_map_def fun_eq_iff)
qed

subsection \<open>Eviction\<close>

lemma lru_targets_eq: "lru_targets n ts it = (if it = [] then ts else ts @ map fst (take (max 1 (n - length ts)) it))"
proof (induction n ts it rule: lru_targets.induct)
  case (2 n ts key u it)
  then show ?case
    by (cases it) (auto simp: Let_def take_Cons' max_def)
qed simp

lemma lru_targets_Nil: "lru_targets n [] it = map fst (take (max 1 n) it)"
  by (simp add: lru_targets_eq)

lemma unregister_chunks_env [simp]: "env (unregister_chunks css q) = env q"
  by (simp add: unregister_chunks_def)

lemma register_chunks_env [simp]: "env (register_chunks css q) = env q"
  by (simp add: register_chunks_def)

lemma enqueue_access_env [simp]: "env (enqueue_access cs q) = env q"
  by (simp add: enqueue_access_def)

lemma enqueue_access_many_env [simp]: "env (enqueue_access_many css q) = env q"
  unfolding enqueue_access_many_def by (induction css arbitrary: q) auto

lemma send_reply_env [simp]: "env (send_reply i r q) = env q"
  by (simp add: send_reply_def)


lemma same_view_refl [simp]: "same_view V s s"
  by (simp add: same_view_def)

lemma same_view_trans: "same_view V s t \<Longrightarrow> same_view V t u \<Longrightarrow> same_view V s u"
  by (simp add: same_view_def)

lemma env_iter_index: "chunk_env_ok L V \<Longrightarrow> db_iter (access_index L) s = Inr it \<Longrightarrow> listing AccessKey_encode (v_index V s) it"
  using db_okD(6) [OF env_okD(6)] .

lemma gc_lru_direct_error: "gc_lru_direct L n q = (q', Inl e) \<Longrightarrow> q' = q"
  by (auto simp: gc_lru_direct_def Let_def split: sum.splits if_splits)

lemma gc_lru_direct_spec:
  assumes ok: "chunk_env_ok L V" and run: "gc_lru_direct L n q = (q', Inr k)"
  obtains it t where "listing AccessKey_encode (v_index V (env q)) it"
    and "k = min (max 1 n) (length it)" and "same_view V (env q) t"
    and "same_view V (fold (delete_key L) (map fst (take (max 1 n) it)) t) (env q')"
proof -
  obtain r it where r: "read_txn L (env q) = Inr r" and it: "db_iter (access_index L) r = Inr it"
    using run by (auto simp: gc_lru_direct_def split: sum.splits)
  have l: "listing AccessKey_encode (v_index V (env q)) it"
    using env_iter_index [OF ok it] env_txn(1) [OF ok r] by (simp add: same_view_def)
  have k: "k = min (max 1 n) (length it)"
    using run r it by (auto simp: gc_lru_direct_def lru_targets_Nil Let_def min.commute split: sum.splits if_splits)
  show ?thesis
  proof (cases "it = []")
    case True
    with run r it have "q' = q" by (simp add: gc_lru_direct_def lru_targets_Nil)
    with True l k show ?thesis by (intro that [of it "env q"]) simp_all
  next
    case False
    with run r it obtain t s where t: "write_txn L (env q) = Inr t"
      and s: "commit L (fold (delete_key L) (map fst (take (max 1 n) it)) t) = Inr s" and "env q' = s"
      by (auto simp: gc_lru_direct_def lru_targets_Nil Let_def split: sum.splits)
    then show ?thesis using that [OF l k env_txn(2) [OF ok t]] env_txn(3) [OF ok s] by simp
  qed
qed

lemma gc_lru_direct_le:
  assumes "chunk_env_ok L V" "gc_lru_direct L n q = (q', r)"
  shows "v_data V (env q') \<subseteq>\<^sub>m v_data V (env q)" "v_access V (env q') \<subseteq>\<^sub>m v_access V (env q)"
    "v_index V (env q') \<subseteq>\<^sub>m v_index V (env q)"
proof -
  have "v_data V (env q') \<subseteq>\<^sub>m v_data V (env q) \<and> v_access V (env q') \<subseteq>\<^sub>m v_access V (env q) \<and>
    v_index V (env q') \<subseteq>\<^sub>m v_index V (env q)"
  proof (cases r)
    case (Inl e)
    with assms show ?thesis using gc_lru_direct_error by fastforce
  next
    case (Inr k)
    obtain it t where "listing AccessKey_encode (v_index V (env q)) it" "k = min (max 1 n) (length it)"
      "same_view V (env q) t" "same_view V (fold (delete_key L) (map fst (take (max 1 n) it)) t) (env q')"
      using gc_lru_direct_spec [OF assms(1) assms(2) [unfolded Inr]] .
    then show ?thesis
      using delete_keys_le [OF assms(1), of "map fst (take (max 1 n) it)" t] by (simp add: same_view_def)
  qed
  then show "v_data V (env q') \<subseteq>\<^sub>m v_data V (env q)" "v_access V (env q') \<subseteq>\<^sub>m v_access V (env q)"
    "v_index V (env q') \<subseteq>\<^sub>m v_index V (env q)" by simp_all
qed

text \<open>Every key of the index has a time in range and a checksum of the right length.\<close>

definition index_wf :: "'s views \<Rightarrow> 's \<Rightarrow> bool" where
  "index_wf V s \<longleftrightarrow> (\<forall>k \<in> dom (v_index V s). wf_key k)"

lemma listing_take_oldest:
  assumes "listing AccessKey_encode m it" "\<forall>k \<in> dom m. wf_key k"
    and "a \<in> set (map fst (take n it))" "b \<in> set (map fst (drop n it))"
  shows "last_access a \<le> last_access b"
proof -
  obtain i where i: "i < n" "i < length it" "fst (it ! i) = a"
    using assms(3) by (auto simp: in_set_conv_nth)
  obtain j where j: "n + j < length it" "fst (it ! (n + j)) = b"
    using assms(4) by (fastforce simp: in_set_conv_nth less_diff_conv add.commute)
  have "AccessKey_encode a \<le> AccessKey_encode b"
    using listing_sorted [OF assms(1), of i "n + j"] i j by simp
  moreover have "a \<in> dom m" "b \<in> dom m"
    using listing_dom [OF assms(1)] i j by (metis nth_mem image_eqI list.set_map)+
  ultimately show ?thesis
    using AccessKey_encode_less [of b a] assms(2) by (auto simp: linorder_not_less [symmetric])
qed

text \<open>
  C11: the eviction that makes room removes exactly the least recently used keys: as many as asked
  for, or all when there are fewer; their payloads, access times and index entries go, everything
  else stays, and no evicted key was used later than a key that stays.
\<close>

theorem lru_evicts_oldest:
  assumes ok: "chunk_env_ok L V" and del: "deletes_ok L" and wf: "index_wf V (env q)" and n: "1 \<le> n"
    and run: "gc_lru_direct L n q = (q', Inr k)"
  shows "\<exists>victims \<subseteq> dom (v_index V (env q)).
    card victims = k \<and> k = min n (card (dom (v_index V (env q)))) \<and>
    v_index V (env q') = v_index V (env q) |` (- victims) \<and>
    v_data V (env q') = v_data V (env q) |` (- (ak_cs ` victims)) \<and>
    v_access V (env q') = v_access V (env q) |` (- (ak_cs ` victims)) \<and>
    (\<forall>a \<in> victims. \<forall>b \<in> dom (v_index V (env q')). last_access a \<le> last_access b)"
proof -
  obtain it t where l: "listing AccessKey_encode (v_index V (env q)) it"
    and k: "k = min (max 1 n) (length it)" and t: "same_view V (env q) t"
    and q': "same_view V (fold (delete_key L) (map fst (take (max 1 n) it)) t) (env q')"
    using gc_lru_direct_spec [OF ok run] .
  define victims where "victims = set (map fst (take n it))"
  have views: "v_index V (env q') = v_index V (env q) |` (- victims)"
    "v_data V (env q') = v_data V (env q) |` (- (ak_cs ` victims))"
    "v_access V (env q') = v_access V (env q) |` (- (ak_cs ` victims))"
    using delete_keys_eq [OF ok del, of "map fst (take n it)" t] t q' n
    by (simp_all add: same_view_def victims_def max_absorb2)
  have dom_it: "dom (v_index V (env q)) = set (map fst it)" using listing_dom [OF l] .
  have sub: "victims \<subseteq> dom (v_index V (env q))"
    using set_take_subset [of n it] by (auto simp: dom_it victims_def)
  have "distinct (map fst (take n it))"
    using l by (simp add: listing_def flip: take_map)
  then have card: "card victims = min n (length it)"
    by (metis victims_def distinct_card length_map length_take min.commute)
  have "\<forall>a \<in> victims. \<forall>b \<in> dom (v_index V (env q')). last_access a \<le> last_access b"
  proof (intro ballI)
    fix a b
    assume a: "a \<in> victims" and b: "b \<in> dom (v_index V (env q'))"
    then have "b \<in> set (map fst it)" "b \<notin> victims" using dom_it by (auto simp: views restrict_map_def split: if_splits)
    then have "b \<in> set (map fst (drop n it))"
      by (metis Un_iff append_take_drop_id map_append set_append victims_def)
    with a show "last_access a \<le> last_access b"
      using listing_take_oldest [OF l] wf by (simp add: index_wf_def victims_def)
  qed
  with sub card views k n listing_card [OF l] show ?thesis
    by (intro exI [of _ victims]) (simp add: max_absorb2)
qed

lemma mem_txns_simps [simp]:
  "read_txn (mem_chunk_env cap) s = Inr s" "write_txn (mem_chunk_env cap) s = Inr s"
  "commit (mem_chunk_env cap) s = Inr s"
  "db_iter (access_index (mem_chunk_env cap)) s = Inr (mem_list AccessKey_encode (m_index s))"
  by (simp_all add: mem_chunk_env_def mem_db_def)

lemma mem_gc_lru_direct: "\<exists>q' k. gc_lru_direct (mem_chunk_env cap) n q = (q', Inr k)"
  by (cases "lru_targets n [] (mem_list AccessKey_encode (m_index (env q))) = []")
    (simp_all add: gc_lru_direct_def Let_def)

theorem lru_evicts_oldest_witness:
  "\<exists>q' k. gc_lru_direct (mem_chunk_env 2) 1 (chunkdb_new demo_store True) = (q', Inr k) \<and>
    (\<exists>victims \<subseteq> dom (v_index mem_views demo_store). card victims = k \<and>
      (\<forall>a \<in> victims. \<forall>b \<in> dom (v_index mem_views (env q')). last_access a \<le> last_access b))"
proof -
  have wf: "index_wf mem_views (env (chunkdb_new demo_store True))"
    by (auto simp: index_wf_def mem_views_def demo_store_def chunkdb_new_def split: if_splits)
  obtain q' k where run: "gc_lru_direct (mem_chunk_env 2) 1 (chunkdb_new demo_store True) = (q', Inr k)"
    using mem_gc_lru_direct by blast
  show ?thesis
    using lru_evicts_oldest [OF mem_chunk_env_ok mem_deletes_ok wf order_refl run] run
    by (auto simp: chunkdb_new_def)
qed

subsection \<open>Adding chunks\<close>

text \<open>The states an addition goes through while it makes room.\<close>

inductive evicted :: "('s, 'm) chunk_env_scheme \<Rightarrow> 's chunkdb \<Rightarrow> 's chunkdb \<Rightarrow> bool" for L where
  evicted_refl: "evicted L q q"
| evicted_step: "gc_lru_direct L GC_BATCH q = (q1, Inr n) \<Longrightarrow> n \<noteq> 0 \<Longrightarrow> evicted L q1 q2 \<Longrightarrow> evicted L q q2"

definition put_one :: "'k \<Rightarrow> 'v \<Rightarrow> ('k \<rightharpoonup> 'v) \<Rightarrow> 'k \<rightharpoonup> 'v" where
  "put_one k v m = (case m k of None \<Rightarrow> m(k \<mapsto> v) | Some _ \<Rightarrow> m)"

definition put_missing :: "(CheckSum \<times> bytes) list \<Rightarrow> (CheckSumOnDisk \<rightharpoonup> bytes) \<Rightarrow> CheckSumOnDisk \<rightharpoonup> bytes" where
  "put_missing batch m = fold (\<lambda>(cs, d). put_one (disk_of cs) d) batch m"

lemma put_one_apply: "put_one k v m k' = (if k' = k \<and> m k = None then Some v else m k')"
  by (auto simp: put_one_def split: option.split)

lemma put_one_old: "m k' = Some x \<Longrightarrow> put_one k v m k' = Some x"
  by (auto simp: put_one_apply)

lemma put_missing_simps [simp]:
  "put_missing [] m = m"
  "put_missing ((cs, d) # batch) m = put_missing batch (put_one (disk_of cs) d m)"
  by (simp_all add: put_missing_def)

lemma put_missing_old: "m k = Some x \<Longrightarrow> put_missing batch m k = Some x"
proof (induction batch arbitrary: m)
  case (Cons a batch)
  then show ?case by (cases a) (simp add: put_one_old)
qed simp

lemma put_missing_other: "k \<notin> disk_of ` fst ` set batch \<Longrightarrow> put_missing batch m k = m k"
proof (induction batch arbitrary: m)
  case (Cons a batch)
  then show ?case by (cases a) (auto simp: put_one_apply)
qed simp

lemma put_missing_new:
  assumes "put_missing batch m k = Some x" "m k = None"
  shows "\<exists>cs. k = disk_of cs \<and> (cs, x) \<in> set batch"
  using assms
proof (induction batch arbitrary: m)
  case (Cons a batch)
  obtain cs d where a: "a = (cs, d)" by fastforce
  show ?case
  proof (cases "k = disk_of cs")
    case True
    with Cons.prems have "put_one (disk_of cs) d m k = Some d" by (simp add: put_one_apply)
    then have "put_missing batch (put_one (disk_of cs) d m) k = Some d" by (rule put_missing_old)
    with Cons.prems True a show ?thesis by auto
  next
    case False
    with Cons.prems a have "put_missing batch (put_one (disk_of cs) d m) k = Some x" "put_one (disk_of cs) d m k = None"
      by (simp_all add: put_one_apply)
    then show ?thesis using Cons.IH by fastforce
  qed
qed simp

lemma put_missing_in: "(cs, d) \<in> set batch \<Longrightarrow> \<exists>x. put_missing batch m (disk_of cs) = Some x"
proof (induction batch arbitrary: m)
  case (Cons a batch)
  obtain cs' d' where a: "a = (cs', d')" by fastforce
  obtain x where "put_one (disk_of cs') d' m (disk_of cs') = Some x"
    by (cases "m (disk_of cs')") (auto simp: put_one_apply)
  then have "cs = cs' \<Longrightarrow> ?case" using put_missing_old a by fastforce
  with Cons a show ?case by auto
qed simp

lemma put_all_views:
  assumes ok: "chunk_env_ok L V" and put: "put_all L batch t = Inr t'"
  shows "v_data V t' = put_missing batch (v_data V t) \<and> v_access V t' = v_access V t \<and> v_index V t' = v_index V t"
  using put
proof (induction batch arbitrary: t)
  case (Cons a batch)
  obtain cs data where a: "a = (cs, data)" by fastforce
  with Cons.prems obtain t1 old where t1: "db_get_or_put (data_db L) t (disk_of cs) data = Inr (t1, old)"
    and rest: "put_all L batch t1 = Inr t'"
    by (auto split: sum.splits)
  show ?case
    using Cons.IH [OF rest] env_get_or_put [OF ok t1] a by (simp add: put_one_def)
qed simp

lemma sub_batch_result:
  assumes "do_add_chunks_sub_batch L batch q = Some res"
  shows "\<exists>q1. evicted L q q1 \<and>
    (case res of
       (q', Inl e) \<Rightarrow> q' = q1
     | (q', Inr _) \<Rightarrow> \<exists>t t' s. write_txn L (env q1) = Inr t \<and> put_all L batch t = Inr t' \<and> commit L t' = Inr s \<and>
         q' = enqueue_access_many (map (disk_of \<circ> fst) batch) (register_chunks (map fst batch) (q1\<lparr>env := s\<rparr>)))"
  using assms
proof (induction L batch q res rule: do_add_chunks_sub_batch.raw_induct [rotated, consumes 1])
  case (1 f L batch q res)
  show ?case
  proof (cases "\<exists>t. write_txn L (env q) = Inr t \<and> put_all L batch t = Inl (Mdb MapFull)")
    case full: True
    then obtain t where t: "write_txn L (env q) = Inr t" "put_all L batch t = Inl (Mdb MapFull)" by blast
    obtain q' r where g: "gc_lru_direct L GC_BATCH q = (q', r)" by fastforce
    show ?thesis
    proof (cases "\<exists>n. r = Inr n \<and> n \<noteq> 0")
      case True
      then obtain n where n: "r = Inr n" "n \<noteq> 0" by blast
      then have "f L batch q' = Some res" using 1(2) t g by simp
      from 1(1) [OF this] obtain q1 where "evicted L q' q1" and res: "case res of (q', Inl e) \<Rightarrow> q' = q1
        | (q', Inr _) \<Rightarrow> \<exists>t t' s. write_txn L (env q1) = Inr t \<and> put_all L batch t = Inr t' \<and> commit L t' = Inr s \<and>
         q' = enqueue_access_many (map (disk_of \<circ> fst) batch) (register_chunks (map fst batch) (q1\<lparr>env := s\<rparr>))" by blast
      moreover have "evicted L q q1" using evicted_step [OF g [unfolded n(1)] n(2)] \<open>evicted L q' q1\<close> .
      ultimately show ?thesis by blast
    next
      case False
      then have "q' = q"
        using g by (cases r) (auto simp: gc_lru_direct_def Let_def split: sum.splits if_splits)
      moreover have "\<exists>e. res = (q', Inl e)"
        using False 1(2) t g by (cases r) (auto split: if_splits)
      ultimately have "\<exists>e. res = (q', Inl e) \<and> q' = q" by blast
      then show ?thesis using evicted_refl by fastforce
    qed
  next
    case False
    with 1(2) show ?thesis
      by (intro exI [of _ q]) (auto simp: comp_def intro: evicted_refl split: sum.splits if_splits)
  qed
qed

lemma evicted_le:
  assumes ev: "evicted L q q'" and ok: "chunk_env_ok L V"
  shows "v_data V (env q') \<subseteq>\<^sub>m v_data V (env q) \<and> v_access V (env q') \<subseteq>\<^sub>m v_access V (env q) \<and>
    v_index V (env q') \<subseteq>\<^sub>m v_index V (env q)"
  using ev
proof (induction rule: evicted.induct)
  case (evicted_step q q1 n q2)
  then show ?case using gc_lru_direct_le [OF ok evicted_step(1)] by (blast intro: map_le_trans)
qed simp

lemma sub_batch_views:
  assumes ok: "chunk_env_ok L V" and run: "do_add_chunks_sub_batch L batch q = Some (q', r)"
  shows "\<exists>q1. evicted L q q1 \<and>
    v_data V (env q') = (if r = Inr () then put_missing batch (v_data V (env q1)) else v_data V (env q1)) \<and>
    v_access V (env q') = v_access V (env q1) \<and> v_index V (env q') = v_index V (env q1)"
proof -
  obtain q1 where ev: "evicted L q q1"
    and res: "case r of Inl e \<Rightarrow> q' = q1
      | Inr _ \<Rightarrow> \<exists>t t' s. write_txn L (env q1) = Inr t \<and> put_all L batch t = Inr t' \<and> commit L t' = Inr s \<and>
         q' = enqueue_access_many (map (disk_of \<circ> fst) batch) (register_chunks (map fst batch) (q1\<lparr>env := s\<rparr>))"
    using sub_batch_result [OF run] by (simp only: prod.case) blast
  show ?thesis
  proof (cases r)
    case (Inl e)
    with ev res show ?thesis by (intro exI [of _ q1]) simp
  next
    case (Inr u)
    with res obtain t t' s where t: "write_txn L (env q1) = Inr t" "put_all L batch t = Inr t'" "commit L t' = Inr s"
      and "env q' = s" by auto
    then show ?thesis
      using ev Inr env_txn(2) [OF ok t(1)] put_all_views [OF ok t(2)] env_txn(3) [OF ok t(3)]
      by (intro exI [of _ q1]) (simp add: same_view_def)
  qed
qed

text \<open>A single addition is a batch of one.\<close>

lemma do_add_chunk_le_batch:
  "do_add_chunk L cs data q = Some res \<Longrightarrow> do_add_chunks_sub_batch L [(cs, data)] q = Some res"
proof (induction L cs data q res rule: do_add_chunk.raw_induct [rotated, consumes 1])
  case (1 f L cs data q res)
  show ?case
    using 1(2)
    by (subst do_add_chunks_sub_batch.simps)
      (auto simp: enqueue_access_many_def split: sum.splits prod.splits if_splits intro: 1(1))
qed

lemma batch_le_do_add_chunk:
  "do_add_chunks_sub_batch L batch q = Some res \<Longrightarrow> batch = [(cs, data)] \<Longrightarrow> do_add_chunk L cs data q = Some res"
proof (induction L batch q res rule: do_add_chunks_sub_batch.raw_induct [rotated, consumes 1])
  case (1 f L batch q res)
  show ?case
    using 1(2,3)
    by (subst do_add_chunk.simps)
      (auto simp: enqueue_access_many_def split: sum.splits prod.splits if_splits intro: 1(1))
qed

lemma do_add_chunk_single: "do_add_chunk L cs data q = do_add_chunks_sub_batch L [(cs, data)] q"
  using do_add_chunk_le_batch batch_le_do_add_chunk by (metis not_Some_eq)

text \<open>
  C10: adding a batch of chunks that succeeds leaves every chunk of the batch stored: an existing
  payload is kept, a missing one becomes the data of the batch, the first entry winning.  No other
  payload is added or changed; the only other effect on the data is the eviction of payloads.
\<close>

theorem add_batch_stores:
  assumes ok: "chunk_env_ok L V" and run: "do_add_chunks_sub_batch L batch q = Some (q', Inr ())"
  shows "\<exists>m. m \<subseteq>\<^sub>m v_data V (env q) \<and> v_data V (env q') = put_missing batch m \<and>
    (\<forall>(cs, d) \<in> set batch. \<exists>x. v_data V (env q') (disk_of cs) = Some x \<and>
       (v_data V (env q) (disk_of cs) = Some x \<or> (cs, x) \<in> set batch)) \<and>
    (\<forall>k. k \<notin> disk_of ` fst ` set batch \<longrightarrow> v_data V (env q') k \<in> {None, v_data V (env q) k})"
proof -
  obtain q1 where ev: "evicted L q q1" and d: "v_data V (env q') = put_missing batch (v_data V (env q1))"
    using sub_batch_views [OF ok run] by auto
  have le: "v_data V (env q1) \<subseteq>\<^sub>m v_data V (env q)" using evicted_le [OF ev ok] by blast
  have "\<exists>x. v_data V (env q') (disk_of cs) = Some x \<and>
       (v_data V (env q) (disk_of cs) = Some x \<or> (cs, x) \<in> set batch)" if mem: "(cs, d') \<in> set batch" for cs d'
  proof -
    obtain x where x: "v_data V (env q') (disk_of cs) = Some x"
      using put_missing_in [OF mem] d by fastforce
    show ?thesis
    proof (cases "v_data V (env q1) (disk_of cs)")
      case None
      with x d show ?thesis using put_missing_new by fastforce
    next
      case (Some y)
      with x d have "y = x" using put_missing_old by fastforce
      with Some x le show ?thesis by (auto simp: map_le_def dom_def)
    qed
  qed
  moreover have "v_data V (env q') k \<in> {None, v_data V (env q) k}" if "k \<notin> disk_of ` fst ` set batch" for k
    using put_missing_other [OF that] d le by (cases "v_data V (env q1) k") (auto simp: map_le_def dom_def)
  ultimately show ?thesis using le d by (intro exI [of _ "v_data V (env q1)"]) auto
qed

lemma mem_put_missing:
  "k \<notin> fst ` set (m_data s) \<Longrightarrow> length (m_data s) < cap \<Longrightarrow>
   \<exists>s'. db_get_or_put (data_db (mem_chunk_env cap)) s k x = Inr (s', None) \<and> m_data s' = m_data s @ [(k, x)]"
proof -
  assume k: "k \<notin> fst ` set (m_data s)" and cap: "length (m_data s) < cap"
  have "AList.update k x al = al @ [(k, x)]" if "k \<notin> fst ` set al" for al :: "(CheckSumOnDisk \<times> bytes) list"
    using that by (induction al) auto
  moreover have "map_of (m_data s) k = None" using k by (simp add: map_of_eq_None_iff)
  ultimately show ?thesis using k cap by (simp add: mem_chunk_env_def mem_db_def)
qed

lemma demo_add_run:
  "env q = demo_store \<Longrightarrow>
   \<exists>q'. do_add_chunks_sub_batch (mem_chunk_env 5) [(demo_cs 3, [30])] q = Some (q', Inr ())"
proof -
  assume q: "env q = demo_store"
  have "disk_of (demo_cs 3) \<notin> fst ` set (m_data demo_store)"
    by (simp add: demo_store_def demo_cs_def)
  then obtain s' where "db_get_or_put (data_db (mem_chunk_env 5)) demo_store (disk_of (demo_cs 3)) [30] = Inr (s', None)"
    using mem_put_missing [of "disk_of (demo_cs 3)" demo_store 5 "[30]"] by (auto simp: demo_store_def)
  with q show ?thesis by (subst do_add_chunks_sub_batch.simps) simp
qed

lemma demo_cs_3_new: "v_data mem_views demo_store (disk_of (demo_cs 3)) = None"
  by (simp add: mem_views_def demo_store_def demo_cs_def)

theorem add_batch_stores_witness:
  "\<exists>q'. do_add_chunks_sub_batch (mem_chunk_env 5) [(demo_cs 3, [30])] (chunkdb_new demo_store True) = Some (q', Inr ()) \<and>
    v_data mem_views (env q') (disk_of (demo_cs 3)) = Some [30]"
proof -
  have e: "env (chunkdb_new demo_store True) = demo_store" by (simp add: chunkdb_new_def)
  obtain q' where run:
    "do_add_chunks_sub_batch (mem_chunk_env 5) [(demo_cs 3, [30])] (chunkdb_new demo_store True) = Some (q', Inr ())"
    using demo_add_run [OF e] by blast
  with add_batch_stores [OF mem_chunk_env_ok run] e demo_cs_3_new show ?thesis by auto
qed

subsection \<open>Termination\<close>

lemma gc_lru_direct_progress:
  assumes ok: "chunk_env_ok L V" and del: "deletes_ok L"
    and run: "gc_lru_direct L n q = (q', Inr k)" and k: "k \<noteq> 0"
  shows "card (dom (v_index V (env q'))) < card (dom (v_index V (env q)))"
proof -
  obtain it t where l: "listing AccessKey_encode (v_index V (env q)) it"
    and len: "k = min (max 1 n) (length it)" and t: "same_view V (env q) t"
    and q': "same_view V (fold (delete_key L) (map fst (take (max 1 n) it)) t) (env q')"
    using gc_lru_direct_spec [OF ok run] .
  have i: "v_index V (env q') = v_index V (env q) |` (- set (map fst (take (max 1 n) it)))"
    using delete_keys_eq [OF ok del, of "map fst (take (max 1 n) it)" t] t q' by (simp add: same_view_def)
  obtain a it' where it: "it = a # it'" using len k by (cases it) auto
  then have "fst a \<in> dom (v_index V (env q))" using listing_dom [OF l] by simp
  moreover have "fst a \<notin> dom (v_index V (env q'))" by (simp add: i it restrict_map_def take_Cons' max_def dom_def)
  moreover have "dom (v_index V (env q')) \<subseteq> dom (v_index V (env q))" by (auto simp: i)
  ultimately have "dom (v_index V (env q')) \<subset> dom (v_index V (env q))" by blast
  then show ?thesis using listing_finite [OF l] by (rule psubset_card_mono [rotated])
qed

lemma sub_batch_returns:
  assumes ok: "chunk_env_ok L V" and del: "deletes_ok L"
  shows "do_add_chunks_sub_batch L batch q \<noteq> None"
proof (induction "card (dom (v_index V (env q)))" arbitrary: q rule: less_induct)
  case less
  have "gc_lru_direct L GC_BATCH q = (q', Inr n) \<Longrightarrow> n \<noteq> 0 \<Longrightarrow> do_add_chunks_sub_batch L batch q' \<noteq> None" for q' n
    using less gc_lru_direct_progress [OF ok del] by blast
  then show ?case
    by (subst do_add_chunks_sub_batch.simps) (auto split: sum.splits prod.splits)
qed

lemma add_batches_returns:
  assumes "chunk_env_ok L V" "deletes_ok L"
  shows "do_add_chunk L cs data q \<noteq> None" "add_sub_batches L bs q \<noteq> None" "do_add_chunks_batch L chunks q \<noteq> None"
proof -
  show all: "add_sub_batches L bs q \<noteq> None" for bs q
  proof (induction bs arbitrary: q)
    case (Cons b bs)
    then show ?case using sub_batch_returns [OF assms, of b q] by (auto split: option.splits sum.splits)
  qed simp
  show "do_add_chunk L cs data q \<noteq> None" using sub_batch_returns [OF assms] by (simp only: do_add_chunk_single) simp
  show "do_add_chunks_batch L chunks q \<noteq> None" using all by (simp add: do_add_chunks_batch_def)
qed

lemma writer_round_total:
  assumes "chunk_env_ok L V" "deletes_ok L"
  shows "\<exists>q' r. writer_round L now q = Some (q', r)"
proof -
  have "\<exists>q' r. process_high L reqs q = Some (q', r)" for reqs q
  proof (induction reqs arbitrary: q)
    case (Cons req reqs)
    then show ?case
      using add_batches_returns(1,3) [OF assms] by (cases req) (auto split: option.split)
  qed simp
  then show ?thesis by (auto simp: writer_round_def split: option.splits sum.splits prod.splits)
qed

text \<open>
  When deletes of the store do not fail, a round of the writer thread returns, whatever the
  queue holds and however full the store is: each eviction shrinks the access index, so the retry
  loops of the additions end.
\<close>

theorem writer_round_returns:
  assumes "chunk_env_ok L V" "deletes_ok L"
  shows "\<exists>q' r. writer_round L now q = Some (q', r)"
  by (rule writer_round_total [OF assms])

theorem writer_round_returns_witness:
  "\<exists>q' r. writer_round (mem_chunk_env 2) 900 (submit_high (AddChunk (demo_cs 3) [30] 0) (chunkdb_new demo_store True)) = Some (q', r)"
  by (rule writer_round_returns [OF mem_chunk_env_ok mem_deletes_ok])

subsection \<open>Access updates\<close>

lemma update_access_cases:
  assumes ok: "chunk_env_ok L V" and del: "deletes_ok L" and put: "puts_ok L"
  shows "same_view V t (fst (update_access L cs now t)) \<or>
    v_data V (fst (update_access L cs now t)) = v_data V t \<and>
    v_access V (fst (update_access L cs now t)) = (v_access V t)(cs \<mapsto> now) \<and>
    v_index V (fst (update_access L cs now t)) =
      (case v_access V t cs of None \<Rightarrow> v_index V t | Some old \<Rightarrow> (v_index V t)(AccessKey_new old cs := None))
        (AccessKey_new now cs \<mapsto> ()) \<and>
    (\<forall>old. v_access V t cs = Some old \<longrightarrow> old + ACCESS_UPDATE_MIN_INTERVAL_SECS \<le> now)"
proof (cases "db_get (access_db L) t cs")
  case (Inl e)
  then show ?thesis by (simp add: update_access_def)
next
  case (Inr x)
  then have x: "x = v_access V t cs" using db_okD(1) [OF env_okD(4) [OF ok]] by blast
  have put_new: "\<exists>t1 t2. db_put (access_db L) u cs now = Inr t1 \<and> db_put (access_index L) t1 (AccessKey_new now cs) () = Inr t2 \<and>
    v_data V t2 = v_data V u \<and> v_access V t2 = (v_access V u)(cs \<mapsto> now) \<and>
    v_index V t2 = (v_index V u)(AccessKey_new now cs \<mapsto> ())" for u
  proof -
    obtain t1 where t1: "db_put (access_db L) u cs now = Inr t1"
      using put by (cases "db_put (access_db L) u cs now") (auto simp: puts_ok_def)
    obtain t2 where t2: "db_put (access_index L) t1 (AccessKey_new now cs) () = Inr t2"
      using put by (cases "db_put (access_index L) t1 (AccessKey_new now cs) ()") (auto simp: puts_ok_def)
    show ?thesis using t1 t2 env_put(1) [OF ok t1] env_put(2) [OF ok t2] by simp
  qed
  show ?thesis
  proof (cases x)
    case None
    with Inr x put_new [of t] show ?thesis by (auto simp: update_access_def)
  next
    case (Some old)
    show ?thesis
    proof (cases "now \<le> old \<or> now - old < ACCESS_UPDATE_MIN_INTERVAL_SECS")
      case True
      with Inr Some show ?thesis by (simp add: update_access_def)
    next
      case False
      obtain u where u: "db_delete (access_index L) t (AccessKey_new old cs) = Inr u"
        using del by (cases "db_delete (access_index L) t (AccessKey_new old cs)") (auto simp: deletes_ok_def)
      with False Inr Some x put_new [of u] env_delete(3) [OF ok u] show ?thesis
        by (auto simp: update_access_def)
    qed
  qed
qed

lemma update_access_data:
  assumes ok: "chunk_env_ok L V"
  shows "v_data V (fst (update_access L cs now t)) = v_data V t"
  using env_put [OF ok] env_delete(3) [OF ok] by (auto simp: update_access_def Let_def split: sum.split option.split)

lemma fold_update_access_data:
  assumes "chunk_env_ok L V"
  shows "v_data V (fold (\<lambda>cs t. fst (update_access L cs now t)) batch t) = v_data V t"
  by (induction batch arbitrary: t) (simp_all add: update_access_data [OF assms])

lemma commit_access_batch_data:
  assumes ok: "chunk_env_ok L V"
  shows "v_data V (env (commit_access_batch L now batch q)) = v_data V (env q)"
  using env_txn(2,3) [OF ok] fold_update_access_data [OF ok]
  by (auto simp: commit_access_batch_def same_view_def split: sum.split)

subsection \<open>Invariants of the writer\<close>

text \<open>
  The contract of an invariant \<open>P\<close> of the committed contents: additions of chunks that satisfy \<open>Q\<close>,
  deletions, and access updates of checksums that satisfy \<open>A\<close> keep it.  Then a whole round keeps it.
\<close>

fun request_chunks :: "WriteRequest \<Rightarrow> (CheckSum \<times> bytes) list" where
  "request_chunks (AddChunk cs data _) = [(cs, data)]"
| "request_chunks (AddChunksBatch chunks _) = chunks"
| "request_chunks (DeleteKeys _ _) = []"

lemma concat_chunks_of: "0 < n \<Longrightarrow> concat (chunks_of n xs) = xs"
proof (induction n xs rule: chunks_of.induct)
  case (1 n xs)
  then show ?case by (subst chunks_of.simps) auto
qed

lemma chunks_of_subset: "0 < n \<Longrightarrow> b \<in> set (chunks_of n xs) \<Longrightarrow> set b \<subseteq> set xs"
  using concat_chunks_of [of n xs] by (metis UN_upper set_concat)

locale writer_invariant =
  fixes L :: "('s, 'm) chunk_env_scheme" and P :: "'s \<Rightarrow> bool"
    and Q :: "CheckSum \<times> bytes \<Rightarrow> bool" and A :: "CheckSumOnDisk \<Rightarrow> bool"
  assumes add_batch: "P (env q) \<Longrightarrow> \<forall>x \<in> set batch. Q x \<Longrightarrow>
      do_add_chunks_sub_batch L batch q = Some (q', r) \<Longrightarrow> P (env q')"
    and delete: "P (env q) \<Longrightarrow> P (env (fst (do_delete_keys L keys q)))"
    and access_batch: "P (env q) \<Longrightarrow> \<forall>cs \<in> set css. A cs \<Longrightarrow> now < 2 ^ 64 \<Longrightarrow>
      P (env (commit_access_batch L now css q))"
begin

lemma add_sub_batches:
  "P (env q) \<Longrightarrow> \<forall>b \<in> set bs. \<forall>x \<in> set b. Q x \<Longrightarrow> add_sub_batches L bs q = Some (q', r) \<Longrightarrow> P (env q')"
proof (induction bs arbitrary: q)
  case (Cons b bs)
  from Cons.prems(3) obtain q1 r1 where run: "do_add_chunks_sub_batch L b q = Some (q1, r1)"
    by (auto split: option.splits)
  have "P (env q1)" using add_batch [OF Cons.prems(1) _ run] Cons.prems(2) by simp
  then show ?case
    using Cons.prems run Cons.IH [of q1] by (cases r1) auto
qed simp

lemma process_high:
  "P (env q) \<Longrightarrow> \<forall>req \<in> set reqs. \<forall>x \<in> set (request_chunks req). Q x \<Longrightarrow>
   process_high L reqs q = Some (q', r) \<Longrightarrow> P (env q')"
proof (induction reqs arbitrary: q)
  case (Cons req reqs)
  show ?case
  proof (cases req)
    case (AddChunk cs data reply)
    with Cons.prems obtain q1 r1 where add: "do_add_chunk L cs data q = Some (q1, r1)"
      and rest: "process_high L reqs (send_reply reply (AddReply r1) q1) = Some (q', r)"
      by (auto split: option.splits)
    have "P (env q1)" using add_batch Cons.prems AddChunk add by (fastforce simp: do_add_chunk_single)
    then show ?thesis using Cons.IH [OF _ _ rest] Cons.prems(2) by simp
  next
    case (AddChunksBatch chunks reply)
    with Cons.prems obtain q1 r1 where add: "do_add_chunks_batch L chunks q = Some (q1, r1)"
      and rest: "process_high L reqs (send_reply reply (AddReply r1) q1) = Some (q', r)"
      by (auto split: option.splits)
    have "\<forall>b \<in> set (chunks_of ADD_CHUNKS_BATCH_SIZE chunks). \<forall>x \<in> set b. Q x"
      using Cons.prems(2) AddChunksBatch chunks_of_subset [of ADD_CHUNKS_BATCH_SIZE] 
      by (fastforce simp: ADD_CHUNKS_BATCH_SIZE_def)
    then have "P (env q1)" using add_sub_batches Cons.prems(1) add by (simp add: do_add_chunks_batch_def)
    then show ?thesis using Cons.IH [OF _ _ rest] Cons.prems(2) by simp
  next
    case (DeleteKeys keys reply)
    with Cons.prems show ?thesis by simp
  qed
qed simp

lemma process_medium: "P (env q) \<Longrightarrow> process_medium L reqs q = (q', r) \<Longrightarrow> P (env q')"
proof (induction reqs arbitrary: q)
  case (Cons req reqs)
  show ?case
  proof (cases req)
    case (DeleteKeys keys reply)
    obtain q1 r1 where d: "do_delete_keys L keys q = (q1, r1)" by fastforce
    then have "P (env q1)" using delete [OF Cons.prems(1), of keys] by simp
    then show ?thesis using Cons.IH [of "send_reply reply (DeleteReply r1) q1"] Cons.prems(2) d DeleteKeys by simp
  qed (use Cons in auto)
qed simp

lemma access_rest:
  "P (env q) \<Longrightarrow> \<forall>cs \<in> set rest. A cs \<Longrightarrow> now < 2 ^ 64 \<Longrightarrow> P (env (access_rest L now rest q))"
proof (induction "length rest" arbitrary: rest q rule: less_induct)
  case less
  show ?case
  proof (cases "rest = [] \<or> high q \<noteq> [] \<or> medium q \<noteq> []")
    case True
    with less.prems show ?thesis by (subst access_rest.simps) auto
  next
    case False
    define q1 where "q1 = commit_access_batch L now (take ACCESS_BATCH_SIZE rest) q"
    have "length (drop ACCESS_BATCH_SIZE rest) < length rest" using False by (simp add: ACCESS_BATCH_SIZE_def)
    moreover have "P (env q1)"
      unfolding q1_def by (rule access_batch) (use less.prems in \<open>auto dest: in_set_takeD\<close>)
    moreover have "\<forall>cs \<in> set (drop ACCESS_BATCH_SIZE rest). A cs" using less.prems by (auto dest: in_set_dropD)
    ultimately have "P (env (access_rest L now (drop ACCESS_BATCH_SIZE rest) q1))" using less by blast
    then show ?thesis using False by (subst access_rest.simps) (simp add: q1_def)
  qed
qed

lemma process_access_updates:
  assumes "P (env q)" "\<forall>cs \<in> set css. A cs" "now < 2 ^ 64"
  shows "P (env (process_access_updates L now css q))"
proof -
  have "P (env (commit_access_batch L now (take ACCESS_BATCH_SIZE css) q))"
    by (rule access_batch) (use assms in \<open>auto dest: in_set_takeD\<close>)
  moreover have "\<forall>cs \<in> set (drop ACCESS_BATCH_SIZE css). A cs" using assms by (auto dest: in_set_dropD)
  ultimately show ?thesis using access_rest assms by (simp add: process_access_updates_def)
qed

lemma writer_round:
  assumes "P (env q)" "\<forall>req \<in> set (high q). \<forall>x \<in> set (request_chunks req). Q x"
    "\<forall>cs \<in> set (access_pending q). A cs" "now < 2 ^ 64" "writer_round L now q = Some (q', r)"
  shows "P (env q')"
proof -
  have d: "P (env (drain q))" using assms(1) by (simp add: drain_def)
  obtain q1 r1 where h: "process_high L (high q) (drain q) = Some (q1, r1)"
    using assms(5) by (auto simp: writer_round_def split: option.splits)
  then have p1: "P (env q1)" using process_high [OF d assms(2)] by blast
  obtain q2 r2 where m: "process_medium L (medium q) q1 = (q2, r2)" by fastforce
  then have p2: "P (env q2)" using process_medium [OF p1] by blast
  have "q' \<in> {q1, q2, process_access_updates L now (access_pending q) q2}"
    using assms(5) h m by (auto simp: writer_round_def split: sum.splits)
  then show ?thesis using p1 p2 process_access_updates [OF p2 assms(3,4)] by auto
qed

end

subsection \<open>Stored data matches its checksum\<close>

definition stored_ok :: "(CheckSum \<Rightarrow> bytes \<Rightarrow> bool) \<Rightarrow> 's views \<Rightarrow> 's \<Rightarrow> bool" where
  "stored_ok R V s \<longleftrightarrow> (\<forall>cs d. v_data V s (disk_of cs) = Some d \<longrightarrow> R cs d)"

definition chunk_matches :: "digests \<Rightarrow> CheckSum \<times> bytes \<Rightarrow> bool" where
  "chunk_matches H x \<longleftrightarrow> CheckSum_from_data H (snd x) (cs_method (fst x)) = fst x"

definition content_ok :: "digests \<Rightarrow> 's views \<Rightarrow> 's \<Rightarrow> bool" where
  "content_ok H V s \<longleftrightarrow> stored_ok (\<lambda>cs d. CheckSum_from_data H d (cs_method cs) = cs) V s"

lemma stored_ok_le: "stored_ok R V s \<Longrightarrow> v_data V t \<subseteq>\<^sub>m v_data V s \<Longrightarrow> stored_ok R V t"
  unfolding stored_ok_def by (metis (mono_tags, lifting) domI map_le_def)

lemma stored_ok_put:
  assumes "stored_ok R V s" "v_data V t = put_missing batch (v_data V s)" "\<forall>x \<in> set batch. R (fst x) (snd x)"
  shows "stored_ok R V t"
  unfolding stored_ok_def
proof (intro allI impI)
  fix cs d
  assume d: "v_data V t (disk_of cs) = Some d"
  show "R cs d"
  proof (cases "v_data V s (disk_of cs)")
    case None
    with d assms(2,3) show ?thesis using put_missing_new by fastforce
  next
    case (Some d')
    with d assms(1,2) show ?thesis using put_missing_old by (fastforce simp: stored_ok_def)
  qed
qed

lemma do_delete_keys_views:
  assumes ok: "chunk_env_ok L V"
  shows "\<exists>t. same_view V (env q) t \<and>
    (env (fst (do_delete_keys L keys q)) = env q \<or> same_view V (fold (delete_key L) keys t) (env (fst (do_delete_keys L keys q))))"
proof -
  have "env (fst (do_delete_keys L keys q)) = env q \<or> (\<exists>t s. write_txn L (env q) = Inr t \<and>
      commit L (fold (delete_key L) keys t) = Inr s \<and> env (fst (do_delete_keys L keys q)) = s)"
    by (auto simp: do_delete_keys_def split: sum.split)
  then show ?thesis
    using env_txn(2,3) [OF ok] same_view_refl by metis
qed

lemma do_delete_keys_le:
  assumes ok: "chunk_env_ok L V"
  shows "v_data V (env (fst (do_delete_keys L keys q))) \<subseteq>\<^sub>m v_data V (env q)"
proof -
  obtain t where t: "same_view V (env q) t"
    and "env (fst (do_delete_keys L keys q)) = env q \<or>
      same_view V (fold (delete_key L) keys t) (env (fst (do_delete_keys L keys q)))"
    using do_delete_keys_views [OF ok] by blast
  then have "v_data V (env (fst (do_delete_keys L keys q))) \<in> {v_data V (env q), v_data V (fold (delete_key L) keys t)}"
    by (auto simp: same_view_def)
  then show ?thesis using delete_keys_le [OF ok, of keys t] same_viewD(1) [OF t] by auto
qed

interpretation stored: writer_invariant L "\<lambda>s. chunk_env_ok L V \<and> stored_ok R V s" "\<lambda>x. R (fst x) (snd x)" "\<lambda>_. True"
  for L :: "('s, 'm) chunk_env_scheme" and V R
proof (unfold_locales, goal_cases)
  case (1 q batch q' r)
  then have ok: "chunk_env_ok L V" by simp
  obtain q1 where q1: "evicted L q q1"
    and d: "v_data V (env q') = (if r = Inr () then put_missing batch (v_data V (env q1)) else v_data V (env q1))"
    using sub_batch_views [OF ok 1(3)] by blast
  have c1: "stored_ok R V (env q1)"
    by (rule stored_ok_le [OF conjunct2 [OF 1(1)]]) (simp add: evicted_le [OF q1 ok])
  have "stored_ok R V (env q')"
  proof (cases "r = Inr ()")
    case True
    then show ?thesis using stored_ok_put [OF c1 _ 1(2)] d by simp
  next
    case False
    then show ?thesis using stored_ok_le [OF c1] d by simp
  qed
  with ok show ?case by simp
next
  case (2 q keys)
  then have ok: "chunk_env_ok L V" by simp
  have "v_data V (env (fst (do_delete_keys L keys q))) \<subseteq>\<^sub>m v_data V (env q)"
    by (rule do_delete_keys_le [OF ok])
  with 2 show ?case by (simp add: stored_ok_le [of R V "env q"])
next
  case (3 q css now)
  then show ?case using commit_access_batch_data [of L V now css q] by (simp add: stored_ok_def)
qed

text \<open>
  When every queued addition carries data that matches its checksum, a round of the writer
  keeps every stored payload matching the checksum it is stored under.
\<close>

theorem writer_round_content:
  assumes "chunk_env_ok L V" "content_ok H V (env q)"
    and "\<forall>req \<in> set (high q). \<forall>x \<in> set (request_chunks req). chunk_matches H x" "now < 2 ^ 64"
    and "writer_round L now q = Some (q', r)"
  shows "content_ok H V (env q')"
proof -
  have "chunk_env_ok L V \<and> stored_ok (\<lambda>cs d. CheckSum_from_data H d (cs_method cs) = cs) V (env q')"
    by (rule stored.writer_round [OF _ _ _ assms(4,5)]) (use assms(1-3) in \<open>simp_all add: content_ok_def chunk_matches_def\<close>)
  then show ?thesis by (simp add: content_ok_def)
qed

definition demo_digests :: digests where
  "demo_digests = \<lparr>sha256_digest = \<lambda>d. replicate 32 (hd (d @ [0])), blake3_digest = \<lambda>d. replicate 32 (hd (d @ [0]))\<rparr>"

theorem writer_round_content_witness:
  "\<exists>q' r. writer_round (mem_chunk_env 5) 900
      (submit_high (AddChunk (demo_cs 3) [3, 4] 0) (chunkdb_new \<lparr>m_data = [], m_access = [], m_index = []\<rparr> True)) = Some (q', r) \<and>
    content_ok demo_digests mem_views (env q')"
proof -
  let ?q = "submit_high (AddChunk (demo_cs 3) [3, 4] 0) (chunkdb_new \<lparr>m_data = [], m_access = [], m_index = []\<rparr> True)"
  obtain q' r where run: "writer_round (mem_chunk_env 5) 900 ?q = Some (q', r)"
    using writer_round_total [OF mem_chunk_env_ok mem_deletes_ok] by blast
  have "content_ok demo_digests mem_views (env ?q)"
    by (simp add: content_ok_def stored_ok_def mem_views_def submit_high_def chunkdb_new_def)
  moreover have "\<forall>req \<in> set (high ?q). \<forall>x \<in> set (request_chunks req). chunk_matches demo_digests x"
    by (simp add: submit_high_def chunkdb_new_def chunk_matches_def CheckSum_from_data_def demo_digests_def demo_cs_def)
  ultimately show ?thesis using writer_round_content [OF mem_chunk_env_ok _ _ _ run] run by simp
qed

subsection \<open>The access table and the access index\<close>

definition access_indexed :: "'s views \<Rightarrow> 's \<Rightarrow> bool" where
  "access_indexed V s \<longleftrightarrow> (\<forall>cs t. v_access V s cs = Some t \<longrightarrow> v_index V s (AccessKey_new t cs) = Some ())"

lemma access_indexed_restrict:
  assumes "access_indexed V s" "v_access V t = v_access V s |` (- (ak_cs ` K))" "v_index V t = v_index V s |` (- K)"
  shows "access_indexed V t"
  using assms by (force simp: access_indexed_def restrict_map_def split: if_splits)

lemma index_wf_restrict: "index_wf V s \<Longrightarrow> v_index V t \<subseteq>\<^sub>m v_index V s \<Longrightarrow> index_wf V t"
  using map_le_implies_dom_le by (fastforce simp: index_wf_def)

definition index_inv :: "'s views \<Rightarrow> 's \<Rightarrow> bool" where
  "index_inv V s \<longleftrightarrow> access_indexed V s \<and> index_wf V s"

lemma index_inv_same_view: "same_view V s t \<Longrightarrow> index_inv V t = index_inv V s"
  by (simp add: index_inv_def access_indexed_def index_wf_def same_view_def)

lemma delete_keys_index_inv:
  assumes ok: "chunk_env_ok L V" "deletes_ok L" and inv: "index_inv V s"
  shows "index_inv V (fold (delete_key L) keys s)"
proof -
  have "access_indexed V (fold (delete_key L) keys s)"
    by (rule access_indexed_restrict [of V s _ "set keys"])
      (use inv delete_keys_eq [OF ok, of keys s] in \<open>simp_all add: index_inv_def\<close>)
  moreover have "index_wf V (fold (delete_key L) keys s)"
    by (rule index_wf_restrict [of V s]) (use inv delete_keys_le [OF ok(1), of keys s] in \<open>simp_all add: index_inv_def\<close>)
  ultimately show ?thesis by (simp add: index_inv_def)
qed

lemma gc_lru_direct_index_inv:
  assumes ok: "chunk_env_ok L V" "deletes_ok L" and inv: "index_inv V (env q)"
    and run: "gc_lru_direct L n q = (q', r)"
  shows "index_inv V (env q')"
proof (cases r)
  case (Inl e)
  with run inv show ?thesis using gc_lru_direct_error by fastforce
next
  case (Inr k)
  obtain it t where "listing AccessKey_encode (v_index V (env q)) it" "k = min (max 1 n) (length it)"
    and t: "same_view V (env q) t" and q': "same_view V (fold (delete_key L) (map fst (take (max 1 n) it)) t) (env q')"
    using gc_lru_direct_spec [OF ok(1) run [unfolded Inr]] .
  have "index_inv V t" using inv t by (simp add: index_inv_same_view)
  then have "index_inv V (fold (delete_key L) (map fst (take (max 1 n) it)) t)" by (rule delete_keys_index_inv [OF ok])
  then show ?thesis using q' by (simp add: index_inv_same_view)
qed

lemma evicted_index_inv:
  assumes "evicted L q q'" "chunk_env_ok L V" "deletes_ok L" "index_inv V (env q)"
  shows "index_inv V (env q')"
  using assms by (induction rule: evicted.induct) (blast intro: gc_lru_direct_index_inv)+

lemma update_access_index_inv:
  assumes ok: "chunk_env_ok L V" "deletes_ok L" "puts_ok L" and inv: "index_inv V t" and wf: "wf_disk cs" "now < 2 ^ 64"
  shows "index_inv V (fst (update_access L cs now t))"
  using update_access_cases [OF ok, of t cs now]
proof
  assume "same_view V t (fst (update_access L cs now t))"
  then show ?thesis using inv by (simp add: index_inv_same_view)
next
  assume a: "v_data V (fst (update_access L cs now t)) = v_data V t \<and>
    v_access V (fst (update_access L cs now t)) = (v_access V t)(cs \<mapsto> now) \<and>
    v_index V (fst (update_access L cs now t)) =
      (case v_access V t cs of None \<Rightarrow> v_index V t | Some old \<Rightarrow> (v_index V t)(AccessKey_new old cs := None))
        (AccessKey_new now cs \<mapsto> ()) \<and>
    (\<forall>old. v_access V t cs = Some old \<longrightarrow> old + ACCESS_UPDATE_MIN_INTERVAL_SECS \<le> now)"
  then show ?thesis
    using inv wf by (auto simp: index_inv_def access_indexed_def index_wf_def split: option.splits if_splits)
qed

lemma commit_access_batch_index_inv:
  assumes ok: "chunk_env_ok L V" "deletes_ok L" "puts_ok L" and inv: "index_inv V (env q)"
    and wf: "\<forall>cs \<in> set batch. wf_disk cs" "now < 2 ^ 64"
  shows "index_inv V (env (commit_access_batch L now batch q))"
proof -
  have fold: "index_inv V t \<Longrightarrow> index_inv V (fold (\<lambda>cs t. fst (update_access L cs now t)) batch t)" for t
    using wf by (induction batch arbitrary: t) (simp_all add: update_access_index_inv [OF ok])
  have "commit_access_batch L now batch q = q \<or> (\<exists>t s. write_txn L (env q) = Inr t \<and>
      commit L (fold (\<lambda>cs t. fst (update_access L cs now t)) batch t) = Inr s \<and>
      env (commit_access_batch L now batch q) = s)"
    by (auto simp: commit_access_batch_def split: sum.split)
  then consider "commit_access_batch L now batch q = q"
    | t s where "write_txn L (env q) = Inr t" "commit L (fold (\<lambda>cs t. fst (update_access L cs now t)) batch t) = Inr s"
      "env (commit_access_batch L now batch q) = s" by blast
  then show ?thesis
  proof cases
    case (2 t s)
    have "index_inv V t" using env_txn(2) [OF ok(1) 2(1)] inv by (simp add: index_inv_same_view)
    then show ?thesis using fold env_txn(3) [OF ok(1) 2(2)] 2(3) by (simp add: index_inv_same_view)
  qed (simp add: inv)
qed

lemma do_delete_keys_index_inv:
  assumes ok: "chunk_env_ok L V" "deletes_ok L" and inv: "index_inv V (env q)"
  shows "index_inv V (env (fst (do_delete_keys L keys q)))"
proof -
  obtain t where t: "same_view V (env q) t"
    and "env (fst (do_delete_keys L keys q)) = env q \<or>
      same_view V (fold (delete_key L) keys t) (env (fst (do_delete_keys L keys q)))"
    using do_delete_keys_views [OF ok(1)] by blast
  moreover have "index_inv V (fold (delete_key L) keys t)"
    using delete_keys_index_inv [OF ok] inv t by (simp add: index_inv_same_view)
  ultimately show ?thesis using inv index_inv_same_view by metis
qed

interpretation index: writer_invariant L
  "\<lambda>s. chunk_env_ok L V \<and> deletes_ok L \<and> puts_ok L \<and> index_inv V s" "\<lambda>_. True" wf_disk
  for L :: "('s, 'm) chunk_env_scheme" and V
proof (unfold_locales, goal_cases)
  case (1 q batch q' r)
  then have ok: "chunk_env_ok L V" and del: "deletes_ok L" by simp_all
  obtain q1 where q1: "evicted L q q1"
    and a: "v_access V (env q') = v_access V (env q1)" "v_index V (env q') = v_index V (env q1)"
    using sub_batch_views [OF ok 1(3)] by blast
  have "index_inv V (env q1)" using evicted_index_inv [OF q1 ok del] 1(1) by blast
  then have "index_inv V (env q')" by (simp add: index_inv_def access_indexed_def index_wf_def a)
  with 1 show ?case by simp
next
  case (2 q keys)
  then show ?case using do_delete_keys_index_inv by blast
next
  case (3 q css now)
  then show ?case using commit_access_batch_index_inv by blast
qed

text \<open>
  A round of the writer keeps the access index complete: every chunk with a recorded access
  time has the index entry with this time, so eviction and expiry can find it.  The entries are
  well-formed, so the index order is the order of the access times.
\<close>

theorem writer_round_index:
  assumes "chunk_env_ok L V" "deletes_ok L" "puts_ok L" "access_indexed V (env q)" "index_wf V (env q)"
    and "\<forall>cs \<in> set (access_pending q). wf_disk cs" "now < 2 ^ 64"
    and "writer_round L now q = Some (q', r)"
  shows "access_indexed V (env q') \<and> index_wf V (env q')"
  using index.writer_round [OF _ _ assms(6,7,8), of V] assms(1-5) by (simp add: index_inv_def)

lemma demo_index: "access_indexed mem_views demo_store" "index_wf mem_views demo_store"
  by (auto simp: access_indexed_def index_wf_def mem_views_def demo_store_def split: if_splits)

theorem writer_round_index_witness:
  "\<exists>q' r. writer_round (mem_chunk_env 5) 900 ((chunkdb_new demo_store True)\<lparr>access_pending := [disk_of (demo_cs 1)]\<rparr>) = Some (q', r) \<and>
    access_indexed mem_views (env q')"
proof -
  let ?q = "(chunkdb_new demo_store True)\<lparr>access_pending := [disk_of (demo_cs 1)]\<rparr>"
  obtain q' r where run: "writer_round (mem_chunk_env 5) 900 ?q = Some (q', r)"
    using writer_round_total [OF mem_chunk_env_ok mem_deletes_ok] by blast
  then show ?thesis
    using writer_round_index [OF mem_chunk_env_ok mem_deletes_ok mem_puts_ok _ _ _ _ run] demo_index
    by (simp add: chunkdb_new_def)
qed

text \<open>When no operation of the store fails, the effect of an update is exact.\<close>

definition gets_ok :: "('s, 'm) chunk_env_scheme \<Rightarrow> bool" where
  "gets_ok L \<longleftrightarrow> (\<forall>s k e. db_get (access_db L) s k \<noteq> Inl e) \<and> (\<forall>s e. write_txn L s \<noteq> Inl e) \<and> (\<forall>s e. commit L s \<noteq> Inl e)"

definition refreshed :: "nat \<Rightarrow> CheckSumOnDisk \<Rightarrow> (CheckSumOnDisk \<rightharpoonup> nat) \<Rightarrow> CheckSumOnDisk \<rightharpoonup> nat" where
  "refreshed now cs m =
     (case m cs of
        None \<Rightarrow> m(cs \<mapsto> now)
      | Some old \<Rightarrow> if now < old + ACCESS_UPDATE_MIN_INTERVAL_SECS then m else m(cs \<mapsto> now))"

lemma update_access_access:
  assumes ok: "chunk_env_ok L V" and del: "deletes_ok L" and put: "puts_ok L" and get: "gets_ok L"
  shows "v_access V (fst (update_access L cs now t)) = refreshed now cs (v_access V t)"
proof -
  obtain x where x: "db_get (access_db L) t cs = Inr x" "x = v_access V t cs"
    using get db_okD(1) [OF env_okD(4) [OF ok]] by (cases "db_get (access_db L) t cs") (auto simp: gets_ok_def)
  show ?thesis
  proof (cases "\<exists>old. x = Some old \<and> now < old + ACCESS_UPDATE_MIN_INTERVAL_SECS")
    case True
    with x show ?thesis by (auto simp: update_access_def refreshed_def ACCESS_UPDATE_MIN_INTERVAL_SECS_def)
  next
    case False
    have "v_access V (fst (update_access L cs now t)) = (v_access V t)(cs \<mapsto> now)"
    proof -
      have "\<exists>t1 t2. db_put (access_db L) u cs now = Inr t1 \<and> db_put (access_index L) t1 (AccessKey_new now cs) () = Inr t2 \<and>
        v_access V t2 = (v_access V u)(cs \<mapsto> now)" for u
      proof -
        obtain t1 where t1: "db_put (access_db L) u cs now = Inr t1"
          using put by (cases "db_put (access_db L) u cs now") (auto simp: puts_ok_def)
        obtain t2 where t2: "db_put (access_index L) t1 (AccessKey_new now cs) () = Inr t2"
          using put by (cases "db_put (access_index L) t1 (AccessKey_new now cs) ()") (auto simp: puts_ok_def)
        show ?thesis using t1 t2 env_put(1) [OF ok t1] env_put(2) [OF ok t2] by simp
      qed
      note puts = this
      show ?thesis
      proof (cases x)
        case None
        with x puts [of t] show ?thesis by (auto simp: update_access_def)
      next
        case (Some old)
        obtain u where u: "db_delete (access_index L) t (AccessKey_new old cs) = Inr u"
          using del by (cases "db_delete (access_index L) t (AccessKey_new old cs)") (auto simp: deletes_ok_def)
        have "\<not> (now \<le> old \<or> now - old < ACCESS_UPDATE_MIN_INTERVAL_SECS)"
          using False Some by (simp add: ACCESS_UPDATE_MIN_INTERVAL_SECS_def)
        with Some x(1) u have "fst (update_access L cs now t) =
            fst (case db_put (access_db L) u cs now of
                   Inl e \<Rightarrow> (u, Inl e)
                 | Inr t1 \<Rightarrow> (case db_put (access_index L) t1 (AccessKey_new now cs) () of
                     Inl e \<Rightarrow> (t1, Inl e) | Inr t2 \<Rightarrow> (t2, Inr ())))"
          by (simp add: update_access_def)
        with puts [of u] env_delete(3) [OF ok u] show ?thesis by auto
      qed
    qed
    moreover have "refreshed now cs (v_access V t) = (v_access V t)(cs \<mapsto> now)"
      using False x(2) by (cases "v_access V t cs") (simp_all add: refreshed_def)
    ultimately show ?thesis by simp
  qed
qed

lemma refreshed_other: "k \<noteq> cs \<Longrightarrow> refreshed now cs m k = m k"
  by (auto simp: refreshed_def split: option.split)

lemma refreshed_cong: "m k = m' k \<Longrightarrow> refreshed now k m k = refreshed now k m' k"
  by (auto simp: refreshed_def split: option.split)

lemma refreshed_same:
  "refreshed now k m k = (if \<forall>old. m k = Some old \<longrightarrow> old + ACCESS_UPDATE_MIN_INTERVAL_SECS \<le> now then Some now else m k)"
  by (auto simp: refreshed_def split: option.split)

lemma refreshed_idem: "refreshed now cs (refreshed now cs m) = refreshed now cs m"
  by (auto simp: refreshed_def ACCESS_UPDATE_MIN_INTERVAL_SECS_def split: option.split)

lemma fold_refreshed:
  "fold (refreshed now) batch m k = (if k \<in> set batch then refreshed now k m k else m k)"
proof (induction batch arbitrary: m)
  case (Cons a batch)
  show ?case
  proof (cases "a = k")
    case True
    then show ?thesis using Cons by (simp add: refreshed_idem)
  next
    case False
    then have "refreshed now a m k = m k" by (simp add: refreshed_other)
    then show ?thesis using Cons False refreshed_cong [of "refreshed now a m" k m now] by simp
  qed
qed simp

text \<open>
  A batch of access updates at time \<open>now\<close>, when the store does not fail, leaves every chunk of the
  batch with an access time less than 60 seconds before \<open>now\<close>: a chunk accessed less than 60
  seconds before keeps its time, the others get \<open>now\<close>.  No other chunk's time and no payload
  changes.
\<close>

theorem access_batch_refreshes:
  assumes ok: "chunk_env_ok L V" and "deletes_ok L" "puts_ok L" "gets_ok L"
  shows "(\<forall>cs. v_access V (env (commit_access_batch L now batch q)) cs =
       (if cs \<in> set batch \<and> (\<forall>old. v_access V (env q) cs = Some old \<longrightarrow> old + ACCESS_UPDATE_MIN_INTERVAL_SECS \<le> now)
        then Some now else v_access V (env q) cs)) \<and>
    v_data V (env (commit_access_batch L now batch q)) = v_data V (env q)"
proof -
  obtain t where t: "write_txn L (env q) = Inr t"
    using assms(4) by (cases "write_txn L (env q)") (auto simp: gets_ok_def)
  obtain s where s: "commit L (fold (\<lambda>cs t. fst (update_access L cs now t)) batch t) = Inr s"
    using assms(4) by (cases "commit L (fold (\<lambda>cs t. fst (update_access L cs now t)) batch t)") (auto simp: gets_ok_def)
  have "v_access V (fold (\<lambda>cs t. fst (update_access L cs now t)) batch u) = fold (refreshed now) batch (v_access V u)" for u
    by (induction batch arbitrary: u) (simp_all add: update_access_access [OF assms])
  then have "v_access V (env (commit_access_batch L now batch q)) = fold (refreshed now) batch (v_access V (env q))"
    using t s env_txn(2) [OF ok t] env_txn(3) [OF ok s] by (simp add: commit_access_batch_def same_view_def)
  then show ?thesis
    using commit_access_batch_data [OF ok, of now batch q]
    by (auto simp: fold_refreshed refreshed_same)
qed

theorem access_batch_refreshes_witness:
  "v_access mem_views (env (commit_access_batch (mem_chunk_env 5) 730 [disk_of (demo_cs 1), disk_of (demo_cs 2)]
     (chunkdb_new demo_store True))) (disk_of (demo_cs 1)) = Some 700 \<and>
   v_access mem_views (env (commit_access_batch (mem_chunk_env 5) 730 [disk_of (demo_cs 1), disk_of (demo_cs 2)]
     (chunkdb_new demo_store True))) (disk_of (demo_cs 2)) = Some 730"
proof -
  have g: "gets_ok (mem_chunk_env 5)" by (simp add: gets_ok_def mem_chunk_env_def mem_db_def)
  have "demo_cs 1 \<noteq> demo_cs 2" by (simp add: demo_cs_def)
  then show ?thesis
    using access_batch_refreshes [OF mem_chunk_env_ok mem_deletes_ok mem_puts_ok g,
        of 730 "[disk_of (demo_cs 1), disk_of (demo_cs 2)]" "chunkdb_new demo_store True"]
    by (simp add: chunkdb_new_def demo_store_def mem_views_def ACCESS_UPDATE_MIN_INTERVAL_SECS_def)
qed

subsection \<open>Reading what was added\<close>

lemma with_chunk_result:
  assumes ok: "chunk_env_ok L V" and run: "with_chunk L cs f q w = (q', w', r)"
  shows "env q' = env q \<and> high q' = high q \<and>
    ((w' = w \<and> (\<exists>e. r = Inl e)) \<or> (w' = w \<and> r = Inr None \<and> v_data V (env q) (disk_of cs) = None) \<or>
     (\<exists>d x. v_data V (env q) (disk_of cs) = Some d \<and> f w d = (w', x) \<and> r = (case x of Inl e \<Rightarrow> Inl e | Inr y \<Rightarrow> Inr (Some y))))"
proof -
  have h: "high (enqueue_access (disk_of cs) q) = high q" by (simp add: enqueue_access_def)
  have "x = v_data V (env q) (disk_of cs)" if "read_txn L (env q) = Inr s" "db_get (data_db L) s (disk_of cs) = Inr x" for s x
    using db_okD(1) [OF env_okD(2) [OF ok] that(2)] env_txn(1) [OF ok that(1)] by (simp add: same_view_def)
  then show ?thesis
    using run h unfolding with_chunk_def
    by (cases "read_txn L (env q)") (auto split: sum.splits option.splits prod.splits)
qed

lemma get_chunk_result:
  assumes "chunk_env_ok L V" "snd (get_chunk L cs q) = Inr r"
  shows "r = v_data V (env q) (disk_of cs)"
proof -
  obtain q' w' x where run: "with_chunk L cs (\<lambda>w d. (w, Inr d)) q () = (q', w', x)" by (metis prod_cases3)
  then have "x = Inr r" using assms(2) by (simp add: get_chunk_def)
  then show ?thesis using with_chunk_result [OF assms(1) run] by auto
qed

lemma process_access_updates_data:
  assumes ok: "chunk_env_ok L V"
  shows "v_data V (env (process_access_updates L now css q)) = v_data V (env q)"
proof -
  have rest: "v_data V (env (access_rest L now rest q)) = v_data V (env q)" for rest q
  proof (induction "length rest" arbitrary: rest q rule: less_induct)
    case less
    show ?case
    proof (cases "rest = []")
      case False
      then have "length (drop ACCESS_BATCH_SIZE rest) < length rest" by (simp add: ACCESS_BATCH_SIZE_def)
      from less [OF this] show ?thesis
        by (subst access_rest.simps) (simp add: commit_access_batch_data [OF ok])
    qed (simp add: access_rest.simps)
  qed
  show ?thesis by (simp add: process_access_updates_def rest commit_access_batch_data [OF ok])
qed

lemma send_reply_replies [simp]: "replies (send_reply i r q) = replies q @ [(i, r)]"
  by (simp add: send_reply_def)

text \<open>
  What the writer's operations on the store leave alone: the replies, the request queues, and what the
  callers and \<open>Drop\<close> set.
\<close>

definition client_view ::
  "'s chunkdb \<Rightarrow> (nat \<times> Reply) list \<times> WriteRequest list \<times> WriteRequest list \<times> nat \<times> bool" where
  "client_view q = (replies q, high q, medium q, next_reply q, stop q)"

lemma client_view_frame [simp]:
  "client_view (register_chunks css q) = client_view q" "client_view (unregister_chunks css q) = client_view q"
  "client_view (enqueue_access cs q) = client_view q" "client_view (q\<lparr>env := s\<rparr>) = client_view q"
  by (simp_all add: register_chunks_def unregister_chunks_def enqueue_access_def client_view_def)

lemma client_view_enqueue_many [simp]: "client_view (enqueue_access_many css q) = client_view q"
  unfolding enqueue_access_many_def by (induction css arbitrary: q) auto

lemma client_view_gc [simp]: "gc_lru_direct L n q = (q', r) \<Longrightarrow> client_view q' = client_view q"
  by (auto simp: gc_lru_direct_def Let_def split: sum.splits if_splits)

lemma client_view_commit_access [simp]: "client_view (commit_access_batch L now batch q) = client_view q"
  by (simp add: commit_access_batch_def split: sum.split)

lemma client_view_access_rest [simp]: "client_view (access_rest L now rest q) = client_view q"
proof (induction "length rest" arbitrary: rest q rule: less_induct)
  case less
  show ?case
  proof (cases "rest = []")
    case False
    then have "length (drop ACCESS_BATCH_SIZE rest) < length rest" by (simp add: ACCESS_BATCH_SIZE_def)
    from less [OF this] show ?thesis by (subst access_rest.simps) simp
  qed (simp add: access_rest.simps)
qed

lemma client_view_access_updates [simp]: "client_view (process_access_updates L now css q) = client_view q"
  by (simp add: process_access_updates_def)

lemma replies_access_updates [simp]: "replies (process_access_updates L now css q) = replies q"
  using client_view_access_updates [of L now css q] by (simp add: client_view_def)

lemma client_view_evicted: "evicted L q q' \<Longrightarrow> client_view q' = client_view q"
  by (induction rule: evicted.induct) auto

lemma client_view_sub_batch:
  assumes "do_add_chunks_sub_batch L batch q = Some (q', r)"
  shows "client_view q' = client_view q"
  using sub_batch_result [OF assms] client_view_evicted by (cases r) fastforce+

lemma replies_sub_batch: "do_add_chunks_sub_batch L batch q = Some (q', r) \<Longrightarrow> replies q' = replies q"
  using client_view_sub_batch [of L batch q q' r] by (simp add: client_view_def)

text \<open>A round that starts with an empty queue ends with one: only clients add requests.\<close>

lemma high_sub_batches: "add_sub_batches L bs q = Some (q', r) \<Longrightarrow> high q' = high q"
proof (induction bs arbitrary: q)
  case (Cons b bs)
  from Cons.prems obtain q1 r1 where run: "do_add_chunks_sub_batch L b q = Some (q1, r1)"
    by (auto split: option.splits)
  have "high q1 = high q" using client_view_sub_batch [OF run] by (simp add: client_view_def)
  with Cons run show ?case by (cases r1) auto
qed simp

lemma high_process_high: "process_high L reqs q = Some (q', r) \<Longrightarrow> high q' = high q"
proof (induction reqs arbitrary: q)
  case (Cons req reqs)
  have send: "high (send_reply i x q1) = high q1" for i x and q1 :: "'s chunkdb" by (simp add: send_reply_def)
  show ?case
  proof (cases req)
    case (AddChunk cs data i)
    with Cons.prems obtain q1 r1 where add: "do_add_chunks_sub_batch L [(cs, data)] q = Some (q1, r1)"
      and "process_high L reqs (send_reply i (AddReply r1) q1) = Some (q', r)"
      by (auto simp: do_add_chunk_single split: option.splits)
    then show ?thesis using Cons.IH client_view_sub_batch [OF add] by (simp add: send client_view_def)
  next
    case (AddChunksBatch chunks i)
    with Cons.prems obtain q1 r1 where add: "add_sub_batches L (chunks_of ADD_CHUNKS_BATCH_SIZE chunks) q = Some (q1, r1)"
      and "process_high L reqs (send_reply i (AddReply r1) q1) = Some (q', r)"
      by (auto simp: do_add_chunks_batch_def split: option.splits)
    then show ?thesis using Cons.IH high_sub_batches [OF add] by (simp add: send)
  qed (use Cons in simp)
qed simp

lemma high_process_medium: "process_medium L reqs q = (q', r) \<Longrightarrow> high q' = high q"
proof (induction reqs arbitrary: q)
  case (Cons req reqs)
  have del: "high (fst (do_delete_keys L keys q)) = high q" for keys
    by (simp add: do_delete_keys_def split: sum.split)
  show ?case
  proof (cases req)
    case (DeleteKeys keys i)
    obtain q1 r1 where d: "do_delete_keys L keys q = (q1, r1)" by fastforce
    then show ?thesis
      using Cons.IH [of "send_reply i (DeleteReply r1) q1"] Cons.prems DeleteKeys del [of keys] by (simp add: send_reply_def)
  qed (use Cons.prems in auto)
qed simp

lemma high_writer_round: "writer_round L now q = Some (q', r) \<Longrightarrow> high q' = []"
proof -
  assume run: "writer_round L now q = Some (q', r)"
  obtain q1 r1 where h: "process_high L (high q) (drain q) = Some (q1, r1)"
    using run by (auto simp: writer_round_def split: option.splits)
  obtain q2 r2 where m: "process_medium L (medium q) q1 = (q2, r2)" by fastforce
  have "high q1 = []" using high_process_high [OF h] by (simp add: drain_def)
  moreover from this have "high q2 = []" using high_process_medium [OF m] by simp
  moreover from this have "high (process_access_updates L now (access_pending q) q2) = []"
    using client_view_access_updates [of L now "access_pending q" q2] by (simp add: client_view_def)
  moreover have "q' \<in> {q1, q2, process_access_updates L now (access_pending q) q2}"
    using run h m by (auto simp: writer_round_def split: sum.splits)
  ultimately show ?thesis by auto
qed

end
