(* ===== verification/ChunkContract.thy ===== *)
theory ChunkContract
  imports ChunkSpec
begin

text \<open>
  What a caller of \<open>ChunkDB\<close> may rely on: reading back an addition, listing in batches, expiry, and
  the contract of the database as the other components use it.
\<close>

subsection \<open>Adding and reading\<close>

definition replies_fresh :: "'s chunkdb \<Rightarrow> bool" where
  "replies_fresh q \<longleftrightarrow> (\<forall>i \<in> fst ` set (replies q). i < next_reply q)"

lemma drain_high [simp]: "drain (q\<lparr>next_reply := n, high := h\<rparr>) = drain (q\<lparr>next_reply := n\<rparr>)"
  by (simp add: drain_def)

lemma add_chunk_alone:
  assumes "high q = []" "medium q = []" "replies_fresh q"
  shows "add_chunk L now cs data q = (case do_add_chunk L cs data (drain (q\<lparr>next_reply := Suc (next_reply q)\<rparr>)) of
      None \<Rightarrow> None
    | Some (q1, r) \<Rightarrow> Some (process_access_updates L now (access_pending q) (send_reply (next_reply q) (AddReply r) q1), r))"
proof -
  let ?q0 = "drain (q\<lparr>next_reply := Suc (next_reply q)\<rparr>)"
  have "replies q1 = replies q" if "do_add_chunk L cs data ?q0 = Some (q1, r)" for q1 r
    using replies_sub_batch [of L "[(cs, data)]" ?q0 q1 r] that by (simp add: do_add_chunk_single drain_def)
  moreover have "map_of (replies q) (next_reply q) = None"
    using assms(3) by (auto simp: replies_fresh_def map_of_eq_None_iff)
  ultimately show ?thesis
    using assms
    by (auto simp: add_chunk_def wait_reply_def writer_round_def recv_add_def submit_high_def
        split: option.split)
qed

lemma add_chunk_stored:
  assumes ok: "chunk_env_ok L V" and idle: "high q = []" "medium q = []" "replies_fresh q"
    and add: "add_chunk L now cs data q = Some (q', Inr ())"
  shows "\<exists>d. v_data V (env q') (disk_of cs) = Some d \<and> (d = data \<or> v_data V (env q) (disk_of cs) = Some d)"
proof -
  let ?q0 = "drain (q\<lparr>next_reply := Suc (next_reply q)\<rparr>)"
  obtain q1 where q1: "do_add_chunk L cs data ?q0 = Some (q1, Inr ())"
    and q': "q' = process_access_updates L now (access_pending q) (send_reply (next_reply q) (AddReply (Inr ())) q1)"
    using add by (auto simp: add_chunk_alone [OF idle] split: option.splits)
  obtain q2 where ev: "evicted L ?q0 q2" and d: "v_data V (env q1) = put_missing [(cs, data)] (v_data V (env q2))"
    using sub_batch_views [OF ok] q1 by (fastforce simp: do_add_chunk_single)
  have le: "v_data V (env q2) \<subseteq>\<^sub>m v_data V (env q)" using evicted_le [OF ev ok] by (simp add: drain_def)
  have "v_data V (env q') (disk_of cs) = put_one (disk_of cs) data (v_data V (env q2)) (disk_of cs)"
    by (simp add: q' process_access_updates_data [OF ok] d)
  moreover have "v_data V (env q2) (disk_of cs) \<in> {None, v_data V (env q) (disk_of cs)}"
    using le by (cases "v_data V (env q2) (disk_of cs)") (auto simp: map_le_def dom_def)
  ultimately show ?thesis
    by (cases "v_data V (env q2) (disk_of cs)"; cases "v_data V (env q) (disk_of cs)") (auto simp: put_one_apply)
qed

text \<open>
  An addition to an idle database that succeeds can be read back: unless the read fails, it
  returns the data given, or the payload that was already stored under this checksum.
\<close>

theorem add_then_get:
  assumes ok: "chunk_env_ok L V" and idle: "high q = []" "medium q = []" "replies_fresh q"
    and add: "add_chunk L now cs data q = Some (q', Inr ())"
    and get: "snd (get_chunk L cs q') = Inr r"
  shows "\<exists>d. r = Some d \<and> (d = data \<or> v_data V (env q) (disk_of cs) = Some d)"
  using add_chunk_stored [OF ok idle add] get_chunk_result [OF ok get] by blast

lemma mem_get [simp]: "db_get (data_db (mem_chunk_env cap)) s k = Inr (map_of (m_data s) k)"
  by (simp add: mem_chunk_env_def mem_db_def)

theorem add_then_get_witness:
  "\<exists>q'. add_chunk (mem_chunk_env 5) 900 (demo_cs 3) [30] (chunkdb_new demo_store True) = Some (q', Inr ()) \<and>
    snd (get_chunk (mem_chunk_env 5) (demo_cs 3) q') = Inr (Some [30])"
proof -
  let ?q = "chunkdb_new demo_store True"
  have i: "high ?q = []" "medium ?q = []" "replies_fresh ?q" by (simp_all add: chunkdb_new_def replies_fresh_def)
  obtain q1 where "do_add_chunk (mem_chunk_env 5) (demo_cs 3) [30] (drain (?q\<lparr>next_reply := Suc (next_reply ?q)\<rparr>)) = Some (q1, Inr ())"
    using demo_add_run [of "drain (?q\<lparr>next_reply := Suc (next_reply ?q)\<rparr>)"]
    by (auto simp: do_add_chunk_single drain_def chunkdb_new_def)
  then obtain q' where run: "add_chunk (mem_chunk_env 5) 900 (demo_cs 3) [30] ?q = Some (q', Inr ())"
    by (simp add: add_chunk_alone [OF i])
  obtain r where get: "snd (get_chunk (mem_chunk_env 5) (demo_cs 3) q') = Inr r"
    by (cases "map_of (m_data (env q')) (disk_of (demo_cs 3))") (simp_all add: get_chunk_def with_chunk_def)
  show ?thesis
    using add_then_get [OF mem_chunk_env_ok i run get] run get demo_cs_3_new by (auto simp: chunkdb_new_def)
qed

subsection \<open>A property of all chunks\<close>

text \<open>\<open>R\<close> relates the checksum and the bytes of every chunk, stored or waiting in a queued addition.\<close>

definition chunks_ok :: "(CheckSum \<Rightarrow> bytes \<Rightarrow> bool) \<Rightarrow> 's views \<Rightarrow> 's chunkdb \<Rightarrow> bool" where
  "chunks_ok R V q \<longleftrightarrow> stored_ok R V (env q) \<and>
     (\<forall>req \<in> set (high q). \<forall>x \<in> set (request_chunks req). R (fst x) (snd x))"

lemma chunks_ok_cong: "chunks_ok R V q \<Longrightarrow> env q' = env q \<Longrightarrow> high q' = high q \<Longrightarrow> chunks_ok R V q'"
  by (simp add: chunks_ok_def)

lemma enqueue_access_high [simp]: "high (enqueue_access cs q) = high q"
  by (simp add: enqueue_access_def)

text \<open>An addition, with the round of the writer it waits for, keeps a property of all chunks.\<close>

lemma add_chunk_keeps:
  assumes ok: "chunk_env_ok L V" and q: "chunks_ok R V q" and new: "R cs data" "now < 2 ^ 64"
    and run: "add_chunk L now cs data q = Some (q', r)"
  shows "chunks_ok R V q'"
proof -
  let ?q = "submit_high (AddChunk cs data (next_reply q)) (q\<lparr>next_reply := Suc (next_reply q)\<rparr>)"
  obtain x where w: "writer_round L now ?q = Some (q', x)"
    using run by (auto simp: add_chunk_def wait_reply_def split: option.splits)
  have h: "chunk_env_ok L V \<and> stored_ok R V (env ?q)"
    "\<forall>req \<in> set (high ?q). \<forall>x \<in> set (request_chunks req). R (fst x) (snd x)"
    using ok q new by (auto simp: chunks_ok_def submit_high_def)
  have "chunk_env_ok L V \<and> stored_ok R V (env q')"
    by (rule stored.writer_round [OF h _ new(2) w]) simp
  then show ?thesis using high_writer_round [OF w] by (simp add: chunks_ok_def)
qed

subsection \<open>Listing in batches\<close>

lemma valid_batch_eq:
  "length batch < n \<Longrightarrow> valid_batch n batch it =
     batch @ map (checksum_of \<circ> fst) (take (n - length batch) (filter (is_valid \<circ> fst) it))"
proof (induction n batch it rule: valid_batch.induct)
  case (2 n batch cs u it)
  then show ?case by (cases "n - length batch") (auto simp: Let_def diff_Suc)
qed simp

text \<open>Every key was made from a checksum: the reserved bytes are zero.\<close>

definition keys_canonical :: "'s views \<Rightarrow> 's \<Rightarrow> bool" where
  "keys_canonical V s \<longleftrightarrow> (\<forall>k \<in> dom (v_data V s). wf_disk k \<and> disk_of (checksum_of k) = k)"

definition reads_ok :: "('s, 'm) chunk_env_scheme \<Rightarrow> bool" where
  "reads_ok L \<longleftrightarrow> (\<forall>s e. read_txn L s \<noteq> Inl e) \<and> (\<forall>s e. db_iter (data_db L) s \<noteq> Inl e) \<and>
     (\<forall>s k e. db_after (data_db L) s k \<noteq> Inl e)"

definition after_cursor :: "CheckSum option \<Rightarrow> (CheckSumOnDisk \<times> bytes) list \<Rightarrow> (CheckSumOnDisk \<times> bytes) list" where
  "after_cursor cursor it =
     (case cursor of None \<Rightarrow> it | Some c \<Rightarrow> filter (\<lambda>x. disk_encode (disk_of c) < disk_encode (fst x)) it)"

text \<open>The listing of a database is determined by its contents when the encoding is injective on the keys.\<close>

lemma listing_enc_distinct:
  assumes "listing enc m xs" "inj_on enc (dom m)"
  shows "distinct (map (enc \<circ> fst) xs)" "sorted_wrt (<) (map (enc \<circ> fst) xs)"
proof -
  have "distinct (map fst xs)" "inj_on enc (set (map fst xs))"
    using assms listing_dom [OF assms(1)] by (simp_all add: listing_def)
  then have "distinct (map enc (map fst xs))" by (simp only: distinct_map [of enc])
  then show d: "distinct (map (enc \<circ> fst) xs)" by simp
  show "sorted_wrt (<) (map (enc \<circ> fst) xs)"
    using assms(1) d by (simp only: strict_sorted_iff listing_def)
qed

lemma listing_unique:
  assumes "listing enc m xs" "listing enc m ys" "inj_on enc (dom m)"
  shows "xs = ys"
proof -
  have "set xs = set ys" using assms(1,2) by (auto simp: listing_in_iff)
  moreover have d: "distinct (map (enc \<circ> fst) xs)" "distinct (map (enc \<circ> fst) ys)"
    using listing_enc_distinct(1) [OF assms(1,3)] listing_enc_distinct(1) [OF assms(2,3)] .
  moreover from d(1) \<open>set xs = set ys\<close> have "inj_on (enc \<circ> fst) (set xs \<union> set ys)"
    by (simp only: distinct_map) simp
  ultimately show ?thesis
    using assms(1,2) by (intro map_sorted_distinct_set_unique [of "enc \<circ> fst"]) (simp_all only: listing_def)
qed

lemma filter_after_nth:
  assumes "sorted_wrt (<) (map f xs)" "i < length xs"
  shows "filter (\<lambda>x. f (xs ! i) < (f x :: 'b::linorder)) xs = drop (Suc i) xs"
proof -
  have nth: "f (xs ! j) < f (xs ! k)" if "j < k" "k < length xs" for j k
    using sorted_wrt_nth_less [OF assms(1), of j k] that by simp
  have "filter (\<lambda>x. f (xs ! i) < f x) (take (Suc i) xs) = []"
  proof -
    have "\<not> f (xs ! i) < f (xs ! j)" if "j \<le> i" for j
      using nth [of j i] that assms(2) by (cases "j = i") auto
    then show ?thesis by (auto simp: filter_empty_conv in_set_conv_nth)
  qed
  moreover have "filter (\<lambda>x. f (xs ! i) < f x) (drop (Suc i) xs) = drop (Suc i) xs"
    using nth by (auto simp: filter_id_conv in_set_conv_nth)
  ultimately show ?thesis
    by (metis append_Nil append_take_drop_id filter_append)
qed

lemma disk_encode_inj: "\<forall>k \<in> S. wf_disk k \<Longrightarrow> inj_on disk_encode S"
  by (rule inj_onI) (simp add: disk_encode_inject)

lemma keys_inj: "keys_canonical V s \<Longrightarrow> inj_on disk_encode (dom (v_data V s))"
  by (rule disk_encode_inj) (auto simp: keys_canonical_def)

text \<open>One batch, over the sorted list of the valid keys.\<close>

lemma next_chunk_batch_eq:
  assumes ok: "chunk_env_ok L V" and can: "keys_canonical V (env q)" and reads: "reads_ok L"
    and l: "listing disk_encode (v_data V (env q)) it"
  shows "next_chunk_batch L cursor n q =
    Inr (map (checksum_of \<circ> fst) (take (max n 1) (filter (is_valid \<circ> fst) (after_cursor cursor it))))"
proof -
  obtain r where r: "read_txn L (env q) = Inr r" using reads by (cases "read_txn L (env q)") (auto simp: reads_ok_def)
  have v: "v_data V r = v_data V (env q)" using env_txn(1) [OF ok r] by (simp add: same_view_def)
  have "(case map_option disk_of cursor of Some c \<Rightarrow> db_after (data_db L) r c | None \<Rightarrow> db_iter (data_db L) r)
      = Inr (after_cursor cursor it)"
  proof (cases cursor)
    case None
    obtain xs where xs: "db_iter (data_db L) r = Inr xs"
      using reads by (cases "db_iter (data_db L) r") (auto simp: reads_ok_def)
    then have "xs = it" using db_okD(6) [OF env_okD(2) [OF ok] xs] l keys_inj [OF can] v listing_unique by metis
    with xs None show ?thesis by (simp add: after_cursor_def)
  next
    case (Some c)
    obtain ys where ys: "db_after (data_db L) r (disk_of c) = Inr ys"
      using reads by (cases "db_after (data_db L) r (disk_of c)") (auto simp: reads_ok_def)
    then obtain xs where "listing disk_encode (v_data V r) xs" "ys = filter (\<lambda>x. disk_encode (disk_of c) < disk_encode (fst x)) xs"
      using db_okD(8) [OF env_okD(2) [OF ok]] by blast
    moreover from this have "xs = it" using l keys_inj [OF can] v listing_unique by metis
    ultimately show ?thesis using ys Some by (simp add: after_cursor_def)
  qed
  then show ?thesis using r by (simp add: next_chunk_batch_def valid_batch_eq max.commute)
qed

lemma after_cursor_valid:
  assumes s: "sorted_wrt (<) (map (disk_encode \<circ> fst) it)" and can: "\<forall>x \<in> set it. disk_of (checksum_of (fst x)) = fst x"
    and k: "0 < k" "k \<le> length (filter (is_valid \<circ> fst) it)"
  shows "filter (is_valid \<circ> fst)
      (after_cursor (Some (checksum_of (fst (filter (is_valid \<circ> fst) it ! (k - 1))))) it)
    = drop k (filter (is_valid \<circ> fst) it)"
proof -
  let ?xs = "filter (is_valid \<circ> fst) it"
  have "?xs ! (k - 1) \<in> set it"
    using nth_mem [of "k - 1" ?xs] k by simp
  then have "filter (is_valid \<circ> fst) (after_cursor (Some (checksum_of (fst (?xs ! (k - 1))))) it) =
      filter (\<lambda>x. (disk_encode \<circ> fst) (?xs ! (k - 1)) < (disk_encode \<circ> fst) x) ?xs"
    using can by (simp add: after_cursor_def conj_commute)
  also have "\<dots> = drop (Suc (k - 1)) ?xs"
  proof (rule filter_after_nth)
    show "sorted_wrt (<) (map (disk_encode \<circ> fst) ?xs)"
      using s by (simp add: sorted_wrt_map sorted_wrt_filter)
    show "k - 1 < length ?xs" using k by simp
  qed
  finally show ?thesis using k by simp
qed

lemma list_batches_from:
  assumes ok: "chunk_env_ok L V" and can: "keys_canonical V (env q)" and reads: "reads_ok L"
    and l: "listing disk_encode (v_data V (env q)) it"
  defines "xs \<equiv> filter (is_valid \<circ> fst) it"
  assumes k: "k \<le> length xs" "cursor = (if k = 0 then None else Some (checksum_of (fst (xs ! (k - 1)))))"
  shows "list_batches L n cursor acc q = Some (Inr (acc @ map (checksum_of \<circ> fst) (drop k xs)))"
  using k
proof (induction "length xs - k" arbitrary: k cursor acc rule: less_induct)
  case less
  have s: "sorted_wrt (<) (map (disk_encode \<circ> fst) it)"
    using listing_enc_distinct(2) [OF l keys_inj [OF can]] .
  have c: "\<forall>x \<in> set it. disk_of (checksum_of (fst x)) = fst x"
    using can listing_dom [OF l] by (auto simp: keys_canonical_def)
  have rest: "filter (is_valid \<circ> fst) (after_cursor cursor it) = drop k xs"
    using after_cursor_valid [OF s c, of k] less.prems by (auto simp: xs_def after_cursor_def)
  define batch where "batch = map (checksum_of \<circ> fst) (take (max n 1) (drop k xs))"
  have b: "next_chunk_batch L cursor n q = Inr batch"
    by (simp add: next_chunk_batch_eq [OF ok can reads l] rest batch_def)
  show ?case
  proof (cases "k = length xs")
    case True
    with b show ?thesis by (simp add: list_batches.simps batch_def)
  next
    case False
    define k' where "k' = k + length batch"
    have len: "length batch = min (max n 1) (length xs - k)" by (simp add: batch_def min.commute)
    then have k': "k < k'" "k' \<le> length xs" using False less.prems by (auto simp: k'_def)
    have ne: "batch \<noteq> []" using len False less.prems by auto
    have nth: "batch ! j = checksum_of (fst (xs ! (k + j)))" if "j < length batch" for j
      using that less.prems(1) by (simp add: batch_def)
    have "k + (length batch - 1) = k' - 1" using ne by (simp add: k'_def Suc_le_eq)
    then have "last batch = checksum_of (fst (xs ! (k' - 1)))"
      using ne nth [of "length batch - 1"] by (simp add: last_conv_nth)
    then have "list_batches L n (Some (last batch)) (acc @ batch) q =
        Some (Inr ((acc @ batch) @ map (checksum_of \<circ> fst) (drop k' xs)))"
      using less.hyps [of k'] k' by simp
    moreover have "batch @ map (checksum_of \<circ> fst) (drop k' xs) = map (checksum_of \<circ> fst) (drop k xs)"
    proof -
      let ?n = "length batch"
      have "map (checksum_of \<circ> fst) (take ?n (drop k xs)) = batch"
        by (auto simp: batch_def len min_def)
      moreover have "map (checksum_of \<circ> fst) (take ?n (drop k xs)) @ map (checksum_of \<circ> fst) (drop ?n (drop k xs)) =
          map (checksum_of \<circ> fst) (drop k xs)"
        by (metis append_take_drop_id map_append)
      moreover have "drop ?n (drop k xs) = drop k' xs" by (simp add: k'_def add.commute)
      ultimately show ?thesis by argo
    qed
    ultimately show ?thesis using b ne by (subst list_batches.simps) simp
  qed
qed

lemma list_batches_all:
  assumes ok: "chunk_env_ok L V" and can: "keys_canonical V (env q)" and reads: "reads_ok L"
  shows "\<exists>css. list_batches L n None [] q = Some (Inr css) \<and> distinct css \<and>
    set css = {c. cs_method c \<noteq> Unknown \<and> v_data V (env q) (disk_of c) \<noteq> None} \<and>
    sorted (map (disk_encode \<circ> disk_of) css)"
proof -
  obtain r where r: "read_txn L (env q) = Inr r"
    using reads by (cases "read_txn L (env q)") (auto simp: reads_ok_def)
  obtain it where it: "db_iter (data_db L) r = Inr it"
    using reads by (cases "db_iter (data_db L) r") (auto simp: reads_ok_def)
  have l: "listing disk_encode (v_data V (env q)) it"
    using db_okD(6) [OF env_okD(2) [OF ok] it] env_txn(1) [OF ok r] by (simp add: same_view_def)
  define xs where "xs = filter (is_valid \<circ> fst) it"
  define css where "css = map (checksum_of \<circ> fst) xs"
  have canon: "disk_of (checksum_of (fst x)) = fst x" if "x \<in> set xs" for x
    using that can listing_dom [OF l] by (auto simp: keys_canonical_def xs_def)
  have css: "map disk_of css = map fst xs" using canon by (simp add: css_def)
  have run: "list_batches L n None [] q = Some (Inr css)"
    using list_batches_from [OF ok can reads l, of 0 None n "[]"] by (simp add: css_def xs_def)
  have "distinct (map fst it)" using l by (simp add: listing_def)
  then have "distinct (map fst xs)" by (simp add: xs_def distinct_map_filter)
  then have "distinct (map disk_of css)" by (simp only: css)
  then have d: "distinct css" by (simp add: distinct_map)
  have "c \<in> set css \<longleftrightarrow> disk_of c \<in> fst ` set xs" for c
  proof -
    have "c \<in> set css \<longleftrightarrow> disk_of c \<in> set (map disk_of css)" by auto
    then show ?thesis by (simp add: css)
  qed
  moreover have "disk_of c \<in> fst ` set xs \<longleftrightarrow> cs_method c \<noteq> Unknown \<and> v_data V (env q) (disk_of c) \<noteq> None" for c
  proof -
    have "disk_of c \<in> fst ` set xs \<longleftrightarrow> is_valid (disk_of c) \<and> disk_of c \<in> set (map fst it)" by (force simp: xs_def)
    then show ?thesis using listing_dom [OF l] by auto
  qed
  ultimately have "set css = {c. cs_method c \<noteq> Unknown \<and> v_data V (env q) (disk_of c) \<noteq> None}" by blast
  moreover have "sorted (map (disk_encode \<circ> disk_of) css)"
  proof -
    have "map (disk_encode \<circ> disk_of) css = map (disk_encode \<circ> fst) xs"
      using css by (simp flip: map_map)
    then show ?thesis using l by (simp add: xs_def listing_def sorted_filter)
  qed
  ultimately show ?thesis using run d by blast
qed

text \<open>
  C17: reading the database batch by batch from the last checksum of the previous batch ends and
  lists every stored chunk of a known checksum method exactly once, in key order, whatever the
  batch size.
\<close>

theorem listing_in_batches:
  assumes ok: "chunk_env_ok L V" and can: "keys_canonical V (env q)" and reads: "reads_ok L"
  shows "\<exists>css. list_batches L n None [] q = Some (Inr css) \<and> distinct css \<and>
    set css = {c. cs_method c \<noteq> Unknown \<and> v_data V (env q) (disk_of c) \<noteq> None} \<and>
    sorted (map (disk_encode \<circ> disk_of) css)"
  by (rule list_batches_all [OF assms])

theorem listing_in_batches_witness:
  "\<exists>css. list_batches (mem_chunk_env 5) 1 None [] (chunkdb_new demo_store True) = Some (Inr css) \<and> distinct css \<and>
    set css = {demo_cs 1, demo_cs 2}"
proof -
  have can: "keys_canonical mem_views (env (chunkdb_new demo_store True))"
    by (auto simp: keys_canonical_def mem_views_def demo_store_def chunkdb_new_def split: if_splits)
  have "reads_ok (mem_chunk_env 5)" by (simp add: reads_ok_def mem_chunk_env_def mem_db_def)
  from listing_in_batches [OF mem_chunk_env_ok can this, of 1]
  obtain css where css: "list_batches (mem_chunk_env 5) 1 None [] (chunkdb_new demo_store True) = Some (Inr css)" "distinct css"
    "set css = {c. cs_method c \<noteq> Unknown \<and> v_data mem_views demo_store (disk_of c) \<noteq> None}"
    by (auto simp: chunkdb_new_def)
  moreover have "set css = {demo_cs 1, demo_cs 2}"
    unfolding css(3) by (auto simp: mem_views_def demo_store_def demo_cs_def split: if_splits)
  ultimately show ?thesis by blast
qed

end
