(* ===== verification/Gc.thy ===== *)
theory Gc
  imports Complex_Main ChunkContract
begin

text \<open>
  Garbage collection in \<open>src/backend/chunkdb.rs\<close>: what expiry removes, and the collector
  \<open>GcWorker\<close> that expires old chunks and then evicts batches while the store is too full.  The
  size of the map and the number of bytes in use are asked from the store and are arguments; an
  \<open>f64\<close> is a rational number here (the constructor rejects a NaN watermark).
\<close>

subsection \<open>Deletions by an idle database\<close>

definition idle :: "'s chunkdb \<Rightarrow> bool" where
  "idle q \<longleftrightarrow> high q = [] \<and> medium q = [] \<and> access_pending q = [] \<and> replies_fresh q"

lemma do_delete_keys_frame:
  "high (fst (do_delete_keys L keys q)) = high q" "medium (fst (do_delete_keys L keys q)) = medium q"
  "access_pending (fst (do_delete_keys L keys q)) = access_pending q"
  "replies (fst (do_delete_keys L keys q)) = replies q" "next_reply (fst (do_delete_keys L keys q)) = next_reply q"
  by (simp_all add: do_delete_keys_def split: sum.split)

lemma drain_medium [simp]: "drain (q\<lparr>next_reply := n, medium := h\<rparr>) = drain (q\<lparr>next_reply := n\<rparr>)"
  by (simp add: drain_def)

lemma delete_keys_idle:
  assumes "idle q" "delete_keys L now keys q = Some (q', r)"
  shows "idle q' \<and> (\<exists>q0. env q0 = env q \<and> env q' = env (fst (do_delete_keys L keys q0)) \<and> r = snd (do_delete_keys L keys q0))"
proof (cases "keys = []")
  case True
  with assms show ?thesis by (auto simp: delete_keys_def do_delete_keys_def)
next
  case False
  define q0 where "q0 = drain (q\<lparr>next_reply := Suc (next_reply q)\<rparr>)"
  obtain q1 r1 where d: "do_delete_keys L keys q0 = (q1, r1)" by fastforce
  then have rep: "replies q1 = replies q" and nr: "next_reply q1 = Suc (next_reply q)"
    and hm: "high q1 = []" "medium q1 = []" "access_pending q1 = []"
    using do_delete_keys_frame [of L keys q0] by (simp_all add: q0_def drain_def)
  have "map_of (replies q) (next_reply q) = None"
    using assms(1) by (auto simp: idle_def replies_fresh_def map_of_eq_None_iff)
  then have "q' = send_reply (next_reply q) (DeleteReply r1) q1 \<and> r = r1"
    using assms False d rep
    by (auto simp: delete_keys_def wait_reply_def writer_round_def submit_medium_def idle_def
        process_access_updates_def recv_delete_def q0_def map_add_def)
  then show ?thesis
    using d rep nr hm assms(1)
    by (intro conjI exI [of _ q0]) (auto simp: idle_def replies_fresh_def send_reply_def q0_def drain_def)
qed

lemma do_delete_keys_ok:
  assumes ok: "chunk_env_ok L V" "deletes_ok L" and run: "do_delete_keys L keys q = (q', Inr r)"
  shows "v_index V (env q') = v_index V (env q) |` (- set keys) \<and>
    v_data V (env q') = v_data V (env q) |` (- (ak_cs ` set keys)) \<and>
    v_access V (env q') = v_access V (env q) |` (- (ak_cs ` set keys)) \<and>
    removed r = length keys \<and> checksums r = map (checksum_of \<circ> ak_cs) keys"
proof (cases "keys = []")
  case True
  with run show ?thesis by (auto simp: do_delete_keys_def)
next
  case False
  with run obtain t s where t: "write_txn L (env q) = Inr t" and s: "commit L (fold (delete_key L) keys t) = Inr s"
    and q': "env q' = s" "r = \<lparr>removed = length keys, checksums = map (checksum_of \<circ> ak_cs) keys\<rparr>"
    by (auto simp: do_delete_keys_def split: sum.splits)
  then show ?thesis
    using delete_keys_eq [OF ok, of keys t] env_txn(2) [OF ok(1) t] env_txn(3) [OF ok(1) s]
    by (simp add: same_view_def)
qed

lemma delete_keys_ok:
  assumes "chunk_env_ok L V" "deletes_ok L" "idle q" "delete_keys L now keys q = Some (q', Inr r)"
  shows "idle q' \<and> v_index V (env q') = v_index V (env q) |` (- set keys) \<and>
    v_data V (env q') = v_data V (env q) |` (- (ak_cs ` set keys)) \<and>
    v_access V (env q') = v_access V (env q) |` (- (ak_cs ` set keys)) \<and>
    removed r = length keys \<and> checksums r = map (checksum_of \<circ> ak_cs) keys"
proof -
  obtain q0 where "idle q'" "env q0 = env q" "env q' = env (fst (do_delete_keys L keys q0))"
    "Inr r = snd (do_delete_keys L keys q0)"
    using delete_keys_idle [OF assms(3,4)] by blast
  then show ?thesis
    using do_delete_keys_ok [OF assms(1,2), of keys q0 "fst (do_delete_keys L keys q0)" r]
    by (simp add: prod_eq_iff)
qed

lemma restrict_compl: "m |` (- A) |` (- B) = m |` (- (A \<union> B))"
  by (rule ext) (simp add: restrict_map_def)

lemma gc_batches_ok:
  assumes ok: "chunk_env_ok L V" "deletes_ok L"
    and "idle q" "gc_batches L now bs tot q = Some (q', Inr r)"
  shows "idle q' \<and> v_index V (env q') = v_index V (env q) |` (- set (concat bs)) \<and>
    v_data V (env q') = v_data V (env q) |` (- (ak_cs ` set (concat bs))) \<and>
    v_access V (env q') = v_access V (env q) |` (- (ak_cs ` set (concat bs))) \<and>
    removed r = removed tot + length (concat bs) \<and>
    checksums r = checksums tot @ map (checksum_of \<circ> ak_cs) (concat bs)"
  using assms(3,4)
proof (induction bs arbitrary: tot q)
  case (Cons b bs)
  then obtain q1 r1 where d: "delete_keys L now b q = Some (q1, Inr r1)"
    and rest: "gc_batches L now bs \<lparr>removed = removed tot + removed r1, checksums = checksums tot @ checksums r1\<rparr> q1
      = Some (q', Inr r)"
    by (auto split: option.splits sum.splits)
  note h = delete_keys_ok [OF ok Cons.prems(1) d]
  show ?case using Cons.IH [OF conjunct1 [OF h] rest] h by (simp add: restrict_compl image_Un Un_commute)
qed (auto simp: restrict_map_def fun_eq_iff)

lemma delete_keys_returns:
  assumes "chunk_env_ok L V" "deletes_ok L"
  shows "\<exists>q' r. delete_keys L now keys q = Some (q', r)"
proof -
  have "\<exists>q' r. wait_reply L now i q0 = Some (q', r)" for i q0
  proof -
    obtain q' r where "writer_round L now q0 = Some (q', r)" using writer_round_total [OF assms] by blast
    then show ?thesis by (simp add: wait_reply_def)
  qed
  then show ?thesis by (fastforce simp: delete_keys_def)
qed

subsection \<open>Expiry\<close>

lemma expired_keys_eq: "expired_keys cutoff it = map fst (takeWhile (\<lambda>x. last_access (fst x) < cutoff) it)"
  by (induction cutoff it rule: expired_keys.induct) auto

lemma index_inj: "\<forall>k \<in> S. wf_key k \<Longrightarrow> inj_on AccessKey_encode S"
  by (rule inj_onI) (metis AccessKey_encode_less less_irrefl linorder_neqE AccessKey_new_eta disk_encode_inject wf_key_def)

lemma sorted_takeWhile_less:
  assumes "sorted (map f xs)"
  shows "set (takeWhile (\<lambda>x. f x < (c::'a::linorder)) xs) = {x \<in> set xs. f x < c}"
  using assms by (induction xs) auto

lemma listing_sorted_access:
  assumes "listing AccessKey_encode m it" "\<forall>k \<in> dom m. wf_key k"
  shows "sorted (map (\<lambda>x. last_access (fst x)) it)"
proof (rule sorted_iff_nth_mono [THEN iffD2], intro allI impI)
  fix i j
  assume ij: "i \<le> j" "j < length (map (\<lambda>x. last_access (fst x)) it)"
  have "AccessKey_encode (fst (it ! i)) \<le> AccessKey_encode (fst (it ! j))"
    using listing_sorted [OF assms(1)] ij by simp
  moreover have "fst (it ! i) \<in> dom m" "fst (it ! j) \<in> dom m"
    using listing_dom [OF assms(1)] ij by auto
  ultimately have "last_access (fst (it ! i)) \<le> last_access (fst (it ! j))"
    using AccessKey_encode_less [of "fst (it ! j)" "fst (it ! i)"] assms(2) by (auto simp: linorder_not_less [symmetric])
  then show "map (\<lambda>x. last_access (fst x)) it ! i \<le> map (\<lambda>x. last_access (fst x)) it ! j" using ij by simp
qed

text \<open>
  C18: expiry on an idle database that succeeds removes exactly the chunks whose access-index time
  is before the cutoff, with their payloads and access times, and reports how many and which.
\<close>

theorem gc_expired_exact:
  assumes ok: "chunk_env_ok L V" "deletes_ok L" and wf: "index_wf V (env q)" and idle: "idle q"
    and run: "gc_expired L now timeout q = Some (q', Inr r)"
  defines "victims \<equiv> {k \<in> dom (v_index V (env q)). last_access k < now - timeout}"
  shows "v_index V (env q') = v_index V (env q) |` (- victims) \<and>
    v_data V (env q') = v_data V (env q) |` (- (ak_cs ` victims)) \<and>
    v_access V (env q') = v_access V (env q) |` (- (ak_cs ` victims)) \<and>
    removed r = card victims \<and> set (checksums r) = (checksum_of \<circ> ak_cs) ` victims"
proof -
  obtain t it where t: "read_txn L (env q) = Inr t" "db_iter (access_index L) t = Inr it"
    and g: "gc_batches L now (chunks_of GC_BATCH (expired_keys (now - timeout) it)) \<lparr>removed = 0, checksums = []\<rparr> q
      = Some (q', Inr r)"
    using run by (auto simp: gc_expired_def Let_def split: sum.splits)
  have l: "listing AccessKey_encode (v_index V (env q)) it"
    using env_iter_index [OF ok(1) t(2)] env_txn(1) [OF ok(1) t(1)] by (simp add: same_view_def)
  have s: "sorted (map (\<lambda>x. last_access (fst x)) it)"
    using listing_sorted_access [OF l] wf by (simp add: index_wf_def)
  have keys: "set (expired_keys (now - timeout) it) = victims"
    using sorted_takeWhile_less [OF s, of "now - timeout"] listing_dom [OF l]
    by (auto simp: expired_keys_eq victims_def)
  have "distinct (map fst (takeWhile (\<lambda>x. last_access (fst x) < now - timeout) it))"
    using l by (metis distinct_append listing_def map_append takeWhile_dropWhile_id)
  then have "length (expired_keys (now - timeout) it) = card victims"
    using keys by (metis distinct_card expired_keys_eq)
  with gc_batches_ok [OF ok idle g] keys show ?thesis
    by (simp add: concat_chunks_of GC_BATCH_def)
qed

text \<open>The store in memory never fails, so neither does a deletion there.\<close>

lemma mem_gc_batches:
  assumes "idle q"
  shows "\<exists>q' r. gc_batches (mem_chunk_env cap) now bs tot q = Some (q', Inr r)"
  using assms
proof (induction bs arbitrary: tot q)
  case (Cons b bs)
  obtain q1 r where d: "delete_keys (mem_chunk_env cap) now b q = Some (q1, r)"
    using delete_keys_returns [OF mem_chunk_env_ok mem_deletes_ok] by blast
  then obtain q0 where i: "idle q1" and "r = snd (do_delete_keys (mem_chunk_env cap) b q0)"
    using delete_keys_idle [OF Cons.prems d] by blast
  then obtain x where "r = Inr x" by (cases r) (auto simp: do_delete_keys_def split: if_splits)
  then show ?case using d Cons.IH [OF i] by simp
qed simp

theorem gc_expired_exact_witness:
  "\<exists>q' r. gc_expired (mem_chunk_env 2) 1000 400 (chunkdb_new demo_store True) = Some (q', Inr r) \<and> removed r = 1 \<and>
    v_data mem_views (env q') (disk_of (demo_cs 2)) = None \<and> v_data mem_views (env q') (disk_of (demo_cs 1)) = Some [10]"
proof -
  let ?q = "chunkdb_new demo_store True"
  have i: "idle ?q" by (simp add: idle_def chunkdb_new_def replies_fresh_def)
  have wf: "index_wf mem_views (env ?q)" using demo_index by (simp add: chunkdb_new_def)
  obtain q' r where run: "gc_expired (mem_chunk_env 2) 1000 400 ?q = Some (q', Inr r)"
    using mem_gc_batches [OF i] by (fastforce simp: gc_expired_def Let_def)
  have "{k \<in> dom (v_index mem_views (env ?q)). last_access k < 1000 - 400} = {AccessKey_new 500 (disk_of (demo_cs 2))}"
    by (auto simp: chunkdb_new_def demo_store_def mem_views_def dom_def split: if_splits)
  moreover have "demo_cs 1 \<noteq> demo_cs 2" by (simp add: demo_cs_def)
  ultimately show ?thesis
    using gc_expired_exact [OF mem_chunk_env_ok mem_deletes_ok wf i run] run
    by (simp add: restrict_map_def) (simp add: chunkdb_new_def demo_store_def mem_views_def)
qed

subsection \<open>The collector\<close>

record GcWorker =
  local_chunk_client :: bool
  expire_after :: nat
  high_watermark :: rat
  low_watermark :: rat

text \<open>The space of the store: the size of the map and the bytes in use.\<close>

record 's usage =
  map_size :: "'s \<Rightarrow> nat"
  used_size :: "'s \<Rightarrow> error + nat"

definition GcWorker_new :: "bool \<Rightarrow> nat \<Rightarrow> rat \<Rightarrow> rat \<Rightarrow> error + GcWorker" where
  "GcWorker_new client expire hi lo =
     (if \<not> (0 \<le> hi \<and> hi \<le> 1) \<or> \<not> (0 \<le> lo \<and> lo \<le> 1) \<or> lo > hi then Inl (Io InvalidInput)
      else Inr \<lparr>local_chunk_client = client, expire_after = expire, high_watermark = hi, low_watermark = lo\<rparr>)"

definition usage_ratio :: "'s usage \<Rightarrow> 's chunkdb \<Rightarrow> error + rat" where
  "usage_ratio U q =
     (if map_size U (env q) = 0 then Inr 0
      else case used_size U (env q) of
        Inl e \<Rightarrow> Inl e
      | Inr used \<Rightarrow> Inr (min (of_nat used / of_nat (map_size U (env q))) 1))"

text \<open>The calls to the local chunk client are the second part of the state.\<close>

definition gc_unregister :: "GcWorker \<Rightarrow> CheckSum list \<Rightarrow> CheckSum list list \<Rightarrow> CheckSum list list" where
  "gc_unregister w css calls = (if local_chunk_client w then calls @ [css] else calls)"

partial_function (option) gc_loop ::
  "('s, 'm) chunk_env_scheme \<Rightarrow> 's usage \<Rightarrow> nat \<Rightarrow> GcWorker \<Rightarrow> 's chunkdb \<Rightarrow> CheckSum list list \<Rightarrow>
   (('s chunkdb \<times> CheckSum list list) \<times> (error + unit)) option" where
  "gc_loop L U now w q calls =
     (case usage_ratio U q of
        Inl e \<Rightarrow> Some ((q, calls), Inl e)
      | Inr usage \<Rightarrow>
          if usage \<le> high_watermark w then Some ((q, calls), Inr ())
          else case gc_lru L now GC_BATCH q of
            None \<Rightarrow> None
          | Some (q', Inl e) \<Rightarrow> Some ((q', calls), Inl e)
          | Some (q', Inr r) \<Rightarrow>
              (let calls' = gc_unregister w (checksums r) calls in
               if removed r = 0 then Some ((q', calls'), Inr ())
               else case usage_ratio U q' of
                 Inl e \<Rightarrow> Some ((q', calls'), Inl e)
               | Inr new_usage \<Rightarrow>
                   if new_usage \<le> low_watermark w then Some ((q', calls'), Inr ())
                   else gc_loop L U now w q' calls'))"

definition gc_run ::
  "('s, 'm) chunk_env_scheme \<Rightarrow> 's usage \<Rightarrow> nat \<Rightarrow> GcWorker \<Rightarrow> bool \<Rightarrow> 's chunkdb \<Rightarrow> CheckSum list list \<Rightarrow>
   (('s chunkdb \<times> CheckSum list list) \<times> (error + unit)) option" where
  "gc_run L U now w dry_run q calls =
     (if dry_run then Some ((q, calls), Inr ())
      else case gc_expired L now (expire_after w) q of
        None \<Rightarrow> None
      | Some (q', Inl e) \<Rightarrow> Some ((q', calls), Inl e)
      | Some (q', Inr r) \<Rightarrow> gc_loop L U now w q' (gc_unregister w (checksums r) calls))"

lemma GcWorker_new_ok:
  "GcWorker_new client expire hi lo = Inr w \<Longrightarrow> 0 \<le> low_watermark w \<and> low_watermark w \<le> high_watermark w \<and> high_watermark w \<le> 1"
  by (auto simp: GcWorker_new_def split: if_splits)

lemma gc_loop_stop:
  "usage_ratio U q = Inr u \<Longrightarrow> u \<le> high_watermark w \<Longrightarrow> gc_loop L U now w q calls = Some ((q, calls), Inr ())"
  by (simp add: gc_loop.simps)

lemma gc_unregister_low [simp]: "gc_unregister (w\<lparr>low_watermark := lo\<rparr>) css calls = gc_unregister w css calls"
  by (simp add: gc_unregister_def)

lemma gc_loop_low_le:
  "gc_loop L U now w q calls = Some res \<Longrightarrow> low_watermark w \<le> high_watermark w \<Longrightarrow> lo \<le> high_watermark w \<Longrightarrow>
   gc_loop L U now (w\<lparr>low_watermark := lo\<rparr>) q calls = Some res"
proof (induction L U now w q calls res rule: gc_loop.raw_induct [rotated, consumes 1])
  case (1 f L U now w q calls res)
  let ?w = "w\<lparr>low_watermark := lo\<rparr>"
  have stop: "gc_loop L U now ?w q' calls' = Some ((q', calls'), Inr ())"
    if "usage_ratio U q' = Inr u" "u \<le> high_watermark w" for q' calls' u
    using gc_loop_stop [OF that(1), of ?w] that(2) by simp
  show ?case
  proof (cases "\<exists>usage q' r new. usage_ratio U q = Inr usage \<and> \<not> usage \<le> high_watermark w \<and>
      gc_lru L now GC_BATCH q = Some (q', Inr r) \<and> removed r \<noteq> 0 \<and> usage_ratio U q' = Inr new")
    case True
    then obtain usage q' r new where h: "usage_ratio U q = Inr usage" "\<not> usage \<le> high_watermark w"
      "gc_lru L now GC_BATCH q = Some (q', Inr r)" "removed r \<noteq> 0" and new: "usage_ratio U q' = Inr new" by blast
    let ?calls = "gc_unregister w (checksums r) calls"
    have "gc_loop L U now ?w q' ?calls = Some res"
    proof (cases "new \<le> low_watermark w")
      case True
      then have "res = ((q', ?calls), Inr ())" using 1(2) h new by simp
      then show ?thesis using stop [OF new] True 1(3) by simp
    next
      case False
      then have "f L U now w q' ?calls = Some res" using 1(2) h new by simp
      then show ?thesis using 1(1,3,4) by blast
    qed
    moreover have "new \<le> lo \<Longrightarrow> gc_loop L U now ?w q' ?calls = Some ((q', ?calls), Inr ())"
      using stop [OF new] 1(4) by simp
    ultimately show ?thesis using h new by (subst gc_loop.simps) (auto simp: Let_def)
  next
    case False
    with 1(2) show ?thesis
      by (subst gc_loop.simps) (auto simp: Let_def split: sum.splits option.splits prod.splits if_splits)
  qed
qed

text \<open>
  With any collector the constructor accepts, the low watermark has no effect: the run is the
  same for every low watermark up to the high one.  Eviction stops as soon as the usage is at most
  the high watermark, because the loop tests it before each batch.
\<close>

theorem low_watermark_irrelevant:
  assumes new: "GcWorker_new client expire hi lo = Inr w" and lo': "lo' \<le> hi"
  shows "gc_run L U now (w\<lparr>low_watermark := lo'\<rparr>) dry_run q calls = gc_run L U now w dry_run q calls"
proof -
  have w: "low_watermark w \<le> high_watermark w" "high_watermark w = hi"
    using new by (auto simp: GcWorker_new_def split: if_splits)
  have "gc_loop L U now (w\<lparr>low_watermark := lo'\<rparr>) q calls = gc_loop L U now w q calls" for q calls
  proof -
    have "gc_loop L U now w q calls = Some res \<longleftrightarrow> gc_loop L U now (w\<lparr>low_watermark := lo'\<rparr>) q calls = Some res" for res
      using gc_loop_low_le [of L U now w q calls res lo']
        gc_loop_low_le [of L U now "w\<lparr>low_watermark := lo'\<rparr>" q calls res "low_watermark w"] w lo' by auto
    then show ?thesis by (metis not_Some_eq)
  qed
  then show ?thesis by (auto simp: gc_run_def split: option.split sum.split)
qed

theorem low_watermark_irrelevant_witness:
  "gc_run (mem_chunk_env 2) \<lparr>map_size = \<lambda>_. 10, used_size = \<lambda>_. Inr 9\<rparr> 1000
     \<lparr>local_chunk_client = True, expire_after = 86400, high_watermark = 9/10, low_watermark = 1/10\<rparr> False
     (chunkdb_new demo_store True) [] =
   gc_run (mem_chunk_env 2) \<lparr>map_size = \<lambda>_. 10, used_size = \<lambda>_. Inr 9\<rparr> 1000
     \<lparr>local_chunk_client = True, expire_after = 86400, high_watermark = 9/10, low_watermark = 8/10\<rparr> False
     (chunkdb_new demo_store True) []"
  using low_watermark_irrelevant [of True 86400 "9/10" "8/10"
      "\<lparr>local_chunk_client = True, expire_after = 86400, high_watermark = 9/10, low_watermark = 8/10\<rparr>" "1/10"
      "mem_chunk_env 2" "\<lparr>map_size = \<lambda>_. 10, used_size = \<lambda>_. Inr 9\<rparr>" 1000 False "chunkdb_new demo_store True" "[]"]
  by (simp add: GcWorker_new_def)

lemma gc_lru_returns:
  assumes "chunk_env_ok L V" "deletes_ok L"
  shows "\<exists>q' r. gc_lru L now n q = Some (q', r)"
  using delete_keys_returns [OF assms] by (auto simp: gc_lru_def split: sum.split)

lemma gc_lru_ok:
  assumes ok: "chunk_env_ok L V" "deletes_ok L" and idle: "idle q" and run: "gc_lru L now n q = Some (q', Inr r)"
  obtains it where "listing AccessKey_encode (v_index V (env q)) it" "idle q'"
    "removed r = min (max 1 n) (length it)"
    "v_index V (env q') = v_index V (env q) |` (- set (map fst (take (max 1 n) it)))"
    "v_data V (env q') = v_data V (env q) |` (- (ak_cs ` set (map fst (take (max 1 n) it))))"
proof -
  obtain t it where t: "read_txn L (env q) = Inr t" "db_iter (access_index L) t = Inr it"
    and d: "delete_keys L now (lru_targets n [] it) q = Some (q', Inr r)"
    using run by (auto simp: gc_lru_def split: sum.splits)
  have l: "listing AccessKey_encode (v_index V (env q)) it"
    using env_iter_index [OF ok(1) t(2)] env_txn(1) [OF ok(1) t(1)] by (simp add: same_view_def)
  show ?thesis
    using delete_keys_ok [OF ok idle d] by (intro that [OF l]) (simp_all add: lru_targets_Nil min.commute)
qed

lemma gc_lru_shrinks:
  assumes ok: "chunk_env_ok L V" "deletes_ok L" and idle: "idle q" and run: "gc_lru L now n q = Some (q', Inr r)"
    and "removed r \<noteq> 0"
  shows "card (dom (v_index V (env q'))) < card (dom (v_index V (env q)))"
proof -
  obtain it where l: "listing AccessKey_encode (v_index V (env q)) it" "removed r = min (max 1 n) (length it)"
    and i: "v_index V (env q') = v_index V (env q) |` (- set (map fst (take (max 1 n) it)))"
    using gc_lru_ok [OF ok idle run] by metis
  obtain a it' where it: "it = a # it'" using l(2) \<open>removed r \<noteq> 0\<close> by (cases it) auto
  then have "fst a \<in> dom (v_index V (env q))" using listing_dom [OF l(1)] by simp
  moreover have "fst a \<notin> dom (v_index V (env q'))" by (simp add: i it restrict_map_def take_Cons' max_def dom_def)
  moreover have "dom (v_index V (env q')) \<subseteq> dom (v_index V (env q))" by (auto simp: i)
  ultimately have "dom (v_index V (env q')) \<subset> dom (v_index V (env q))" by blast
  then show ?thesis using listing_finite [OF l(1)] by (rule psubset_card_mono [rotated])
qed



end
