(* ===== verification/Capacity.thy ===== *)
theory Capacity
  imports Prelude
begin

text \<open>
  \<open>src/backend/chunkdb/capacity.rs\<close>: parsing and validating the capacity given on the command line.
  The host's page size (\<open>sysconf\<close>) is an argument.  A string is its list of characters.
\<close>

definition is_ascii_digit :: "char \<Rightarrow> bool" where
  "is_ascii_digit c \<longleftrightarrow> 48 \<le> (of_char c :: nat) \<and> (of_char c :: nat) \<le> 57"

definition digit_val :: "char \<Rightarrow> nat" where
  "digit_val c = of_char c - 48"

text \<open>\<open>str::parse::<u64>\<close> on a string of digits: empty or overflowing input is an error.\<close>

fun parse_digits :: "nat \<Rightarrow> string \<Rightarrow> nat option" where
  "parse_digits acc [] = Some acc"
| "parse_digits acc (c # s) =
     (if acc * 10 + digit_val c < 2 ^ 64 then parse_digits (acc * 10 + digit_val c) s else None)"

definition parse_u64 :: "string \<Rightarrow> nat option" where
  "parse_u64 s = (if s = [] then None else parse_digits 0 s)"

definition unit_multiplier :: "string \<Rightarrow> nat option" where
  "unit_multiplier u =
     (if u = '''' \<or> u = ''B'' then Some 1
      else if u = ''KiB'' then Some (2 ^ 10)
      else if u = ''MiB'' then Some (2 ^ 20)
      else if u = ''GiB'' then Some (2 ^ 30)
      else if u = ''TiB'' then Some (2 ^ 40)
      else None)"

text \<open>The four checks of \<open>validate_size\<close>, in their order, each with its message.\<close>

definition validate_size :: "int \<Rightarrow> nat \<Rightarrow> error + unit" where
  "validate_size page sz =
     (if \<not> page > 0 then Inl (Anyhow ''cannot determine system page size'')
      else if \<not> sz \<ge> 1024 * 1024 then Inl (Anyhow ''ChunkDB size must be at least 1MiB'')
      else if \<not> sz \<le> 2 ^ 63 - 1 then Inl (Anyhow ''ChunkDB size exceeds addressable range'')
      else if \<not> sz mod nat page = 0 then Inl (Anyhow ''ChunkDB size must be a multiple of the system page size'')
      else Inr ())"

definition parse_chunk_db_size :: "int \<Rightarrow> string \<Rightarrow> error + nat" where
  "parse_chunk_db_size page value =
     (let number = takeWhile is_ascii_digit value; unit = dropWhile is_ascii_digit value in
      case unit_multiplier unit of
        None \<Rightarrow> Inl (Anyhow ''use whole bytes or an integer with B, KiB, MiB, GiB, TiB'')
      | Some multiplier \<Rightarrow>
          (case Option.bind (parse_u64 number) (\<lambda>n. checked_mul_u64 n multiplier) of
             None \<Rightarrow> Inl (Anyhow ''invalid or overflowing ChunkDB size'')
           | Some sz \<Rightarrow>
               (case validate_size page sz of Inl e \<Rightarrow> Inl e | Inr _ \<Rightarrow> Inr sz)))"

subsection \<open>Decimal numerals\<close>

text \<open>The reference printer: the decimal numeral of a number, and the value of a digit string.\<close>

fun decimal :: "nat \<Rightarrow> string" where
  "decimal n = (if n < 10 then [char_of (n + 48)] else decimal (n div 10) @ [char_of (n mod 10 + 48)])"

declare decimal.simps [simp del]

definition decimal_val :: "string \<Rightarrow> nat" where
  "decimal_val s = foldl (\<lambda>acc c. acc * 10 + digit_val c) 0 s"

lemma digit_char:
  assumes "d < 10"
  shows "is_ascii_digit (char_of (d + 48))" "digit_val (char_of (d + 48)) = d"
  using assms by (simp_all add: is_ascii_digit_def digit_val_def)

lemma decimal_digits: "c \<in> set (decimal n) \<Longrightarrow> is_ascii_digit c"
proof (induction n rule: decimal.induct)
  case (1 n)
  then show ?case by (subst (asm) decimal.simps) (auto simp: digit_char split: if_splits)
qed

lemma decimal_nonempty: "decimal n \<noteq> []"
  by (subst decimal.simps) simp

lemma decimal_val_snoc: "decimal_val (s @ [c]) = decimal_val s * 10 + digit_val c"
  by (simp add: decimal_val_def)

lemma decimal_val_decimal: "decimal_val (decimal n) = n"
proof (induction n rule: decimal.induct)
  case (1 n)
  show ?case
  proof (cases "n < 10")
    case True
    then show ?thesis by (subst decimal.simps) (simp add: decimal_val_def digit_char)
  next
    case False
    with 1 show ?thesis by (subst decimal.simps) (simp add: decimal_val_snoc digit_char)
  qed
qed

lemma foldl_digits_ge: "acc \<le> foldl (\<lambda>acc c. acc * 10 + digit_val c) acc s"
proof (induction s arbitrary: acc)
  case (Cons c s)
  have "acc \<le> acc * 10 + digit_val c" by simp
  also note Cons.IH [of "acc * 10 + digit_val c"]
  finally show ?case by simp
qed simp

lemma parse_digits_spec:
  "acc < 2 ^ 64 \<Longrightarrow> parse_digits acc s =
     (let v = foldl (\<lambda>acc c. acc * 10 + digit_val c) acc s in if v < 2 ^ 64 then Some v else None)"
proof (induction s arbitrary: acc)
  case Nil
  then show ?case by simp
next
  case (Cons c s)
  show ?case
  proof (cases "acc * 10 + digit_val c < 2 ^ 64")
    case True
    with Cons.IH show ?thesis by simp
  next
    case False
    with foldl_digits_ge [of "acc * 10 + digit_val c" s]
    have "\<not> foldl (\<lambda>acc c. acc * 10 + digit_val c) (acc * 10 + digit_val c) s < 2 ^ 64" by linarith
    with False show ?thesis by simp
  qed
qed

lemma parse_u64_spec:
  "parse_u64 s = (if s \<noteq> [] \<and> decimal_val s < 2 ^ 64 then Some (decimal_val s) else None)"
  by (simp add: parse_u64_def parse_digits_spec decimal_val_def)

lemma validate_size_ok:
  "validate_size page n = Inr u \<longleftrightarrow>
     0 < page \<and> 2 ^ 20 \<le> n \<and> n < 2 ^ 63 \<and> n mod nat page = 0"
  by (auto simp: validate_size_def)

lemma unit_starts_no_digit:
  "unit_multiplier u = Some m \<Longrightarrow> u = [] \<or> \<not> is_ascii_digit (hd u)"
  by (auto simp: unit_multiplier_def is_ascii_digit_def split: if_splits)

lemma split_number_unit:
  assumes "\<forall>c \<in> set ds. is_ascii_digit c" "u = [] \<or> \<not> is_ascii_digit (hd u)"
  shows "takeWhile is_ascii_digit (ds @ u) = ds" "dropWhile is_ascii_digit (ds @ u) = u"
  using assms by (cases u; simp)+

text \<open>
  A capacity is accepted exactly when it is a nonempty digit string followed by a known unit
  whose product is at least 1 MiB, addressable and a multiple of the page size; the result is that
  product, never rounded and never wrapped.
\<close>

theorem parse_chunk_db_size_iff:
  "parse_chunk_db_size page s = Inr n \<longleftrightarrow>
   (\<exists>ds u m. s = ds @ u \<and> ds \<noteq> [] \<and> (\<forall>c \<in> set ds. is_ascii_digit c) \<and> unit_multiplier u = Some m \<and>
      n = decimal_val ds * m \<and> 0 < page \<and> 2 ^ 20 \<le> n \<and> n < 2 ^ 63 \<and> n mod nat page = 0)"
    (is "?l \<longleftrightarrow> ?r")
proof
  assume l: ?l
  define ds where "ds = takeWhile is_ascii_digit s"
  define u where "u = dropWhile is_ascii_digit s"
  from l obtain m where m: "unit_multiplier u = Some m"
    by (auto simp: ds_def u_def parse_chunk_db_size_def Let_def split: option.splits)
  with l have ok: "ds \<noteq> []" "n = decimal_val ds * m" "validate_size page n = Inr ()"
    by (auto simp: ds_def u_def parse_chunk_db_size_def parse_u64_spec checked_mul_u64_def Let_def
        split: option.splits sum.splits if_splits)
  have "\<forall>c \<in> set ds. is_ascii_digit c" by (auto simp: ds_def dest: set_takeWhileD)
  moreover have "s = ds @ u" by (simp add: ds_def u_def)
  ultimately show ?r using m ok(1,2) ok(3) [unfolded validate_size_ok]
    by (intro exI [of _ ds] exI [of _ u] exI [of _ m]) simp
next
  assume ?r
  then obtain ds u m where *: "s = ds @ u" "ds \<noteq> []" "\<forall>c \<in> set ds. is_ascii_digit c"
    "unit_multiplier u = Some m" "n = decimal_val ds * m"
    and v: "validate_size page n = Inr ()" and small: "n < 2 ^ 63"
    by (auto simp: validate_size_ok)
  have "0 < m" using *(4) by (auto simp: unit_multiplier_def split: if_splits)
  then have "decimal_val ds \<le> n" using *(5) by simp
  with small have "decimal_val ds < 2 ^ 64" "n < 2 ^ 64" by simp_all
  with * v split_number_unit [OF *(3) unit_starts_no_digit [OF *(4)]] show ?l
    by (simp add: parse_chunk_db_size_def parse_u64_spec checked_mul_u64_def)
qed

theorem parse_chunk_db_size_iff_witness:
  "parse_chunk_db_size 4096 ''64MiB'' = Inr (64 * 2 ^ 20)"
  by (rule parse_chunk_db_size_iff [THEN iffD2], rule exI [of _ "''64''"], rule exI [of _ "''MiB''"],
      rule exI [of _ "2 ^ 20"]) (simp add: is_ascii_digit_def unit_multiplier_def decimal_val_def digit_val_def)

text \<open>
  Printing a valid capacity as a plain decimal number of bytes and parsing it again gives the
  capacity back.
\<close>

theorem parse_print_chunk_db_size:
  assumes "validate_size page n = Inr ()"
  shows "parse_chunk_db_size page (decimal n) = Inr n"
proof -
  have "\<forall>c \<in> set (decimal n). is_ascii_digit c" using decimal_digits by blast
  then have split: "takeWhile is_ascii_digit (decimal n) = decimal n" "dropWhile is_ascii_digit (decimal n) = []"
    using split_number_unit [of "decimal n" "[]"] by simp_all
  have "n < 2 ^ 64" using assms by (simp add: validate_size_ok)
  with assms show ?thesis
    by (simp add: parse_chunk_db_size_def split unit_multiplier_def parse_u64_spec decimal_nonempty
        decimal_val_decimal checked_mul_u64_def)
qed

theorem parse_print_chunk_db_size_witness:
  "parse_chunk_db_size 4096 (decimal 1048576) = Inr 1048576"
  by (rule parse_print_chunk_db_size) (simp add: validate_size_def)

end
