(* ===== verification/IndexDB.thy ===== *)
theory IndexDB
  imports Store CheckSums
begin

text \<open>
  \<open>src/backend/indexdb.rs\<close>: the records that say which range of an image has which checksum.  The
  key \<open>DedupRange\<close> is stored as identifier, end, start (big-endian); the value \<open>DedupInfo\<close> is the
  memory image of the struct on a little-endian machine.  Opening the database is at the end.
\<close>

subsection \<open>Ranges\<close>

definition DEFAULT_DATA_ID :: bytes where "DEFAULT_DATA_ID = replicate 32 0"

record DedupRange =
  dr_id :: bytes
  dr_start :: nat
  dr_end :: nat

definition DedupRange_new_with_id :: "bytes \<Rightarrow> nat \<Rightarrow> nat \<Rightarrow> DedupRange" where
  "DedupRange_new_with_id i off len = \<lparr>dr_id = i, dr_start = off, dr_end = u64_add off len\<rparr>"

definition DedupRange_new :: "nat \<Rightarrow> nat \<Rightarrow> DedupRange" where
  "DedupRange_new off len = DedupRange_new_with_id DEFAULT_DATA_ID off len"

definition DedupRange_size :: "DedupRange \<Rightarrow> nat" where
  "DedupRange_size r = u64_sub (dr_end r) (dr_start r)"

definition DedupRange_cmp :: "DedupRange \<Rightarrow> DedupRange \<Rightarrow> ordering" where
  "DedupRange_cmp a b =
     (if dr_id a \<noteq> dr_id b then cmp (dr_id a) (dr_id b)
      else if dr_end a \<noteq> dr_end b then cmp (dr_end a) (dr_end b)
      else cmp (dr_start b) (dr_start a))"

definition DedupRange_encode :: "DedupRange \<Rightarrow> bytes" where
  "DedupRange_encode r = dr_id r @ be_bytes 8 (dr_end r) @ be_bytes 8 (dr_start r)"

definition DedupRange_decode :: "bytes \<Rightarrow> error + DedupRange" where
  "DedupRange_decode bs =
     (if length bs \<noteq> 48 then Inl (Anyhow ''Invalid DedupRange length'')
      else Inr \<lparr>dr_id = slice bs 0 32, dr_start = be_val (slice bs 40 48), dr_end = be_val (slice bs 32 40)\<rparr>)"

definition wf_range :: "DedupRange \<Rightarrow> bool" where
  "wf_range r \<longleftrightarrow> length (dr_id r) = 32 \<and> dr_start r < 2 ^ 64 \<and> dr_end r < 2 ^ 64"

lemma DedupRange_new_sel [simp]:
  "dr_id (DedupRange_new_with_id i off len) = i" "dr_start (DedupRange_new_with_id i off len) = off"
  "dr_end (DedupRange_new_with_id i off len) = u64_add off len"
  by (simp_all add: DedupRange_new_with_id_def)

lemma wf_range_new: "length i = 32 \<Longrightarrow> off < 2 ^ 64 \<Longrightarrow> wf_range (DedupRange_new_with_id i off len)"
  using u64_add_less [of off len] by (simp add: wf_range_def)

lemma DedupRange_encode_less:
  assumes "wf_range a" "wf_range b"
  shows "DedupRange_encode a < DedupRange_encode b \<longleftrightarrow>
    dr_id a < dr_id b \<or> dr_id a = dr_id b \<and> dr_end a < dr_end b \<or>
    dr_id a = dr_id b \<and> dr_end a = dr_end b \<and> dr_start a < dr_start b"
  using assms
  by (auto simp: DedupRange_encode_def lex_append_less wf_range_def be_bytes_less be_bytes_inj)

lemma DedupRange_encode_inj:
  assumes "wf_range a" "wf_range b" "DedupRange_encode a = DedupRange_encode b"
  shows "a = b"
  using assms by (auto simp: DedupRange_encode_def wf_range_def be_bytes_inj)

lemma DedupRange_encode_le:
  assumes "wf_range a" "wf_range b"
  shows "DedupRange_encode a \<le> DedupRange_encode b \<longleftrightarrow>
    dr_id a < dr_id b \<or> dr_id a = dr_id b \<and> dr_end a < dr_end b \<or>
    dr_id a = dr_id b \<and> dr_end a = dr_end b \<and> dr_start a \<le> dr_start b"
proof -
  have "DedupRange_encode a = DedupRange_encode b \<longleftrightarrow> dr_id a = dr_id b \<and> dr_end a = dr_end b \<and> dr_start a = dr_start b"
    using DedupRange_encode_inj [OF assms] by (auto simp: DedupRange_encode_def)
  then show ?thesis using DedupRange_encode_less [OF assms] by (auto simp: order_le_less)
qed

text \<open>
  A range key decodes from its 48 bytes.  The byte order of the keys is the identifier, then the
  end, then the start, which is the declared order of ranges only when their starts agree with it: two
  ranges of one image that end together are stored the shorter one last, and compare the other way.
\<close>

theorem range_key_order:
  assumes "wf_range a" "wf_range b"
  shows "DedupRange_decode (DedupRange_encode a) = Inr a \<and>
    ((dr_id a, dr_end a) \<noteq> (dr_id b, dr_end b) \<longrightarrow>
       (DedupRange_encode a < DedupRange_encode b \<longleftrightarrow> DedupRange_cmp a b = Less)) \<and>
    ((dr_id a, dr_end a) = (dr_id b, dr_end b) \<longrightarrow>
       (DedupRange_encode a < DedupRange_encode b \<longleftrightarrow> DedupRange_cmp a b = Greater))"
proof -
  have "DedupRange_decode (DedupRange_encode a) = Inr a"
    using assms(1) by (simp add: DedupRange_decode_def DedupRange_encode_def wf_range_def slice_def be_val_be_bytes)
  then show ?thesis
    using DedupRange_encode_less [OF assms] by (auto simp: DedupRange_cmp_def)
qed

theorem range_key_order_witness:
  "DedupRange_cmp (DedupRange_new 0 8) (DedupRange_new 4 4) = Greater \<and>
   DedupRange_encode (DedupRange_new 0 8) < DedupRange_encode (DedupRange_new 4 4)"
  using range_key_order [of "DedupRange_new 0 8" "DedupRange_new 4 4"]
  by (simp add: DedupRange_new_def DEFAULT_DATA_ID_def wf_range_def u64_add_def DedupRange_cmp_def)

subsection \<open>Records\<close>

record DedupInfo =
  di_off :: nat
  di_len :: nat
  di_reserved :: nat
  di_cs :: CheckSumOnDisk

definition DedupInfo_new :: "nat \<Rightarrow> nat \<Rightarrow> CheckSum \<Rightarrow> DedupInfo" where
  "DedupInfo_new off len cs = \<lparr>di_off = off, di_len = len, di_reserved = 0, di_cs = disk_of cs\<rparr>"

definition DedupInfo_end :: "DedupInfo \<Rightarrow> nat" where
  "DedupInfo_end v = u64_add (di_off v) (di_len v)"

definition DedupInfo_cmp :: "DedupInfo \<Rightarrow> DedupInfo \<Rightarrow> ordering" where
  "DedupInfo_cmp a b = DedupRange_cmp (DedupRange_new (di_off a) (di_len a)) (DedupRange_new (di_off b) (di_len b))"

definition DedupInfo_eq :: "DedupInfo \<Rightarrow> DedupInfo \<Rightarrow> bool" where
  "DedupInfo_eq a b \<longleftrightarrow> di_off a = di_off b \<and> di_len a = di_len b \<and> di_cs a = di_cs b"

definition DedupInfo_encode :: "DedupInfo \<Rightarrow> bytes" where
  "DedupInfo_encode v =
     rev (be_bytes 8 (di_off v)) @ rev (be_bytes 4 (di_len v)) @ rev (be_bytes 4 (di_reserved v)) @ disk_encode (di_cs v)"

definition DedupInfo_decode :: "bytes \<Rightarrow> error + DedupInfo" where
  "DedupInfo_decode bs =
     (if length bs \<noteq> 56 then Inl Panic
      else case disk_decode (slice bs 16 56) of
        Inl e \<Rightarrow> Inl e
      | Inr cs \<Rightarrow> Inr \<lparr>di_off = be_val (rev (slice bs 0 8)), di_len = be_val (rev (slice bs 8 12)),
                        di_reserved = be_val (rev (slice bs 12 16)), di_cs = cs\<rparr>)"

definition wf_info :: "DedupInfo \<Rightarrow> bool" where
  "wf_info v \<longleftrightarrow> di_off v < 2 ^ 64 \<and> di_len v < 2 ^ 32 \<and> di_reserved v < 2 ^ 32 \<and> wf_disk (di_cs v)"

lemma DedupInfo_new_sel [simp]:
  "di_off (DedupInfo_new off len cs) = off" "di_len (DedupInfo_new off len cs) = len"
  "di_cs (DedupInfo_new off len cs) = disk_of cs" "di_reserved (DedupInfo_new off len cs) = 0"
  by (simp_all add: DedupInfo_new_def)

lemma DedupInfo_new_end [simp]: "DedupInfo_end (DedupInfo_new off len cs) = u64_add off len"
  by (simp add: DedupInfo_end_def)

text \<open>
  A record decodes from its 56 bytes; records are equal when offset, length and checksum are, and
  the declared order ignores the checksum: it may call two records equal that are not.
\<close>

theorem record_codec:
  assumes "wf_info v" "wf_info w"
  shows "DedupInfo_decode (DedupInfo_encode v) = Inr v \<and>
    (DedupInfo_eq v w \<longrightarrow> DedupInfo_cmp v w = Equal) \<and>
    (DedupInfo_cmp v w = Equal \<longrightarrow> di_off v = di_off w \<and> di_len v = di_len w)"
proof -
  have "DedupInfo_decode (DedupInfo_encode v) = Inr v"
    using assms(1)
    by (simp add: DedupInfo_decode_def DedupInfo_encode_def wf_info_def slice_def disk_decode_encode be_val_be_bytes)
  moreover have "di_len v = di_len w" if o: "di_off v = di_off w" and e: "u64_add (di_off v) (di_len v) = u64_add (di_off w) (di_len w)"
  proof -
    obtain q1 q2 where "di_off v + di_len v + 2 ^ 64 * q1 = di_off w + di_len w + 2 ^ 64 * q2"
      using e unfolding u64_add_def nat_mod_eq_iff by blast
    then have "(di_len v + 2 ^ 64 * q1) mod 2 ^ 64 = (di_len w + 2 ^ 64 * q2) mod 2 ^ 64" using o by simp
    moreover have "di_len v < 2 ^ 64" "di_len w < 2 ^ 64" using assms by (simp_all add: wf_info_def)
    ultimately show ?thesis by (simp only: mod_mult_self2 mod_less)
  qed
  ultimately show ?thesis
    by (auto simp: DedupInfo_eq_def DedupInfo_cmp_def DedupRange_cmp_def DedupRange_new_def cmp_def split: if_splits)
qed

theorem record_codec_witness:
  "DedupInfo_decode (DedupInfo_encode (DedupInfo_new 4096 512 CheckSum_empty)) = Inr (DedupInfo_new 4096 512 CheckSum_empty)"
  using record_codec [of "DedupInfo_new 4096 512 CheckSum_empty" "DedupInfo_new 4096 512 CheckSum_empty"]
  by (simp add: wf_info_def wf_checksum_empty)

end
