(* ===== verification/OpenDb.thy ===== *)
theory OpenDb
  imports ChunkDB IndexDB Capacity
begin

text \<open>
  Opening the two stores (\<open>ChunkDB::new_with_size_and_index_ctl\<close>, \<open>open_or_create_databases\<close>,
  \<open>IndexDB::open\<close>): a read transaction looks for the databases first, and only when one is missing a
  write transaction creates them.  The operations of the store's environment are arguments.
\<close>

definition and_then :: "(error + 'a) \<Rightarrow> ('a \<Rightarrow> error + 'b) \<Rightarrow> error + 'b" where
  "and_then r f = (case r of Inl e \<Rightarrow> Inl e | Inr x \<Rightarrow> f x)"

lemma and_then_Inr: "and_then r f = Inr y \<longleftrightarrow> (\<exists>x. r = Inr x \<and> f x = Inr y)"
  by (simp add: and_then_def split: sum.split)

text \<open>\<open>open_database\<close> says whether the named database exists.\<close>

record 's open_ops =
  open_env :: "nat \<Rightarrow> error + 's"
  clear_stale_readers :: "'s \<Rightarrow> error + nat"
  o_read_txn :: "'s \<Rightarrow> error + 's"
  open_database :: "'s \<Rightarrow> string \<Rightarrow> error + bool"
  o_commit_read :: "'s \<Rightarrow> error + unit"
  o_write_txn :: "'s \<Rightarrow> error + 's"
  create_database :: "'s \<Rightarrow> string \<Rightarrow> error + 's"
  o_commit :: "'s \<Rightarrow> error + 's"

definition CHUNK_DB_NAME :: string where "CHUNK_DB_NAME = ''data''"
definition ACCESS_DB_NAME :: string where "ACCESS_DB_NAME = ''chunk_access''"
definition ACCESS_INDEX_DB_NAME :: string where "ACCESS_INDEX_DB_NAME = ''chunk_access_index''"
definition META_DB_NAME :: string where "META_DB_NAME = ''dedup_info''"
definition CHUNK_DB_SIZE :: nat where "CHUNK_DB_SIZE = 100 * 1024 * 1024 * 1024"
definition META_DB_SIZE :: nat where "META_DB_SIZE = 100 * 1024 * 1024"

definition open_or_create_databases :: "'s open_ops \<Rightarrow> 's \<Rightarrow> error + 's" where
  "open_or_create_databases P e =
     and_then (o_read_txn P e) (\<lambda>r.
     and_then (open_database P r CHUNK_DB_NAME) (\<lambda>data.
     and_then (open_database P r ACCESS_DB_NAME) (\<lambda>access.
     and_then (open_database P r ACCESS_INDEX_DB_NAME) (\<lambda>index.
     and_then (o_commit_read P r) (\<lambda>_.
       if data \<and> access \<and> index then Inr e
       else
         and_then (o_write_txn P e) (\<lambda>w.
         and_then (create_database P w CHUNK_DB_NAME) (\<lambda>w.
         and_then (create_database P w ACCESS_DB_NAME) (\<lambda>w.
         and_then (create_database P w ACCESS_INDEX_DB_NAME) (\<lambda>w.
           o_commit P w)))))))))"

definition ChunkDB_open :: "'s open_ops \<Rightarrow> int \<Rightarrow> nat option \<Rightarrow> bool \<Rightarrow> error + 's chunkdb" where
  "ChunkDB_open P page sz ctl =
     (let sz = (case sz of Some n \<Rightarrow> n | None \<Rightarrow> CHUNK_DB_SIZE) in
      and_then (validate_size page sz) (\<lambda>_.
      and_then (open_env P sz) (\<lambda>e.
      and_then (clear_stale_readers P e) (\<lambda>_.
      and_then (open_or_create_databases P e) (\<lambda>e.
        Inr (chunkdb_new e ctl))))))"

definition IndexDB_open :: "'s open_ops \<Rightarrow> error + 's" where
  "IndexDB_open P =
     and_then (open_env P META_DB_SIZE) (\<lambda>e.
     and_then (clear_stale_readers P e) (\<lambda>_.
     and_then (o_read_txn P e) (\<lambda>r.
     and_then (open_database P r META_DB_NAME) (\<lambda>storage.
     and_then (o_commit_read P r) (\<lambda>_.
       if storage then Inr e
       else
         and_then (o_write_txn P e) (\<lambda>w.
         and_then (create_database P w META_DB_NAME) (\<lambda>w.
           o_commit P w)))))))"

text \<open>What is relied on, over the set of databases that exist.\<close>

definition open_ok :: "'s open_ops \<Rightarrow> ('s \<Rightarrow> string set) \<Rightarrow> bool" where
  "open_ok P ex \<longleftrightarrow>
     (\<forall>s t. o_read_txn P s = Inr t \<longrightarrow> ex t = ex s) \<and>
     (\<forall>s n b. open_database P s n = Inr b \<longrightarrow> b = (n \<in> ex s)) \<and>
     (\<forall>s t. o_write_txn P s = Inr t \<longrightarrow> ex t = ex s) \<and>
     (\<forall>s n t. create_database P s n = Inr t \<longrightarrow> ex t = insert n (ex s)) \<and>
     (\<forall>s t. o_commit P s = Inr t \<longrightarrow> ex t = ex s)"

lemma open_okD:
  assumes "open_ok P ex"
  shows "o_read_txn P s = Inr t \<Longrightarrow> ex t = ex s" "open_database P s n = Inr b \<Longrightarrow> b = (n \<in> ex s)"
    "o_write_txn P s = Inr t \<Longrightarrow> ex t = ex s" "create_database P s n = Inr t \<Longrightarrow> ex t = insert n (ex s)"
    "o_commit P s = Inr t \<Longrightarrow> ex t = ex s"
  using assms unfolding open_ok_def by - (elim conjE, blast)+

text \<open>
  Opening the chunk database succeeds only with a valid size, leaves all three databases in
  place, keeps the databases that were there, and does not touch an environment that already has
  the three; the queue starts empty.
\<close>

theorem chunkdb_open_creates:
  assumes ok: "open_ok P ex" and run: "ChunkDB_open P page sz ctl = Inr q"
  shows "\<exists>s. open_env P (case sz of Some n \<Rightarrow> n | None \<Rightarrow> CHUNK_DB_SIZE) = Inr s \<and>
    validate_size page (case sz of Some n \<Rightarrow> n | None \<Rightarrow> CHUNK_DB_SIZE) = Inr () \<and>
    ex (env q) = ex s \<union> {CHUNK_DB_NAME, ACCESS_DB_NAME, ACCESS_INDEX_DB_NAME} \<and>
    ({CHUNK_DB_NAME, ACCESS_DB_NAME, ACCESS_INDEX_DB_NAME} \<subseteq> ex s \<longrightarrow> env q = s) \<and>
    high q = [] \<and> medium q = [] \<and> access_pending q = []"
proof -
  obtain s s' where s: "validate_size page (case sz of Some n \<Rightarrow> n | None \<Rightarrow> CHUNK_DB_SIZE) = Inr ()"
    "open_env P (case sz of Some n \<Rightarrow> n | None \<Rightarrow> CHUNK_DB_SIZE) = Inr s"
    and o: "open_or_create_databases P s = Inr s'" and q: "q = chunkdb_new s' ctl"
    using run by (auto simp: ChunkDB_open_def Let_def and_then_Inr)
  obtain r a b c where r: "o_read_txn P s = Inr r" and abc: "open_database P r CHUNK_DB_NAME = Inr a"
    "open_database P r ACCESS_DB_NAME = Inr b" "open_database P r ACCESS_INDEX_DB_NAME = Inr c"
    and rest: "if a \<and> b \<and> c then s' = s
       else \<exists>w w1 w2 w3. o_write_txn P s = Inr w \<and> create_database P w CHUNK_DB_NAME = Inr w1 \<and>
         create_database P w1 ACCESS_DB_NAME = Inr w2 \<and> create_database P w2 ACCESS_INDEX_DB_NAME = Inr w3 \<and>
         o_commit P w3 = Inr s'"
    using o by (auto simp: open_or_create_databases_def and_then_Inr split: if_splits)
  have ex: "a = (CHUNK_DB_NAME \<in> ex s)" "b = (ACCESS_DB_NAME \<in> ex s)" "c = (ACCESS_INDEX_DB_NAME \<in> ex s)"
    using open_okD(1,2) [OF ok] r abc by metis+
  have "ex s' = ex s \<union> {CHUNK_DB_NAME, ACCESS_DB_NAME, ACCESS_INDEX_DB_NAME}"
  proof (cases "a \<and> b \<and> c")
    case True
    with rest ex show ?thesis by auto
  next
    case False
    with rest obtain w w1 w2 w3 where "o_write_txn P s = Inr w" "create_database P w CHUNK_DB_NAME = Inr w1"
      "create_database P w1 ACCESS_DB_NAME = Inr w2" "create_database P w2 ACCESS_INDEX_DB_NAME = Inr w3"
      "o_commit P w3 = Inr s'" by auto
    then show ?thesis using open_okD(3,4,5) [OF ok] by (simp add: insert_commute)
  qed
  with s rest ex q show ?thesis by (auto simp: chunkdb_new_def split: if_splits)
qed

definition mem_open :: "string set open_ops" where
  "mem_open =
     \<lparr>open_env = \<lambda>_. Inr {}, clear_stale_readers = \<lambda>_. Inr 0, o_read_txn = Inr,
      open_database = \<lambda>s n. Inr (n \<in> s), o_commit_read = \<lambda>_. Inr (), o_write_txn = Inr,
      create_database = \<lambda>s n. Inr (insert n s), o_commit = Inr\<rparr>"

lemma mem_open_ok: "open_ok mem_open id"
  by (simp add: open_ok_def mem_open_def)

theorem chunkdb_open_creates_witness:
  "\<exists>q. ChunkDB_open mem_open 4096 (Some 1048576) True = Inr q \<and>
    env q = {CHUNK_DB_NAME, ACCESS_DB_NAME, ACCESS_INDEX_DB_NAME}"
proof -
  obtain q where q: "ChunkDB_open mem_open 4096 (Some 1048576) True = Inr q"
    by (simp add: ChunkDB_open_def mem_open_def open_or_create_databases_def and_then_def validate_size_def Let_def)
  show ?thesis using chunkdb_open_creates [OF mem_open_ok q] q by (auto simp: mem_open_def)
qed

end
