(* ===== verification/Stats.thy ===== *)
theory Stats
  imports Gc OpenDb
begin

text \<open>
  \<open>ChunkDB::get_stats\<close> in \<open>src/backend/chunkdb.rs\<close> and the two commands of \<open>src/cli.rs\<close> that use a chunk database
  directly.  The numbers the store keeps (the size of its map, the pages in use, its readers, the
  number of entries) are asked from it; the first and the last entry of the access index are looked
  up without a scan.
\<close>

subsection \<open>The numbers of a store\<close>

record 's stat_ops = "'s usage" +
  number_of_readers :: "'s \<Rightarrow> nat"
  maximum_number_of_readers :: "'s \<Rightarrow> nat"
  stat_entries :: "'s \<Rightarrow> error + nat"
  index_first :: "'s \<Rightarrow> error + (AccessKey \<times> unit) option"
  index_last :: "'s \<Rightarrow> error + (AccessKey \<times> unit) option"
  stale_readers :: "'s \<Rightarrow> error + nat"

record stats =
  total_size_bytes :: nat
  used_size_bytes :: nat
  free_size_bytes :: nat
  usage_percent :: rat
  total_count :: nat
  oldest_epoch_secs :: "nat option"
  newest_epoch_secs :: "nat option"
  readers_current :: nat
  readers_max :: nat
  stale_cleared :: nat

text \<open>The percentage is exact here; the code prints it with two digits after the point.\<close>

definition get_stats :: "('s, 'm) chunk_env_scheme \<Rightarrow> ('s, 'n) stat_ops_scheme \<Rightarrow> 's chunkdb \<Rightarrow> error + stats" where
  "get_stats L U q =
     (let sz = map_size U (env q) in
      and_then (used_size U (env q)) (\<lambda>used.
      and_then (read_txn L (env q)) (\<lambda>t.
      and_then (stat_entries U t) (\<lambda>n.
      and_then (index_first U t) (\<lambda>first.
      and_then (index_last U t) (\<lambda>lst.
      and_then (stale_readers U (env q)) (\<lambda>stale.
        Inr \<lparr>total_size_bytes = sz, used_size_bytes = used, free_size_bytes = sz - used,
             usage_percent = (if sz > 0 then of_nat used / of_nat sz * 100 else 0),
             total_count = n,
             oldest_epoch_secs = map_option (last_access \<circ> fst) first,
             newest_epoch_secs = map_option (last_access \<circ> fst) lst,
             readers_current = number_of_readers U (env q), readers_max = maximum_number_of_readers U (env q),
             stale_cleared = stale\<rparr>)))))))"

text \<open>What is relied on: the counter of a database, and the two ends of the index in the order of its keys.\<close>

definition stat_ok :: "('s, 'n) stat_ops_scheme \<Rightarrow> 's views \<Rightarrow> bool" where
  "stat_ok U V \<longleftrightarrow>
     (\<forall>s n. stat_entries U s = Inr n \<longrightarrow> n = card (dom (v_data V s))) \<and>
     (\<forall>s x. index_first U s = Inr x \<longrightarrow>
        (\<exists>it. listing AccessKey_encode (v_index V s) it \<and> x = (if it = [] then None else Some (hd it)))) \<and>
     (\<forall>s x. index_last U s = Inr x \<longrightarrow>
        (\<exists>it. listing AccessKey_encode (v_index V s) it \<and> x = (if it = [] then None else Some (last it))))"

lemma stat_okD:
  assumes "stat_ok U V"
  shows "stat_entries U s = Inr n \<Longrightarrow> n = card (dom (v_data V s))"
    "index_first U s = Inr x \<Longrightarrow> \<exists>it. listing AccessKey_encode (v_index V s) it \<and> x = (if it = [] then None else Some (hd it))"
    "index_last U s = Inr x \<Longrightarrow> \<exists>it. listing AccessKey_encode (v_index V s) it \<and> x = (if it = [] then None else Some (last it))"
  using assms unfolding stat_ok_def by - (elim conjE, blast)+

lemma listing_ends:
  assumes l: "listing AccessKey_encode m it" and wf: "\<forall>k \<in> dom m. wf_key k" and k: "k \<in> dom m"
  shows "it \<noteq> []" "last_access (fst (hd it)) \<le> last_access k" "last_access k \<le> last_access (fst (last it))"
proof -
  obtain j where j: "j < length it" "fst (it ! j) = k"
    using k by (auto simp: listing_dom [OF l] in_set_conv_nth)
  then show ne: "it \<noteq> []" by auto
  have d: "fst (it ! i) \<in> dom m" if "i < length it" for i using that by (auto simp: listing_dom [OF l])
  have le: "last_access (fst (it ! a)) \<le> last_access (fst (it ! b))" if "a \<le> b" "b < length it" for a b
  proof -
    have "wf_key (fst (it ! a))" "wf_key (fst (it ! b))" using wf d that by auto
    then show ?thesis
      using listing_sorted [OF l that] AccessKey_encode_less [of "fst (it ! b)" "fst (it ! a)"] by fastforce
  qed
  show "last_access (fst (hd it)) \<le> last_access k" using le [of 0 j] j ne by (simp add: hd_conv_nth)
  show "last_access k \<le> last_access (fst (last it))" using le [of j "length it - 1"] j ne by (simp add: last_conv_nth)
qed

text \<open>
  The statistics count every stored chunk, add up to the size of the store while the use is within it, and the
  time of every recorded access lies between the oldest and the newest they report.
\<close>

theorem stats_cover_accesses:
  assumes ok: "chunk_env_ok L V" "stat_ok U V" and inv: "access_indexed V (env q)" "index_wf V (env q)"
    and run: "get_stats L U q = Inr st"
  shows "total_count st = card (dom (v_data V (env q))) \<and>
    used_size_bytes st + free_size_bytes st = max (used_size_bytes st) (total_size_bytes st) \<and>
    (\<forall>cs. case v_access V (env q) cs of None \<Rightarrow> True
       | Some t \<Rightarrow> (\<exists>a b. oldest_epoch_secs st = Some a \<and> newest_epoch_secs st = Some b \<and> a \<le> t \<and> t \<le> b))"
proof -
  obtain t n x y where r: "read_txn L (env q) = Inr t" "stat_entries U t = Inr n" "index_first U t = Inr x" "index_last U t = Inr y"
    and st: "total_count st = n" "oldest_epoch_secs st = map_option (last_access \<circ> fst) x"
      "newest_epoch_secs st = map_option (last_access \<circ> fst) y" "free_size_bytes st = total_size_bytes st - used_size_bytes st"
    using run by (auto simp: get_stats_def Let_def and_then_Inr)
  note sv = same_viewD [OF env_txn(1) [OF ok(1) r(1)]]
  have wf: "\<forall>k \<in> dom (v_index V t). wf_key k" using inv(2) sv(3) by (simp add: index_wf_def)
  obtain it1 where it1: "listing AccessKey_encode (v_index V t) it1" "x = (if it1 = [] then None else Some (hd it1))"
    using stat_okD(2) [OF ok(2) r(3)] by blast
  obtain it2 where it2: "listing AccessKey_encode (v_index V t) it2" "y = (if it2 = [] then None else Some (last it2))"
    using stat_okD(3) [OF ok(2) r(4)] by blast
  have "\<exists>a b. oldest_epoch_secs st = Some a \<and> newest_epoch_secs st = Some b \<and> a \<le> u \<and> u \<le> b"
    if "v_access V (env q) cs = Some u" for cs u
  proof -
    have k: "AccessKey_new u cs \<in> dom (v_index V t)" using inv(1) that sv(3) by (auto simp: access_indexed_def)
    have "last_access (AccessKey_new u cs) = u" by (simp add: AccessKey_new_def)
    with listing_ends [OF it1(1) wf k] listing_ends [OF it2(1) wf k] st it1(2) it2(2) show ?thesis by auto
  qed
  moreover have "total_count st = card (dom (v_data V (env q)))" using stat_okD(1) [OF ok(2) r(2)] st sv(1) by simp
  ultimately show ?thesis using st(4) by (simp split: option.split)
qed

definition mem_stats :: "mem_chunks stat_ops" where
  "mem_stats =
     \<lparr>map_size = \<lambda>_. 4096, used_size = \<lambda>_. Inr 1024, number_of_readers = \<lambda>_. 1, maximum_number_of_readers = \<lambda>_. 126,
      stat_entries = \<lambda>s. Inr (length (AList.clearjunk (m_data s))),
      index_first = \<lambda>s. Inr (let it = mem_list AccessKey_encode (m_index s) in if it = [] then None else Some (hd it)),
      index_last = \<lambda>s. Inr (let it = mem_list AccessKey_encode (m_index s) in if it = [] then None else Some (last it)),
      stale_readers = \<lambda>_. Inr 0\<rparr>"

lemma card_dom_map_of: "card (dom (map_of al)) = length (AList.clearjunk al)"
proof -
  have "dom (map_of al) = set (map fst (AList.clearjunk al))"
    by (simp add: dom_map_of_conv_image_fst dom_clearjunk)
  then show ?thesis using distinct_card [OF distinct_clearjunk [of al]] by simp
qed

lemma mem_stat_ok: "stat_ok mem_stats mem_views"
proof -
  have l: "listing AccessKey_encode (v_index mem_views s) (mem_list AccessKey_encode (m_index s))" for s
    by (simp add: mem_views_def mem_list_listing)
  have c: "card (dom (v_data mem_views s)) = length (AList.clearjunk (m_data s))" for s
    by (simp add: mem_views_def card_dom_map_of)
  show ?thesis unfolding stat_ok_def mem_stats_def using l c by (simp add: Let_def) (metis l)
qed

lemma mem_stats_returns: "\<exists>st. get_stats (mem_chunk_env cap) mem_stats q = Inr st"
  by (simp add: get_stats_def mem_stats_def mem_chunk_env_def and_then_def)

theorem stats_cover_accesses_witness:
  "\<exists>st a b. get_stats (mem_chunk_env 5) mem_stats (chunkdb_new demo_store False) = Inr st \<and>
    total_count st = 2 \<and> oldest_epoch_secs st = Some a \<and> a \<le> 500 \<and> newest_epoch_secs st = Some b \<and> 700 \<le> b"
proof -
  obtain st where run: "get_stats (mem_chunk_env 5) mem_stats (chunkdb_new demo_store False) = Inr st"
    using mem_stats_returns by blast
  have a: "v_access mem_views demo_store (disk_of (demo_cs 1)) = Some 700" "v_access mem_views demo_store (disk_of (demo_cs 2)) = Some 500"
    by (simp_all add: mem_views_def demo_store_def demo_cs_def)
  have n: "card (dom (v_data mem_views demo_store)) = 2"
    by (simp add: mem_views_def demo_store_def demo_cs_def card_dom_map_of)
  have e: "env (chunkdb_new demo_store False) = demo_store" by (simp add: chunkdb_new_def)
  note h = stats_cover_accesses [OF mem_chunk_env_ok mem_stat_ok _ _ run, unfolded e, OF demo_index]
  from h have acc: "case v_access mem_views demo_store cs of None \<Rightarrow> True
       | Some t \<Rightarrow> (\<exists>a b. oldest_epoch_secs st = Some a \<and> newest_epoch_secs st = Some b \<and> a \<le> t \<and> t \<le> b)" for cs by blast
  from acc [of "disk_of (demo_cs 1)"] acc [of "disk_of (demo_cs 2)"] a
  obtain x y where "oldest_epoch_secs st = Some x" "newest_epoch_secs st = Some y" "x \<le> 500" "700 \<le> y" by auto
  then show ?thesis using run h n by auto
qed

end
