(* ===== verification/InFlight.thy ===== *)
theory InFlight
  imports Prelude
begin

text \<open>
  \<open>src/backend/cache.rs\<close>: how concurrent readers of one chunk share one fetch (\<open>InFlightIO\<close>,
  \<open>register_or_wait_inflight_io\<close> and the loop of \<open>fetch_data\<close>).  The state is that of one chunk: its
  bit, its entry in the map of fetches under way, the fetches that are done, and where each thread
  is.  A step is the work of one thread between two accesses to shared state; the condition
  variable may wake a thread for no reason.
\<close>

datatype fetch_result = FetchOk | FetchFailed | FetchTimeout | FetchPanic

text \<open>
  \<open>AtLoad\<close>: before the load of the bit; \<open>Registering\<close>: it was not set; \<open>Awaiting\<close>: another thread
  fetches, before \<open>wait\<close> takes the lock; \<open>Sleeping\<close>: in the wait; \<open>Fetching\<close>: in the fetch of the
  source; \<open>Removing\<close>: before the entry is removed; \<open>Leaving\<close>: before the guard is dropped.
\<close>

datatype fetch_pc =
    AtLoad | Registering | Awaiting nat | Sleeping nat | Fetching nat | Removing nat fetch_result
  | Leaving nat fetch_result | Returned fetch_result

record inflight =
  if_bit :: bool
  if_entry :: "nat option"
  if_done :: "nat set"
  if_next :: nat
  if_pc :: "nat \<Rightarrow> fetch_pc"

definition inflight_new :: "bool \<Rightarrow> inflight" where
  "inflight_new b = \<lparr>if_bit = b, if_entry = None, if_done = {}, if_next = 0, if_pc = (\<lambda>_. AtLoad)\<rparr>"

definition goto_pc :: "nat \<Rightarrow> fetch_pc \<Rightarrow> inflight \<Rightarrow> inflight" where
  "goto_pc t p s = s\<lparr>if_pc := (if_pc s)(t := p)\<rparr>"

text \<open>\<open>done\<close> marks the fetch and wakes every thread that sleeps on it.\<close>

definition io_done :: "nat \<Rightarrow> inflight \<Rightarrow> inflight" where
  "io_done io s = s\<lparr>if_done := insert io (if_done s),
     if_pc := (\<lambda>t. if if_pc s t = Sleeping io then AtLoad else if_pc s t)\<rparr>"

text \<open>\<open>register_or_wait_inflight_io\<close>, under the lock of the map.\<close>

definition register_or_wait :: "nat \<Rightarrow> inflight \<Rightarrow> inflight" where
  "register_or_wait t s =
     (case if_entry s of
        Some io \<Rightarrow> goto_pc t (Awaiting io) s
      | None \<Rightarrow> goto_pc t (Fetching (if_next s)) (s\<lparr>if_entry := Some (if_next s), if_next := Suc (if_next s)\<rparr>))"

text \<open>The parameter tells whether a fetch of the source may panic.\<close>

inductive inflight_step :: "bool \<Rightarrow> inflight \<Rightarrow> inflight \<Rightarrow> bool" for panics where
  if_load: "if_pc s t = AtLoad \<Longrightarrow>
     inflight_step panics s (goto_pc t (if if_bit s then Returned FetchOk else Registering) s)"
| if_register: "if_pc s t = Registering \<Longrightarrow> inflight_step panics s (register_or_wait t s)"
| if_wait: "if_pc s t = Awaiting io \<Longrightarrow>
     inflight_step panics s (goto_pc t (if io \<in> if_done s then AtLoad else Sleeping io) s)"
| if_spurious: "if_pc s t = Sleeping io \<Longrightarrow> inflight_step panics s (goto_pc t AtLoad s)"
| if_timeout: "if_pc s t = Sleeping io \<Longrightarrow> inflight_step panics s (goto_pc t (Returned FetchTimeout) s)"
| if_fetched: "if_pc s t = Fetching io \<Longrightarrow> inflight_step panics s (goto_pc t (Removing io FetchOk) (s\<lparr>if_bit := True\<rparr>))"
| if_failed: "if_pc s t = Fetching io \<Longrightarrow> inflight_step panics s (goto_pc t (Removing io FetchFailed) s)"
| if_panic: "panics \<Longrightarrow> if_pc s t = Fetching io \<Longrightarrow> inflight_step panics s (goto_pc t (Leaving io FetchPanic) s)"
| if_remove: "if_pc s t = Removing io r \<Longrightarrow> inflight_step panics s (goto_pc t (Leaving io r) (s\<lparr>if_entry := None\<rparr>))"
| if_leave: "if_pc s t = Leaving io r \<Longrightarrow> inflight_step panics s (goto_pc t (Returned r) (io_done io s))"

subsection \<open>The protocol\<close>

text \<open>The fetch a thread holds the guard of.\<close>

fun guards :: "fetch_pc \<Rightarrow> nat option" where
  "guards (Fetching io) = Some io"
| "guards (Removing io r) = Some io"
| "guards (Leaving io r) = Some io"
| "guards _ = None"

fun listed :: "fetch_pc \<Rightarrow> nat option" where
  "listed (Fetching io) = Some io"
| "listed (Removing io r) = Some io"
| "listed _ = None"

fun has_result :: "fetch_pc \<Rightarrow> bool" where
  "has_result (Removing io r) = (r = FetchOk)"
| "has_result (Leaving io r) = (r = FetchOk)"
| "has_result (Returned r) = (r = FetchOk)"
| "has_result _ = False"

definition inflight_ok :: "inflight \<Rightarrow> bool" where
  "inflight_ok s \<longleftrightarrow>
     (\<forall>io. if_entry s = Some io \<longrightarrow> (\<exists>t. listed (if_pc s t) = Some io)) \<and>
     (\<forall>t io. listed (if_pc s t) = Some io \<longrightarrow> if_entry s = Some io) \<and>
     (\<forall>t io. guards (if_pc s t) = Some io \<longrightarrow> io < if_next s \<and> io \<notin> if_done s) \<and>
     (\<forall>t u io. guards (if_pc s t) = Some io \<longrightarrow> guards (if_pc s u) = Some io \<longrightarrow> t = u) \<and>
     (\<forall>t. has_result (if_pc s t) \<longrightarrow> if_bit s) \<and>
     (\<forall>t io. if_pc s t = Awaiting io \<longrightarrow> io \<in> if_done s \<or> (\<exists>u. guards (if_pc s u) = Some io)) \<and>
     (\<forall>t io. if_pc s t = Sleeping io \<longrightarrow> (\<exists>u. guards (if_pc s u) = Some io)) \<and>
     (\<forall>io \<in> if_done s. io < if_next s)"

lemma listed_guards: "listed p = Some io \<Longrightarrow> guards p = Some io"
  by (cases p) auto

lemma inflight_okD:
  assumes "inflight_ok s"
  shows "if_entry s = Some io \<Longrightarrow> \<exists>t. listed (if_pc s t) = Some io"
    "listed (if_pc s t) = Some io \<Longrightarrow> if_entry s = Some io"
    "guards (if_pc s t) = Some io \<Longrightarrow> io < if_next s \<and> io \<notin> if_done s"
    "guards (if_pc s t) = Some io \<Longrightarrow> guards (if_pc s u) = Some io \<Longrightarrow> t = u"
    "has_result (if_pc s t) \<Longrightarrow> if_bit s"
    "if_pc s t = Awaiting io \<Longrightarrow> io \<in> if_done s \<or> (\<exists>u. guards (if_pc s u) = Some io)"
    "if_pc s t = Sleeping io \<Longrightarrow> \<exists>u. guards (if_pc s u) = Some io"
    "io \<in> if_done s \<Longrightarrow> io < if_next s"
  using assms unfolding inflight_ok_def by blast+

text \<open>A step of a thread that neither takes nor gives up a fetch.\<close>

lemma goto_plain:
  assumes ok: "inflight_ok s" and p: "guards (if_pc s t) = None" "guards p = None" "has_result p \<Longrightarrow> if_bit s"
    and w: "\<And>io. p = Awaiting io \<Longrightarrow> io \<in> if_done s \<or> (\<exists>u. guards (if_pc s u) = Some io)"
      "\<And>io. p = Sleeping io \<Longrightarrow> \<exists>u. guards (if_pc s u) = Some io"
  shows "inflight_ok (goto_pc t p s)"
proof -
  have l: "listed (if_pc s t) = None" "listed p = None" using listed_guards p by (metis option.exhaust)+
  have g: "guards (if u = t then p else if_pc s u) = guards (if_pc s u)" for u using p by simp
  have li: "listed (if u = t then p else if_pc s u) = listed (if_pc s u)" for u using l by simp
  show ?thesis
    unfolding inflight_ok_def goto_pc_def
    by (simp add: fun_upd_def g li) (use inflight_okD [OF ok] p(3) w in \<open>auto split: if_splits\<close>)
qed

text \<open>A step of the thread that holds a fetch and keeps it.\<close>

lemma goto_holder:
  assumes ok: "inflight_ok s" and p: "guards (if_pc s t) = Some i" "guards p = Some i" "listed p = listed (if_pc s t)"
    and b: "has_result p \<Longrightarrow> b" "if_bit s \<Longrightarrow> b"
  shows "inflight_ok (goto_pc t p (s\<lparr>if_bit := b\<rparr>))"
proof -
  have g: "guards (if u = t then p else if_pc s u) = guards (if_pc s u)" for u using p by simp
  have li: "listed (if u = t then p else if_pc s u) = listed (if_pc s u)" for u using p by simp
  have np: "p \<noteq> Awaiting io" "p \<noteq> Sleeping io" for io using p by auto
  show ?thesis
    unfolding inflight_ok_def goto_pc_def
    by (simp add: fun_upd_def g li) (use inflight_okD [OF ok] b np in \<open>auto split: if_splits\<close>)
qed

lemma goto_unlisted:
  assumes ok: "inflight_ok s" and p: "if_pc s t = Removing i r"
  shows "inflight_ok (goto_pc t (Leaving i r) (s\<lparr>if_entry := None\<rparr>))"
proof -
  let ?p = "\<lambda>u. if u = t then Leaving i r else if_pc s u"
  have g: "guards (?p u) = guards (if_pc s u)" for u using p by simp
  have h: "has_result (?p u) = has_result (if_pc s u)" for u using p by simp
  have li: "listed (?p u) = None" for u
  proof (cases "u = t")
    case False
    have "listed (if_pc s u) = None"
    proof (rule ccontr)
      assume "listed (if_pc s u) \<noteq> None"
      then obtain k where k: "listed (if_pc s u) = Some k" by blast
      moreover have "if_entry s = Some i" using inflight_okD(2) [OF ok, of t i] p by simp
      ultimately have "k = i" using inflight_okD(2) [OF ok, of u k] by simp
      then show False using inflight_okD(4) [OF ok, of t i u] listed_guards [OF k] p False by simp
    qed
    then show ?thesis using False by simp
  qed simp
  have w: "?p u = Awaiting io \<longleftrightarrow> if_pc s u = Awaiting io" "?p u = Sleeping io \<longleftrightarrow> if_pc s u = Sleeping io" for u io
    using p by simp_all
  show ?thesis
    unfolding inflight_ok_def goto_pc_def
    by (simp add: fun_upd_def g h li w) (use inflight_okD [OF ok] in blast)
qed

text \<open>The guard is dropped: the fetch is marked as done and its sleepers wake up.\<close>

lemma leave_ok:
  assumes ok: "inflight_ok s" and p: "if_pc s t = Leaving i r"
  shows "inflight_ok (goto_pc t (Returned r) (io_done i s))"
proof -
  let ?q = "if_pc (goto_pc t (Returned r) (io_done i s))"
  note D = inflight_okD [OF ok]
  have pc: "?q u = (if u = t then Returned r else if if_pc s u = Sleeping i then AtLoad else if_pc s u)" for u
    by (simp add: goto_pc_def io_done_def)
  have sel: "if_entry (goto_pc t (Returned r) (io_done i s)) = if_entry s"
    "if_done (goto_pc t (Returned r) (io_done i s)) = insert i (if_done s)"
    "if_next (goto_pc t (Returned r) (io_done i s)) = if_next s"
    "if_bit (goto_pc t (Returned r) (io_done i s)) = if_bit s"
    by (simp_all add: goto_pc_def io_done_def)
  have li: "listed (?q u) = listed (if_pc s u)" for u using p by (simp add: pc)
  have own: "guards (if_pc s u) = Some i \<Longrightarrow> u = t" for u using D(4) [of t i u] p by simp
  have gu: "guards (?q u) = (if u = t then None else guards (if_pc s u))" for u using p by (simp add: pc)
  have keep: "\<exists>v. guards (?q v) = Some io" if "guards (if_pc s v) = Some io" "io \<noteq> i" for v io
    using that p by (intro exI [of _ v]) (auto simp: gu)
  have res: "has_result (?q u) \<Longrightarrow> has_result (if_pc s u)" for u using p by (simp add: pc split: if_splits)
  show ?thesis
    unfolding inflight_ok_def sel li
  proof (intro conjI allI impI ballI)
    show "\<exists>u. listed (if_pc s u) = Some io" if "if_entry s = Some io" for io by (rule D(1) [OF that])
    show "if_entry s = Some io" if "listed (if_pc s u) = Some io" for u io by (rule D(2) [OF that])
    fix u io
    assume "guards (?q u) = Some io"
    then have h: "u \<noteq> t" "guards (if_pc s u) = Some io" by (simp_all add: gu split: if_splits)
    show "io < if_next s" using D(3) [OF h(2)] by simp
    show "io \<notin> insert i (if_done s)" using D(3) [OF h(2)] own h by auto
    show "u = v" if "guards (?q v) = Some io" for v
      using D(4) [OF h(2), of v] that by (simp add: gu split: if_splits)
  next
    show "if_bit s" if "has_result (?q u)" for u using D(5) res that by blast
    show "io \<in> insert i (if_done s) \<or> (\<exists>v. guards (?q v) = Some io)" if "?q u = Awaiting io" for u io
    proof -
      have "if_pc s u = Awaiting io" using that by (simp add: pc split: if_splits)
      then show ?thesis using D(6) keep by blast
    qed
    show "\<exists>v. guards (?q v) = Some io" if "?q u = Sleeping io" for u io
    proof -
      have "if_pc s u = Sleeping io" "io \<noteq> i" using that by (auto simp: pc split: if_splits)
      then show ?thesis using D(7) keep by blast
    qed
    show "io < if_next s" if "io \<in> insert i (if_done s)" for io
      using D(8) [of io] D(3) [of t i] that p by auto
  qed
qed

lemma inflight_step_ok: "inflight_step False s s' \<Longrightarrow> inflight_ok s \<Longrightarrow> inflight_ok s'"
proof (induction rule: inflight_step.induct)
  case (if_load s t)
  then show ?case by (intro goto_plain) (auto split: if_splits)
next
  case (if_register s t)
  show ?case
  proof (cases "if_entry s")
    case None
    let ?i = "if_next s"
    have no: "listed (if_pc s u) = None" for u
      using inflight_okD(2) [OF if_register.prems] None by (metis option.exhaust option.distinct(1))
    have fresh: "guards (if_pc s u) \<noteq> Some ?i" "?i \<notin> if_done s" for u
      using inflight_okD(3,8) [OF if_register.prems] by blast+
    note D = inflight_okD [OF if_register.prems]
    have pc: "if_pc (register_or_wait t s) u = (if u = t then Fetching ?i else if_pc s u)" for u
      by (simp add: register_or_wait_def None goto_pc_def)
    have sel: "if_entry (register_or_wait t s) = Some ?i" "if_done (register_or_wait t s) = if_done s"
      "if_next (register_or_wait t s) = Suc ?i" "if_bit (register_or_wait t s) = if_bit s"
      by (simp_all add: register_or_wait_def None goto_pc_def)
    show ?thesis
      unfolding inflight_ok_def pc sel
    proof (intro conjI allI impI ballI)
      show "\<exists>u. listed (if u = t then Fetching ?i else if_pc s u) = Some io" if "Some ?i = Some io" for io
        using that by (intro exI [of _ t]) simp
      show "Some ?i = Some io" if "listed (if u = t then Fetching ?i else if_pc s u) = Some io" for u io
        using that no by (simp split: if_splits)
      show "io < Suc ?i" if "guards (if u = t then Fetching ?i else if_pc s u) = Some io" for u io
        using that D(3) [of u io] by (simp split: if_splits)
      show "io \<notin> if_done s" if "guards (if u = t then Fetching ?i else if_pc s u) = Some io" for u io
        using that D(3) [of u io] fresh(2) by (auto split: if_splits)
      show "u = v" if "guards (if u = t then Fetching ?i else if_pc s u) = Some io"
        "guards (if v = t then Fetching ?i else if_pc s v) = Some io" for u v io
        using that D(4) [of u io v] fresh(1) by (auto split: if_splits)
      show "if_bit s" if "has_result (if u = t then Fetching ?i else if_pc s u)" for u
        using that D(5) [of u] by (simp split: if_splits)
      have keep: "\<exists>v. guards (if v = t then Fetching ?i else if_pc s v) = Some io" if "guards (if_pc s v) = Some io" for v io
        using that if_register.hyps by (intro exI [of _ v]) auto
      show "io \<in> if_done s \<or> (\<exists>v. guards (if v = t then Fetching ?i else if_pc s v) = Some io)"
        if "(if u = t then Fetching ?i else if_pc s u) = Awaiting io" for u io
      proof -
        have "if_pc s u = Awaiting io" using that by (simp split: if_splits)
        then show ?thesis using D(6) keep by blast
      qed
      show "\<exists>v. guards (if v = t then Fetching ?i else if_pc s v) = Some io"
        if "(if u = t then Fetching ?i else if_pc s u) = Sleeping io" for u io
      proof -
        have "if_pc s u = Sleeping io" using that by (simp split: if_splits)
        then show ?thesis using D(7) keep by blast
      qed
      show "io < Suc ?i" if "io \<in> if_done s" for io using D(8) [OF that] by simp
    qed
  next
    case (Some io)
    then obtain u where "listed (if_pc s u) = Some io" using inflight_okD(1) [OF if_register.prems] by blast
    then have "\<exists>u. guards (if_pc s u) = Some io" using listed_guards by blast
    then show ?thesis
      using if_register Some by (auto simp: register_or_wait_def intro!: goto_plain)
  qed
next
  case (if_wait s t io)
  then show ?case using inflight_okD(6) [OF if_wait.prems if_wait.hyps] by (intro goto_plain) (auto split: if_splits)
next
  case (if_spurious s t io)
  then show ?case by (intro goto_plain) auto
next
  case (if_timeout s t io)
  then show ?case by (intro goto_plain) auto
next
  case (if_fetched s t io)
  then show ?case by (intro goto_holder) auto
next
  case (if_failed s t io)
  then show ?case using goto_holder [where b = "if_bit s" and p = "Removing io FetchFailed", OF if_failed.prems, of t io] by simp
next
  case (if_panic s t io)
  then show ?case by simp
next
  case (if_remove s t io r)
  then show ?case by (simp add: goto_unlisted)
next
  case (if_leave s t io r)
  then show ?case by (simp add: leave_ok)
qed

text \<open>
  C37: in every interleaving of readers of one chunk whose source does not panic: at most one thread
  fetches the chunk at a time; a reader that returns without an error finds the chunk's bit set,
  and it is set only after a fetch succeeded; and a reader that sleeps is always woken, for some
  thread still holds the fetch it sleeps on.
\<close>

theorem one_fetch_at_a_time:
  assumes "(inflight_step False)\<^sup>*\<^sup>* (inflight_new b) s"
  shows "(\<forall>t u io io'. if_pc s t = Fetching io \<longrightarrow> if_pc s u = Fetching io' \<longrightarrow> t = u) \<and>
    (\<forall>t. if_pc s t = Returned FetchOk \<longrightarrow> if_bit s) \<and>
    (\<forall>t io. if_pc s t = Sleeping io \<longrightarrow> (\<exists>u r. if_pc s u = Fetching io \<or> if_pc s u = Removing io r \<or> if_pc s u = Leaving io r))"
proof -
  have ok: "inflight_ok s"
    using assms
  proof (induction rule: rtranclp_induct)
    case base
    show ?case by (simp add: inflight_ok_def inflight_new_def)
  next
    case (step s s')
    then show ?case using inflight_step_ok by blast
  qed
  have "t = u" if "if_pc s t = Fetching io" "if_pc s u = Fetching io'" for t u io io'
  proof -
    have "if_entry s = Some io" "if_entry s = Some io'"
      using inflight_okD(2) [OF ok, of t io] inflight_okD(2) [OF ok, of u io'] that by simp_all
    then show ?thesis using inflight_okD(4) [OF ok, of t io u] that by simp
  qed
  moreover have "if_bit s" if "if_pc s t = Returned FetchOk" for t using inflight_okD(5) [OF ok, of t] that by simp
  moreover have "\<exists>u r. if_pc s u = Fetching io \<or> if_pc s u = Removing io r \<or> if_pc s u = Leaving io r"
    if sl: "if_pc s t = Sleeping io" for t io
  proof -
    obtain u where "guards (if_pc s u) = Some io" using inflight_okD(7) [OF ok sl] by blast
    then show ?thesis by (cases "if_pc s u") auto
  qed
  ultimately show ?thesis by blast
qed

theorem one_fetch_at_a_time_witness:
  "\<exists>s. (inflight_step False)\<^sup>*\<^sup>* (inflight_new False) s \<and> if_pc s 0 = Fetching 0 \<and> (\<forall>u io. if_pc s u = Fetching io \<longrightarrow> u = 0)"
proof -
  define s1 where "s1 = goto_pc 0 Registering (inflight_new False)"
  have "inflight_step False (inflight_new False) s1"
    using inflight_step.if_load [of "inflight_new False" 0 False] by (simp add: s1_def inflight_new_def)
  moreover have "inflight_step False s1 (register_or_wait 0 s1)"
    by (rule inflight_step.if_register) (simp add: s1_def goto_pc_def)
  ultimately have run: "(inflight_step False)\<^sup>*\<^sup>* (inflight_new False) (register_or_wait 0 s1)"
    by (meson rtranclp.rtrancl_into_rtrancl rtranclp.rtrancl_refl)
  have "if_pc (register_or_wait 0 s1) 0 = Fetching 0"
    by (simp add: register_or_wait_def s1_def goto_pc_def inflight_new_def)
  with one_fetch_at_a_time [OF run] run show ?thesis by blast
qed

text \<open>
  A panic of the source leaves the entry of its finished fetch behind: from then on no thread can
  fetch the chunk or return, every one that looks goes round the loop without ever sleeping.
\<close>

definition abandoned :: "inflight \<Rightarrow> bool" where
  "abandoned s \<longleftrightarrow> \<not> if_bit s \<and> (\<exists>io. if_entry s = Some io \<and> if_done s = {io} \<and>
     (\<forall>t. if_pc s t \<in> {AtLoad, Registering, Awaiting io, Returned FetchPanic}))"

lemma abandoned_pc:
  assumes "abandoned s"
  shows "if_pc s t \<in> {AtLoad, Registering, Returned FetchPanic} \<or> (\<exists>io. if_pc s t = Awaiting io \<and> if_done s = {io})"
    "\<not> if_bit s"
  using assms unfolding abandoned_def by blast+

lemma abandoned_goto:
  assumes "abandoned s" "p \<in> {AtLoad, Registering, Returned FetchPanic} \<or> (\<exists>io. p = Awaiting io \<and> if_entry s = Some io)"
  shows "abandoned (goto_pc t p s)"
  using assms by (auto simp: abandoned_def goto_pc_def)

lemma abandoned_step: "inflight_step panics s s' \<Longrightarrow> abandoned s \<Longrightarrow> abandoned s'"
proof (induction rule: inflight_step.induct)
  case (if_load s t)
  then show ?case using abandoned_pc(2) [OF if_load.prems] by (simp add: abandoned_goto)
next
  case (if_register s t)
  then obtain io where "if_entry s = Some io" unfolding abandoned_def by blast
  then show ?case using if_register.prems by (simp add: register_or_wait_def abandoned_goto)
next
  case (if_wait s t io)
  then have "io \<in> if_done s" using abandoned_pc(1) [OF if_wait.prems, of t] by auto
  then show ?case using if_wait.prems by (simp add: abandoned_goto)
next
  case (if_spurious s t io)
  then show ?case using abandoned_pc(1) [OF if_spurious.prems, of t] by auto
next
  case (if_timeout s t io)
  then show ?case using abandoned_pc(1) [OF if_timeout.prems, of t] by auto
next
  case (if_fetched s t io)
  then show ?case using abandoned_pc(1) [OF if_fetched.prems, of t] by auto
next
  case (if_failed s t io)
  then show ?case using abandoned_pc(1) [OF if_failed.prems, of t] by auto
next
  case (if_panic s t io)
  then show ?case using abandoned_pc(1) [OF if_panic.prems, of t] by auto
next
  case (if_remove s t io r)
  then show ?case using abandoned_pc(1) [OF if_remove.prems, of t] by auto
next
  case (if_leave s t io r)
  then show ?case using abandoned_pc(1) [OF if_leave.prems, of t] by auto
qed

lemma panic_blocks_chunk:
  "\<exists>s. (inflight_step True)\<^sup>*\<^sup>* (inflight_new False) s \<and> abandoned s \<and>
    (\<forall>s' t. (inflight_step True)\<^sup>*\<^sup>* s s' \<longrightarrow> if_pc s' t \<noteq> Returned FetchOk)"
proof -
  define s1 where "s1 = goto_pc 0 Registering (inflight_new False)"
  define s2 where "s2 = register_or_wait 0 s1"
  define s3 where "s3 = goto_pc 0 (Leaving 0 FetchPanic) s2"
  define s4 where "s4 = goto_pc 0 (Returned FetchPanic) (io_done 0 s3)"
  have "inflight_step True (inflight_new False) s1"
    using inflight_step.if_load [of "inflight_new False" 0 True] by (simp add: s1_def inflight_new_def)
  moreover have "inflight_step True s1 s2"
    unfolding s2_def by (rule inflight_step.if_register) (simp add: s1_def goto_pc_def)
  moreover have "inflight_step True s2 s3"
    unfolding s3_def by (rule inflight_step.if_panic) (simp_all add: s2_def register_or_wait_def s1_def goto_pc_def inflight_new_def)
  moreover have "inflight_step True s3 s4"
    unfolding s4_def by (rule inflight_step.if_leave) (simp add: s3_def goto_pc_def)
  ultimately have run: "(inflight_step True)\<^sup>*\<^sup>* (inflight_new False) s4" by (meson rtranclp.rtrancl_into_rtrancl rtranclp.rtrancl_refl)
  have ab: "abandoned s4"
    by (simp add: abandoned_def s4_def s3_def s2_def s1_def io_done_def register_or_wait_def goto_pc_def inflight_new_def)
  have "if_pc s' t \<noteq> Returned FetchOk" if "(inflight_step True)\<^sup>*\<^sup>* s4 s'" for s' t
  proof -
    from that ab have "abandoned s'" by (induction rule: rtranclp_induct) (auto intro: abandoned_step)
    from abandoned_pc(1) [OF this, of t] show ?thesis by auto
  qed
  with run ab show ?thesis by blast
qed

end
