(* ===== verification/Backend.thy ===== *)
theory Backend
  imports Prelude Utils
begin

text \<open>
  \<open>src/backend/mod.rs\<close> and \<open>src/backend/general.rs\<close>: the interface of a data source and the source that
  reads an object of a storage backend.  A source is a record of operations over a state; a fetch
  takes the caller's buffer and returns it as left behind, with the number of bytes or an error.  The
  locale \<open>backend\<close> is the contract of a source of a fixed image; caches and deduplication
  rely on it and provide it again.
\<close>

definition CHUNK_SIZE :: nat where "CHUNK_SIZE = 4 * 1024 * 1024"

lemma CHUNK_SIZE_pos [simp]: "0 < CHUNK_SIZE"
  by (simp add: CHUNK_SIZE_def)

record 'b backend_ops =
  be_size :: "'b \<Rightarrow> nat"
  be_fetch :: "'b \<Rightarrow> nat \<Rightarrow> bytes \<Rightarrow> 'b \<times> bytes \<times> (error + nat)"

record 'b backend_ex_ops = "'b backend_ops" +
  be_invalidate :: "'b \<Rightarrow> nat \<Rightarrow> 'b \<times> (error + unit)"

text \<open>
  The default \<open>write_to_fuse_writer\<close>; the writer of the FUSE library is the function \<open>fw\<close> over its state.
\<close>

definition default_write_to_fuse_writer ::
  "('b, 'm) backend_ops_scheme \<Rightarrow> ('w \<Rightarrow> bytes \<Rightarrow> 'w \<times> (error + nat)) \<Rightarrow> 'b \<Rightarrow> nat \<Rightarrow> nat \<Rightarrow> 'w \<Rightarrow>
   'b \<times> 'w \<times> (error + nat)" where
  "default_write_to_fuse_writer B fw b off sz w =
     (case be_fetch B b off (replicate sz 0) of
        (b', buf, Inl e) \<Rightarrow> (b', w, Inl e)
      | (b', buf, Inr n) \<Rightarrow>
          (if n > length buf then (b', w, Inl Panic)
           else case fw w (take n buf) of (w', r) \<Rightarrow> (b', w', r)))"

text \<open>\<open>Backend for Arc<T>\<close> passes size, fetch and invalidation on and keeps the default writer.\<close>

definition arc_ops :: "('b, 'm) backend_ex_ops_scheme \<Rightarrow> 'b backend_ex_ops" where
  "arc_ops B = \<lparr>be_size = \<lambda>b. be_size B b, be_fetch = \<lambda>b off buf. be_fetch B b off buf,
                be_invalidate = \<lambda>b i. be_invalidate B b i\<rparr>"

text \<open>
  The FUSE writer is not part of the repository: a write that succeeds appends all it was given to
  the output, a write that fails leaves the output as it was.  A streaming operation of a source,
  given such a writer, appends the bytes of the image.
\<close>

definition writer_ok :: "('w \<Rightarrow> bytes \<Rightarrow> 'w \<times> (error + nat)) \<Rightarrow> ('w \<Rightarrow> bytes) \<Rightarrow> bool" where
  "writer_ok fw out \<longleftrightarrow> (\<forall>w d w' r. fw w d = (w', r) \<longrightarrow>
     (case r of Inl e \<Rightarrow> out w' = out w | Inr n \<Rightarrow> n = length d \<and> out w' = out w @ d))"

definition stream_ok ::
  "('b \<Rightarrow> nat \<Rightarrow> nat \<Rightarrow> 'w \<Rightarrow> 'b \<times> 'w \<times> (error + nat)) \<Rightarrow> ('b \<Rightarrow> bool) \<Rightarrow> bytes \<Rightarrow> ('w \<Rightarrow> bytes) \<Rightarrow> bool" where
  "stream_ok S I img out \<longleftrightarrow> (\<forall>b off n w b' w' r. I b \<longrightarrow> off < length img \<longrightarrow> n < 2 ^ 32 \<longrightarrow>
     S b off n w = (b', w', r) \<longrightarrow> I b' \<and>
     (isl r \<or> r = Inr (min n (length img - off)) \<and> out w' = out w @ slice img off (off + min n (length img - off))))"

lemma writer_okD:
  "writer_ok fw out \<Longrightarrow> fw w d = (w', Inl e) \<Longrightarrow> out w' = out w"
  "writer_ok fw out \<Longrightarrow> fw w d = (w', Inr n) \<Longrightarrow> n = length d \<and> out w' = out w @ d"
  unfolding writer_ok_def by fastforce+

lemma stream_okD:
  "stream_ok S I img out \<Longrightarrow> I b \<Longrightarrow> off < length img \<Longrightarrow> n < 2 ^ 32 \<Longrightarrow> S b off n w = (b', w', r) \<Longrightarrow> I b' \<and>
     (isl r \<or> r = Inr (min n (length img - off)) \<and> out w' = out w @ slice img off (off + min n (length img - off)))"
  unfolding stream_ok_def by blast

subsection \<open>The contract of a source\<close>

locale backend =
  fixes B :: "('b, 'm) backend_ops_scheme" and inv :: "'b \<Rightarrow> bool" and img :: bytes
  assumes size_image: "inv b \<Longrightarrow> be_size B b = length img"
    and image_range: "inv b \<Longrightarrow> length img < 2 ^ 63"
    and fetch_inv: "inv b \<Longrightarrow> be_fetch B b off buf = (b', buf', r) \<Longrightarrow> inv b'"
    and fetch_len: "inv b \<Longrightarrow> be_fetch B b off buf = (b', buf', r) \<Longrightarrow> length buf' = length buf"
    and fetch_ok: "inv b \<Longrightarrow> be_fetch B b off buf = (b', buf', Inr n) \<Longrightarrow> off < length img \<Longrightarrow> length buf < 2 ^ 63 \<Longrightarrow>
      n = min (length buf) (length img - off) \<and> take n buf' = slice img off (off + n)"
begin

lemma fetch_inside:
  assumes "inv b" "be_fetch B b off buf = (b', buf', Inr n)" "off + length buf \<le> length img" "buf \<noteq> []"
  shows "n = length buf" "buf' = slice img off (off + length buf)"
proof -
  have len: "length buf < 2 ^ 63" "off < length img" using assms image_range [OF assms(1)] by (auto simp flip: length_greater_0_conv)
  show n: "n = length buf" using fetch_ok [OF assms(1,2) len(2,1)] assms(3) by simp
  show "buf' = slice img off (off + length buf)"
    using fetch_ok [OF assms(1,2) len(2,1)] fetch_len [OF assms(1,2)] n by simp
qed

text \<open>What the default writer hands to the FUSE writer is a prefix of the image at the offset.\<close>

lemma default_write:
  assumes "inv b" "off < length img" "sz < 2 ^ 63"
    and "default_write_to_fuse_writer B fw b off sz w = (b', w', Inr m)"
  shows "inv b' \<and> fw w (slice img off (off + min sz (length img - off))) = (w', Inr m)"
proof -
  obtain b1 buf r where f: "be_fetch B b off (replicate sz 0) = (b1, buf, r)" by (metis prod_cases3)
  show ?thesis
  proof (cases r)
    case (Inl e)
    with assms(4) f show ?thesis by (simp add: default_write_to_fuse_writer_def)
  next
    case (Inr n)
    define k where "k = min sz (length img - off)"
    have len: "length buf = sz" using fetch_len [OF assms(1) f] by simp
    have sz: "length (replicate sz (0 :: byte)) < 2 ^ 63" using assms(3) by simp
    have h: "n = min sz (length img - off) \<and> take n buf = slice img off (off + n)"
      using fetch_ok [OF assms(1) f [unfolded Inr] assms(2) sz] unfolding length_replicate .
    from h have n: "n = k" by (simp only: k_def)
    from h have t: "take n buf = slice img off (off + n)" by (rule conjunct2)
    have "k \<le> length buf" by (simp add: len k_def)
    then show ?thesis
      unfolding k_def [symmetric] using assms(4) f fetch_inv [OF assms(1) f] t n Inr
      by (auto simp: default_write_to_fuse_writer_def split: prod.splits)
  qed
qed

lemma default_stream:
  assumes "writer_ok fw out"
  shows "stream_ok (default_write_to_fuse_writer B fw) inv img out"
  unfolding stream_ok_def
proof (intro allI impI)
  fix b off n w b' w' and r :: "error + nat"
  assume a: "inv b" "off < length img" "n < (2 :: nat) ^ 32"
    and run: "default_write_to_fuse_writer B fw b off n w = (b', w', r)"
  have "n < 2 ^ 63" by (rule less_trans [OF a(3)]) simp
  note d = default_write [OF a(1,2) this]
  have "inv b'" using run fetch_inv [OF a(1)] unfolding default_write_to_fuse_writer_def
    by (auto split: prod.splits sum.splits if_splits)
  moreover have "r = Inr (min n (length img - off)) \<and> out w' = out w @ slice img off (off + min n (length img - off))"
    if r: "r = Inr m" for m
  proof -
    have "fw w (slice img off (off + min n (length img - off))) = (w', Inr m)" using d [of fw w b' w' m] run r by simp
    from writer_okD(2) [OF assms this] r show ?thesis using a(2) by (simp add: bytes_simps)
  qed
  ultimately show "inv b' \<and> (isl r \<or> r = Inr (min n (length img - off)) \<and>
      out w' = out w @ slice img off (off + min n (length img - off)))" by (cases r) auto
qed

end

text \<open>A source that can also drop a cached chunk: dropping keeps the contract.\<close>

locale backend_ex = backend B inv img
  for B :: "('b, 'm) backend_ex_ops_scheme" and inv :: "'b \<Rightarrow> bool" and img :: bytes +
  assumes invalidate_inv: "inv b \<Longrightarrow> be_invalidate B b i = (b', r) \<Longrightarrow> inv b'"

subsection \<open>The storage backend reader\<close>

text \<open>The blob reader and the factory of the \<open>nydus\<close> crates are arguments.\<close>

record 'r blob_ops =
  blob_size :: "'r \<Rightarrow> error + nat"
  blob_read :: "'r \<Rightarrow> bytes \<Rightarrow> nat \<Rightarrow> 'r \<times> bytes \<times> (error + nat)"

record 'r BackendReader =
  br_name :: string
  br_size :: nat
  br_reader :: 'r

definition io_other :: "error + 'a \<Rightarrow> error + 'a" where
  "io_other r = (case r of Inl _ \<Rightarrow> Inl (Io Other) | Inr x \<Rightarrow> Inr x)"

definition BackendReader_new :: "'r blob_ops \<Rightarrow> string \<Rightarrow> 'r \<Rightarrow> error + 'r BackendReader" where
  "BackendReader_new R name reader =
     (case io_other (blob_size R reader) of
        Inl e \<Rightarrow> Inl e
      | Inr n \<Rightarrow> Inr \<lparr>br_name = name, br_size = n, br_reader = reader\<rparr>)"

definition BackendReader_ops :: "'r blob_ops \<Rightarrow> 'r BackendReader backend_ex_ops" where
  "BackendReader_ops R =
     \<lparr>be_size = br_size,
      be_fetch = (\<lambda>b off buf. case blob_read R (br_reader b) buf off of
          (r', buf', res) \<Rightarrow> (b\<lparr>br_reader := r'\<rparr>, buf', io_other res)),
      be_invalidate = (\<lambda>b i. (b, Inr ()))\<rparr>"

record ('f, 'c, 'k, 'r) factory =
  open_config :: "string \<Rightarrow> error + 'f"
  from_reader :: "'f \<Rightarrow> error + 'c"
  config_validate :: "'c \<Rightarrow> bool"
  new_backend :: "'c \<Rightarrow> error + 'k"
  backend_get_reader :: "'k \<Rightarrow> string \<Rightarrow> error + 'r"

record ('c, 'k) GeneralBackend =
  gb_config :: 'c
  gb_backend :: 'k

definition GeneralBackend_new :: "('f, 'c, 'k, 'r) factory \<Rightarrow> string \<Rightarrow> error + ('c, 'k) GeneralBackend" where
  "GeneralBackend_new F path =
     (case open_config F path of
        Inl e \<Rightarrow> Inl e
      | Inr file \<Rightarrow>
          (case io_other (from_reader F file) of
             Inl e \<Rightarrow> Inl e
           | Inr cfg \<Rightarrow>
               if \<not> config_validate F cfg then Inl (Io InvalidInput)
               else case io_other (new_backend F cfg) of
                 Inl e \<Rightarrow> Inl e
               | Inr k \<Rightarrow> Inr \<lparr>gb_config = cfg, gb_backend = k\<rparr>))"

definition GeneralBackend_get_reader ::
  "('f, 'c, 'k, 'r) factory \<Rightarrow> 'r blob_ops \<Rightarrow> ('c, 'k) GeneralBackend \<Rightarrow> string \<Rightarrow> error + 'r BackendReader" where
  "GeneralBackend_get_reader F R g object =
     (case io_other (backend_get_reader F (gb_backend g) object) of
        Inl e \<Rightarrow> Inl e
      | Inr r \<Rightarrow> BackendReader_new R object r)"

text \<open>What is relied on of a blob reader of an image.\<close>

definition blob_ok :: "'r blob_ops \<Rightarrow> ('r \<Rightarrow> bool) \<Rightarrow> bytes \<Rightarrow> bool" where
  "blob_ok R I img \<longleftrightarrow> length img < 2 ^ 63 \<and>
     (\<forall>r n. I r \<longrightarrow> blob_size R r = Inr n \<longrightarrow> n = length img) \<and>
     (\<forall>r buf off r' buf' res. I r \<longrightarrow> blob_read R r buf off = (r', buf', res) \<longrightarrow>
        I r' \<and> length buf' = length buf \<and>
        (\<forall>n. res = Inr n \<longrightarrow> off < length img \<longrightarrow>
           n = min (length buf) (length img - off) \<and> take n buf' = slice img off (off + n)))"

definition reader_inv :: "'r blob_ops \<Rightarrow> ('r \<Rightarrow> bool) \<Rightarrow> bytes \<Rightarrow> 'r BackendReader \<Rightarrow> bool" where
  "reader_inv R I img b \<longleftrightarrow> blob_ok R I img \<and> I (br_reader b) \<and> br_size b = length img"

interpretation reader: backend_ex "BackendReader_ops R" "reader_inv R I img" img for R I img
proof (unfold_locales, goal_cases)
  case (3 b off buf b' buf' r)
  then show ?case
    by (auto simp: BackendReader_ops_def reader_inv_def blob_ok_def split: prod.splits)
next
  case (4 b off buf b' buf' r)
  then show ?case
    by (auto simp: BackendReader_ops_def reader_inv_def blob_ok_def split: prod.splits)
next
  case (5 b off buf b' buf' n)
  obtain r' res where rd: "blob_read R (br_reader b) buf off = (r', buf', res)" and "io_other res = Inr n"
    using 5(2) by (auto simp: BackendReader_ops_def split: prod.splits)
  then have "res = Inr n" by (auto simp: io_other_def split: sum.splits)
  with rd 5(1,3) show ?case unfolding reader_inv_def blob_ok_def by blast
qed (auto simp: BackendReader_ops_def reader_inv_def blob_ok_def)

text \<open>A reader obtained from a general backend satisfies the contract.\<close>

lemma get_reader_inv:
  assumes "blob_ok R I img" "\<And>r. backend_get_reader F (gb_backend g) object = Inr r \<Longrightarrow> I r"
    and "GeneralBackend_get_reader F R g object = Inr b"
  shows "reader_inv R I img b" "br_name b = object"
  using assms
  by (auto simp: GeneralBackend_get_reader_def BackendReader_new_def io_other_def reader_inv_def blob_ok_def split: sum.splits)

subsection \<open>A source in memory\<close>

text \<open>A source that holds its image and answers every fetch in full; the witnesses use it.\<close>

definition mem_source :: "bytes backend_ex_ops" where
  "mem_source =
     \<lparr>be_size = length,
      be_fetch = (\<lambda>b off buf. let n = min (length buf) (length b - off) in
        (b, splice buf 0 (slice b off (off + n)), Inr n)),
      be_invalidate = (\<lambda>b i. (b, Inr ()))\<rparr>"

lemma mem_source_backend:
  assumes "length img < 2 ^ 63"
  shows "backend mem_source (\<lambda>b. b = img) img"
proof (unfold_locales, goal_cases)
  case (5 b off buf b' buf' n)
  have l: "length (slice img off (off + n)) = n" using 5 by (auto simp: mem_source_def Let_def length_slice)
  have "buf' = splice buf 0 (slice img off (off + n))" "n = min (length buf) (length img - off)"
    using 5 by (auto simp: mem_source_def Let_def)
  then show ?case using take_splice [of 0 "slice img off (off + n)" buf] l by simp
qed (use assms in \<open>auto simp: mem_source_def Let_def splice_def slice_def\<close>)

lemma mem_source_backend_ex: "length img < 2 ^ 63 \<Longrightarrow> backend_ex mem_source (\<lambda>b. b = img) img"
  by (intro backend_ex.intro mem_source_backend backend_ex_axioms.intro) (simp_all add: mem_source_def [THEN arg_cong [of _ _ be_invalidate]])

text \<open>A writer that appends.\<close>

definition mem_writer :: "bytes \<Rightarrow> bytes \<Rightarrow> bytes \<times> (error + nat)" where
  "mem_writer w d = (w @ d, Inr (length d))"

lemma mem_writer_ok: "writer_ok mem_writer id"
  by (simp add: writer_ok_def mem_writer_def)

end
