(* ===== verification/Cache.thy ===== *)
theory Cache
  imports Backend
begin

text \<open>
  \<open>src/backend/cache.rs\<close>: a file cache of a source, by chunks of 4 MiB.  The state holds the mapped
  cache file, the mapped bitmap with one bit per cached chunk, and the source.  Reads fill missing
  chunks from the source first.  The operations here run one after the other; the protocol by which
  concurrent readers of one chunk wait for each other is in \<open>InFlight\<close>.
\<close>

subsection \<open>The bitmap\<close>

definition bitmap_file_size :: "nat \<Rightarrow> nat \<Rightarrow> nat option" where
  "bitmap_file_size page sz =
     (case align_up usize_max sz CHUNK_SIZE of
        None \<Rightarrow> None
      | Some a \<Rightarrow>
          (case align_up usize_max (a div CHUNK_SIZE) 8 of
             None \<Rightarrow> None
           | Some b \<Rightarrow> Some (max (b div 8) page)))"

text \<open>
  The compare-exchange loops of \<open>set_bit\<close> and \<open>clear_bit\<close>, as one attempt: what the byte becomes when
  the exchange finds the value that was loaded, and no change when it does not.
\<close>

definition bit_set :: "byte \<Rightarrow> nat \<Rightarrow> bool" where
  "bit_set b i \<longleftrightarrow> b AND push_bit i 1 \<noteq> 0"

definition set_bit_value :: "byte \<Rightarrow> nat \<Rightarrow> byte" where
  "set_bit_value old i = old OR push_bit i 1"

definition clear_bit_value :: "byte \<Rightarrow> nat \<Rightarrow> byte" where
  "clear_bit_value old i = old AND NOT (push_bit i 1)"

text \<open>One iteration on the current value: \<open>loaded\<close> may be stale; the flag says whether the loop ends.\<close>

definition rmw_attempt :: "(byte \<Rightarrow> byte) \<Rightarrow> byte \<Rightarrow> byte \<Rightarrow> byte \<times> bool" where
  "rmw_attempt f loaded current =
     (let new = f loaded in
      if loaded = new then (current, True)
      else if current = loaded then (new, True)
      else (current, False))"

definition set_bit :: "byte \<Rightarrow> nat \<Rightarrow> byte" where
  "set_bit b i = fst (rmw_attempt (\<lambda>v. set_bit_value v i) b b)"

definition clear_bit :: "byte \<Rightarrow> nat \<Rightarrow> byte" where
  "clear_bit b i = fst (rmw_attempt (\<lambda>v. clear_bit_value v i) b b)"

lemma bit_set_bit: "i < 8 \<Longrightarrow> bit_set b i \<longleftrightarrow> bit b i"
proof -
  assume i: "i < 8"
  have "bit (b AND push_bit i 1) j \<longleftrightarrow> j = i \<and> bit b i" for j
    using i by (auto simp: bit_simps)
  then show ?thesis unfolding bit_set_def by (metis bit_0_eq bot_apply bot_bool_def bit_eqI)
qed

lemma set_bit_alone: "set_bit b i = set_bit_value b i"
  by (simp add: set_bit_def rmw_attempt_def Let_def)

lemma clear_bit_alone: "clear_bit b i = clear_bit_value b i"
  by (simp add: clear_bit_def rmw_attempt_def Let_def)

lemma bit_set_set_bit: "i < 8 \<Longrightarrow> j < 8 \<Longrightarrow> bit_set (set_bit b i) j \<longleftrightarrow> j = i \<or> bit_set b j"
  by (auto simp: bit_set_bit set_bit_alone set_bit_value_def bit_simps)

lemma bit_set_clear_bit: "i < 8 \<Longrightarrow> j < 8 \<Longrightarrow> bit_set (clear_bit b i) j \<longleftrightarrow> j \<noteq> i \<and> bit_set b j"
  by (auto simp: bit_set_bit clear_bit_alone clear_bit_value_def bit_simps)

text \<open>
  Interleaved updates: any number of threads set and clear bits of one byte.  A thread that has not
  finished loads the current value and then attempts its exchange; the steps of the threads
  interleave.  \<open>Idle\<close> is a thread before its load, \<open>Loaded\<close> one that holds a value, \<open>Finished\<close> one that
  has ended its loop.
\<close>

datatype bit_thread = Idle "byte \<Rightarrow> byte" | Loaded "byte \<Rightarrow> byte" byte | Finished

inductive bit_step :: "byte \<times> bit_thread list \<Rightarrow> byte \<times> bit_thread list \<Rightarrow> bool" where
  load: "i < length ts \<Longrightarrow> ts ! i = Idle f \<Longrightarrow> bit_step (v, ts) (v, ts[i := Loaded f v])"
| attempt_done: "i < length ts \<Longrightarrow> ts ! i = Loaded f l \<Longrightarrow> rmw_attempt f l v = (v', True) \<Longrightarrow>
    bit_step (v, ts) (v', ts[i := Finished])"
| attempt_again: "i < length ts \<Longrightarrow> ts ! i = Loaded f l \<Longrightarrow> rmw_attempt f l v = (v', False) \<Longrightarrow>
    bit_step (v, ts) (v', ts[i := Idle f])"

inductive_cases bit_stepE: "bit_step (v, ts) (v', ts')"


text \<open>The threads of readers only set bits: none of their updates is lost and no other bit is set.\<close>

definition bits_le :: "byte \<Rightarrow> byte \<Rightarrow> bool" where
  "bits_le a b \<longleftrightarrow> (\<forall>j < 8. bit_set a j \<longrightarrow> bit_set b j)"

definition setter :: "nat \<Rightarrow> byte \<Rightarrow> byte" where
  "setter k v = set_bit_value v k"

definition thread_ok :: "byte \<Rightarrow> nat \<Rightarrow> bit_thread \<Rightarrow> bool" where
  "thread_ok v k t \<longleftrightarrow> (case t of
     Idle f \<Rightarrow> f = setter k
   | Loaded f l \<Rightarrow> f = setter k \<and> bits_le l v
   | Finished \<Rightarrow> bit_set v k)"

definition bits_inv :: "byte \<Rightarrow> nat list \<Rightarrow> byte \<times> bit_thread list \<Rightarrow> bool" where
  "bits_inv v0 ks s \<longleftrightarrow> length (snd s) = length ks \<and> (\<forall>k \<in> set ks. k < 8) \<and>
     (\<forall>i < length ks. thread_ok (fst s) (ks ! i) (snd s ! i)) \<and> bits_le v0 (fst s) \<and>
     (\<forall>j < 8. bit_set (fst s) j \<longrightarrow> bit_set v0 j \<or> j \<in> set ks)"

lemma bits_le_refl [simp]: "bits_le v v"
  by (simp add: bits_le_def)

lemma bits_le_trans: "bits_le a b \<Longrightarrow> bits_le b c \<Longrightarrow> bits_le a c"
  by (simp add: bits_le_def)

lemma setter_bits: "k < 8 \<Longrightarrow> j < 8 \<Longrightarrow> bit_set (setter k v) j \<longleftrightarrow> j = k \<or> bit_set v j"
  using bit_set_set_bit [of k j v] by (simp add: setter_def set_bit_alone)

lemma thread_ok_mono: "thread_ok v k t \<Longrightarrow> bits_le v v' \<Longrightarrow> k < 8 \<Longrightarrow> thread_ok v' k t"
  by (cases t) (auto simp: thread_ok_def bits_le_def)

lemma bits_inv_update:
  assumes "bits_inv v0 ks (v, ts)" "i < length ts" "bits_le v v'" "thread_ok v' (ks ! i) t"
    and "\<forall>j < 8. bit_set v' j \<longrightarrow> bit_set v j \<or> j = ks ! i"
  shows "bits_inv v0 ks (v', ts[i := t])"
  using assms bits_le_trans [of v0 v v'] thread_ok_mono [of v _ _ v']
  by (auto simp: bits_inv_def nth_list_update)

lemma bits_invD: "bits_inv v0 ks (v, ts) \<Longrightarrow> i < length ts \<Longrightarrow> thread_ok v (ks ! i) (ts ! i) \<and> ks ! i < 8"
  by (auto simp: bits_inv_def)

lemma bits_inv_step:
  assumes "bit_step s s'" "bits_inv v0 ks s"
  shows "bits_inv v0 ks s'"
  using assms
proof (cases rule: bit_step.cases)
  case (load i ts f v)
  then have "thread_ok v (ks ! i) (Idle f)" using assms(2) bits_invD by metis
  then show ?thesis using load assms(2) by (simp add: bits_inv_update thread_ok_def)
next
  case (attempt_done i ts f l v v')
  then have t: "thread_ok v (ks ! i) (Loaded f l)" "ks ! i < 8" using assms(2) bits_invD by metis+
  then have f: "f = setter (ks ! i)" and l: "bits_le l v" by (simp_all add: thread_ok_def)
  have r: "v' = v \<and> l = setter (ks ! i) l \<or> v' = setter (ks ! i) v"
    using attempt_done(5) f by (auto simp: rmw_attempt_def Let_def split: if_splits)
  have set: "bit_set (setter (ks ! i) u) (ks ! i)" for u using t(2) by (simp add: setter_bits)
  have "bits_le v v'" using r t(2) by (auto simp: bits_le_def setter_bits)
  moreover have "bit_set v' (ks ! i)"
  proof (cases "v' = setter (ks ! i) v")
    case False
    with r have "v' = v" "l = setter (ks ! i) l" by auto
    with set [of l] l t(2) show ?thesis by (simp add: bits_le_def)
  qed (simp add: set)
  moreover have "\<forall>j < 8. bit_set v' j \<longrightarrow> bit_set v j \<or> j = ks ! i" using r t(2) by (auto simp: setter_bits)
  ultimately show ?thesis using attempt_done assms(2) by (simp add: bits_inv_update thread_ok_def)
next
  case (attempt_again i ts f l v v')
  then have "thread_ok v (ks ! i) (Loaded f l)" using assms(2) bits_invD by metis
  moreover have "v' = v" using attempt_again(5) by (auto simp: rmw_attempt_def Let_def split: if_splits)
  ultimately show ?thesis using attempt_again assms(2) by (simp add: bits_inv_update thread_ok_def)
qed

text \<open>
  C27: any number of threads set bits of one byte of the bitmap, in any interleaving of their loads and
  exchanges.  When all have ended their loops, exactly the bits set before and the bits of the
  threads are set.
\<close>

theorem concurrent_set_bits:
  assumes "\<forall>k \<in> set ks. k < 8" "bit_step\<^sup>*\<^sup>* (v0, map (\<lambda>k. Idle (setter k)) ks) (v, ts)" "\<forall>t \<in> set ts. t = Finished"
    and "j < 8"
  shows "bit_set v j \<longleftrightarrow> bit_set v0 j \<or> j \<in> set ks"
proof -
  have "bits_inv v0 ks (v0, map (\<lambda>k. Idle (setter k)) ks)"
    using assms(1) by (simp add: bits_inv_def thread_ok_def)
  with assms(2) have "bits_inv v0 ks (v, ts)"
    by (induction rule: rtranclp_induct) (auto intro: bits_inv_step)
  then have inv: "length ts = length ks" "\<forall>i < length ks. thread_ok v (ks ! i) (ts ! i)" "bits_le v0 v"
    "\<forall>j < 8. bit_set v j \<longrightarrow> bit_set v0 j \<or> j \<in> set ks" by (simp_all add: bits_inv_def)
  have "bit_set v (ks ! i)" if "i < length ks" for i
  proof -
    have "ts ! i = Finished" using that inv(1) assms(3) by simp
    then show ?thesis using that inv(2) by (auto simp: thread_ok_def)
  qed
  then show ?thesis using inv(3,4) assms(4) by (auto simp: bits_le_def in_set_conv_nth)
qed

theorem concurrent_set_bits_witness:
  "\<exists>v. bit_step\<^sup>*\<^sup>* (4, map (\<lambda>k. Idle (setter k)) [0, 1]) (v, [Finished, Finished]) \<and> bit_set v 0 \<and> bit_set v 1 \<and> bit_set v 2 \<and> \<not> bit_set v 3"
proof -
  let ?f = "setter 0" and ?g = "setter 1"
  have "bit_step (4, [Idle ?f, Idle ?g]) (4, [Loaded ?f 4, Idle ?g])" using load [of 0 "[Idle ?f, Idle ?g]"] by simp
  moreover have "bit_step (4, [Loaded ?f 4, Idle ?g]) (4, [Loaded ?f 4, Loaded ?g 4])"
    using load [of 1 "[Loaded ?f 4, Idle ?g]"] by simp
  moreover have "bit_step (4, [Loaded ?f 4, Loaded ?g 4]) (5, [Finished, Loaded ?g 4])"
    using attempt_done [of 0 "[Loaded ?f 4, Loaded ?g 4]" ?f 4 4 5] by (simp add: rmw_attempt_def setter_def set_bit_value_def)
  moreover have "bit_step (5, [Finished, Loaded ?g 4]) (5, [Finished, Idle ?g])"
    using attempt_again [of 1 "[Finished, Loaded ?g 4]" ?g 4 5 5] by (simp add: rmw_attempt_def setter_def set_bit_value_def)
  moreover have "bit_step (5, [Finished, Idle ?g]) (5, [Finished, Loaded ?g 5])" using load [of 1 "[Finished, Idle ?g]"] by simp
  moreover have "bit_step (5, [Finished, Loaded ?g 5]) (7, [Finished, Finished])"
    using attempt_done [of 1 "[Finished, Loaded ?g 5]" ?g 5 5 7] by (simp add: rmw_attempt_def setter_def set_bit_value_def)
  ultimately have run: "bit_step\<^sup>*\<^sup>* (4, map (\<lambda>k. Idle (setter k)) [0, 1]) (7, [Finished, Finished])"
    by (simp add: converse_rtranclp_into_rtranclp)
  have "bit_set 4 2" "\<not> bit_set 4 3" by (simp_all add: bit_set_def)
  then show ?thesis
    using concurrent_set_bits [OF _ run] run by (intro exI [of _ 7]) simp
qed

end
