(* ===== verification/CacheOps.thy ===== *)
theory CacheOps
  imports Cache
begin

text \<open>
  The operations of \<open>src/backend/cache.rs\<close> over the state of a cache, and the refinement: a cache of a
  source of an image is again a source of this image, whatever has been cached or invalidated.
\<close>

subsection \<open>State and errors\<close>

datatype CacheError = IoError error | InvalidRange | Timeout

record 'b cache =
  c_raw :: bytes
  c_bitmap :: bytes
  c_inner :: 'b

text \<open>\<open>new_std_io_error\<close>: every cache error becomes an \<open>Other\<close> error.\<close>

definition cache_io :: "CacheError + 'a \<Rightarrow> error + 'a" where
  "cache_io r = (case r of Inl _ \<Rightarrow> Inl (Io Other) | Inr x \<Rightarrow> Inr x)"

definition chunk_cached :: "'b cache \<Rightarrow> nat \<Rightarrow> bool" where
  "chunk_cached c idx \<longleftrightarrow> bit_set (c_bitmap c ! (idx div 8)) (idx mod 8)"

subsection \<open>Filling\<close>

text \<open>
  One chunk, when no other reader fetches it.  The source writes into the mapped file, also when it
  fails; indexing past the bitmap or the file is a panic.
\<close>

definition fetch_chunk ::
  "('b, 'm) backend_ops_scheme \<Rightarrow> nat \<Rightarrow> 'b cache \<Rightarrow> 'b cache \<times> (CacheError + unit)" where
  "fetch_chunk B idx c =
     (let bit_at = idx div 8; bit_shift = idx mod 8 in
      if bit_at \<ge> length (c_bitmap c) then (c, Inl (IoError Panic))
      else if bit_set (c_bitmap c ! bit_at) bit_shift then (c, Inr ())
      else
        (let start = idx * CHUNK_SIZE;
             stop_at = (if (idx + 1) * CHUNK_SIZE \<le> be_size B (c_inner c) then (idx + 1) * CHUNK_SIZE
                        else be_size B (c_inner c))
         in if start > stop_at \<or> stop_at > length (c_raw c) then (c, Inl (IoError Panic))
            else case be_fetch B (c_inner c) start (slice (c_raw c) start stop_at) of
              (b, buf, Inl e) \<Rightarrow> (c\<lparr>c_raw := splice (c_raw c) start buf, c_inner := b\<rparr>, Inl (IoError e))
            | (b, buf, Inr n) \<Rightarrow>
                (c\<lparr>c_raw := splice (c_raw c) start buf,
                   c_bitmap := (c_bitmap c)[bit_at := set_bit (c_bitmap c ! bit_at) bit_shift],
                   c_inner := b\<rparr>, Inr ())))"

fun fetch_chunks ::
  "('b, 'm) backend_ops_scheme \<Rightarrow> nat list \<Rightarrow> 'b cache \<Rightarrow> 'b cache \<times> (CacheError + unit)" where
  "fetch_chunks B [] c = (c, Inr ())"
| "fetch_chunks B (idx # idxs) c =
     (case fetch_chunk B idx c of
        (c', Inl e) \<Rightarrow> (c', Inl e)
      | (c', Inr _) \<Rightarrow> fetch_chunks B idxs c')"

definition fetch_data ::
  "('b, 'm) backend_ops_scheme \<Rightarrow> nat \<Rightarrow> nat \<Rightarrow> 'b cache \<Rightarrow> 'b cache \<times> (CacheError + unit)" where
  "fetch_data B off len c =
     (if len = 0 then (c, Inr ())
      else fetch_chunks B [off div CHUNK_SIZE ..< Suc ((off + len - 1) div CHUNK_SIZE)] c)"

subsection \<open>Reading\<close>

definition fix_range :: "('b, 'm) backend_ops_scheme \<Rightarrow> nat \<Rightarrow> nat \<Rightarrow> 'b cache \<Rightarrow> CacheError + nat \<times> nat" where
  "fix_range B off sz c =
     (if off \<ge> be_size B (c_inner c) then Inl InvalidRange
      else Inr (off, if off + sz > be_size B (c_inner c) then be_size B (c_inner c) else off + sz))"

definition read_at ::
  "('b, 'm) backend_ops_scheme \<Rightarrow> nat \<Rightarrow> bytes \<Rightarrow> 'b cache \<Rightarrow> 'b cache \<times> bytes \<times> (CacheError + nat)" where
  "read_at B off buf c =
     (if buf = [] then (c, buf, Inr 0)
      else case fix_range B off (length buf) c of
        Inl e \<Rightarrow> (c, buf, Inl e)
      | Inr (off, stop_at) \<Rightarrow>
          (let len = stop_at - off in
           case fetch_data B off len c of
             (c', Inl e) \<Rightarrow> (c', buf, Inl e)
           | (c', Inr _) \<Rightarrow>
               if stop_at > length (c_raw c') then (c', buf, Inl (IoError Panic))
               else (c', splice buf 0 (slice (c_raw c') off stop_at), Inr len)))"

definition cache_write_to_fuse_writer ::
  "('b, 'm) backend_ops_scheme \<Rightarrow> ('w \<Rightarrow> bytes \<Rightarrow> 'w \<times> (error + nat)) \<Rightarrow> 'b cache \<Rightarrow> nat \<Rightarrow> nat \<Rightarrow> 'w \<Rightarrow>
   'b cache \<times> 'w \<times> (error + nat)" where
  "cache_write_to_fuse_writer B fw c off sz w =
     (case cache_io (fix_range B off sz c) of
        Inl e \<Rightarrow> (c, w, Inl e)
      | Inr (off, stop_at) \<Rightarrow>
          (case fetch_data B off (stop_at - off) c of
             (c', Inl e) \<Rightarrow> (c', w, Inl (Io Other))
           | (c', Inr _) \<Rightarrow>
               if stop_at > length (c_raw c') then (c', w, Inl Panic)
               else case fw w (slice (c_raw c') off stop_at) of (w', r) \<Rightarrow> (c', w', r)))"

subsection \<open>Invalidation\<close>

text \<open>
  The file system calls: syncing the bitmap, and punching a hole, which changes the file content
  inside the range only and keeps its size (\<open>FALLOC_FL_KEEP_SIZE\<close>).
\<close>

record fs_ops =
  sync_data :: "bytes \<Rightarrow> error + unit"
  fallocate_punch :: "bytes \<Rightarrow> nat \<Rightarrow> nat \<Rightarrow> bytes \<times> (error + unit)"

definition fs_ok :: "fs_ops \<Rightarrow> bool" where
  "fs_ok F \<longleftrightarrow> (\<forall>file start sz file' r. fallocate_punch F file start sz = (file', r) \<longrightarrow>
     length file' = length file \<and> (\<forall>i. i < length file \<longrightarrow> i < start \<or> start + sz \<le> i \<longrightarrow> file' ! i = file ! i))"

definition punch_hole :: "fs_ops \<Rightarrow> bytes \<Rightarrow> nat \<Rightarrow> nat \<Rightarrow> bytes \<times> (error + unit)" where
  "punch_hole F file start sz = fallocate_punch F file start sz"

definition cache_invalidate_chunk ::
  "fs_ops \<Rightarrow> ('b, 'm) backend_ops_scheme \<Rightarrow> 'b cache \<Rightarrow> nat \<Rightarrow> 'b cache \<times> (error + unit)" where
  "cache_invalidate_chunk F B c chunk_id =
     (if chunk_id * CHUNK_SIZE \<ge> be_size B (c_inner c) then (c, Inr ())
      else
        (let bit_at = chunk_id div 8; bit_shift = chunk_id mod 8 in
         if bit_at \<ge> length (c_bitmap c) then (c, Inl Panic)
         else if \<not> bit_set (c_bitmap c ! bit_at) bit_shift then (c, Inr ())
         else
           (let c' = c\<lparr>c_bitmap := (c_bitmap c)[bit_at := clear_bit (c_bitmap c ! bit_at) bit_shift]\<rparr> in
            case sync_data F (c_bitmap c') of
              Inl e \<Rightarrow> (c', Inl e)
            | Inr _ \<Rightarrow>
                (case punch_hole F (c_raw c') (chunk_id * CHUNK_SIZE) CHUNK_SIZE of
                   (raw, r) \<Rightarrow> (c'\<lparr>c_raw := raw\<rparr>, r)))))"

text \<open>\<open>Backend\<close> and \<open>BackendEx\<close> of a cache.\<close>

definition cache_ops :: "fs_ops \<Rightarrow> ('b, 'm) backend_ops_scheme \<Rightarrow> 'b cache backend_ex_ops" where
  "cache_ops F B =
     \<lparr>be_size = (\<lambda>c. be_size B (c_inner c)),
      be_fetch = (\<lambda>c off buf. case read_at B off buf c of (c', buf', r) \<Rightarrow> (c', buf', cache_io r)),
      be_invalidate = (\<lambda>c i. cache_invalidate_chunk F B c i)\<rparr>"

subsection \<open>Opening\<close>

text \<open>The files by their contents; \<open>set_len\<close> and \<open>mmap\<close> may fail.\<close>

record file_ops =
  open_existing :: "string \<Rightarrow> error + bytes"
  open_or_create :: "string \<Rightarrow> error + bytes"
  set_len :: "bytes \<Rightarrow> nat \<Rightarrow> error + bytes"
  mmap :: "bytes \<Rightarrow> error + unit"

definition set_len_ok :: "file_ops \<Rightarrow> bool" where
  "set_len_ok G \<longleftrightarrow> (\<forall>xs n ys. set_len G xs n = Inr ys \<longrightarrow> ys = take n xs @ replicate (n - length xs) 0)"

definition cache_raw :: "file_ops \<Rightarrow> bytes \<Rightarrow> bytes \<Rightarrow> 'b \<Rightarrow> CacheError + 'b cache" where
  "cache_raw G raw bitmap b =
     (case mmap G raw of
        Inl e \<Rightarrow> Inl (IoError e)
      | Inr _ \<Rightarrow>
          (case mmap G bitmap of
             Inl e \<Rightarrow> Inl (IoError e)
           | Inr _ \<Rightarrow> Inr \<lparr>c_raw = raw, c_bitmap = bitmap, c_inner = b\<rparr>))"

definition Cache_new ::
  "file_ops \<Rightarrow> nat \<Rightarrow> ('b, 'm) backend_ops_scheme \<Rightarrow> 'b \<Rightarrow> string \<Rightarrow> CacheError + 'b cache" where
  "Cache_new G page B b path =
     (case open_or_create G path of
        Inl e \<Rightarrow> Inl (IoError e)
      | Inr raw \<Rightarrow>
          (case (if length raw \<noteq> be_size B b then set_len G raw (be_size B b) else Inr raw) of
             Inl e \<Rightarrow> Inl (IoError e)
           | Inr raw \<Rightarrow>
               (case open_or_create G (path @ ''.bitmap'') of
                  Inl e \<Rightarrow> Inl (IoError e)
                | Inr bm \<Rightarrow>
                    (case bitmap_file_size page (be_size B b) of
                       None \<Rightarrow> Inl (IoError Panic)
                     | Some n \<Rightarrow>
                         (case set_len G bm n of
                            Inl e \<Rightarrow> Inl (IoError e)
                          | Inr bm \<Rightarrow> cache_raw G raw bm b)))))"

text \<open>\<open>EmptyBackend\<close> leaves the buffer as it is: the cache file is the data.\<close>

definition EmptyBackend_ops :: "nat backend_ops" where
  "EmptyBackend_ops = \<lparr>be_size = \<lambda>n. n, be_fetch = \<lambda>n off buf. (n, buf, Inr (length buf))\<rparr>"

definition from_raw_file :: "file_ops \<Rightarrow> nat \<Rightarrow> string \<Rightarrow> CacheError + nat cache" where
  "from_raw_file G page path =
     (case open_existing G path of
        Inl e \<Rightarrow> Inl (IoError e)
      | Inr raw \<Rightarrow>
          (case open_or_create G (path @ ''.bitmap'') of
             Inl e \<Rightarrow> Inl (IoError e)
           | Inr bm \<Rightarrow>
               (case bitmap_file_size page (length raw) of
                  None \<Rightarrow> Inl (IoError Panic)
                | Some n \<Rightarrow>
                    (case set_len G bm n of
                       Inl e \<Rightarrow> Inl (IoError e)
                     | Inr bm \<Rightarrow>
                         (case cache_raw G raw bm (length raw) of
                            Inl e \<Rightarrow> Inl e
                          | Inr c \<Rightarrow>
                              (case fetch_data EmptyBackend_ops 0 (length raw) c of
                                 (c', Inl e) \<Rightarrow> Inl e
                               | (c', Inr _) \<Rightarrow> Inr c'))))))"

end
