(* ===== verification/CacheSpec.thy ===== *)
theory CacheSpec
  imports CacheOps
begin

text \<open>
  The cache refines its source: the invariant says that the cached chunks of the file hold the image,
  every operation keeps it, and reads return the image.
\<close>

subsection \<open>The invariant\<close>

definition cache_inv :: "bytes \<Rightarrow> 'b cache \<Rightarrow> bool" where
  "cache_inv img c \<longleftrightarrow> length (c_raw c) = length img \<and> length img \<le> 8 * length (c_bitmap c) * CHUNK_SIZE \<and>
     (\<forall>i < length img. chunk_cached c (i div CHUNK_SIZE) \<longrightarrow> c_raw c ! i = img ! i)"

definition cache_ok :: "fs_ops \<Rightarrow> ('b, 'm) backend_ops_scheme \<Rightarrow> ('b \<Rightarrow> bool) \<Rightarrow> bytes \<Rightarrow> 'b cache \<Rightarrow> bool" where
  "cache_ok F B I img c \<longleftrightarrow> fs_ok F \<and> backend B I img \<and> I (c_inner c) \<and> cache_inv img c"

lemma cache_okD:
  assumes "cache_ok F B I img c"
  shows "fs_ok F" "backend B I img" "I (c_inner c)" "cache_inv img c" "be_size B (c_inner c) = length img"
    "length img < 2 ^ 63"
proof -
  show "fs_ok F" and b: "backend B I img" and i: "I (c_inner c)" and "cache_inv img c"
    using assms by (simp_all add: cache_ok_def)
  show "be_size B (c_inner c) = length img" "length img < 2 ^ 63"
    using backend.size_image [OF b i] backend.image_range [OF b i] .
qed

lemma cache_ok_raw:
  assumes "cache_ok F B I img c"
  shows "length (c_raw c) = length img" "i < length img \<Longrightarrow> chunk_cached c (i div CHUNK_SIZE) \<Longrightarrow> c_raw c ! i = img ! i"
  using assms by (simp_all add: cache_ok_def cache_inv_def)

lemma chunk_bitmap:
  assumes "cache_inv img c" "idx * CHUNK_SIZE < length img"
  shows "idx div 8 < length (c_bitmap c)"
proof -
  have "length img \<le> 8 * length (c_bitmap c) * CHUNK_SIZE" using assms(1) by (simp only: cache_inv_def)
  with assms(2) have "idx * CHUNK_SIZE < 8 * length (c_bitmap c) * CHUNK_SIZE" by (rule less_le_trans)
  then have "idx < 8 * length (c_bitmap c)" by (simp only: mult_less_cancel2)
  then show ?thesis by linarith
qed

lemma cached_after_set:
  assumes "idx div 8 < length bm"
  shows "bit_set (bm[idx div 8 := set_bit (bm ! (idx div 8)) (idx mod 8)] ! (j div 8)) (j mod 8) \<longleftrightarrow>
    j = idx \<or> bit_set (bm ! (j div 8)) (j mod 8)"
proof (cases "j div 8 = idx div 8")
  case True
  then have "j = idx \<longleftrightarrow> j mod 8 = idx mod 8" by (metis div_mult_mod_eq)
  with True assms show ?thesis by (auto simp: bit_set_set_bit)
next
  case False
  with assms show ?thesis by auto
qed

lemma cached_after_clear:
  assumes "idx div 8 < length bm"
  shows "bit_set (bm[idx div 8 := clear_bit (bm ! (idx div 8)) (idx mod 8)] ! (j div 8)) (j mod 8) \<longleftrightarrow>
    j \<noteq> idx \<and> bit_set (bm ! (j div 8)) (j mod 8)"
proof (cases "j div 8 = idx div 8")
  case True
  then have "j = idx \<longleftrightarrow> j mod 8 = idx mod 8" by (metis div_mult_mod_eq)
  with True assms show ?thesis by (auto simp: bit_set_clear_bit)
next
  case False
  with assms show ?thesis by auto
qed

lemma in_chunk: "i div CHUNK_SIZE = idx \<longleftrightarrow> idx * CHUNK_SIZE \<le> i \<and> i < (idx + 1) * CHUNK_SIZE"
proof -
  have "i div CHUNK_SIZE = idx \<longleftrightarrow> idx \<le> i div CHUNK_SIZE \<and> i div CHUNK_SIZE < idx + 1" by auto
  then show ?thesis
    by (simp only: less_eq_div_iff_mult_less_eq [OF CHUNK_SIZE_pos] div_less_iff_less_mult [OF CHUNK_SIZE_pos])
qed

subsection \<open>Filling\<close>

definition chunk_end :: "nat \<Rightarrow> nat \<Rightarrow> nat" where
  "chunk_end len idx = (if (idx + 1) * CHUNK_SIZE \<le> len then (idx + 1) * CHUNK_SIZE else len)"

lemma chunk_end_bounds:
  "idx * CHUNK_SIZE < len \<Longrightarrow> idx * CHUNK_SIZE < chunk_end len idx \<and> chunk_end len idx \<le> len"
  by (auto simp: chunk_end_def)

lemma in_chunk_end: "i < len \<Longrightarrow> i div CHUNK_SIZE = idx \<longleftrightarrow> idx * CHUNK_SIZE \<le> i \<and> i < chunk_end len idx"
  unfolding in_chunk by (auto simp: chunk_end_def)

text \<open>Writing a chunk of the file, and setting its bit when the chunk then holds the image.\<close>

lemma cache_inv_splice:
  assumes inv: "cache_inv img c" and idx: "idx * CHUNK_SIZE < length img" "\<not> chunk_cached c idx"
    and buf: "length buf = chunk_end (length img) idx - idx * CHUNK_SIZE"
  shows "cache_inv img (c\<lparr>c_raw := splice (c_raw c) (idx * CHUNK_SIZE) buf, c_inner := b\<rparr>)"
    and "buf = slice img (idx * CHUNK_SIZE) (chunk_end (length img) idx) \<Longrightarrow>
      cache_inv img (c\<lparr>c_raw := splice (c_raw c) (idx * CHUNK_SIZE) buf,
        c_bitmap := (c_bitmap c)[idx div 8 := set_bit (c_bitmap c ! (idx div 8)) (idx mod 8)], c_inner := b\<rparr>)"
proof -
  note e = chunk_end_bounds [OF idx(1)]
  have len: "length (c_raw c) = length img" using inv by (simp add: cache_inv_def)
  have fits: "idx * CHUNK_SIZE + length buf = chunk_end (length img) idx" using buf e by simp
  have raw: "splice (c_raw c) (idx * CHUNK_SIZE) buf ! i =
      (if i div CHUNK_SIZE = idx then buf ! (i - idx * CHUNK_SIZE) else c_raw c ! i)" if "i < length img" for i
    using splice_nth [of "idx * CHUNK_SIZE" buf "c_raw c" i] that fits e len in_chunk_end [OF that, of idx] by simp
  have len': "length (splice (c_raw c) (idx * CHUNK_SIZE) buf) = length img"
    using length_splice [of "idx * CHUNK_SIZE" buf "c_raw c"] fits e len by simp
  show "cache_inv img (c\<lparr>c_raw := splice (c_raw c) (idx * CHUNK_SIZE) buf, c_inner := b\<rparr>)"
    using inv idx(2) raw len' by (auto simp: cache_inv_def chunk_cached_def)
  assume b: "buf = slice img (idx * CHUNK_SIZE) (chunk_end (length img) idx)"
  have "buf ! (i - idx * CHUNK_SIZE) = img ! i" if "i < length img" "i div CHUNK_SIZE = idx" for i
    using that e in_chunk_end [OF that(1), of idx] by (simp add: b slice_nth)
  then show "cache_inv img (c\<lparr>c_raw := splice (c_raw c) (idx * CHUNK_SIZE) buf,
        c_bitmap := (c_bitmap c)[idx div 8 := set_bit (c_bitmap c ! (idx div 8)) (idx mod 8)], c_inner := b\<rparr>)"
    using inv raw len' cached_after_set [OF chunk_bitmap [OF inv idx(1)]]
    by (auto simp: cache_inv_def chunk_cached_def)
qed

lemma fetch_chunk_ok:
  assumes ok: "cache_ok F B I img c" and idx: "idx * CHUNK_SIZE < length img"
    and run: "fetch_chunk B idx c = (c', r)"
  shows "cache_ok F B I img c' \<and> (\<forall>j. chunk_cached c j \<longrightarrow> chunk_cached c' j) \<and> (r = Inr () \<longrightarrow> chunk_cached c' idx)"
proof (cases "chunk_cached c idx")
  case True
  then show ?thesis
    using run ok chunk_bitmap [OF cache_okD(4) [OF ok] idx] by (simp add: fetch_chunk_def chunk_cached_def)
next
  case False
  note D = cache_okD [OF ok]
  note e = chunk_end_bounds [OF idx]
  have len: "length (c_raw c) = length img" using D(4) by (simp add: cache_inv_def)
  define s where "s = slice (c_raw c) (idx * CHUNK_SIZE) (chunk_end (length img) idx)"
  have ls: "length s = chunk_end (length img) idx - idx * CHUNK_SIZE" using e len by (simp add: s_def length_slice)
  obtain b buf res where f: "be_fetch B (c_inner c) (idx * CHUNK_SIZE) s = (b, buf, res)" by (metis prod_cases3)
  have b: "I b" "length buf = length s"
    using backend.fetch_inv [OF D(2,3) f] backend.fetch_len [OF D(2,3) f] .
  have c': "(c', r) = (case res of
      Inl e \<Rightarrow> (c\<lparr>c_raw := splice (c_raw c) (idx * CHUNK_SIZE) buf, c_inner := b\<rparr>, Inl (IoError e))
    | Inr n \<Rightarrow> (c\<lparr>c_raw := splice (c_raw c) (idx * CHUNK_SIZE) buf,
        c_bitmap := (c_bitmap c)[idx div 8 := set_bit (c_bitmap c ! (idx div 8)) (idx mod 8)], c_inner := b\<rparr>, Inr ()))"
    using run False chunk_bitmap [OF D(4) idx] D(5) e len f unfolding s_def chunk_end_def chunk_cached_def
    by (auto simp: fetch_chunk_def Let_def split: sum.splits if_splits)
  note inv = cache_inv_splice [OF D(4) idx False, of buf b]
  show ?thesis
  proof (cases res)
    case (Inl e)
    with c' have "c' = c\<lparr>c_raw := splice (c_raw c) (idx * CHUNK_SIZE) buf, c_inner := b\<rparr>" "r \<noteq> Inr ()" by simp_all
    then show ?thesis using inv(1) b ls D by (simp add: cache_ok_def chunk_cached_def)
  next
    case (Inr n)
    have "s \<noteq> []" using ls e by auto
    then have "buf = slice img (idx * CHUNK_SIZE) (chunk_end (length img) idx)"
      using backend.fetch_inside(2) [OF D(2,3) f [unfolded Inr]] ls e by simp
    with c' Inr inv(2) b ls D cached_after_set [OF chunk_bitmap [OF D(4) idx]] show ?thesis
      by (simp add: cache_ok_def chunk_cached_def)
  qed
qed

lemma fetch_chunks_ok:
  assumes "cache_ok F B I img c" "\<forall>idx \<in> set idxs. idx * CHUNK_SIZE < length img" "fetch_chunks B idxs c = (c', r)"
  shows "cache_ok F B I img c' \<and> (\<forall>j. chunk_cached c j \<longrightarrow> chunk_cached c' j) \<and>
    (r = Inr () \<longrightarrow> (\<forall>idx \<in> set idxs. chunk_cached c' idx))"
  using assms
proof (induction idxs arbitrary: c)
  case (Cons idx idxs)
  obtain c1 r1 where one: "fetch_chunk B idx c = (c1, r1)" by fastforce
  note h = fetch_chunk_ok [OF Cons.prems(1) _ one]
  show ?case
  proof (cases r1)
    case (Inl e)
    with Cons.prems one have "c' = c1" "r = Inl e" by auto
    with h Cons.prems(2) show ?thesis by simp
  next
    case (Inr u)
    then have "fetch_chunks B idxs c1 = (c', r)" using Cons.prems one by simp
    then show ?thesis using Cons.IH [of c1] Cons.prems(2) h Inr by simp
  qed
qed simp

lemma fetch_data_ok:
  assumes ok: "cache_ok F B I img c" and range: "off + len \<le> length img" and run: "fetch_data B off len c = (c', r)"
  shows "cache_ok F B I img c' \<and> (r = Inr () \<longrightarrow> slice (c_raw c') off (off + len) = slice img off (off + len))"
proof (cases "len = 0")
  case True
  with assms show ?thesis by (simp add: fetch_data_def)
next
  case False
  have "idx * CHUNK_SIZE < length img" if "idx \<in> set [off div CHUNK_SIZE ..< Suc ((off + len - 1) div CHUNK_SIZE)]" for idx
  proof -
    have "idx \<le> (off + len - 1) div CHUNK_SIZE" using that by auto
    then have "idx * CHUNK_SIZE \<le> off + len - 1" by (simp add: less_eq_div_iff_mult_less_eq)
    with False range show ?thesis by linarith
  qed
  moreover have "fetch_chunks B [off div CHUNK_SIZE ..< Suc ((off + len - 1) div CHUNK_SIZE)] c = (c', r)"
    using run False by (simp add: fetch_data_def)
  ultimately have h: "cache_ok F B I img c'"
    "r = Inr () \<Longrightarrow> \<forall>idx \<in> set [off div CHUNK_SIZE ..< Suc ((off + len - 1) div CHUNK_SIZE)]. chunk_cached c' idx"
    using fetch_chunks_ok [OF ok] by blast+
  have "slice (c_raw c') off (off + len) = slice img off (off + len)" if "r = Inr ()"
  proof (rule slice_eqI)
    have inv: "cache_inv img c'" using cache_okD(4) [OF h(1)] .
    show "length (c_raw c') = length img" using inv by (simp add: cache_inv_def)
    show "off + len \<le> length (c_raw c')" using inv range by (simp add: cache_inv_def)
    fix i
    assume i: "off \<le> i" "i < off + len"
    then have "i div CHUNK_SIZE \<in> set [off div CHUNK_SIZE ..< Suc ((off + len - 1) div CHUNK_SIZE)]"
    proof -
      have "i div CHUNK_SIZE \<le> (off + len - 1) div CHUNK_SIZE" using i by (intro div_le_mono) linarith
      then show ?thesis using i by (simp add: div_le_mono less_Suc_eq_le del: upt_Suc)
    qed
    with h(2) [OF that] have "chunk_cached c' (i div CHUNK_SIZE)" by blast
    with inv i range show "c_raw c' ! i = img ! i" by (simp add: cache_inv_def)
  qed
  with h(1) show ?thesis by blast
qed

subsection \<open>Reading and writing out\<close>

lemma read_at_ok:
  assumes ok: "cache_ok F B I img c" and run: "read_at B off buf c = (c', buf', r)"
  shows "cache_ok F B I img c' \<and> length buf' = length buf \<and>
    (\<forall>n. r = Inr n \<longrightarrow> off < length img \<longrightarrow>
       n = min (length buf) (length img - off) \<and> take n buf' = slice img off (off + n))"
proof (cases "buf = [] \<or> off \<ge> length img")
  case True
  then have "(c', buf') = (c, buf) \<and> (r = Inr 0 \<and> buf = [] \<or> r = Inl InvalidRange)"
  proof
    assume "buf = []"
    with run show ?thesis by (simp add: read_at_def)
  next
    assume "off \<ge> length img"
    then have "fix_range B off (length buf) c = Inl InvalidRange"
      using cache_okD(5) [OF ok] by (simp add: fix_range_def)
    with run show ?thesis by (cases "buf = []") (simp_all add: read_at_def)
  qed
  with ok show ?thesis by auto
next
  case False
  define n where "n = min (length buf) (length img - off)"
  have r: "off + n \<le> length img" "n \<le> length buf" "n \<noteq> 0" using False by (auto simp: n_def)
  have fx: "fix_range B off (length buf) c = Inr (off, off + n)"
    using False cache_okD(5) [OF ok] by (auto simp: fix_range_def n_def)
  obtain c1 r1 where f: "fetch_data B off n c = (c1, r1)" by fastforce
  note h = fetch_data_ok [OF ok r(1) f]
  show ?thesis
  proof (cases r1)
    case (Inl e)
    with run False fx f h show ?thesis by (auto simp: read_at_def)
  next
    case (Inr u)
    have len: "length (c_raw c1) = length img" by (rule cache_ok_raw(1) [OF conjunct1 [OF h]])
    have s: "slice (c_raw c1) off (off + n) = slice img off (off + n)" using h Inr by simp
    have ls: "length (slice img off (off + n)) = n" using r by (simp add: length_slice)
    have "c' = c1" "buf' = splice buf 0 (slice img off (off + n))" "r = Inr n"
      using run False fx f Inr len r s by (simp_all add: read_at_def)
    then show ?thesis
      using h r ls take_splice [of 0 "slice img off (off + n)" buf] length_splice [of 0 "slice img off (off + n)" buf]
      by (simp add: n_def)
  qed
qed

subsection \<open>Invalidation\<close>

lemma invalidate_ok:
  assumes ok: "cache_ok F B I img c" and run: "cache_invalidate_chunk F B c k = (c', r)"
  shows "cache_ok F B I img c' \<and> (r = Inr () \<longrightarrow> k * CHUNK_SIZE < length img \<longrightarrow> \<not> chunk_cached c' k)"
proof (cases "k * CHUNK_SIZE < length img \<and> chunk_cached c k")
  case False
  with run ok cache_okD(5) [OF ok] chunk_bitmap [OF cache_okD(4) [OF ok]] show ?thesis
    by (auto simp: cache_invalidate_chunk_def chunk_cached_def Let_def split: if_splits)
next
  case True
  note D = cache_okD [OF ok]
  note bm = chunk_bitmap [OF D(4) conjunct1 [OF True]]
  define c1 where "c1 = c\<lparr>c_bitmap := (c_bitmap c)[k div 8 := clear_bit (c_bitmap c ! (k div 8)) (k mod 8)]\<rparr>"
  have cached: "chunk_cached c1 j \<longleftrightarrow> j \<noteq> k \<and> chunk_cached c j" for j
    using cached_after_clear [OF bm] by (simp add: c1_def chunk_cached_def)
  have ok1: "cache_ok F B I img c1"
    using D cached by (auto simp: cache_ok_def cache_inv_def c1_def)
  obtain raw r2 where p: "fallocate_punch F (c_raw c1) (k * CHUNK_SIZE) CHUNK_SIZE = (raw, r2)" by fastforce
  have raw: "length raw = length (c_raw c1)"
    "\<forall>i < length (c_raw c1). i < k * CHUNK_SIZE \<or> k * CHUNK_SIZE + CHUNK_SIZE \<le> i \<longrightarrow> raw ! i = c_raw c1 ! i"
    using D(1) p unfolding fs_ok_def by blast+
  have "raw ! i = img ! i" if "i < length img" "chunk_cached c1 (i div CHUNK_SIZE)" for i
  proof -
    have "i div CHUNK_SIZE \<noteq> k" using that cached by auto
    then have "i < k * CHUNK_SIZE \<or> k * CHUNK_SIZE + CHUNK_SIZE \<le> i" unfolding in_chunk by (auto simp: add.commute)
    then have "raw ! i = c_raw c1 ! i" using raw(2) that(1) cache_ok_raw(1) [OF ok1] by (metis (no_types, lifting))
    then show ?thesis using cache_ok_raw(2) [OF ok1 that] by simp
  qed
  then have ok2: "cache_ok F B I img (c1\<lparr>c_raw := raw\<rparr>)"
    using ok1 raw(1) by (simp add: cache_ok_def cache_inv_def chunk_cached_def)
  have "c' = c1 \<or> c' = c1\<lparr>c_raw := raw\<rparr>"
    using run True bm D(5) p by (auto simp: cache_invalidate_chunk_def chunk_cached_def Let_def c1_def punch_hole_def split: sum.splits if_splits)
  moreover have "\<not> chunk_cached c1 k" "\<not> chunk_cached (c1\<lparr>c_raw := raw\<rparr>) k"
    using cached [of k] by (simp_all add: chunk_cached_def)
  ultimately show ?thesis using ok1 ok2 by blast
qed

interpretation cache: backend_ex "cache_ops F B" "cache_ok F B I img" img for F B I img
proof (unfold_locales, goal_cases)
  case (1 c)
  then show ?case using cache_okD(5) by (simp add: cache_ops_def)
next
  case (2 c)
  then show ?case by (rule cache_okD(6))
next
  case (3 c off buf c' buf' r)
  then show ?case using read_at_ok [OF 3(1)] by (fastforce simp: cache_ops_def split: prod.splits)
next
  case (4 c off buf c' buf' r)
  then show ?case using read_at_ok [OF 4(1)] by (fastforce simp: cache_ops_def split: prod.splits)
next
  case (5 c off buf c' buf' n)
  obtain r where run: "read_at B off buf c = (c', buf', r)" and "cache_io r = Inr n"
    using 5(2) by (auto simp: cache_ops_def split: prod.splits)
  then have "r = Inr n" by (auto simp: cache_io_def split: sum.splits)
  with read_at_ok [OF 5(1) run] 5(3) show ?case by blast
next
  case (6 c i c' r)
  then show ?case using invalidate_ok [OF 6(1)] by (auto simp: cache_ops_def)
qed

subsection \<open>Files in memory\<close>

definition mem_fs :: fs_ops where
  "mem_fs = \<lparr>sync_data = \<lambda>_. Inr (), fallocate_punch = \<lambda>fl start sz.
     (splice fl start (replicate (min sz (length fl - start)) 0), Inr ())\<rparr>"

lemma mem_fs_ok: "fs_ok mem_fs"
proof -
  have "length (splice fl start (replicate (min sz (length fl - start)) 0)) = length fl \<and>
      (i < length fl \<longrightarrow> i < start \<or> start + sz \<le> i \<longrightarrow>
         splice fl start (replicate (min sz (length fl - start)) 0) ! i = fl ! i)" for fl :: bytes and start sz i
  proof (cases "start \<le> length fl")
    case True
    then show ?thesis by (auto simp: length_splice splice_nth)
  next
    case False
    then show ?thesis by (simp add: splice_def)
  qed
  then show ?thesis by (auto simp: fs_ok_def mem_fs_def)
qed

definition demo_cache :: "bytes cache" where
  "demo_cache = \<lparr>c_raw = replicate 4 0, c_bitmap = [0], c_inner = [1, 2, 3, 4]\<rparr>"

lemma demo_cache_ok: "cache_ok mem_fs mem_source (\<lambda>b. b = [1, 2, 3, 4]) [1, 2, 3, 4] demo_cache"
  using mem_source_backend [of "[1, 2, 3, 4]"] mem_fs_ok
  by (auto simp: cache_ok_def cache_inv_def demo_cache_def chunk_cached_def bit_set_def CHUNK_SIZE_def)

subsection \<open>Properties\<close>

text \<open>
  C5: a cache of a source of an image reads as the image: whatever is cached or not, a read that
  succeeds inside the image returns as many bytes as asked for, cut at the end of the image, and
  these are the bytes of the image; the cache stays a cache of the image, also when the read fails.
\<close>

theorem cache_reads_image:
  assumes ok: "cache_ok F B I img c" and run: "be_fetch (cache_ops F B) c off buf = (c', buf', r)"
  shows "cache_ok F B I img c' \<and> length buf' = length buf \<and>
    (\<forall>n. r = Inr n \<longrightarrow> off < length img \<longrightarrow> length buf < 2 ^ 63 \<longrightarrow>
       n = min (length buf) (length img - off) \<and> take n buf' = slice img off (off + n))"
  using cache.fetch_inv [OF ok run] cache.fetch_len [OF ok run] cache.fetch_ok [OF ok] run by blast

lemma demo_read:
  "\<exists>c'. be_fetch (cache_ops mem_fs mem_source) demo_cache 1 [9, 9] = (c', [2, 3], Inr 2)"
  by (simp add: cache_ops_def read_at_def fix_range_def fetch_data_def fetch_chunk_def demo_cache_def mem_source_def
      CHUNK_SIZE_def bit_set_def slice_def splice_def Let_def cache_io_def numeral_2_eq_2)

theorem cache_reads_image_witness:
  "\<exists>c'. be_fetch (cache_ops mem_fs mem_source) demo_cache 1 [9, 9] = (c', [2, 3], Inr 2) \<and>
    cache_ok mem_fs mem_source (\<lambda>b. b = [1, 2, 3, 4]) [1, 2, 3, 4] c'"
  using demo_read cache_reads_image [OF demo_cache_ok] by blast

text \<open>
  Writing out of a cache whose source holds an image: on success the FUSE writer got exactly the
  bytes of the image in the requested range, cut at the end of the image, and the number of bytes
  is the writer's answer; the cache still holds the image.
\<close>

theorem cache_writes_image:
  assumes ok: "cache_ok F B I img c" and run: "cache_write_to_fuse_writer B fw c off sz w = (c', w', Inr m)"
  shows "off < length img \<and> cache_ok F B I img c' \<and> fw w (slice img off (min (off + sz) (length img))) = (w', Inr m)"
proof -
  have off: "off < length img"
    using run cache_okD(5) [OF ok] by (auto simp: cache_write_to_fuse_writer_def fix_range_def cache_io_def split: if_splits)
  define stop_at where "stop_at = min (off + sz) (length img)"
  have s: "off \<le> stop_at" "stop_at \<le> length img" using off by (auto simp: stop_at_def)
  have fx: "fix_range B off sz c = Inr (off, stop_at)"
    using off cache_okD(5) [OF ok] by (auto simp: fix_range_def stop_at_def)
  obtain c1 r1 where f: "fetch_data B off (stop_at - off) c = (c1, r1)" by fastforce
  then have r1: "r1 = Inr ()" using run fx by (cases r1) (simp_all add: cache_write_to_fuse_writer_def cache_io_def)
  have h: "cache_ok F B I img c1" "slice (c_raw c1) off stop_at = slice img off stop_at"
    using fetch_data_ok [OF ok _ f] s r1 by simp_all
  have "length (c_raw c1) = length img" using cache_okD(4) [OF h(1)] by (simp add: cache_inv_def)
  with run fx f r1 h s off show ?thesis
    by (auto simp: cache_write_to_fuse_writer_def cache_io_def stop_at_def split: prod.splits)
qed

theorem cache_writes_image_witness:
  "\<exists>c' w'. cache_write_to_fuse_writer mem_source (\<lambda>w bs. (w @ bs, Inr (length bs))) demo_cache 1 2 [] = (c', w', Inr 2) \<and>
    w' = [2, 3]"
proof -
  let ?fw = "\<lambda>w bs. (w @ bs, Inr (length bs)) :: bytes \<times> (error + nat)"
  obtain c' w' where run: "cache_write_to_fuse_writer mem_source ?fw demo_cache 1 2 [] = (c', w', Inr 2)"
    by (simp add: cache_write_to_fuse_writer_def fix_range_def fetch_data_def fetch_chunk_def demo_cache_def mem_source_def
        CHUNK_SIZE_def bit_set_def slice_def splice_def Let_def cache_io_def numeral_2_eq_2)
  from cache_writes_image [OF demo_cache_ok run] run show ?thesis by (auto simp: slice_def)
qed

text \<open>
  Invalidating a chunk that succeeds leaves it not cached, so the next read fetches it again, and
  keeps the cache a cache of the image; so does an invalidation that fails half way.
\<close>

theorem invalidate_keeps_image:
  assumes ok: "cache_ok F B I img c" and run: "cache_invalidate_chunk F B c k = (c', r)"
  shows "cache_ok F B I img c' \<and> (r = Inr () \<longrightarrow> k * CHUNK_SIZE < length img \<longrightarrow> \<not> chunk_cached c' k)"
  using invalidate_ok [OF assms] .

theorem invalidate_keeps_image_witness:
  "\<not> chunk_cached (fst (cache_invalidate_chunk mem_fs mem_source (demo_cache\<lparr>c_raw := [1, 2, 3, 4], c_bitmap := [1]\<rparr>) 0)) 0"
proof -
  let ?c = "demo_cache\<lparr>c_raw := [1, 2, 3, 4], c_bitmap := [1]\<rparr>"
  have ok: "cache_ok mem_fs mem_source (\<lambda>b. b = [1, 2, 3, 4]) [1, 2, 3, 4] ?c"
    using demo_cache_ok by (auto simp: cache_ok_def cache_inv_def demo_cache_def CHUNK_SIZE_def)
  obtain c' r where run: "cache_invalidate_chunk mem_fs mem_source ?c 0 = (c', r)" by fastforce
  then have "r = Inr ()"
    by (simp add: cache_invalidate_chunk_def demo_cache_def mem_source_def mem_fs_def punch_hole_def bit_set_def Let_def)
  with invalidate_keeps_image [OF ok run] run show ?thesis by simp
qed

lemma bitmap_covers_aux:
  assumes "bitmap_file_size page sz = Some n"
  shows "sz \<le> 8 * n * CHUNK_SIZE \<and> page \<le> n \<and> (n = page \<or> 8 * (n - 1) * CHUNK_SIZE < sz)"
proof -
  obtain a b where a: "align_up usize_max sz CHUNK_SIZE = Some a" and b: "align_up usize_max (a div CHUNK_SIZE) 8 = Some b"
    and n: "n = max (b div 8) page"
    using assms by (auto simp: bitmap_file_size_def split: option.splits)
  have a': "a = (sz + (CHUNK_SIZE - 1)) div CHUNK_SIZE * CHUNK_SIZE"
    using a by (simp add: align_up_def Let_def split: if_splits)
  have b': "b = (a div CHUNK_SIZE + 7) div 8 * 8"
    using b by (simp add: align_up_def Let_def split: if_splits)
  define m where "m = (sz + (CHUNK_SIZE - 1)) div CHUNK_SIZE"
  have am: "a div CHUNK_SIZE = m" by (simp only: a' m_def div_mult_self_is_m [OF CHUNK_SIZE_pos])
  have m1: "sz \<le> m * CHUNK_SIZE" "m * CHUNK_SIZE < sz + CHUNK_SIZE"
    using ceil_div_bounds [OF CHUNK_SIZE_pos, of sz] unfolding m_def .
  then have m: "sz \<le> m * CHUNK_SIZE" "0 < m \<longrightarrow> (m - 1) * CHUNK_SIZE < sz"
    by (cases m; simp)+
  have bd: "b div 8 = (m + 7) div 8" using b' am by simp
  have "m \<le> 8 * (b div 8)" using bd by linarith
  then have "m \<le> 8 * n" using n by linarith
  then have "m * CHUNK_SIZE \<le> 8 * n * CHUNK_SIZE" by (rule mult_le_mono1)
  moreover have "8 * (n - 1) * CHUNK_SIZE < sz" if "n \<noteq> page"
  proof -
    have "n = (m + 7) div 8" "n > page" using n that bd by auto
    then have "8 * (n - 1) \<le> m - 1" "0 < m" by linarith+
    then have "8 * (n - 1) * CHUNK_SIZE \<le> (m - 1) * CHUNK_SIZE" by (intro mult_le_mono1)
    with m(2) \<open>0 < m\<close> show ?thesis by linarith
  qed
  ultimately show ?thesis using m(1) n by linarith
qed

text \<open>
  The bitmap file has a bit for every chunk of the image, for every image size, and at least one
  page; the size is computed exactly when the image size rounds up inside 64 bits.
\<close>

theorem bitmap_covers:
  assumes "bitmap_file_size page sz = Some n"
  shows "sz \<le> 8 * n * CHUNK_SIZE \<and> page \<le> n \<and> (n = page \<or> 8 * (n - 1) * CHUNK_SIZE < sz)"
  using bitmap_covers_aux [OF assms] .

theorem bitmap_covers_witness:
  "bitmap_file_size 4096 5000000 = Some 4096 \<and> 5000000 \<le> 8 * 4096 * CHUNK_SIZE"
proof -
  have "bitmap_file_size 4096 5000000 = Some 4096"
    by (simp add: bitmap_file_size_def align_up_def usize_max_def CHUNK_SIZE_def)
  then show ?thesis using bitmap_covers by blast
qed

text \<open>
  A cache opened over new files (no cache file and no bitmap yet) for a source of an image is a
  cache of this image with nothing cached.
\<close>

theorem new_cache_ok:
  assumes src: "fs_ok F" "backend B I img" "I b" and G: "set_len_ok G"
    and fresh: "open_or_create G path = Inr []" "open_or_create G (path @ ''.bitmap'') = Inr []"
    and run: "Cache_new G page B b path = Inr c"
  shows "cache_ok F B I img c \<and> (\<forall>k. k * CHUNK_SIZE < length img \<longrightarrow> \<not> chunk_cached c k) \<and>
    c_raw c = replicate (length img) 0"
proof -
  have size: "be_size B b = length img" using backend.size_image [OF src(2,3)] .
  obtain n where n: "bitmap_file_size page (length img) = Some n"
    using run fresh by (auto simp: Cache_new_def size split: sum.splits option.splits)
  have len: "set_len G [] k = Inr ys \<Longrightarrow> ys = replicate k 0" for k ys
  proof -
    assume "set_len G [] k = Inr ys"
    then have "ys = take k [] @ replicate (k - length ([] :: bytes)) 0" using G unfolding set_len_ok_def by blast
    then show ?thesis by simp
  qed
  have c: "c_raw c = replicate (length img) 0" "c_bitmap c = replicate n 0" "c_inner c = b"
    using run fresh n len by (auto simp: Cache_new_def size cache_raw_def split: sum.splits if_splits)
  have cov: "length img \<le> 8 * n * CHUNK_SIZE" by (rule conjunct1 [OF bitmap_covers_aux [OF n]])
  have none: "\<not> chunk_cached c k" if "k * CHUNK_SIZE < length img" for k
  proof -
    have "k * CHUNK_SIZE < 8 * n * CHUNK_SIZE" using that cov by (rule less_le_trans)
    then have "k div 8 < n" by (simp only: mult_less_cancel2) linarith
    then show ?thesis by (simp add: chunk_cached_def c bit_set_def)
  qed
  have "\<not> chunk_cached c (i div CHUNK_SIZE)" if "i < length img" for i
  proof (rule none)
    show "i div CHUNK_SIZE * CHUNK_SIZE < length img" using that div_times_less_eq_dividend [of i CHUNK_SIZE] by linarith
  qed
  with src c cov none show ?thesis by (simp add: cache_ok_def cache_inv_def)
qed

definition mem_files :: file_ops where
  "mem_files =
     \<lparr>open_existing = \<lambda>_. Inr [], open_or_create = \<lambda>_. Inr [],
      set_len = \<lambda>xs n. Inr (take n xs @ replicate (n - length xs) 0), mmap = \<lambda>_. Inr ()\<rparr>"

theorem new_cache_ok_witness:
  "\<exists>c. Cache_new mem_files 1 mem_source [1, 2, 3, 4] ''c'' = Inr c \<and>
    cache_ok mem_fs mem_source (\<lambda>b. b = [1, 2, 3, 4]) [1, 2, 3, 4] c"
proof -
  have "bitmap_file_size (Suc 0) (Suc (Suc (Suc (Suc 0)))) = Some (Suc 0)"
    by (simp add: bitmap_file_size_def align_up_def usize_max_def CHUNK_SIZE_def)
  then obtain c where run: "Cache_new mem_files 1 mem_source [1, 2, 3, 4] ''c'' = Inr c"
    by (simp add: Cache_new_def mem_files_def mem_source_def cache_raw_def)
  have G: "set_len_ok mem_files" by (simp add: set_len_ok_def mem_files_def)
  have B: "backend mem_source (\<lambda>b. b = [1, 2, 3, 4]) [1, 2, 3, 4]" by (rule mem_source_backend) simp
  have fresh: "open_or_create mem_files ''c'' = Inr []" "open_or_create mem_files (''c'' @ ''.bitmap'') = Inr []"
    by (simp_all add: mem_files_def)
  show ?thesis using new_cache_ok [OF mem_fs_ok B refl G fresh run] run by blast
qed

text \<open>
  C28: the number of bytes the source returns is not looked at: after any successful fetch, also one of
  fewer bytes than the chunk, the chunk counts as cached with whatever the buffer holds.
\<close>

theorem short_fetch_is_cached:
  assumes "idx div 8 < length (c_bitmap c)" "\<not> chunk_cached c idx"
    and "idx * CHUNK_SIZE \<le> chunk_end (be_size B (c_inner c)) idx" "chunk_end (be_size B (c_inner c)) idx \<le> length (c_raw c)"
    and "be_fetch B (c_inner c) (idx * CHUNK_SIZE) (slice (c_raw c) (idx * CHUNK_SIZE) (chunk_end (be_size B (c_inner c)) idx))
      = (b, buf, Inr n)"
  shows "\<exists>c'. fetch_chunk B idx c = (c', Inr ()) \<and> chunk_cached c' idx \<and>
    c_raw c' = splice (c_raw c) (idx * CHUNK_SIZE) buf"
  using assms cached_after_set [OF assms(1), of idx]
  by (auto simp: fetch_chunk_def Let_def chunk_cached_def chunk_end_def split: if_splits)

theorem short_fetch_is_cached_witness:
  "\<exists>c'. fetch_chunk \<lparr>be_size = \<lambda>_. 4, be_fetch = \<lambda>b off buf. (b, [1, 0, 0, 0], Inr 1)\<rparr> 0
      \<lparr>c_raw = [0, 0, 0, 0], c_bitmap = [0], c_inner = ()\<rparr> = (c', Inr ()) \<and> chunk_cached c' 0 \<and>
    c_raw c' = splice [0, 0, 0, 0] 0 [1, 0, 0, 0]"
  using short_fetch_is_cached [of 0 "\<lparr>c_raw = [0, 0, 0, 0], c_bitmap = [0], c_inner = ()\<rparr>"
      "\<lparr>be_size = \<lambda>_. 4, be_fetch = \<lambda>b off buf. (b, [1, 0, 0, 0], Inr 1)\<rparr>" "()" "[1, 0, 0, 0]" 1]
  by (simp add: chunk_cached_def bit_set_def chunk_end_def CHUNK_SIZE_def)

text \<open>Over \<open>EmptyBackend\<close> a read returns what the cache file holds at the moment.\<close>

lemma empty_fetch_chunk:
  assumes "idx * CHUNK_SIZE < c_inner c" "c_inner c = length (c_raw c)" "length (c_raw c) \<le> 8 * length (c_bitmap c) * CHUNK_SIZE"
  shows "\<exists>bm. fetch_chunk EmptyBackend_ops idx c = (c\<lparr>c_bitmap := bm\<rparr>, Inr ()) \<and> length bm = length (c_bitmap c)"
proof -
  have "idx * CHUNK_SIZE < 8 * length (c_bitmap c) * CHUNK_SIZE" using assms by linarith
  then have "idx < 8 * length (c_bitmap c)" by (simp only: mult_less_cancel2)
  then have bm: "idx div 8 < length (c_bitmap c)" by linarith
  define e where "e = chunk_end (length (c_raw c)) idx"
  have e: "idx * CHUNK_SIZE \<le> e" "e \<le> length (c_raw c)"
    using chunk_end_bounds [of idx "length (c_raw c)"] assms by (simp_all add: e_def)
  have id: "splice (c_raw c) (idx * CHUNK_SIZE) (slice (c_raw c) (idx * CHUNK_SIZE) e) = c_raw c"
    using splice_slice_id e by blast
  show ?thesis
  proof (cases "chunk_cached c idx")
    case True
    with bm show ?thesis by (intro exI [of _ "c_bitmap c"]) (simp add: fetch_chunk_def chunk_cached_def)
  next
    case False
    have f: "fetch_chunk EmptyBackend_ops idx c =
      (c\<lparr>c_raw := splice (c_raw c) (idx * CHUNK_SIZE) (slice (c_raw c) (idx * CHUNK_SIZE) e),
         c_bitmap := (c_bitmap c)[idx div 8 := set_bit (c_bitmap c ! (idx div 8)) (idx mod 8)], c_inner := c_inner c\<rparr>, Inr ())"
      using False bm e assms(2) unfolding e_def chunk_end_def
      by (simp add: fetch_chunk_def chunk_cached_def Let_def EmptyBackend_ops_def split: if_splits)
    show ?thesis
      unfolding f id
      by (intro exI [of _ "(c_bitmap c)[idx div 8 := set_bit (c_bitmap c ! (idx div 8)) (idx mod 8)]"]) simp
  qed
qed

lemma empty_fetch_chunks:
  assumes "\<forall>idx \<in> set idxs. idx * CHUNK_SIZE < c_inner c" "c_inner c = length (c_raw c)"
    "length (c_raw c) \<le> 8 * length (c_bitmap c) * CHUNK_SIZE"
  shows "\<exists>bm. fetch_chunks EmptyBackend_ops idxs c = (c\<lparr>c_bitmap := bm\<rparr>, Inr ()) \<and> length bm = length (c_bitmap c)"
  using assms
proof (induction idxs arbitrary: c)
  case Nil
  then show ?case by (intro exI [of _ "c_bitmap c"]) simp
next
  case (Cons idx idxs)
  obtain bm where bm: "fetch_chunk EmptyBackend_ops idx c = (c\<lparr>c_bitmap := bm\<rparr>, Inr ())" "length bm = length (c_bitmap c)"
    using empty_fetch_chunk [of idx c] Cons.prems by auto
  then obtain bm' where "fetch_chunks EmptyBackend_ops idxs (c\<lparr>c_bitmap := bm\<rparr>) = (c\<lparr>c_bitmap := bm\<rparr>\<lparr>c_bitmap := bm'\<rparr>, Inr ())"
    "length bm' = length bm"
    using Cons.IH [of "c\<lparr>c_bitmap := bm\<rparr>"] Cons.prems by auto
  with bm show ?case by (intro exI [of _ bm']) simp
qed

lemma empty_read:
  assumes "off < c_inner c" "off + length buf \<le> c_inner c" "buf \<noteq> []" "c_inner c = length (c_raw c)"
    "length (c_raw c) \<le> 8 * length (c_bitmap c) * CHUNK_SIZE"
  shows "\<exists>c'. read_at EmptyBackend_ops off buf c = (c', slice (c_raw c) off (off + length buf), Inr (length buf))"
proof -
  have idx: "idx * CHUNK_SIZE < c_inner c" if "idx \<in> set [off div CHUNK_SIZE ..< Suc ((off + length buf - 1) div CHUNK_SIZE)]" for idx
  proof -
    have "idx \<le> (off + length buf - 1) div CHUNK_SIZE" using that by auto
    then have "idx * CHUNK_SIZE \<le> off + length buf - 1" by (simp add: less_eq_div_iff_mult_less_eq)
    with assms(1-3) show ?thesis by (cases buf) auto
  qed
  obtain bm where f: "fetch_chunks EmptyBackend_ops [off div CHUNK_SIZE ..< Suc ((off + length buf - 1) div CHUNK_SIZE)] c
      = (c\<lparr>c_bitmap := bm\<rparr>, Inr ())"
    using empty_fetch_chunks [OF _ assms(4,5)] idx by blast
  have l: "length (slice (c_raw c) off (off + length buf)) = length buf" using assms by (simp add: length_slice)
  have "fix_range EmptyBackend_ops off (length buf) c = Inr (off, off + length buf)"
    using assms by (auto simp: fix_range_def EmptyBackend_ops_def)
  moreover have "fetch_data EmptyBackend_ops off (length buf) c = (c\<lparr>c_bitmap := bm\<rparr>, Inr ())"
    using f assms(3) by (simp add: fetch_data_def)
  moreover have "splice buf 0 (slice (c_raw c) off (off + length buf)) = slice (c_raw c) off (off + length buf)"
    using l by (simp add: splice_def)
  ultimately show ?thesis using assms by (simp add: read_at_def Let_def)
qed

text \<open>
  A cache over a raw file has no other source than the file: once a chunk has been invalidated and
  its range is a hole, a read in this range succeeds and returns zeros.
\<close>

theorem local_source_reads_hole:
  assumes c: "c_inner c = length (c_raw c)" "length (c_raw c) \<le> 8 * length (c_bitmap c) * CHUNK_SIZE"
    and inval: "cache_invalidate_chunk mem_fs EmptyBackend_ops c k = (c', Inr ())" "chunk_cached c k"
    and range: "k * CHUNK_SIZE \<le> off" "off + length buf \<le> length (c_raw c)" "off + length buf \<le> k * CHUNK_SIZE + CHUNK_SIZE" "buf \<noteq> []"
  shows "\<exists>c''. read_at EmptyBackend_ops off buf c' = (c'', replicate (length buf) 0, Inr (length buf))"
proof -
  have off: "off < length (c_raw c)" using range by (cases buf) auto
  then have k: "k * CHUNK_SIZE < c_inner c" using c range by simp
  then have "k * CHUNK_SIZE < 8 * length (c_bitmap c) * CHUNK_SIZE" using c by linarith
  then have "k < 8 * length (c_bitmap c)" by (simp only: mult_less_cancel2)
  then have bm: "k div 8 < length (c_bitmap c)" by linarith
  define z where "z = replicate (min CHUNK_SIZE (length (c_raw c) - k * CHUNK_SIZE)) (0 :: byte)"
  have c': "c_raw c' = splice (c_raw c) (k * CHUNK_SIZE) z" "c_inner c' = c_inner c" "length (c_bitmap c') = length (c_bitmap c)"
    using inval k bm
    by (auto simp: cache_invalidate_chunk_def chunk_cached_def EmptyBackend_ops_def mem_fs_def punch_hole_def z_def Let_def)
  have fits: "k * CHUNK_SIZE + length z \<le> length (c_raw c)" using k c by (simp add: z_def)
  have len: "length (c_raw c') = length (c_raw c)" using fits by (simp add: c' length_splice)
  have "slice (c_raw c') off (off + length buf) = replicate (length buf) 0"
  proof (rule nth_equalityI)
    show "length (slice (c_raw c') off (off + length buf)) = length (replicate (length buf) (0 :: byte))"
      using range len by (simp add: length_slice)
    fix i
    assume "i < length (slice (c_raw c') off (off + length buf))"
    then have i: "i < length buf" using range len by (simp add: length_slice)
    then have "slice (c_raw c') off (off + length buf) ! i = c_raw c' ! (off + i)"
      using range len by (simp add: slice_nth)
    also have "\<dots> = 0"
    proof -
      have "off + i < k * CHUNK_SIZE + CHUNK_SIZE" "off + i < length (c_raw c)" using range i by linarith+
      then have in_z: "off + i - k * CHUNK_SIZE < length z"
        using range(1) unfolding z_def length_replicate min_less_iff_conj by (intro conjI; linarith)
      then have "c_raw c' ! (off + i) = z ! (off + i - k * CHUNK_SIZE)"
      proof -
        have "off + i < k * CHUNK_SIZE + length z" using in_z range(1) by linarith
        moreover have "off + i < length (c_raw c)" using calculation fits by linarith
        ultimately show ?thesis using splice_nth [OF fits, of "off + i"] range(1) by (simp add: c')
      qed
      also have "\<dots> = 0" using in_z by (simp add: z_def)
      finally show ?thesis .
    qed
    finally show "slice (c_raw c') off (off + length buf) ! i = replicate (length buf) 0 ! i" using i by simp
  qed
  moreover have "off < c_inner c'" "off + length buf \<le> c_inner c'" "c_inner c' = length (c_raw c')"
    "length (c_raw c') \<le> 8 * length (c_bitmap c') * CHUNK_SIZE"
    using off range c c' len by simp_all
  ultimately show ?thesis using empty_read [of off c' buf] range(4) by simp
qed

theorem local_source_reads_hole_witness:
  "\<exists>c' c''. cache_invalidate_chunk mem_fs EmptyBackend_ops \<lparr>c_raw = [1, 2, 3, 4], c_bitmap = [1], c_inner = 4\<rparr> 0 = (c', Inr ()) \<and>
    read_at EmptyBackend_ops 1 [9, 9] c' = (c'', [0, 0], Inr 2)"
proof -
  let ?c = "\<lparr>c_raw = [1, 2, 3, 4], c_bitmap = [1], c_inner = 4\<rparr>"
  obtain c' where run: "cache_invalidate_chunk mem_fs EmptyBackend_ops ?c 0 = (c', Inr ())"
    by (simp add: cache_invalidate_chunk_def mem_fs_def punch_hole_def EmptyBackend_ops_def bit_set_def Let_def)
  moreover have "chunk_cached ?c 0" by (simp add: chunk_cached_def bit_set_def)
  ultimately show ?thesis
    using local_source_reads_hole [of ?c 0 c' 1 "[9, 9]"] by (auto simp: CHUNK_SIZE_def numeral_2_eq_2)
qed

end
