(* ===== verification/Dedup.thy ===== *)
theory Dedup
  imports ChunkApi IndexDB Backend
begin

text \<open>
  \<open>src/backend/dedup.rs\<close>: a data source that serves an image from the chunk database where a record
  of the index database says which chunk holds a range, and from its backend where none does; two
  worker threads move data of the backend into the chunk database and drop what the backend cached.

  The state \<open>dedup_state\<close> holds the chunk database, the contents of the index store, the state of the
  backend, the bitmap of the chunks already queued, and the two bounded channels.  The record
  \<open>dedup_env\<close> has what does not change: the stores, the backend's operations, the digests, the
  identifier of the image and the optional client that asks a peer for a chunk.  The operations
  that wait for the chunk writer return an option (see \<open>ChunkApi\<close>).  A worker takes the first
  element of its channel; how the threads interleave is in \<open>DedupSpec\<close>.
\<close>

subsection \<open>State\<close>

definition SYNC_CHUNK_REQ_BUF_SIZE :: nat where "SYNC_CHUNK_REQ_BUF_SIZE = 256"
definition DEDUP_CHUNK_REQ_BUF_SIZE :: nat where "DEDUP_CHUNK_REQ_BUF_SIZE = 256"

record 'i index_env = "'i txns" +
  ranges :: "('i, DedupRange, DedupInfo) db"

record DedupRequest =
  rq_off :: nat
  rq_len :: nat
  rq_check_sum :: "CheckSum option"
  rq_method :: CheckSumMethod

definition DedupRequest_new :: "nat \<Rightarrow> nat \<Rightarrow> CheckSumMethod \<Rightarrow> DedupRequest" where
  "DedupRequest_new off len m = \<lparr>rq_off = off, rq_len = len, rq_check_sum = None, rq_method = m\<rparr>"

record ('s, 'i, 'b) dedup_env =
  d_store :: "'s chunk_env"
  d_index :: "'i index_env"
  d_backend :: "'b backend_ex_ops"
  d_digests :: digests
  d_id :: bytes
  d_client :: "(CheckSum \<Rightarrow> 's chunkdb \<Rightarrow> 's chunkdb) option"

record ('s, 'i, 'b) dedup_state =
  dd_chunks :: "'s chunkdb"
  dd_index :: 'i
  dd_b :: 'b
  dd_bits :: "64 word list"
  dd_sync :: "DedupInfo list"
  dd_reqs :: "DedupRequest list"

subsection \<open>The bitmap of queued chunks\<close>

definition chunk_is_dedup :: "64 word list \<Rightarrow> nat \<Rightarrow> error + bool" where
  "chunk_is_dedup bits idx =
     (if idx div 64 \<ge> length bits then Inl Panic
      else Inr (bits ! (idx div 64) AND push_bit (idx mod 64) 1 \<noteq> 0))"

text \<open>One attempt of the loop from the loaded value \<open>old\<close>; the result says whether it is the last.\<close>

definition mark_attempt :: "nat \<Rightarrow> 64 word \<Rightarrow> 64 word list \<Rightarrow> 64 word list \<times> bool" where
  "mark_attempt idx old bits =
     (let new = old OR push_bit (idx mod 64) 1 in
      if old = new then (bits, True)
      else if bits ! (idx div 64) = old then (bits[idx div 64 := new], True)
      else (bits, False))"

definition mark_chunk_dedup :: "64 word list \<Rightarrow> nat \<Rightarrow> error + 64 word list" where
  "mark_chunk_dedup bits idx =
     (if idx div 64 \<ge> length bits then Inl Panic
      else Inr (fst (mark_attempt idx (bits ! (idx div 64)) bits)))"

subsection \<open>Records of ranges\<close>

definition add_local_dedup_info :: "'i index_env \<Rightarrow> DedupRange \<Rightarrow> CheckSum \<Rightarrow> 'i \<Rightarrow> 'i \<times> (error + unit)" where
  "add_local_dedup_info T r cs s =
     (case write_txn T s of
        Inl e \<Rightarrow> (s, Inl e)
      | Inr t \<Rightarrow>
          (case db_put (ranges T) t r (DedupInfo_new (dr_start r) (as_u32 (DedupRange_size r)) cs) of
             Inl e \<Rightarrow> (s, Inl e)
           | Inr t' \<Rightarrow> (case commit T t' of Inl e \<Rightarrow> (s, Inl e) | Inr s' \<Rightarrow> (s', Inr ()))))"

text \<open>
  The scan of the records from the first key at or after (identifier, \<open>off + 1\<close>, \<open>off\<close>): the segments
  found, and the offset and length that remain.
\<close>

fun scan_ranges ::
  "bytes \<Rightarrow> (DedupRange \<times> DedupInfo) list \<Rightarrow> nat \<Rightarrow> nat \<Rightarrow> (DedupInfo \<times> nat) list \<Rightarrow> (DedupInfo \<times> nat) list \<times> nat \<times> nat" where
  "scan_ranges i [] off len infos = (infos, off, len)"
| "scan_ranges i ((k, v) # it) off len infos =
     (if dr_id k \<noteq> i then (infos, off, len)
      else if di_off v > off then
        (let n = min (di_off v - off) len;
             infos' = infos @ [(DedupInfo_new off (as_u32 n) CheckSum_empty, n)];
             off' = u64_add off n; len' = len - n
         in if len' = 0 \<or> di_off v \<ge> u64_add off' len' then (infos', off', len')
            else scan_ranges i it off' len' infos')
      else if DedupInfo_end v \<le> off then scan_ranges i it off len infos
      else
        (let n = min (DedupInfo_end v - off) len;
             infos' = infos @ [(v, n)];
             off' = u64_add off n; len' = len - n
         in if len' = 0 \<or> di_off v \<ge> u64_add off' len' then (infos', off', len')
            else scan_ranges i it off' len' infos'))"

definition dedup_range :: "'i index_env \<Rightarrow> bytes \<Rightarrow> nat \<Rightarrow> nat \<Rightarrow> 'i \<Rightarrow> error + (DedupInfo \<times> nat) list" where
  "dedup_range T i off len s =
     (if len = 0 then Inr []
      else case read_txn T s of
        Inl e \<Rightarrow> Inl e
      | Inr r \<Rightarrow>
          (case db_from (ranges T) r (DedupRange_new_with_id i off 1) of
             Inl e \<Rightarrow> Inl e
           | Inr it \<Rightarrow>
               (case scan_ranges i it off len [] of
                  (infos, off', len') \<Rightarrow>
                    Inr (if len' \<noteq> 0 then infos @ [(DedupInfo_new off' (as_u32 len') CheckSum_empty, len')]
                         else infos))))"

definition dedup_check_range :: "'i index_env \<Rightarrow> bytes \<Rightarrow> DedupRange \<Rightarrow> 'i \<Rightarrow> error + bool" where
  "dedup_check_range T i r s =
     (case dedup_range T i (dr_start r) (DedupRange_size r) s of
        Inl e \<Rightarrow> Inl e
      | Inr infos \<Rightarrow>
          (if length infos \<noteq> 1 then Inl (Io InvalidInput) else Inr (is_valid (di_cs (fst (hd infos))))))"

subsection \<open>Deduplicating a range\<close>

definition has_data :: "('s, 'i, 'b) dedup_env \<Rightarrow> CheckSum \<Rightarrow> ('s, 'i, 'b) dedup_state \<Rightarrow> error + bool" where
  "has_data E cs D = has_chunk (d_store E) cs (dd_chunks D)"

definition add_data ::
  "('s, 'i, 'b) dedup_env \<Rightarrow> nat \<Rightarrow> CheckSum \<Rightarrow> bytes \<Rightarrow> ('s, 'i, 'b) dedup_state \<Rightarrow> (('s, 'i, 'b) dedup_state \<times> (error + unit)) option" where
  "add_data E now cs data D =
     map_option (\<lambda>(q, r). (D\<lparr>dd_chunks := q\<rparr>, r)) (add_chunk (d_store E) now cs data (dd_chunks D))"

definition put_info ::
  "('s, 'i, 'b) dedup_env \<Rightarrow> DedupRange \<Rightarrow> CheckSum \<Rightarrow> ('s, 'i, 'b) dedup_state \<Rightarrow> ('s, 'i, 'b) dedup_state \<times> (error + unit)" where
  "put_info E r cs D =
     (case add_local_dedup_info (d_index E) r cs (dd_index D) of (s, x) \<Rightarrow> (D\<lparr>dd_index := s\<rparr>, x))"

text \<open>The guards, in the order of the code.\<close>

definition dedup_guard :: "nat \<Rightarrow> nat \<Rightarrow> nat \<Rightarrow> error + unit" where
  "dedup_guard backend_size off len =
     (if off \<ge> backend_size then Inl (Io InvalidInput)
      else if off mod CHUNK_SIZE \<noteq> 0 then Inl (Io InvalidInput)
      else case checked_add_u64 off len of
        None \<Rightarrow> Inl (Io InvalidInput)
      | Some e \<Rightarrow> if len mod CHUNK_SIZE \<noteq> 0 \<and> \<not> e \<ge> backend_size then Inl (Io InvalidInput) else Inr ())"

text \<open>The part after the lookup of the checksum: read the data, store it, record it.\<close>

definition dedup_store ::
  "('s, 'i, 'b) dedup_env \<Rightarrow> nat \<Rightarrow> nat \<Rightarrow> nat \<Rightarrow> nat \<Rightarrow> CheckSumMethod \<Rightarrow> ('s, 'i, 'b) dedup_state \<Rightarrow>
   (('s, 'i, 'b) dedup_state \<times> (error + unit)) option" where
  "dedup_store E now backend_size off len m D =
     (case be_fetch (d_backend E) (dd_b D) off (replicate len 0) of
        (b, buf, Inl e) \<Rightarrow> Some (D\<lparr>dd_b := b\<rparr>, Inl e)
      | (b, buf, Inr n) \<Rightarrow>
          (if n \<noteq> len \<and> u64_add off n \<noteq> backend_size
           then Some (D\<lparr>dd_b := b\<rparr>, Inl (Io UnexpectedEof))
           else
             (let data = (if n \<noteq> len then take n buf else buf);
                  cs = CheckSum_from_data (d_digests E) data m
              in case add_data E now cs data (D\<lparr>dd_b := b\<rparr>) of
                   None \<Rightarrow> None
                 | Some (D', Inl e) \<Rightarrow> Some (D', Inl e)
                 | Some (D', Inr _) \<Rightarrow> Some (put_info E (DedupRange_new_with_id (d_id E) off (as_u32 n)) cs D'))))"

definition dedup ::
  "('s, 'i, 'b) dedup_env \<Rightarrow> nat \<Rightarrow> nat \<Rightarrow> nat \<Rightarrow> CheckSum option \<Rightarrow> CheckSumMethod \<Rightarrow> ('s, 'i, 'b) dedup_state \<Rightarrow>
   (('s, 'i, 'b) dedup_state \<times> (error + unit)) option" where
  "dedup E now off len check_sum m D =
     (if len = 0 then Some (D, Inr ())
      else case dedup_guard (be_size (d_backend E) (dd_b D)) off len of
        Inl e \<Rightarrow> Some (D, Inl e)
      | Inr _ \<Rightarrow>
          (let r = DedupRange_new_with_id (d_id E) off len in
           case dedup_check_range (d_index E) (d_id E) r (dd_index D) of
             Inl e \<Rightarrow> Some (D, Inl e)
           | Inr True \<Rightarrow> Some (D, Inr ())
           | Inr False \<Rightarrow>
               (case check_sum of
                  None \<Rightarrow> dedup_store E now (be_size (d_backend E) (dd_b D)) off len m D
                | Some cs \<Rightarrow>
                    (case has_data E cs D of
                       Inl e \<Rightarrow> Some (D, Inl e)
                     | Inr True \<Rightarrow> Some (put_info E r cs (D\<lparr>dd_chunks := fst (touch_chunk cs (dd_chunks D))\<rparr>))
                     | Inr False \<Rightarrow> dedup_store E now (be_size (d_backend E) (dd_b D)) off len (cs_method cs) D))))"

definition dedup_gc_chunk ::
  "('s, 'i, 'b) dedup_env \<Rightarrow> nat \<Rightarrow> ('s, 'i, 'b) dedup_state \<Rightarrow> ('s, 'i, 'b) dedup_state \<times> (error + unit)" where
  "dedup_gc_chunk E chunk_id D =
     (let start = chunk_id * CHUNK_SIZE in
      if start > be_size (d_backend E) (dd_b D) then (D, Inr ())
      else
        (let e = min ((chunk_id + 1) * CHUNK_SIZE) (be_size (d_backend E) (dd_b D)) in
         case dedup_range (d_index E) (d_id E) start (e - start) (dd_index D) of
           Inl x \<Rightarrow> (D, Inl x)
         | Inr infos \<Rightarrow>
             (if \<exists>x \<in> set infos. \<not> is_valid (di_cs (fst x)) then (D, Inr ())
              else case be_invalidate (d_backend E) (dd_b D) chunk_id of (b, r) \<Rightarrow> (D\<lparr>dd_b := b\<rparr>, r))))"

text \<open>The loop of the workers over the chunks \<open>first..=last\<close>; errors are only logged.\<close>

definition gc_chunks :: "('s, 'i, 'b) dedup_env \<Rightarrow> nat \<Rightarrow> nat \<Rightarrow> ('s, 'i, 'b) dedup_state \<Rightarrow> ('s, 'i, 'b) dedup_state" where
  "gc_chunks E i j D = fold (\<lambda>k D. fst (dedup_gc_chunk E k D)) [i..<Suc j] D"

subsection \<open>Reading\<close>

definition enqueue_sync :: "DedupInfo \<Rightarrow> ('s, 'i, 'b) dedup_state \<Rightarrow> ('s, 'i, 'b) dedup_state" where
  "enqueue_sync v D = (if length (dd_sync D) < SYNC_CHUNK_REQ_BUF_SIZE then D\<lparr>dd_sync := dd_sync D @ [v]\<rparr> else D)"

fun try_dedup_chunks ::
  "nat list \<Rightarrow> CheckSumMethod \<Rightarrow> ('s, 'i, 'b) dedup_state \<Rightarrow> ('s, 'i, 'b) dedup_state \<times> (error + unit)" where
  "try_dedup_chunks [] m D = (D, Inr ())"
| "try_dedup_chunks (idx # idxs) m D =
     (case chunk_is_dedup (dd_bits D) idx of
        Inl e \<Rightarrow> (D, Inl e)
      | Inr True \<Rightarrow> try_dedup_chunks idxs m D
      | Inr False \<Rightarrow>
          (if length (dd_reqs D) < DEDUP_CHUNK_REQ_BUF_SIZE then
             (case mark_chunk_dedup (dd_bits D) idx of
                Inl e \<Rightarrow> (D, Inl e)
              | Inr bits \<Rightarrow>
                  try_dedup_chunks idxs m
                    (D\<lparr>dd_reqs := dd_reqs D @ [DedupRequest_new (idx * CHUNK_SIZE) CHUNK_SIZE m], dd_bits := bits\<rparr>))
           else try_dedup_chunks idxs m D))"

definition try_dedup_chunk ::
  "nat \<Rightarrow> nat \<Rightarrow> CheckSumMethod \<Rightarrow> ('s, 'i, 'b) dedup_state \<Rightarrow> ('s, 'i, 'b) dedup_state \<times> (error + unit)" where
  "try_dedup_chunk off len m D =
     (if len = 0 then (D, Inr ())
      else try_dedup_chunks [off div CHUNK_SIZE..<Suc ((off + len - 1) div CHUNK_SIZE)] m D)"

text \<open>
  The trait \<open>DataTransfer\<close>: how a segment gets to where the caller wants it, \<open>'w\<close> the caller's buffer
  or writer.
\<close>

record ('b, 'w) transfer =
  copy_from_backend :: "'b \<Rightarrow> 'w \<Rightarrow> nat \<Rightarrow> nat \<Rightarrow> nat \<Rightarrow> 'b \<times> 'w \<times> (error + nat)"
  copy_from_chunk :: "'w \<Rightarrow> bytes \<Rightarrow> nat \<Rightarrow> nat \<Rightarrow> 'w \<times> (error + nat)"

definition FetchOp :: "('b, 'm) backend_ops_scheme \<Rightarrow> ('b, bytes) transfer" where
  "FetchOp B =
     \<lparr>copy_from_backend = (\<lambda>b data off pos len.
        if pos + len > length data then (b, data, Inl Panic)
        else case be_fetch B b off (slice data pos (pos + len)) of
          (b', sub, r) \<Rightarrow> (b', splice data pos sub, r)),
      copy_from_chunk = (\<lambda>data chunk pos len.
        if pos + len > length data \<or> length chunk \<noteq> len then (data, Inl Panic)
        else (splice data pos chunk, Inr len))\<rparr>"

text \<open>\<open>S\<close> is the backend's own \<open>write_to_fuse_writer\<close> for the writer \<open>fw\<close>.\<close>

definition FuseWriteOp ::
  "('b \<Rightarrow> nat \<Rightarrow> nat \<Rightarrow> 'w \<Rightarrow> 'b \<times> 'w \<times> (error + nat)) \<Rightarrow> ('w \<Rightarrow> bytes \<Rightarrow> 'w \<times> (error + nat)) \<Rightarrow> ('b, 'w) transfer" where
  "FuseWriteOp S fw =
     \<lparr>copy_from_backend = (\<lambda>b w off pos len. S b off (as_u32 len) w),
      copy_from_chunk = (\<lambda>w data pos len. fw w data)\<rparr>"

text \<open>Every error but a panic becomes \<open>Other\<close> here.\<close>

definition chunk_error :: "error \<Rightarrow> error" where
  "chunk_error e = (if e = Panic then Panic else Io Other)"

definition read_dedup_chunk ::
  "('s, 'i, 'b) dedup_env \<Rightarrow> ('b, 'w) transfer \<Rightarrow> CheckSum \<Rightarrow> nat \<Rightarrow> nat \<Rightarrow> nat \<Rightarrow> 's chunkdb \<Rightarrow> 'w \<Rightarrow>
   's chunkdb \<times> 'w \<times> (error + nat option)" where
  "read_dedup_chunk E X cs start len pos q w =
     (case with_chunk_range (d_store E) cs start len (\<lambda>w data. copy_from_chunk X w data pos len) q w of
        (q', w', Inl e) \<Rightarrow> (q', w', Inl (chunk_error e))
      | (q', w', Inr (Some n)) \<Rightarrow> (q', w', Inr (Some n))
      | (q', w', Inr None) \<Rightarrow>
          (case d_client E of
             None \<Rightarrow> (q', w', Inr None)
           | Some prefetch \<Rightarrow>
               (case with_chunk_range (d_store E) cs start len (\<lambda>w data. copy_from_chunk X w data pos len) (prefetch cs q') w' of
                  (q2, w2, Inl e) \<Rightarrow> (q2, w2, Inl (chunk_error e))
                | (q2, w2, Inr r) \<Rightarrow> (q2, w2, Inr r))))"

definition backend_copy ::
  "('b, 'w) transfer \<Rightarrow> nat \<Rightarrow> nat \<Rightarrow> nat \<Rightarrow> ('s, 'i, 'b) dedup_state \<Rightarrow> 'w \<Rightarrow> ('s, 'i, 'b) dedup_state \<times> 'w \<times> (error + nat)" where
  "backend_copy X off pos len D w =
     (case copy_from_backend X (dd_b D) w off pos len of (b, w', r) \<Rightarrow> (D\<lparr>dd_b := b\<rparr>, w', r))"

text \<open>One segment of the loop of \<open>process_dedup_op\<close>.\<close>

definition process_segment ::
  "('s, 'i, 'b) dedup_env \<Rightarrow> ('b, 'w) transfer \<Rightarrow> DedupInfo \<Rightarrow> nat \<Rightarrow> nat \<Rightarrow> nat \<Rightarrow> ('s, 'i, 'b) dedup_state \<Rightarrow> 'w \<Rightarrow>
   ('s, 'i, 'b) dedup_state \<times> 'w \<times> (error + nat)" where
  "process_segment E X v seg_len pos whole_off D w =
     (if \<not> is_valid (di_cs v) then backend_copy X whole_off pos seg_len D w
      else case read_dedup_chunk E X (checksum_of (di_cs v)) (u64_sub whole_off (di_off v)) seg_len pos (dd_chunks D) w of
        (q, w', Inr (Some n)) \<Rightarrow> (D\<lparr>dd_chunks := q\<rparr>, w', Inr n)
      | (q, w', Inr None) \<Rightarrow> backend_copy X whole_off pos seg_len (enqueue_sync v (D\<lparr>dd_chunks := q\<rparr>)) w'
      | (q, w', Inl e) \<Rightarrow>
          (if e = Panic then (D\<lparr>dd_chunks := q\<rparr>, w', Inl Panic)
           else backend_copy X whole_off pos seg_len (D\<lparr>dd_chunks := q\<rparr>) w'))"

fun process_segments ::
  "('s, 'i, 'b) dedup_env \<Rightarrow> ('b, 'w) transfer \<Rightarrow> (DedupInfo \<times> nat) list \<Rightarrow> nat \<Rightarrow> nat \<Rightarrow> ('s, 'i, 'b) dedup_state \<Rightarrow> 'w \<Rightarrow>
   ('s, 'i, 'b) dedup_state \<times> 'w \<times> (error + nat)" where
  "process_segments E X [] pos whole_off D w = (D, w, Inr pos)"
| "process_segments E X ((v, seg_len) # infos) pos whole_off D w =
     (case process_segment E X v seg_len pos whole_off D w of
        (D', w', Inl e) \<Rightarrow> (D', w', Inl e)
      | (D', w', Inr n) \<Rightarrow> process_segments E X infos (pos + n) (u64_add whole_off n) D' w')"

definition process_dedup_op ::
  "('s, 'i, 'b) dedup_env \<Rightarrow> ('b, 'w) transfer \<Rightarrow> nat \<Rightarrow> nat \<Rightarrow> ('s, 'i, 'b) dedup_state \<Rightarrow> 'w \<Rightarrow>
   ('s, 'i, 'b) dedup_state \<times> 'w \<times> (error + nat)" where
  "process_dedup_op E X off len D w =
     (case dedup_range (d_index E) (d_id E) off len (dd_index D) of
        Inl e \<Rightarrow> backend_copy X off 0 len D w
      | Inr infos \<Rightarrow>
          (if infos = [] then backend_copy X off 0 len D w else process_segments E X infos 0 off D w))"

text \<open>\<open>fetch\<close> and \<open>write_to_fuse_writer\<close> differ in the transfer only.\<close>

definition dedup_read ::
  "('s, 'i, 'b) dedup_env \<Rightarrow> ('b, 'w) transfer \<Rightarrow> nat \<Rightarrow> nat \<Rightarrow> ('s, 'i, 'b) dedup_state \<Rightarrow> 'w \<Rightarrow>
   ('s, 'i, 'b) dedup_state \<times> 'w \<times> (error + nat)" where
  "dedup_read E X off req D w =
     (if req = 0 then (D, w, Inr 0)
      else
        (let sz = be_size (d_backend E) (dd_b D) in
         if off \<ge> sz then (D, w, Inr 0)
         else
           (let len = min req (sz - off) in
            case process_dedup_op E X off len D w of
              (D', w', Inl e) \<Rightarrow> (D', w', Inl e)
            | (D', w', Inr n) \<Rightarrow>
                (case try_dedup_chunk off len Blake3 D' of
                   (D2, Inl e) \<Rightarrow> (D2, w', Inl e)
                 | (D2, Inr _) \<Rightarrow> (D2, w', Inr n)))))"

definition DedupReader_fetch ::
  "('s, 'i, 'b) dedup_env \<Rightarrow> ('s, 'i, 'b) dedup_state \<Rightarrow> nat \<Rightarrow> bytes \<Rightarrow> ('s, 'i, 'b) dedup_state \<times> bytes \<times> (error + nat)" where
  "DedupReader_fetch E D off data = dedup_read E (FetchOp (d_backend E)) off (length data) D data"

definition DedupReader_write ::
  "('s, 'i, 'b) dedup_env \<Rightarrow> ('b \<Rightarrow> nat \<Rightarrow> nat \<Rightarrow> 'w \<Rightarrow> 'b \<times> 'w \<times> (error + nat)) \<Rightarrow> ('w \<Rightarrow> bytes \<Rightarrow> 'w \<times> (error + nat)) \<Rightarrow>
   ('s, 'i, 'b) dedup_state \<Rightarrow> nat \<Rightarrow> nat \<Rightarrow> 'w \<Rightarrow> ('s, 'i, 'b) dedup_state \<times> 'w \<times> (error + nat)" where
  "DedupReader_write E S fw D off sz w = dedup_read E (FuseWriteOp S fw) off sz D w"

definition DedupReader_ops :: "('s, 'i, 'b) dedup_env \<Rightarrow> ('s, 'i, 'b) dedup_state backend_ops" where
  "DedupReader_ops E =
     \<lparr>be_size = (\<lambda>D. be_size (d_backend E) (dd_b D)), be_fetch = DedupReader_fetch E\<rparr>"

subsection \<open>The workers\<close>

text \<open>\<open>SyncWorker::process\<close>: the backend's data goes back into the chunk database.\<close>

definition SyncWorker_process ::
  "('s, 'i, 'b) dedup_env \<Rightarrow> nat \<Rightarrow> DedupInfo \<Rightarrow> ('s, 'i, 'b) dedup_state \<Rightarrow> ('s, 'i, 'b) dedup_state option" where
  "SyncWorker_process E now v D =
     (if \<not> is_valid (di_cs v) \<or> di_len v = 0 then Some D
      else
        (let cs = checksum_of (di_cs v); len = di_len v in
         case be_fetch (d_backend E) (dd_b D) (di_off v) (replicate len 0) of
           (b, buf, Inl e) \<Rightarrow> Some (D\<lparr>dd_b := b\<rparr>)
         | (b, buf, Inr n) \<Rightarrow>
             (if n \<noteq> len \<or> CheckSum_from_data (d_digests E) buf (cs_method cs) \<noteq> cs then Some (D\<lparr>dd_b := b\<rparr>)
              else case add_data E now cs buf (D\<lparr>dd_b := b\<rparr>) of
                None \<Rightarrow> None
              | Some (D', Inl e) \<Rightarrow> Some D'
              | Some (D', Inr _) \<Rightarrow>
                  Some (gc_chunks E (di_off v div CHUNK_SIZE) ((di_off v + len - 1) div CHUNK_SIZE) D'))))"

definition SyncWorker_step ::
  "('s, 'i, 'b) dedup_env \<Rightarrow> nat \<Rightarrow> ('s, 'i, 'b) dedup_state \<Rightarrow> ('s, 'i, 'b) dedup_state option" where
  "SyncWorker_step E now D =
     (case dd_sync D of [] \<Rightarrow> Some D | v # vs \<Rightarrow> SyncWorker_process E now v (D\<lparr>dd_sync := vs\<rparr>))"

definition DedupWorker_step ::
  "('s, 'i, 'b) dedup_env \<Rightarrow> nat \<Rightarrow> ('s, 'i, 'b) dedup_state \<Rightarrow> ('s, 'i, 'b) dedup_state option" where
  "DedupWorker_step E now D =
     (case dd_reqs D of
        [] \<Rightarrow> Some D
      | req # reqs \<Rightarrow>
          (case dedup E now (rq_off req) (rq_len req) (rq_check_sum req) (rq_method req) (D\<lparr>dd_reqs := reqs\<rparr>) of
             None \<Rightarrow> None
           | Some (D', Inl e) \<Rightarrow> Some D'
           | Some (D', Inr _) \<Rightarrow>
               Some (if rq_len req = 0 then D'
                     else gc_chunks E (rq_off req div CHUNK_SIZE) ((rq_off req + rq_len req - 1) div CHUNK_SIZE) D')))"

definition DedupReader_new ::
  "('s, 'i, 'b) dedup_env \<Rightarrow> bytes \<Rightarrow> 's chunkdb \<Rightarrow> 'i \<Rightarrow> 'b \<Rightarrow> (error + ('s, 'i, 'b) dedup_env \<times> ('s, 'i, 'b) dedup_state)" where
  "DedupReader_new E data_id q s b =
     (case align_up usize_max (be_size (d_backend E) b) CHUNK_SIZE of
        None \<Rightarrow> Inl Panic
      | Some a \<Rightarrow>
          (case align_up usize_max (a div CHUNK_SIZE) 64 of
             None \<Rightarrow> Inl Panic
           | Some nr \<Rightarrow>
               Inr (E\<lparr>d_id := blake3_digest (d_digests E) data_id\<rparr>,
                    \<lparr>dd_chunks = q, dd_index = s, dd_b = b, dd_bits = replicate (nr div 64) 0, dd_sync = [], dd_reqs = []\<rparr>)))"

end
