(* ===== verification/DedupSpec.thy ===== *)
theory DedupSpec
  imports Dedup ChunkContract
begin

text \<open>
  What the deduplicating source guarantees.  The scan of the records cuts a request into consecutive
  segments; a read delivers the bytes of the image through either kind of transfer (locale
  \<open>transfer\<close>), so the reader is again a \<open>backend\<close>; the workers keep the invariant this rests on, in
  every order in which reads, workers and other users of the chunk database run.
\<close>

subsection \<open>The segments of a request\<close>

text \<open>A segment is inside its record, which satisfies \<open>P\<close>, or is marked as unknown.\<close>

definition seg_ok :: "(DedupInfo \<Rightarrow> bool) \<Rightarrow> nat \<Rightarrow> DedupInfo \<Rightarrow> nat \<Rightarrow> bool" where
  "seg_ok P off v n \<longleftrightarrow>
     P v \<and> di_off v \<le> off \<and> off + n \<le> DedupInfo_end v \<or> v = DedupInfo_new off (as_u32 n) CheckSum_empty"

fun seg_chain :: "(DedupInfo \<Rightarrow> bool) \<Rightarrow> nat \<Rightarrow> (DedupInfo \<times> nat) list \<Rightarrow> bool" where
  "seg_chain P off [] \<longleftrightarrow> True"
| "seg_chain P off ((v, n) # infos) \<longleftrightarrow> 0 < n \<and> seg_ok P off v n \<and> seg_chain P (off + n) infos"

abbreviation segs_len :: "(DedupInfo \<times> nat) list \<Rightarrow> nat" where
  "segs_len infos \<equiv> sum_list (map snd infos)"

lemma seg_chain_snoc [simp]:
  "seg_chain P off (infos @ [(v, n)]) \<longleftrightarrow> seg_chain P off infos \<and> 0 < n \<and> seg_ok P (off + segs_len infos) v n"
  by (induction infos arbitrary: off) (auto simp: add.assoc)

lemma seg_ok_gap: "seg_ok P off (DedupInfo_new off (as_u32 n) CheckSum_empty) n"
  by (simp add: seg_ok_def)

lemma DedupInfo_end_less: "DedupInfo_end v < 2 ^ 64"
  by (simp only: DedupInfo_end_def u64_add_less)

lemma scan_ranges_chain:
  assumes "scan_ranges i it off len infos = (infos', off', len')"
    and "seg_chain P o0 infos" "o0 + segs_len infos = off" "off + len < 2 ^ 64" "0 < len"
    and "\<forall>(k, v) \<in> set it. dr_id k = i \<longrightarrow> P v"
  shows "seg_chain P o0 infos' \<and> o0 + segs_len infos' = off' \<and> off' + len' = off + len"
  using assms
proof (induction it arbitrary: off len infos)
  case Nil
  then show ?case by simp
next
  case (Cons x it)
  obtain k v where x: "x = (k, v)" by fastforce
  have step: ?case
    if v': "v' = v \<and> di_off v \<le> off \<and> off < DedupInfo_end v \<and> n = min (DedupInfo_end v - off) len \<or>
        v' = DedupInfo_new off (as_u32 n) CheckSum_empty \<and> off < di_off v \<and> n = min (di_off v - off) len"
      and id: "dr_id k = i"
      and run: "(if len - n = 0 \<or> di_off v \<ge> u64_add (u64_add off n) (len - n)
        then (infos @ [(v', n)], u64_add off n, len - n)
        else scan_ranges i it (u64_add off n) (len - n) (infos @ [(v', n)])) = (infos', off', len')" for v' n
  proof -
    have n: "0 < n" "n \<le> len" using v' Cons.prems(5) by auto
    have wrap: "u64_add off n = off + n" using Cons.prems(4) n by (intro u64_add_exact) linarith
    have "P v" using Cons.prems(6) x id by auto
    then have "seg_ok P off v' n" using v' by (auto simp: seg_ok_def)
    then have chain: "seg_chain P o0 (infos @ [(v', n)])" "o0 + segs_len (infos @ [(v', n)]) = off + n"
      using Cons.prems(2,3) n(1) by simp_all
    show ?thesis
    proof (cases "len - n = 0 \<or> di_off v \<ge> u64_add (u64_add off n) (len - n)")
      case True
      with run have eq: "infos' = infos @ [(v', n)]" "off' = off + n" "len' = len - n" by (simp_all only: if_True wrap prod.inject)
      with chain n show ?thesis by simp
    next
      case False
      then have "scan_ranges i it (off + n) (len - n) (infos @ [(v', n)]) = (infos', off', len')"
        using run by (simp only: if_False wrap)
      moreover have "off + n + (len - n) < 2 ^ 64" "0 < len - n" using Cons.prems(4) n False by (simp_all only: le_add_diff_inverse add.assoc) simp
      moreover have "\<forall>(k, v) \<in> set it. dr_id k = i \<longrightarrow> P v" using Cons.prems(6) by simp
      ultimately show ?thesis using Cons.IH [of "off + n" "len - n"] chain n by simp
    qed
  qed
  show ?case
  proof (cases "dr_id k = i")
    case False
    with Cons.prems x show ?thesis by simp
  next
    case id: True
    consider "off < di_off v" | "di_off v \<le> off" "DedupInfo_end v \<le> off" | "di_off v \<le> off" "off < DedupInfo_end v"
      by linarith
    then show ?thesis
    proof cases
      case 1
      then show ?thesis
        using step [of "DedupInfo_new off (as_u32 (min (di_off v - off) len)) CheckSum_empty" "min (di_off v - off) len"]
          Cons.prems(1) id x by (simp add: Let_def)
    next
      case 2
      then have "scan_ranges i it off len infos = (infos', off', len')" using Cons.prems(1) id x by simp
      then show ?thesis using Cons.IH Cons.prems(2-6) by simp
    next
      case 3
      then show ?thesis
        using step [of v "min (DedupInfo_end v - off) len"] Cons.prems(1) id x by (simp add: Let_def)
    qed
  qed
qed

definition index_env_ok :: "'i index_env \<Rightarrow> ('i \<Rightarrow> DedupRange \<rightharpoonup> DedupInfo) \<Rightarrow> bool" where
  "index_env_ok T W \<longleftrightarrow> txn_ok T W \<and> db_ok DedupRange_encode W (ranges T)"

lemma dedup_range_chain:
  assumes ok: "index_env_ok T W" and run: "dedup_range T i off len s = Inr infos" and small: "off + len < 2 ^ 64"
    and P: "\<And>k v. W s k = Some v \<Longrightarrow> dr_id k = i \<Longrightarrow> P v"
  shows "seg_chain P off infos \<and> segs_len infos = len"
proof (cases "len = 0")
  case True
  with run show ?thesis by (simp add: dedup_range_def)
next
  case False
  obtain r it infos' off' len' where r: "read_txn T s = Inr r" and it: "db_from (ranges T) r (DedupRange_new_with_id i off 1) = Inr it"
    and scan: "scan_ranges i it off len [] = (infos', off', len')"
    and infos: "infos = (if len' \<noteq> 0 then infos' @ [(DedupInfo_new off' (as_u32 len') CheckSum_empty, len')] else infos')"
    using run False by (auto simp: dedup_range_def split: sum.splits prod.splits)
  obtain xs where xs: "listing DedupRange_encode (W r) xs" "set it \<subseteq> set xs"
    using ok it db_okD(7) [of DedupRange_encode W "ranges T"] by (fastforce simp: index_env_ok_def)
  have "W r = W s" using ok r txn_okD(1) by (fastforce simp: index_env_ok_def)
  then have "\<forall>(k, v) \<in> set it. dr_id k = i \<longrightarrow> P v"
    using xs P listing_in_iff [OF xs(1)] by auto
  then have "seg_chain P off infos' \<and> off + segs_len infos' = off' \<and> off' + len' = off + len"
    using scan_ranges_chain [OF scan, of P off] False small by simp
  then show ?thesis using infos by (auto simp: seg_ok_gap)
qed

lemma seg_chain_nth:
  "seg_chain P off infos \<Longrightarrow> j < length infos \<Longrightarrow>
   0 < snd (infos ! j) \<and> seg_ok P (off + segs_len (take j infos)) (fst (infos ! j)) (snd (infos ! j))"
proof (induction infos arbitrary: off j)
  case (Cons x infos)
  obtain v n where x: "x = (v, n)" by fastforce
  show ?case
  proof (cases j)
    case (Suc k)
    then show ?thesis using Cons.IH [of "off + n" k] Cons.prems by (simp add: x add.assoc)
  qed (use Cons.prems x in simp)
qed simp

subsection \<open>The invariant\<close>

text \<open>
  A stored chunk is faithful to the image when its data is the image's wherever the image has data
  with its checksum; the records of the image carry the checksum of the range they describe.
\<close>

definition faithful :: "digests \<Rightarrow> bytes \<Rightarrow> CheckSum \<Rightarrow> bytes \<Rightarrow> bool" where
  "faithful H img cs d \<longleftrightarrow>
     (\<forall>a b. a \<le> b \<longrightarrow> b \<le> length img \<longrightarrow> CheckSum_from_data H (slice img a b) (cs_method cs) = cs \<longrightarrow> d = slice img a b)"

definition record_ok :: "digests \<Rightarrow> bytes \<Rightarrow> DedupInfo \<Rightarrow> bool" where
  "record_ok H img v \<longleftrightarrow> (is_valid (di_cs v) \<longrightarrow> di_len v < 2 ^ 32 \<and> di_off v + di_len v \<le> length img \<and>
     CheckSum_from_data H (slice img (di_off v) (di_off v + di_len v)) (cs_method (checksum_of (di_cs v))) = checksum_of (di_cs v))"

definition client_ok :: "('s, 'i, 'b) dedup_env \<Rightarrow> 's views \<Rightarrow> bytes \<Rightarrow> bool" where
  "client_ok E V img \<longleftrightarrow> (\<forall>prefetch cs q. d_client E = Some prefetch \<longrightarrow>
     chunks_ok (faithful (d_digests E) img) V q \<longrightarrow> chunks_ok (faithful (d_digests E) img) V (prefetch cs q))"

text \<open>The requests in the channel come from \<open>try_dedup_chunk\<close>.\<close>

definition req_ok :: "DedupRequest \<Rightarrow> bool" where
  "req_ok rq \<longleftrightarrow> rq_check_sum rq = None \<and> rq_len rq < 2 ^ 32"

lemma req_ok_new: "req_ok (DedupRequest_new off CHUNK_SIZE m)"
  by (simp add: req_ok_def DedupRequest_new_def CHUNK_SIZE_def)

definition core_ok ::
  "('s, 'i, 'b) dedup_env \<Rightarrow> 's views \<Rightarrow> ('i \<Rightarrow> DedupRange \<rightharpoonup> DedupInfo) \<Rightarrow> bytes \<Rightarrow> ('s, 'i, 'b) dedup_state \<Rightarrow> bool" where
  "core_ok E V W img D \<longleftrightarrow>
     chunk_env_ok (d_store E) V \<and> index_env_ok (d_index E) W \<and> client_ok E V img \<and> length img < 2 ^ 63 \<and>
     chunks_ok (faithful (d_digests E) img) V (dd_chunks D) \<and>
     (\<forall>k v. W (dd_index D) k = Some v \<longrightarrow> dr_id k = d_id E \<longrightarrow> record_ok (d_digests E) img v) \<and>
     length img \<le> 64 * length (dd_bits D) * CHUNK_SIZE \<and>
     (\<forall>v \<in> set (dd_sync D). record_ok (d_digests E) img v) \<and> (\<forall>rq \<in> set (dd_reqs D). req_ok rq)"

lemma core_okD:
  assumes "core_ok E V W img D"
  shows "chunk_env_ok (d_store E) V" "index_env_ok (d_index E) W" "client_ok E V img" "length img < 2 ^ 63"
    "chunks_ok (faithful (d_digests E) img) V (dd_chunks D)"
    "W (dd_index D) k = Some v \<Longrightarrow> dr_id k = d_id E \<Longrightarrow> record_ok (d_digests E) img v"
    "length img \<le> 64 * length (dd_bits D) * CHUNK_SIZE"
    "\<forall>v \<in> set (dd_sync D). record_ok (d_digests E) img v" "\<forall>rq \<in> set (dd_reqs D). req_ok rq"
  using assms by (simp_all add: core_ok_def)

lemma core_ok_cong:
  assumes "core_ok E V W img D" "dd_index D' = dd_index D" "length (dd_bits D') = length (dd_bits D)"
    "chunks_ok (faithful (d_digests E) img) V (dd_chunks D')"
    "\<forall>v \<in> set (dd_sync D'). record_ok (d_digests E) img v" "\<forall>rq \<in> set (dd_reqs D'). req_ok rq"
  shows "core_ok E V W img D'"
  using assms by (simp add: core_ok_def)

lemma core_ok_b [simp]: "core_ok E V W img (D\<lparr>dd_b := b\<rparr>) = core_ok E V W img D"
  by (simp_all add: core_ok_def)

lemma core_ok_enqueue:
  "core_ok E V W img D \<Longrightarrow> record_ok (d_digests E) img v \<Longrightarrow> core_ok E V W img (enqueue_sync v D)"
  by (auto simp: enqueue_sync_def core_ok_def)

lemma enqueue_sync_frame [simp]:
  "dd_b (enqueue_sync v D) = dd_b D" "dd_chunks (enqueue_sync v D) = dd_chunks D" "dd_bits (enqueue_sync v D) = dd_bits D"
  by (simp_all add: enqueue_sync_def)

subsection \<open>Reading a chunk\<close>

lemma with_chunk_range_cases:
  assumes ok: "chunk_env_ok L V" and run: "with_chunk_range L cs start len f q w = (q', w', r)"
  shows "env q' = env q \<and> high q' = high q \<and>
    ((w' = w \<and> (\<exists>e. r = Inl e)) \<or> (w' = w \<and> r = Inr None \<and> v_data V (env q) (disk_of cs) = None) \<or>
     (\<exists>d x. v_data V (env q) (disk_of cs) = Some d \<and> start \<le> u64_add start len \<and> u64_add start len \<le> length d \<and>
        f w (slice d start (u64_add start len)) = (w', x) \<and> r = (case x of Inl e \<Rightarrow> Inl e | Inr y \<Rightarrow> Inr (Some y))))"
proof -
  have "x = v_data V (env q) (disk_of cs)" if "read_txn L (env q) = Inr s" "db_get (data_db L) s (disk_of cs) = Inr x" for s x
    using db_okD(1) [OF env_okD(2) [OF ok] that(2)] env_txn(1) [OF ok that(1)] by (simp add: same_view_def)
  then show ?thesis
    using run unfolding with_chunk_range_def Let_def
    by (cases "read_txn L (env q)") (auto split: sum.splits option.splits if_splits prod.splits)
qed

lemma bit_in_bitmap: "idx * CHUNK_SIZE < 64 * len * CHUNK_SIZE \<Longrightarrow> idx div 64 < len"
  by (simp only: mult_less_cancel2) linarith

lemma try_chunks_ok:
  assumes "try_dedup_chunks idxs m D = (D', r)" "\<forall>idx \<in> set idxs. idx div 64 < length (dd_bits D)"
  shows "r = Inr () \<and> dd_b D' = dd_b D \<and> dd_chunks D' = dd_chunks D \<and> dd_index D' = dd_index D \<and> dd_sync D' = dd_sync D \<and>
    length (dd_bits D') = length (dd_bits D) \<and> ((\<forall>rq \<in> set (dd_reqs D). req_ok rq) \<longrightarrow> (\<forall>rq \<in> set (dd_reqs D'). req_ok rq))"
  using assms
proof (induction idxs arbitrary: D)
  case (Cons idx idxs)
  have b: "idx div 64 < length (dd_bits D)" using Cons.prems(2) by simp
  then obtain x where x: "chunk_is_dedup (dd_bits D) idx = Inr x" by (simp add: chunk_is_dedup_def)
  obtain bits where bits: "mark_chunk_dedup (dd_bits D) idx = Inr bits" and l: "length bits = length (dd_bits D)"
    using b by (auto simp: mark_chunk_dedup_def mark_attempt_def Let_def)
  define D1 where "D1 = (if \<not> x \<and> length (dd_reqs D) < DEDUP_CHUNK_REQ_BUF_SIZE
    then D\<lparr>dd_reqs := dd_reqs D @ [DedupRequest_new (idx * CHUNK_SIZE) CHUNK_SIZE m], dd_bits := bits\<rparr> else D)"
  have "try_dedup_chunks idxs m D1 = (D', r)"
    using Cons.prems(1) x bits by (simp add: D1_def split: if_splits bool.splits)
  moreover have "\<forall>idx \<in> set idxs. idx div 64 < length (dd_bits D1)" using Cons.prems(2) l by (simp add: D1_def)
  moreover have "dd_b D1 = dd_b D \<and> dd_chunks D1 = dd_chunks D \<and> dd_index D1 = dd_index D \<and> dd_sync D1 = dd_sync D \<and>
      length (dd_bits D1) = length (dd_bits D)" using l by (simp add: D1_def)
  moreover have "(\<forall>rq \<in> set (dd_reqs D). req_ok rq) \<longrightarrow> (\<forall>rq \<in> set (dd_reqs D1). req_ok rq)"
    by (simp add: D1_def req_ok_new)
  ultimately show ?case using Cons.IH [of D1] by simp
qed simp

lemma try_chunk_ok:
  assumes "off + len \<le> 64 * length (dd_bits D) * CHUNK_SIZE" "try_dedup_chunk off len m D = (D', r)"
  shows "r = Inr () \<and> dd_b D' = dd_b D \<and> dd_chunks D' = dd_chunks D \<and> dd_index D' = dd_index D \<and> dd_sync D' = dd_sync D \<and>
    length (dd_bits D') = length (dd_bits D) \<and> ((\<forall>rq \<in> set (dd_reqs D). req_ok rq) \<longrightarrow> (\<forall>rq \<in> set (dd_reqs D'). req_ok rq))"
proof (cases "len = 0")
  case True
  with assms show ?thesis by (simp add: try_dedup_chunk_def)
next
  case False
  have b: "idx div 64 < length (dd_bits D)" if "idx \<le> (off + len - 1) div CHUNK_SIZE" for idx
  proof (rule bit_in_bitmap)
    have "idx * CHUNK_SIZE \<le> (off + len - 1) div CHUNK_SIZE * CHUNK_SIZE" using that by simp
    also have "\<dots> \<le> off + len - 1" by (rule div_times_less_eq_dividend)
    also have "\<dots> < off + len" using False by simp
    finally show "idx * CHUNK_SIZE < 64 * length (dd_bits D) * CHUNK_SIZE" using assms(1) by linarith
  qed
  have "\<forall>idx \<in> set [off div CHUNK_SIZE..<Suc ((off + len - 1) div CHUNK_SIZE)]. idx div 64 < length (dd_bits D)"
    by (intro ballI b) (simp only: set_upt atLeastLessThan_iff less_Suc_eq_le)
  moreover have "try_dedup_chunks [off div CHUNK_SIZE..<Suc ((off + len - 1) div CHUNK_SIZE)] m D = (D', r)"
    using assms(2) False by (simp only: try_dedup_chunk_def if_False)
  ultimately show ?thesis by (intro try_chunks_ok)
qed

locale transfer =
  fixes X :: "('b, 'w) transfer" and binv :: "'b \<Rightarrow> bool" and img :: bytes and off0 :: nat and len :: nat
    and good :: "nat \<Rightarrow> 'w \<Rightarrow> bool" and keeps :: "'w \<Rightarrow> bool"
  assumes in_image: "good pos w \<Longrightarrow> off0 + len \<le> length img \<and> length img < 2 ^ 63"
    and good_keeps: "good pos w \<Longrightarrow> keeps w"
    and from_backend: "binv b \<Longrightarrow> good pos w \<Longrightarrow> pos + n \<le> len \<Longrightarrow> 0 < n \<Longrightarrow>
      copy_from_backend X b w (off0 + pos) pos n = (b', w', r) \<Longrightarrow> binv b' \<and> keeps w' \<and> (isl r \<or> r = Inr n \<and> good (pos + n) w')"
    and from_chunk: "good pos w \<Longrightarrow> pos + n \<le> len \<Longrightarrow> 0 < n \<Longrightarrow>
      copy_from_chunk X w (slice img (off0 + pos) (off0 + pos + n)) pos n = (w', r) \<Longrightarrow>
      (case r of Inl e \<Rightarrow> good pos w' | Inr m \<Rightarrow> m = n \<and> good (pos + n) w')"
begin

lemma chunk_part:
  assumes ok: "chunk_env_ok L V" and st: "chunks_ok (faithful H img) V q"
    and v: "record_ok H img v" "is_valid (di_cs v)" "di_off v \<le> off0 + pos" "off0 + pos + n \<le> DedupInfo_end v"
    and g: "good pos w" and n: "pos + n \<le> len" "0 < n"
    and run: "with_chunk_range L (checksum_of (di_cs v)) (u64_sub (off0 + pos) (di_off v)) n
      (\<lambda>w data. copy_from_chunk X w data pos n) q w = (q', w', r)"
  shows "env q' = env q \<and> high q' = high q \<and> (case r of Inr (Some m) \<Rightarrow> m = n \<and> good (pos + n) w' | _ \<Rightarrow> good pos w')"
proof -
  let ?s = "di_off v" and ?cs = "checksum_of (di_cs v)"
  have rec: "?s + di_len v \<le> length img" "CheckSum_from_data H (slice img ?s (?s + di_len v)) (cs_method ?cs) = ?cs"
    using v(1,2) by (simp_all add: record_ok_def)
  have small: "off0 + len \<le> length img" "length img < 2 ^ 63" using in_image [OF g] by simp_all
  have "length img < 2 ^ 64" by (rule less_trans [OF small(2)]) simp
  then have top: "off0 + pos + n < 2 ^ 64" using small(1) n(1) by linarith
  have start: "u64_sub (off0 + pos) ?s = off0 + pos - ?s" using v(3) top by (intro u64_sub_exact) linarith+
  have wrap: "u64_add (off0 + pos - ?s) n = off0 + pos - ?s + n" using v(3) top by (intro u64_add_exact) linarith
  have "DedupInfo_end v = ?s + di_len v" unfolding DedupInfo_end_def using rec \<open>length img < 2 ^ 64\<close> by (intro u64_add_exact) linarith
  then have e: "off0 + pos + n \<le> ?s + di_len v" using v(4) by simp
  show ?thesis
    using with_chunk_range_cases [OF ok run]
  proof (elim conjE disjE exE, goal_cases)
    case (3 d x)
    have "d = slice img ?s (?s + di_len v)"
      using st 3(3) rec unfolding chunks_ok_def stored_ok_def faithful_def disk_of_def by simp
    then have "slice d (off0 + pos - ?s) (off0 + pos - ?s + n) = slice img (?s + (off0 + pos - ?s)) (?s + (off0 + pos - ?s + n))"
      using e rec v(3) by (simp add: slice_slice)
    also have "\<dots> = slice img (off0 + pos) (off0 + pos + n)" using v(3) by simp
    finally have "copy_from_chunk X w (slice img (off0 + pos) (off0 + pos + n)) pos n = (w', x)" using 3(6) start wrap by simp
    from from_chunk [OF g n this] 3 show ?case by (simp split: sum.splits)
  qed (use g in simp_all)
qed

lemma read_chunk_ok:
  assumes ok: "chunk_env_ok (d_store E) V" "client_ok E V img" and st: "chunks_ok (faithful (d_digests E) img) V q"
    and v: "record_ok (d_digests E) img v" "is_valid (di_cs v)" "di_off v \<le> off0 + pos" "off0 + pos + n \<le> DedupInfo_end v"
    and g: "good pos w" and n: "pos + n \<le> len" "0 < n"
    and run: "read_dedup_chunk E X (checksum_of (di_cs v)) (u64_sub (off0 + pos) (di_off v)) n pos q w = (q', w', r)"
  shows "chunks_ok (faithful (d_digests E) img) V q' \<and>
    (case r of Inr (Some m) \<Rightarrow> m = n \<and> good (pos + n) w' | _ \<Rightarrow> good pos w')"
proof -
  let ?f = "\<lambda>w data. copy_from_chunk X w data pos n"
  obtain q1 w1 r1 where run1: "with_chunk_range (d_store E) (checksum_of (di_cs v)) (u64_sub (off0 + pos) (di_off v)) n ?f q w = (q1, w1, r1)"
    by (metis prod_cases3)
  note p1 = chunk_part [OF ok(1) st v g n run1]
  then have s1: "chunks_ok (faithful (d_digests E) img) V q1" by (intro chunks_ok_cong [OF st]) blast+
  show ?thesis
  proof (cases "r1 = Inr None \<and> d_client E \<noteq> None")
    case False
    then have "q' = q1 \<and> w' = w1 \<and> r = (case r1 of Inl e \<Rightarrow> Inl (chunk_error e) | Inr x \<Rightarrow> Inr x)"
      using run run1 by (auto simp: read_dedup_chunk_def split: sum.splits option.splits)
    with p1 s1 show ?thesis by (auto split: sum.splits)
  next
    case True
    then obtain pre where c: "d_client E = Some pre" and r1: "r1 = Inr None" by auto
    obtain q2 w2 r2 where run2: "with_chunk_range (d_store E) (checksum_of (di_cs v)) (u64_sub (off0 + pos) (di_off v)) n ?f
        (pre (checksum_of (di_cs v)) q1) w1 = (q2, w2, r2)"
      by (metis prod_cases3)
    have st1: "chunks_ok (faithful (d_digests E) img) V (pre (checksum_of (di_cs v)) q1)"
      using ok(2) c s1 by (simp add: client_ok_def)
    have g1: "good pos w1" using p1 r1 by simp
    have "q' = q2 \<and> w' = w2 \<and> r = (case r2 of Inl e \<Rightarrow> Inl (chunk_error e) | Inr x \<Rightarrow> Inr x)"
      using run run1 run2 r1 c by (auto simp: read_dedup_chunk_def split: sum.splits option.splits)
    with chunk_part [OF ok(1) st1 v g1 n run2] show ?thesis
      by (auto split: sum.splits intro: chunks_ok_cong [OF st1])
  qed
qed

lemma backend_copy_ok:
  assumes "core_ok E V W img D" "binv (dd_b D)" "good pos w" "pos + n \<le> len" "0 < n"
    and "backend_copy X (off0 + pos) pos n D w = (D', w', r)"
  shows "core_ok E V W img D' \<and> binv (dd_b D') \<and> keeps w' \<and> (isl r \<or> r = Inr n \<and> good (pos + n) w')"
proof -
  obtain b where "copy_from_backend X (dd_b D) w (off0 + pos) pos n = (b, w', r)" and D': "D' = D\<lparr>dd_b := b\<rparr>"
    using assms(6) by (auto simp: backend_copy_def split: prod.splits)
  from from_backend [OF assms(2-5) this(1)] D' assms(1) show ?thesis by simp
qed

lemma process_segment_ok:
  assumes core: "core_ok E V W img D" "binv (dd_b D)" and g: "good pos w" and n: "pos + n \<le> len" "0 < n"
    and seg: "seg_ok (record_ok (d_digests E) img) (off0 + pos) v n"
    and run: "process_segment E X v n pos (off0 + pos) D w = (D', w', r)"
  shows "core_ok E V W img D' \<and> binv (dd_b D') \<and> keeps w' \<and> (isl r \<or> r = Inr n \<and> good (pos + n) w')"
proof (cases "is_valid (di_cs v)")
  case False
  then show ?thesis using run backend_copy_ok [OF core g n] by (simp add: process_segment_def)
next
  case True
  then have v: "record_ok (d_digests E) img v" "di_off v \<le> off0 + pos" "off0 + pos + n \<le> DedupInfo_end v"
    using seg by (auto simp: seg_ok_def CheckSum_empty_def)
  obtain q w1 r1 where rd: "read_dedup_chunk E X (checksum_of (di_cs v)) (u64_sub (off0 + pos) (di_off v)) n pos (dd_chunks D) w = (q, w1, r1)"
    by (metis prod_cases3)
  note h = read_chunk_ok [OF core_okD(1,3,5) [OF core(1)] v(1) True v(2,3) g n rd]
  have c1: "core_ok E V W img (D\<lparr>dd_chunks := q\<rparr>)"
    using h core_okD(8,9) [OF core(1)] by (intro core_ok_cong [OF core(1)]) simp_all
  show ?thesis
  proof (cases "r1 = Inr None \<or> (\<exists>e. r1 = Inl e \<and> e \<noteq> Panic)")
    case True
    define D1 where "D1 = (if r1 = Inr None then enqueue_sync v (D\<lparr>dd_chunks := q\<rparr>) else D\<lparr>dd_chunks := q\<rparr>)"
    have bc: "backend_copy X (off0 + pos) pos n D1 w1 = (D', w', r)"
      using True run rd \<open>is_valid (di_cs v)\<close> by (auto simp: process_segment_def D1_def)
    have "good pos w1" using True h by auto
    moreover have "core_ok E V W img D1" "binv (dd_b D1)" using c1 core(2) v(1) by (simp_all add: D1_def core_ok_enqueue)
    ultimately show ?thesis using backend_copy_ok [OF _ _ _ n bc] by blast
  next
    case False
    then show ?thesis
      using run rd \<open>is_valid (di_cs v)\<close> h c1 core(2) by (auto simp: process_segment_def intro: good_keeps split: sum.splits option.splits if_splits)
  qed
qed

lemma process_segments_ok:
  assumes "core_ok E V W img D" "binv (dd_b D)" "good pos w" "pos + segs_len infos = len"
    and "seg_chain (record_ok (d_digests E) img) (off0 + pos) infos"
    and "process_segments E X infos pos (off0 + pos) D w = (D', w', r)"
  shows "core_ok E V W img D' \<and> binv (dd_b D') \<and> keeps w' \<and> (isl r \<or> r = Inr len \<and> good len w')"
  using assms
proof (induction infos arbitrary: pos D w)
  case Nil
  then show ?case by (auto intro: good_keeps)
next
  case (Cons x infos)
  obtain v n where x: "x = (v, n)" by fastforce
  obtain D1 w1 r1 where run1: "process_segment E X v n pos (off0 + pos) D w = (D1, w1, r1)" by (metis prod_cases3)
  have n: "pos + n \<le> len" "0 < n" and seg: "seg_ok (record_ok (d_digests E) img) (off0 + pos) v n"
    using Cons.prems(4,5) x by simp_all
  note h = process_segment_ok [OF Cons.prems(1-3) n seg run1]
  show ?case
  proof (cases r1)
    case (Inl e)
    then show ?thesis using Cons.prems(6) run1 x h by auto
  next
    case (Inr m)
    have "off0 + pos + n < 2 ^ 64"
      using n in_image [OF Cons.prems(3)] less_trans [of "length img" "2 ^ 63" "2 ^ 64"] by simp
    then have wrap: "u64_add (off0 + pos) n = off0 + (pos + n)" by (simp add: u64_add_exact add.assoc)
    have m: "m = n" "good (pos + n) w1" using h Inr by simp_all
    then have "process_segments E X infos (pos + n) (off0 + (pos + n)) D1 w1 = (D', w', r)"
      using Cons.prems(6) run1 x Inr by (simp only: process_segments.simps prod.case sum.case wrap)
    then show ?thesis
      using Cons.IH [of D1 "pos + n" w1] h m Cons.prems(4,5) x by (simp add: add.assoc)
  qed
qed

lemma process_op_ok:
  assumes core: "core_ok E V W img D" "binv (dd_b D)" and g: "good 0 w" "0 < len"
    and run: "process_dedup_op E X off0 len D w = (D', w', r)"
  shows "core_ok E V W img D' \<and> binv (dd_b D') \<and> keeps w' \<and> (isl r \<or> r = Inr len \<and> good len w')"
proof (cases "backend_copy X off0 0 len D w = (D', w', r)")
  case True
  then show ?thesis using backend_copy_ok [OF core g(1), of len] g(2) by simp
next
  case False
  then obtain infos where infos: "dedup_range (d_index E) (d_id E) off0 len (dd_index D) = Inr infos"
    and ps: "process_segments E X infos 0 off0 D w = (D', w', r)"
    using run by (auto simp: process_dedup_op_def split: sum.splits if_splits)
  have "off0 + len < 2 ^ 64" using in_image [OF g(1)] less_trans [of "length img" "2 ^ 63" "2 ^ 64"] by simp
  then have "seg_chain (record_ok (d_digests E) img) off0 infos \<and> segs_len infos = len"
    by (rule dedup_range_chain [OF core_okD(2) [OF core(1)] infos]) (rule core_okD(6) [OF core(1)])
  then show ?thesis using process_segments_ok [OF core g(1), of infos] ps by simp
qed

lemma read_ok:
  assumes core: "core_ok E V W img D" "binv (dd_b D)" and g: "good 0 w"
    and sz: "be_size (d_backend E) (dd_b D) = length img" "off0 < length img" "0 < req" "len = min req (length img - off0)"
    and run: "dedup_read E X off0 req D w = (D', w', r)"
  shows "core_ok E V W img D' \<and> binv (dd_b D') \<and> keeps w' \<and> (isl r \<or> r = Inr len \<and> good len w')"
proof -
  have "0 < len" using sz by simp
  obtain D1 w1 r1 where run1: "process_dedup_op E X off0 len D w = (D1, w1, r1)" by (metis prod_cases3)
  note h = process_op_ok [OF core g \<open>0 < len\<close> run1]
  show ?thesis
  proof (cases r1)
    case (Inl e)
    then have "D' = D1 \<and> w' = w1 \<and> isl r" using run sz run1 by (auto simp: dedup_read_def Let_def)
    with h show ?thesis by simp
  next
    case (Inr m)
    obtain D2 r2 where t: "try_dedup_chunk off0 len Blake3 D1 = (D2, r2)" by fastforce
    have D': "D' = D2" "w' = w1" "r = (case r2 of Inl e \<Rightarrow> Inl e | Inr _ \<Rightarrow> Inr m)"
      using run sz run1 t Inr by (auto simp: dedup_read_def Let_def split: sum.splits)
    have "off0 + len \<le> 64 * length (dd_bits D1) * CHUNK_SIZE"
      using core_okD(7) [of E V W img D1] h in_image [OF g] by linarith
    note tc = try_chunk_ok [OF this t]
    have "core_ok E V W img D2" using h tc by (intro core_ok_cong [of E V W img D1 D2]) (auto dest: core_okD(5,8,9))
    with h D' Inr tc show ?thesis by auto
  qed
qed

end

subsection \<open>The two transfers\<close>

interpretation fetch_op: transfer "FetchOp B" "\<lambda>b. backend B I img \<and> I b" img off0 len
  "\<lambda>pos data. length data = N \<and> len \<le> N \<and> off0 + len \<le> length img \<and> length img < 2 ^ 63 \<and>
     take pos data = slice img off0 (off0 + pos)" "\<lambda>data. length data = N" for B I img off0 len N
proof (unfold_locales, goal_cases)
  case (3 b pos w n b' w' r)
  obtain sub where f: "be_fetch B b (off0 + pos) (slice w pos (pos + n)) = (b', sub, r)" and w': "w' = splice w pos sub"
    using 3 by (auto simp: FetchOp_def split: prod.splits)
  have b: "backend B I img" "I b" using 3(1) by simp_all
  have ls: "length (slice w pos (pos + n)) = n" using 3(2,3) by (simp add: bytes_simps)
  then have sub: "length sub = n" using backend.fetch_len [OF b f] by simp
  have "slice w pos (pos + n) \<noteq> []" using ls 3(4) by auto
  then have "r = Inr m \<Longrightarrow> m = n \<and> sub = slice img (off0 + pos) (off0 + (pos + n))" for m
    using backend.fetch_inside [OF b, of "off0 + pos" "slice w pos (pos + n)" b' sub m] f ls 3(2,3) by (simp add: add.assoc)
  moreover have "take (pos + n) w' = take pos w @ sub" using take_splice [of pos sub w] sub 3(2,3) w' by simp
  moreover have "length w' = length w" using length_splice [of pos sub w] sub 3(2,3) w' by simp
  ultimately show ?case
    using 3(2,3) backend.fetch_inv [OF b f] b slice_append [of off0 "off0 + pos" "off0 + (pos + n)" img] by (cases r) auto
next
  case (4 pos w n w' r)
  have ls: "length (slice img (off0 + pos) (off0 + pos + n)) = n" using 4(1,2) by (simp add: bytes_simps)
  then show ?case
    using 4 take_splice [of pos "slice img (off0 + pos) (off0 + pos + n)" w]
      length_splice [of pos "slice img (off0 + pos) (off0 + pos + n)" w]
      slice_append [of off0 "off0 + pos" "off0 + pos + n" img]
    by (auto simp: FetchOp_def add.assoc)
qed simp_all

interpretation write_op: transfer "FuseWriteOp S fw" "\<lambda>b. stream_ok S I img out \<and> I b" img off0 len
  "\<lambda>pos w. writer_ok fw out \<and> off0 + len \<le> length img \<and> length img < 2 ^ 63 \<and> len < 2 ^ 32 \<and>
     out w = out0 @ slice img off0 (off0 + pos)" "\<lambda>_. True" for S fw I img out out0 off0 len
proof (unfold_locales, goal_cases)
  case (3 b pos w n b' w' r)
  have n: "n < 2 ^ 32" using 3(2,3) by linarith
  then have "S b (off0 + pos) n w = (b', w', r)" using 3(5) as_u32_exact [OF n] by (simp only: FuseWriteOp_def transfer.simps)
  moreover have "off0 + pos < length img" "min n (length img - (off0 + pos)) = n" using 3(2-4) by auto
  ultimately show ?case
    using stream_okD [of S I img out b "off0 + pos" n w b' w' r] 3(1,2,3) n slice_append [of off0 "off0 + pos" "off0 + (pos + n)" img]
    by (auto simp: add.assoc)
next
  case (4 pos w n w' r)
  have ls: "length (slice img (off0 + pos) (off0 + pos + n)) = n" using 4(1,2) by (simp add: bytes_simps)
  then show ?case
    using 4 writer_okD [of fw out w "slice img (off0 + pos) (off0 + pos + n)" w'] slice_append [of off0 "off0 + pos" "off0 + pos + n" img]
    by (cases r) (auto simp: FuseWriteOp_def add.assoc)
qed simp_all

subsection \<open>The reader is a source of the image\<close>

definition dedup_ok ::
  "('s, 'i, 'b) dedup_env \<Rightarrow> 's views \<Rightarrow> ('i \<Rightarrow> DedupRange \<rightharpoonup> DedupInfo) \<Rightarrow> ('b \<Rightarrow> bool) \<Rightarrow> bytes \<Rightarrow>
   ('s, 'i, 'b) dedup_state \<Rightarrow> bool" where
  "dedup_ok E V W I img D \<longleftrightarrow> backend_ex (d_backend E) I img \<and> I (dd_b D) \<and> core_ok E V W img D"

lemma dedup_okD:
  assumes "dedup_ok E V W I img D"
  shows "backend_ex (d_backend E) I img" "backend (d_backend E) I img" "I (dd_b D)" "core_ok E V W img D"
    "be_size (d_backend E) (dd_b D) = length img" "length img < 2 ^ 63"
proof -
  show b: "backend_ex (d_backend E) I img" and i: "I (dd_b D)" and "core_ok E V W img D"
    using assms by (simp_all add: dedup_ok_def)
  from b show b': "backend (d_backend E) I img" by (rule backend_ex.axioms)
  show "be_size (d_backend E) (dd_b D) = length img" "length img < 2 ^ 63"
    using backend.size_image [OF b' i] backend.image_range [OF b' i] .
qed

lemma dedup_read_outside:
  "be_size (d_backend E) (dd_b D) \<le> off \<or> req = 0 \<Longrightarrow> dedup_read E X off req D w = (D, w, Inr 0)"
  by (auto simp: dedup_read_def)

lemma dedup_fetch_ok:
  assumes ok: "dedup_ok E V W I img D" and run: "DedupReader_fetch E D off buf = (D', buf', r)"
  shows "dedup_ok E V W I img D' \<and> length buf' = length buf \<and>
    (off < length img \<longrightarrow> isl r \<or> (let n = min (length buf) (length img - off) in r = Inr n \<and> take n buf' = slice img off (off + n)))"
proof (cases "off < length img \<and> buf \<noteq> []")
  case False
  then have "(D', buf', r) = (D, buf, Inr 0)"
    using run dedup_okD(5) [OF ok] dedup_read_outside [of E D off "length buf" "FetchOp (d_backend E)" buf]
    by (auto simp: DedupReader_fetch_def)
  with ok False show ?thesis by (auto simp: Let_def)
next
  case True
  define n where "n = min (length buf) (length img - off)"
  have n: "n \<le> length buf" "off + n \<le> length img" using True by (auto simp: n_def min_def)
  have "core_ok E V W img D' \<and> (backend (d_backend E) I img \<and> I (dd_b D')) \<and> length buf' = length buf \<and>
      (isl r \<or> r = Inr n \<and> length buf' = length buf \<and> n \<le> length buf \<and> off + n \<le> length img \<and> length img < 2 ^ 63 \<and>
        take n buf' = slice img off (off + n))"
    by (rule fetch_op.read_ok [OF dedup_okD(4) [OF ok] _ _ dedup_okD(5) [OF ok] _ _ _ run [unfolded DedupReader_fetch_def]])
      (use True n dedup_okD [OF ok] in \<open>auto simp: n_def\<close>)
  then show ?thesis using dedup_okD(1) [OF ok] True by (auto simp: dedup_ok_def n_def Let_def)
qed

interpretation dedup_source: backend "DedupReader_ops E" "dedup_ok E V W I img" img for E V W I img
proof (unfold_locales, goal_cases)
  case (1 D)
  then show ?case using dedup_okD(5) by (simp add: DedupReader_ops_def)
next
  case (2 D)
  then show ?case by (rule dedup_okD(6))
next
  case (3 D off buf D' buf' r)
  then show ?case using dedup_fetch_ok [OF 3(1)] by (simp add: DedupReader_ops_def)
next
  case (4 D off buf D' buf' r)
  then show ?case using dedup_fetch_ok [OF 4(1)] by (simp add: DedupReader_ops_def)
next
  case (5 D off buf D' buf' n)
  then show ?case using dedup_fetch_ok [OF 5(1), of off buf D' buf' "Inr n"] by (simp add: DedupReader_ops_def Let_def)
qed

lemma dedup_stream_ok:
  assumes b: "stream_ok S I img out" and fw: "writer_ok fw out"
  shows "stream_ok (\<lambda>D off n w. DedupReader_write E S fw D off n w) (dedup_ok E V W I img) img out"
  unfolding stream_ok_def
proof (intro allI impI)
  fix D off n w D' w' and r :: "error + nat"
  assume ok: "dedup_ok E V W I img D" and off: "off < length img" and n: "n < (2 :: nat) ^ 32"
    and run: "DedupReader_write E S fw D off n w = (D', w', r)"
  define k where "k = min n (length img - off)"
  have k: "off + k \<le> length img" "k < 2 ^ 32" using off n by (auto simp: k_def)
  show "dedup_ok E V W I img D' \<and> (isl r \<or> r = Inr (min n (length img - off)) \<and>
      out w' = out w @ slice img off (off + min n (length img - off)))"
  proof (cases "n = 0")
    case True
    then have "(D', w', r) = (D, w, Inr 0)" using run by (simp add: DedupReader_write_def dedup_read_def)
    with ok True show ?thesis by simp
  next
    case False
    have "core_ok E V W img D' \<and> (stream_ok S I img out \<and> I (dd_b D')) \<and> True \<and>
        (isl r \<or> r = Inr k \<and> writer_ok fw out \<and> off + k \<le> length img \<and> length img < 2 ^ 63 \<and> k < 2 ^ 32 \<and>
          out w' = out w @ slice img off (off + k))"
      by (rule write_op.read_ok [OF dedup_okD(4) [OF ok] _ _ dedup_okD(5) [OF ok] off _ _ run [unfolded DedupReader_write_def]])
        (use False k b fw dedup_okD [OF ok] in \<open>auto simp: k_def\<close>)
    then show ?thesis using dedup_okD(1) [OF ok] unfolding dedup_ok_def k_def by blast
  qed
qed

subsection \<open>The workers keep the invariant\<close>

text \<open>Two ranges of the image with the same checksum have the same bytes.\<close>

definition distinguishes :: "digests \<Rightarrow> bytes \<Rightarrow> bool" where
  "distinguishes H img \<longleftrightarrow> (\<forall>m a b a' b'. a \<le> b \<longrightarrow> b \<le> length img \<longrightarrow> a' \<le> b' \<longrightarrow> b' \<le> length img \<longrightarrow>
     CheckSum_from_data H (slice img a b) m = CheckSum_from_data H (slice img a' b') m \<longrightarrow> slice img a b = slice img a' b')"

lemma faithful_slice:
  "distinguishes H img \<Longrightarrow> a \<le> b \<Longrightarrow> b \<le> length img \<Longrightarrow> faithful H img (CheckSum_from_data H (slice img a b) m) (slice img a b)"
  unfolding faithful_def distinguishes_def cs_method_from_data by metis

lemma add_local_info_view:
  assumes ok: "index_env_ok T W" and run: "add_local_dedup_info T r cs s = (s', x)"
  shows "W s' = W s \<or> W s' = (W s)(r \<mapsto> DedupInfo_new (dr_start r) (as_u32 (DedupRange_size r)) cs)"
proof -
  have db: "db_ok DedupRange_encode W (ranges T)" "txn_ok T W" using ok by (simp_all add: index_env_ok_def)
  show ?thesis
    using run txn_okD(2,3) [OF db(2)] db_okD(2) [OF db(1)]
    by (fastforce simp: add_local_dedup_info_def split: sum.splits)
qed

lemma put_info_ok:
  assumes core: "core_ok E V W img D"
    and rec: "dr_id r = d_id E \<Longrightarrow> record_ok (d_digests E) img (DedupInfo_new (dr_start r) (as_u32 (DedupRange_size r)) cs)"
    and run: "put_info E r cs D = (D', x)"
  shows "core_ok E V W img D' \<and> dd_b D' = dd_b D"
proof -
  obtain s' where s': "add_local_dedup_info (d_index E) r cs (dd_index D) = (s', x)" and D': "D' = D\<lparr>dd_index := s'\<rparr>"
    using run by (auto simp: put_info_def split: prod.splits)
  from add_local_info_view [OF core_okD(2) [OF core] s'] show ?thesis
    using core rec D' by (auto simp: core_ok_def split: if_splits)
qed

lemma add_data_ok:
  assumes core: "core_ok E V W img D" and new: "faithful (d_digests E) img cs data" "now < 2 ^ 64"
    and run: "add_data E now cs data D = Some (D', x)"
  shows "core_ok E V W img D' \<and> dd_b D' = dd_b D"
proof -
  obtain q where "add_chunk (d_store E) now cs data (dd_chunks D) = Some (q, x)" and D': "D' = D\<lparr>dd_chunks := q\<rparr>"
    using run by (auto simp: add_data_def)
  from add_chunk_keeps [OF core_okD(1,5) [OF core] new this(1)] show ?thesis
    using core D' by (simp add: core_ok_def)
qed

lemma dedup_store_ok:
  assumes ok: "dedup_ok E V W I img D" and dist: "distinguishes (d_digests E) img"
    and arg: "off < length img" "len < 2 ^ 32" "now < 2 ^ 64"
    and run: "dedup_store E now (length img) off len m D = Some (D', x)"
  shows "dedup_ok E V W I img D'"
proof -
  obtain b buf r where f: "be_fetch (d_backend E) (dd_b D) off (replicate len 0) = (b, buf, r)" by (metis prod_cases3)
  have b: "I b" "length buf = len"
    using backend.fetch_inv [OF dedup_okD(2,3) [OF ok] f] backend.fetch_len [OF dedup_okD(2,3) [OF ok] f] by simp_all
  have okb: "dedup_ok E V W I img (D\<lparr>dd_b := b\<rparr>)" using ok b(1) by (simp add: dedup_ok_def)
  show ?thesis
  proof (cases r)
    case (Inl e)
    with run f okb show ?thesis by (simp add: dedup_store_def)
  next
    case (Inr n)
    have "len < 2 ^ 63" by (rule less_trans [OF arg(2)]) simp
    then have "length (replicate len (0 :: byte)) < 2 ^ 63" by simp
    note fo = backend.fetch_ok [OF dedup_okD(2,3) [OF ok] f [unfolded Inr] arg(1) this]
    then have n: "n \<le> len" "off + n \<le> length img" and t: "take n buf = slice img off (off + n)" using arg(1) by auto
    define data where "data = (if n \<noteq> len then take n buf else buf)"
    have data: "data = slice img off (off + n)" using t b(2) by (auto simp: data_def)
    define cs where "cs = CheckSum_from_data (d_digests E) data m"
    show ?thesis
    proof (cases "n \<noteq> len \<and> u64_add off n \<noteq> length img")
      case True
      with run f Inr okb show ?thesis by (auto simp: dedup_store_def)
    next
      case False
      then obtain D1 y where add: "add_data E now cs data (D\<lparr>dd_b := b\<rparr>) = Some (D1, y)"
        using run f Inr by (auto simp: dedup_store_def Let_def data_def cs_def split: option.splits if_splits)
      have "faithful (d_digests E) img cs data"
        unfolding cs_def data by (rule faithful_slice [OF dist]) (use n in simp_all)
      note ad = add_data_ok [OF dedup_okD(4) [OF okb] this arg(3) add]
      show ?thesis
      proof (cases y)
        case (Inl e)
        then have "D' = D1" using run f Inr False add by (simp add: dedup_store_def Let_def data_def [symmetric] cs_def [symmetric])
        with ad okb show ?thesis by (simp add: dedup_ok_def)
      next
        case (Inr u)
        have "n < 2 ^ 32" using n(1) arg(2) by linarith
        then have n32: "as_u32 n = n" by (rule as_u32_exact)
        have "off + n < 2 ^ 64" using n(2) dedup_okD(6) [OF ok] less_trans [of "length img" "2 ^ 63" "2 ^ 64"] by simp
        then have r: "dr_start (DedupRange_new_with_id (d_id E) off n) = off"
          "DedupRange_size (DedupRange_new_with_id (d_id E) off n) = n"
          by (simp_all add: DedupRange_size_def u64_add_exact u64_sub_exact)
        have put: "put_info E (DedupRange_new_with_id (d_id E) off n) cs D1 = (D', x)"
          using run f \<open>r = Inr n\<close> Inr False add
          by (simp add: dedup_store_def Let_def data_def [symmetric] cs_def [symmetric] n32)
        have "record_ok (d_digests E) img (DedupInfo_new off n cs)"
          using n(2) \<open>n < 2 ^ 32\<close> by (simp add: record_ok_def cs_def data)
        then have "core_ok E V W img D' \<and> dd_b D' = dd_b D1"
          using put_info_ok [OF conjunct1 [OF ad] _ put] by (simp only: r n32 DedupRange_new_sel)
        with ad okb show ?thesis by (simp add: dedup_ok_def)
      qed
    qed
  qed
qed

definition checksum_promise :: "digests \<Rightarrow> bytes \<Rightarrow> nat \<Rightarrow> nat \<Rightarrow> CheckSum option \<Rightarrow> bool" where
  "checksum_promise H img off len c \<longleftrightarrow> (case c of None \<Rightarrow> True | Some cs \<Rightarrow>
     off + len \<le> length img \<and> CheckSum_from_data H (slice img off (off + len)) (cs_method cs) = cs)"

lemma dedup_keeps:
  assumes ok: "dedup_ok E V W I img D" and dist: "distinguishes (d_digests E) img"
    and arg: "len < 2 ^ 32" "now < 2 ^ 64" "checksum_promise (d_digests E) img off len c"
    and run: "dedup E now off len c m D = Some (D', x)"
  shows "dedup_ok E V W I img D'"
proof (cases "D' = D")
  case False
  note sz = dedup_okD(5) [OF ok]
  have off: "off < length img" using run False sz by (auto simp: dedup_def dedup_guard_def split: if_splits)
  have "(\<exists>m. dedup_store E now (length img) off len m D = Some (D', x)) \<or>
    (\<exists>cs. c = Some cs \<and> put_info E (DedupRange_new_with_id (d_id E) off len) cs
       (D\<lparr>dd_chunks := fst (touch_chunk cs (dd_chunks D))\<rparr>) = (D', x))"
    using run False unfolding dedup_def sz Let_def
    by (auto split: if_splits sum.splits option.splits bool.splits)
  then show ?thesis
  proof (elim disjE exE conjE)
    fix m assume "dedup_store E now (length img) off len m D = Some (D', x)"
    then show ?thesis using dedup_store_ok [OF ok dist off arg(1,2)] by blast
  next
    fix cs assume c: "c = Some cs"
      and put: "put_info E (DedupRange_new_with_id (d_id E) off len) cs (D\<lparr>dd_chunks := fst (touch_chunk cs (dd_chunks D))\<rparr>) = (D', x)"
    have p: "off + len \<le> length img" "CheckSum_from_data (d_digests E) (slice img off (off + len)) (cs_method cs) = cs"
      using arg(3) c by (simp_all add: checksum_promise_def)
    have core: "core_ok E V W img (D\<lparr>dd_chunks := fst (touch_chunk cs (dd_chunks D))\<rparr>)"
      by (rule core_ok_cong [OF dedup_okD(4) [OF ok]])
        (use core_okD(8,9) [OF dedup_okD(4) [OF ok]] in
          \<open>auto simp: touch_chunk_def intro: chunks_ok_cong [OF core_okD(5) [OF dedup_okD(4) [OF ok]]]\<close>)
    have "off + len < 2 ^ 64" using p(1) dedup_okD(6) [OF ok] less_trans [of "length img" "2 ^ 63" "2 ^ 64"] by simp
    then have r: "DedupRange_size (DedupRange_new_with_id (d_id E) off len) = len"
      by (simp add: DedupRange_size_def u64_add_exact u64_sub_exact)
    have "record_ok (d_digests E) img (DedupInfo_new off len cs)" using p arg(1) by (simp add: record_ok_def)
    then have "core_ok E V W img D' \<and> dd_b D' = dd_b D"
      using put_info_ok [OF core _ put] by (simp add: r as_u32_exact [OF arg(1)])
    then show ?thesis using ok by (simp add: dedup_ok_def)
  qed
qed (use ok in simp)

lemma gc_chunk_keeps:
  assumes ok: "dedup_ok E V W I img D" and run: "dedup_gc_chunk E k D = (D', x)"
  shows "dedup_ok E V W I img D'"
proof -
  obtain b r where inv: "be_invalidate (d_backend E) (dd_b D) k = (b, r)" by fastforce
  have "I b" using backend_ex.invalidate_inv [OF dedup_okD(1,3) [OF ok] inv] .
  moreover have "D' = D \<or> D' = D\<lparr>dd_b := b\<rparr>"
    using run inv by (auto simp: dedup_gc_chunk_def Let_def split: if_splits sum.splits)
  ultimately show ?thesis using ok by (auto simp: dedup_ok_def)
qed

lemma gc_chunks_keeps: "dedup_ok E V W I img D \<Longrightarrow> dedup_ok E V W I img (gc_chunks E i j D)"
proof -
  have "dedup_ok E V W I img D \<Longrightarrow> dedup_ok E V W I img (fold (\<lambda>k D. fst (dedup_gc_chunk E k D)) ks D)" for ks
  proof (induction ks arbitrary: D)
    case (Cons k ks)
    then show ?case using gc_chunk_keeps [of E V W I img D k] by (cases "dedup_gc_chunk E k D") simp
  qed simp
  then show "dedup_ok E V W I img D \<Longrightarrow> dedup_ok E V W I img (gc_chunks E i j D)" by (simp only: gc_chunks_def)
qed

lemma sync_process_keeps:
  assumes ok: "dedup_ok E V W I img D" and dist: "distinguishes (d_digests E) img" and now: "now < 2 ^ 64"
    and v: "record_ok (d_digests E) img v"
    and run: "SyncWorker_process E now v D = Some D'"
  shows "dedup_ok E V W I img D'"
proof (cases "\<not> is_valid (di_cs v) \<or> di_len v = 0")
  case True
  with run ok show ?thesis by (simp add: SyncWorker_process_def)
next
  case False
  let ?cs = "checksum_of (di_cs v)" and ?len = "di_len v"
  obtain b buf r where f: "be_fetch (d_backend E) (dd_b D) (di_off v) (replicate ?len 0) = (b, buf, r)" by (metis prod_cases3)
  have "I b" by (rule backend.fetch_inv [OF dedup_okD(2,3) [OF ok] f])
  then have okb: "dedup_ok E V W I img (D\<lparr>dd_b := b\<rparr>)" using ok by (simp add: dedup_ok_def)
  show ?thesis
  proof (cases "r = Inr ?len \<and> CheckSum_from_data (d_digests E) buf (cs_method ?cs) = ?cs")
    case False
    then have "D' = D\<lparr>dd_b := b\<rparr>"
      using run f \<open>\<not> (\<not> is_valid (di_cs v) \<or> di_len v = 0)\<close> by (auto simp: SyncWorker_process_def Let_def split: sum.splits if_splits)
    with okb show ?thesis by simp
  next
    case True
    have range: "di_off v + ?len \<le> length img" using v False by (simp add: record_ok_def)
    have "replicate ?len (0 :: byte) \<noteq> []" using False by simp
    then have buf: "buf = slice img (di_off v) (di_off v + ?len)"
      using backend.fetch_inside(2) [OF dedup_okD(2,3) [OF ok], of "di_off v" "replicate ?len 0" b buf ?len] f True range by simp
    have fa: "faithful (d_digests E) img ?cs buf"
      using faithful_slice [OF dist, of "di_off v" "di_off v + ?len" "cs_method ?cs"] range buf True by simp
    obtain D1 y where add: "add_data E now ?cs buf (D\<lparr>dd_b := b\<rparr>) = Some (D1, y)"
      using run f True False by (auto simp: SyncWorker_process_def Let_def split: option.splits)
    have ok1: "dedup_ok E V W I img D1"
      using add_data_ok [OF dedup_okD(4) [OF okb] fa now add] okb by (simp add: dedup_ok_def)
    have "D' = D1 \<or> D' = gc_chunks E (di_off v div CHUNK_SIZE) ((di_off v + ?len - 1) div CHUNK_SIZE) D1"
      using run f True False add by (auto simp: SyncWorker_process_def Let_def split: sum.splits)
    then show ?thesis using ok1 gc_chunks_keeps [OF ok1] by blast
  qed
qed

end
