(* ===== verification/RawImage.thy ===== *)
theory RawImage
  imports DedupSpec
begin

text \<open>
  \<open>src/image/raw.rs\<close>: a file system with one file, the raw image, whose data comes from a source, with
  or without deduplication.  The FUSE server and its writer are not part of the repository: a reply
  is written by a function \<open>fw\<close> over the writer's state, a directory entry is handed to the function
  \<open>add_entry\<close>, and the streaming operation of the plain source is an argument.  A constructed image
  of the non-Linux build does nothing more than keep the fields.
\<close>

definition ROOT_ID :: nat where "ROOT_ID = 1"
definition IMAGE_FILE_ID :: nat where "IMAGE_FILE_ID = 2"
definition ATTR_TIMEOUT :: nat where "ATTR_TIMEOUT = 2 ^ 32"

definition ENOENT :: nat where "ENOENT = 2"
definition EINVAL :: nat where "EINVAL = 22"
definition S_IFDIR :: nat where "S_IFDIR = 0x4000"
definition S_IFREG :: nat where "S_IFREG = 0x8000"

datatype ('b, 'd) raw_source = RawPlain 'b | RawDedup 'd

record ('b, 'd) RawImage =
  raw_name :: bytes
  raw_size :: nat
  create_tm :: nat
  raw_b :: "('b, 'd) raw_source"

record ('s, 'i, 'b, 'w) raw_env =
  rw_dedup :: "('s, 'i, 'b) dedup_env"
  rw_stream :: "'b \<Rightarrow> nat \<Rightarrow> nat \<Rightarrow> 'w \<Rightarrow> 'b \<times> 'w \<times> (error + nat)"
  rw_fuse :: "'w \<Rightarrow> bytes \<Rightarrow> 'w \<times> (error + nat)"

definition RawImage_new ::
  "('s, 'i, 'b, 'w) raw_env \<Rightarrow> bytes \<Rightarrow> 'b \<Rightarrow> ('s chunkdb \<times> 'i) option \<Rightarrow> nat \<Rightarrow>
   error + ('s, 'i, 'b, 'w) raw_env \<times> ('b, ('s, 'i, 'b) dedup_state) RawImage" where
  "RawImage_new E name b dedup_db now =
     (let sz = be_size (d_backend (rw_dedup E)) b;
          img = \<lambda>src. \<lparr>raw_name = name, raw_size = sz, create_tm = now, raw_b = src\<rparr>
      in case dedup_db of
           None \<Rightarrow> Inr (E, img (RawPlain b))
         | Some (q, s) \<Rightarrow>
             (case DedupReader_new (rw_dedup E) name q s b of
                Inl e \<Rightarrow> Inl e
              | Inr (D, d) \<Rightarrow> Inr (E\<lparr>rw_dedup := D\<rparr>, img (RawDedup d))))"

subsection \<open>The sources\<close>

definition validate_range :: "nat \<Rightarrow> nat \<Rightarrow> nat \<Rightarrow> error + nat \<times> nat" where
  "validate_range len off sz =
     (if off > len then Inl (Io InvalidInput)
      else if off = len \<and> sz = 0 then Inr (off, 0)
      else Inr (off, if u64_add off sz > len then len - off else sz))"

definition RawDedup_fetch ::
  "('s, 'i, 'b) dedup_env \<Rightarrow> ('s, 'i, 'b) dedup_state \<Rightarrow> nat \<Rightarrow> bytes \<Rightarrow> ('s, 'i, 'b) dedup_state \<times> bytes \<times> (error + nat)" where
  "RawDedup_fetch E D off data =
     (case validate_range (be_size (DedupReader_ops E) D) off (length data) of
        Inl e \<Rightarrow> (D, data, Inl e)
      | Inr (off, len) \<Rightarrow>
          (if len = 0 then (D, data, Inr 0)
           else case DedupReader_fetch E D off (take len data) of
             (D', sub, r) \<Rightarrow> (D', sub @ drop len data, r)))"

definition RawDedup_write ::
  "('s, 'i, 'b, 'w) raw_env \<Rightarrow> ('s, 'i, 'b) dedup_state \<Rightarrow> nat \<Rightarrow> nat \<Rightarrow> 'w \<Rightarrow> ('s, 'i, 'b) dedup_state \<times> 'w \<times> (error + nat)" where
  "RawDedup_write E D off sz w =
     (case validate_range (be_size (DedupReader_ops (rw_dedup E)) D) off sz of
        Inl e \<Rightarrow> (D, w, Inl e)
      | Inr (off, len) \<Rightarrow>
          (if len = 0 then (D, w, Inr 0)
           else DedupReader_write (rw_dedup E) (rw_stream E) (rw_fuse E) D off (as_u32 len) w))"

definition raw_fetch ::
  "('s, 'i, 'b, 'w) raw_env \<Rightarrow> ('b, ('s, 'i, 'b) dedup_state) RawImage \<Rightarrow> nat \<Rightarrow> bytes \<Rightarrow>
   ('b, ('s, 'i, 'b) dedup_state) RawImage \<times> bytes \<times> (error + nat)" where
  "raw_fetch E R off data =
     (case raw_b R of
        RawPlain b \<Rightarrow> (case be_fetch (d_backend (rw_dedup E)) b off data of (b', data', r) \<Rightarrow> (R\<lparr>raw_b := RawPlain b'\<rparr>, data', r))
      | RawDedup D \<Rightarrow> (case RawDedup_fetch (rw_dedup E) D off data of (D', data', r) \<Rightarrow> (R\<lparr>raw_b := RawDedup D'\<rparr>, data', r)))"

definition raw_write ::
  "('s, 'i, 'b, 'w) raw_env \<Rightarrow> ('b, ('s, 'i, 'b) dedup_state) RawImage \<Rightarrow> nat \<Rightarrow> nat \<Rightarrow> 'w \<Rightarrow>
   ('b, ('s, 'i, 'b) dedup_state) RawImage \<times> 'w \<times> (error + nat)" where
  "raw_write E R off sz w =
     (case raw_b R of
        RawPlain b \<Rightarrow> (case rw_stream E b off sz w of (b', w', r) \<Rightarrow> (R\<lparr>raw_b := RawPlain b'\<rparr>, w', r))
      | RawDedup D \<Rightarrow> (case RawDedup_write E D off sz w of (D', w', r) \<Rightarrow> (R\<lparr>raw_b := RawDedup D'\<rparr>, w', r)))"

subsection \<open>The file system\<close>

record attr =
  at_ino :: nat
  at_size :: nat
  at_blocks :: nat
  at_time :: nat
  at_mode :: nat
  at_nlink :: nat
  at_uid :: nat
  at_gid :: nat
  at_blksize :: nat

text \<open>The three times of an entry are equal, and \<open>at_time\<close> is one for all; nanoseconds, \<open>rdev\<close> and flags are 0.\<close>

record dir_entry =
  de_ino :: nat
  de_offset :: nat
  de_name :: bytes

definition root_attr :: "('b, 'd) RawImage \<Rightarrow> attr" where
  "root_attr R =
     \<lparr>at_ino = ROOT_ID, at_size = 4096, at_blocks = 8, at_time = create_tm R, at_mode = S_IFDIR OR 0x1ED, at_nlink = 2,
      at_uid = 0, at_gid = 0, at_blksize = 4096\<rparr>"

definition image_attr :: "('b, 'd) RawImage \<Rightarrow> error + attr" where
  "image_attr R =
     (case align_up usize_max (raw_size R) 4096 of
        None \<Rightarrow> Inl Panic
      | Some n \<Rightarrow> Inr
          \<lparr>at_ino = IMAGE_FILE_ID, at_size = raw_size R, at_blocks = n div 512, at_time = create_tm R, at_mode = S_IFREG OR 0x1A4,
           at_nlink = 1, at_uid = 0, at_gid = 0, at_blksize = 4096\<rparr>)"

text \<open>An entry is the inode with its attributes; the timeouts are \<open>ATTR_TIMEOUT\<close>.\<close>

definition get_inode_entry :: "('b, 'd) RawImage \<Rightarrow> nat \<Rightarrow> error + (nat \<times> attr) option" where
  "get_inode_entry R ino =
     (if ino = ROOT_ID then Inr (Some (ROOT_ID, root_attr R))
      else if ino = IMAGE_FILE_ID then
        (case image_attr R of Inl e \<Rightarrow> Inl e | Inr a \<Rightarrow> Inr (Some (IMAGE_FILE_ID, a)))
      else Inr None)"

definition entry_or :: "nat \<Rightarrow> error + (nat \<times> attr) option \<Rightarrow> error + nat \<times> attr" where
  "entry_or errno r = (case r of Inl e \<Rightarrow> Inl e | Inr None \<Rightarrow> Inl (Os errno) | Inr (Some x) \<Rightarrow> Inr x)"

definition raw_lookup :: "('b, 'd) RawImage \<Rightarrow> nat \<Rightarrow> bytes \<Rightarrow> error + nat \<times> attr" where
  "raw_lookup R parent name =
     (if parent \<noteq> ROOT_ID then Inl (Os ENOENT)
      else if name = [46] \<or> name = [46, 46] then entry_or ENOENT (get_inode_entry R ROOT_ID)
      else if name = raw_name R then entry_or ENOENT (get_inode_entry R IMAGE_FILE_ID)
      else Inl (Os ENOENT))"

definition raw_getattr :: "('b, 'd) RawImage \<Rightarrow> nat \<Rightarrow> error + attr" where
  "raw_getattr R ino = (case entry_or ENOENT (get_inode_entry R ino) of Inl e \<Rightarrow> Inl e | Inr (_, a) \<Rightarrow> Inr a)"

definition raw_read ::
  "('s, 'i, 'b, 'w) raw_env \<Rightarrow> ('b, ('s, 'i, 'b) dedup_state) RawImage \<Rightarrow> nat \<Rightarrow> nat \<Rightarrow> nat \<Rightarrow> 'w \<Rightarrow>
   ('b, ('s, 'i, 'b) dedup_state) RawImage \<times> 'w \<times> (error + nat)" where
  "raw_read E R ino sz offset w =
     (if ino \<noteq> IMAGE_FILE_ID then (R, w, Inl (Os EINVAL))
      else if sz = 0 then (R, w, Inr 0)
      else if offset \<ge> raw_size R then (R, w, Inr 0)
      else raw_write E R offset (if u64_add offset sz > raw_size R then as_u32 (raw_size R - offset) else sz) w)"

text \<open>Entries are handed out until \<open>add_entry\<close> fails; the number of bytes it reports is not looked at.\<close>

fun add_entries :: "('w \<Rightarrow> dir_entry \<Rightarrow> 'w \<times> (error + nat)) \<Rightarrow> dir_entry list \<Rightarrow> 'w \<Rightarrow> 'w \<times> (error + unit)" where
  "add_entries add_entry [] w = (w, Inr ())"
| "add_entries add_entry (d # ds) w =
     (case add_entry w d of
        (w', Inl e) \<Rightarrow> (w', Inl e)
      | (w', Inr _) \<Rightarrow> add_entries add_entry ds w')"

definition raw_entries :: "('b, 'd) RawImage \<Rightarrow> nat \<Rightarrow> dir_entry list" where
  "raw_entries R offset =
     (if offset < 1 then [\<lparr>de_ino = ROOT_ID, de_offset = 1, de_name = [46]\<rparr>] else []) @
     (if offset < 2 then [\<lparr>de_ino = ROOT_ID, de_offset = 2, de_name = [46, 46]\<rparr>] else []) @
     [\<lparr>de_ino = IMAGE_FILE_ID, de_offset = 3, de_name = raw_name R\<rparr>]"

definition raw_readdir ::
  "('b, 'd) RawImage \<Rightarrow> nat \<Rightarrow> nat \<Rightarrow> nat \<Rightarrow> ('w \<Rightarrow> dir_entry \<Rightarrow> 'w \<times> (error + nat)) \<Rightarrow> 'w \<Rightarrow> 'w \<times> (error + unit)" where
  "raw_readdir R ino sz offset add_entry w =
     (if ino \<noteq> ROOT_ID then (w, Inl (Os EINVAL))
      else if sz = 0 \<or> offset \<ge> 3 then (w, Inr ())
      else add_entries add_entry (raw_entries R offset) w)"

end
