(* ===== verification/DedupProps.thy ===== *)
theory DedupProps
  imports DedupSpec
begin

text \<open>
  The properties of the deduplicating source: what is read in any order of reads, worker steps and
  other changes of the two databases; what a deduplication records; when the cached copy of a chunk
  is dropped; that the workers return; and two ranges that are not served the way they could be.
\<close>

subsection \<open>All orders of steps\<close>

text \<open>
  A step is a read, a round of one of the two workers, a change of the chunk database by another of
  its users that keeps the chunks faithful (garbage collection removes chunks, other images and
  peers add chunks), or a change of the index database outside the records of this image.
\<close>

inductive dedup_step ::
  "('s, 'i, 'b) dedup_env \<Rightarrow> 's views \<Rightarrow> ('i \<Rightarrow> DedupRange \<rightharpoonup> DedupInfo) \<Rightarrow> bytes \<Rightarrow>
   ('s, 'i, 'b) dedup_state \<Rightarrow> ('s, 'i, 'b) dedup_state \<Rightarrow> bool" for E V W img where
  step_read: "DedupReader_fetch E D off buf = (D', buf', r) \<Longrightarrow> dedup_step E V W img D D'"
| step_dedup: "now < 2 ^ 64 \<Longrightarrow> DedupWorker_step E now D = Some D' \<Longrightarrow> dedup_step E V W img D D'"
| step_sync: "now < 2 ^ 64 \<Longrightarrow> SyncWorker_step E now D = Some D' \<Longrightarrow> dedup_step E V W img D D'"
| step_chunks: "chunks_ok (faithful (d_digests E) img) V q \<Longrightarrow> dedup_step E V W img D (D\<lparr>dd_chunks := q\<rparr>)"
| step_index: "\<forall>k. dr_id k = d_id E \<longrightarrow> W s k = W (dd_index D) k \<Longrightarrow> dedup_step E V W img D (D\<lparr>dd_index := s\<rparr>)"

lemma core_ok_tails:
  "core_ok E V W img D \<Longrightarrow> dd_sync D = v # vs \<Longrightarrow> core_ok E V W img (D\<lparr>dd_sync := vs\<rparr>)"
  "core_ok E V W img D \<Longrightarrow> dd_reqs D = rq # rqs \<Longrightarrow> core_ok E V W img (D\<lparr>dd_reqs := rqs\<rparr>)"
  by (simp_all add: core_ok_def)

lemma DedupWorker_step_keeps:
  assumes ok: "dedup_ok E V W I img D" and dist: "distinguishes (d_digests E) img" and now: "now < 2 ^ 64"
    and run: "DedupWorker_step E now D = Some D'"
  shows "dedup_ok E V W I img D'"
proof (cases "dd_reqs D")
  case Nil
  with run ok show ?thesis by (simp add: DedupWorker_step_def)
next
  case (Cons rq rqs)
  let ?D0 = "D\<lparr>dd_reqs := rqs\<rparr>"
  have ok0: "dedup_ok E V W I img ?D0"
    using ok core_ok_tails(2) [OF dedup_okD(4) [OF ok] Cons] by (simp add: dedup_ok_def)
  have rq: "rq_check_sum rq = None" "rq_len rq < 2 ^ 32"
    using core_okD(9) [OF dedup_okD(4) [OF ok]] Cons by (simp_all add: req_ok_def)
  obtain D1 x where d: "dedup E now (rq_off rq) (rq_len rq) (rq_check_sum rq) (rq_method rq) ?D0 = Some (D1, x)"
    using run Cons by (auto simp: DedupWorker_step_def split: option.splits)
  have "dedup_ok E V W I img D1"
    by (rule dedup_keeps [OF ok0 dist rq(2) now _ d]) (simp add: rq(1) checksum_promise_def)
  moreover from gc_chunks_keeps [OF this] have "dedup_ok E V W I img (gc_chunks E i j D1)" for i j .
  ultimately show ?thesis using run Cons d by (auto simp: DedupWorker_step_def split: sum.splits if_splits)
qed

lemma SyncWorker_step_keeps:
  assumes ok: "dedup_ok E V W I img D" and dist: "distinguishes (d_digests E) img" and now: "now < 2 ^ 64"
    and run: "SyncWorker_step E now D = Some D'"
  shows "dedup_ok E V W I img D'"
proof (cases "dd_sync D")
  case Nil
  with run ok show ?thesis by (simp add: SyncWorker_step_def)
next
  case (Cons v vs)
  have ok0: "dedup_ok E V W I img (D\<lparr>dd_sync := vs\<rparr>)"
    using ok core_ok_tails(1) [OF dedup_okD(4) [OF ok] Cons] by (simp add: dedup_ok_def)
  have "record_ok (d_digests E) img v" using core_okD(8) [OF dedup_okD(4) [OF ok]] Cons by simp
  from sync_process_keeps [OF ok0 dist now this] run Cons show ?thesis by (simp add: SyncWorker_step_def)
qed

lemma dedup_step_keeps:
  assumes step: "dedup_step E V W img D D'" and ok: "dedup_ok E V W I img D" and dist: "distinguishes (d_digests E) img"
  shows "dedup_ok E V W I img D'"
  using step
proof cases
  case (step_read off buf buf' r)
  then show ?thesis using dedup_fetch_ok [OF ok] by blast
next
  case (step_dedup now)
  then show ?thesis by (rule DedupWorker_step_keeps [OF ok dist])
next
  case (step_sync now)
  then show ?thesis by (rule SyncWorker_step_keeps [OF ok dist])
next
  case (step_chunks q)
  then show ?thesis using ok by (simp add: dedup_ok_def core_ok_def)
next
  case (step_index s)
  then have "\<forall>k v. W s k = Some v \<longrightarrow> dr_id k = d_id E \<longrightarrow> record_ok (d_digests E) img v"
    using core_okD(6) [OF dedup_okD(4) [OF ok]] by metis
  then show ?thesis using ok step_index(1) by (simp add: dedup_ok_def core_ok_def)
qed

lemma dedup_steps_keep:
  assumes "(dedup_step E V W img)\<^sup>*\<^sup>* D D'" "dedup_ok E V W I img D" "distinguishes (d_digests E) img"
  shows "dedup_ok E V W I img D'"
  using assms by (induction rule: rtranclp_induct) (auto intro: dedup_step_keeps)

text \<open>
  C4: after any sequence of steps, a read that succeeds returns the bytes of the image: as many as
  asked for and left in the image, whether they come from chunks, after a fetch from a peer, or from
  the backend.
\<close>

theorem dedup_reads_image:
  assumes "dedup_ok E V W I img D0" "distinguishes (d_digests E) img" "(dedup_step E V W img)\<^sup>*\<^sup>* D0 D"
    and "DedupReader_fetch E D off buf = (D', buf', Inr n)" "off < length img" "length buf < 2 ^ 63"
  shows "n = min (length buf) (length img - off) \<and> take n buf' = slice img off (off + n) \<and> length buf' = length buf"
proof -
  have ok: "dedup_ok E V W I img D" by (rule dedup_steps_keep [OF assms(3,1,2)])
  have f: "be_fetch (DedupReader_ops E) D off buf = (D', buf', Inr n)" using assms(4) by (simp add: DedupReader_ops_def)
  show ?thesis
    using dedup_source.fetch_ok [OF ok f assms(5,6)] dedup_source.fetch_len [OF ok f] by blast
qed

subsection \<open>A concrete source\<close>

definition mem_index :: "(DedupRange \<times> DedupInfo) list index_env" where
  "mem_index = \<lparr>read_txn = Inr, write_txn = Inr, commit = Inr,
     ranges = mem_db DedupRange_encode (\<lambda>_. False) id (\<lambda>al _. al)\<rparr>"

lemma mem_index_ok: "index_env_ok mem_index map_of"
proof -
  have "db_ok DedupRange_encode (\<lambda>s. map_of (id s)) (mem_db DedupRange_encode (\<lambda>_. False) id (\<lambda>al _. al))"
    by (rule mem_db_ok) simp
  then show ?thesis by (simp add: index_env_ok_def mem_index_def txn_ok_def)
qed

text \<open>The digest is the data itself, so that ranges with the same checksum have the same bytes.\<close>

definition plain_digests :: digests where
  "plain_digests = \<lparr>sha256_digest = id, blake3_digest = id\<rparr>"

lemma plain_distinguishes: "distinguishes plain_digests img"
  by (auto simp: distinguishes_def plain_digests_def CheckSum_from_data_def split: CheckSumMethod.splits)

lemma plain_faithful: "faithful plain_digests img (CheckSum_from_data plain_digests d m) d"
  by (auto simp: faithful_def plain_digests_def CheckSum_from_data_def split: CheckSumMethod.splits)

definition demo_id :: bytes where "demo_id = replicate 32 7"

definition demo_dedup_env :: "(mem_chunks, (DedupRange \<times> DedupInfo) list, bytes) dedup_env" where
  "demo_dedup_env = \<lparr>d_store = mem_chunk_env 5, d_index = mem_index, d_backend = mem_source, d_digests = plain_digests,
     d_id = demo_id, d_client = None\<rparr>"

text \<open>An image of four bytes of which the range from 1 to 3 is recorded and stored.\<close>

definition demo_dedup :: "(mem_chunks, (DedupRange \<times> DedupInfo) list, bytes) dedup_state" where
  "demo_dedup =
     (let cs = CheckSum_from_data plain_digests [2, 3] Blake3 in
      \<lparr>dd_chunks = chunkdb_new \<lparr>m_data = [(disk_of cs, [2, 3])], m_access = [], m_index = []\<rparr> False,
       dd_index = [(DedupRange_new_with_id demo_id 1 2, DedupInfo_new 1 2 cs)],
       dd_b = [1, 2, 3, 4], dd_bits = [0], dd_sync = [], dd_reqs = []\<rparr>)"

lemma demo_dedup_env_sel [simp]:
  "d_store demo_dedup_env = mem_chunk_env 5" "d_index demo_dedup_env = mem_index" "d_backend demo_dedup_env = mem_source"
  "d_digests demo_dedup_env = plain_digests" "d_id demo_dedup_env = demo_id" "d_client demo_dedup_env = None"
  by (simp_all add: demo_dedup_env_def)

lemma demo_dedup_sel [simp]:
  "dd_index demo_dedup = [(DedupRange_new_with_id demo_id 1 2, DedupInfo_new 1 2 (CheckSum_from_data plain_digests [2, 3] Blake3))]"
  "dd_b demo_dedup = [1, 2, 3, 4]" "dd_bits demo_dedup = [0]" "dd_sync demo_dedup = []" "dd_reqs demo_dedup = []"
  by (simp_all add: demo_dedup_def Let_def)

lemma demo_dedup_ok: "dedup_ok demo_dedup_env mem_views map_of (\<lambda>b. b = [1, 2, 3, 4]) [1, 2, 3, 4] demo_dedup"
proof -
  have "chunks_ok (faithful plain_digests [1, 2, 3, 4]) mem_views (dd_chunks demo_dedup)"
    using plain_faithful by (auto simp: chunks_ok_def stored_ok_def demo_dedup_def Let_def mem_views_def chunkdb_new_def)
  moreover have "record_ok plain_digests [1, 2, 3, 4] (DedupInfo_new 1 2 (CheckSum_from_data plain_digests [2, 3] Blake3))"
    by (simp add: record_ok_def slice_def CheckSum_from_data_def)
  ultimately have "core_ok demo_dedup_env mem_views map_of [1, 2, 3, 4] demo_dedup"
    by (simp add: core_ok_def mem_chunk_env_ok mem_index_ok client_ok_def CHUNK_SIZE_def)
  then show ?thesis by (simp add: dedup_ok_def mem_source_backend_ex)
qed

lemma demo_segments:
  "dedup_range mem_index demo_id 0 4 (dd_index demo_dedup) =
     Inr [(DedupInfo_new 0 1 CheckSum_empty, 1), (DedupInfo_new 1 3 CheckSum_empty, 3)]"
proof -
  have le: "DedupRange_encode (DedupRange_new_with_id demo_id 0 1) \<le> DedupRange_encode (DedupRange_new_with_id demo_id 1 2)"
    by (subst DedupRange_encode_le) (simp_all add: wf_range_new demo_id_def u64_add_def)
  have "db_from (ranges mem_index) (dd_index demo_dedup) (DedupRange_new_with_id demo_id 0 1) = Inr (dd_index demo_dedup)"
    using le by (simp add: mem_index_def mem_db_def mem_list_def)
  then show ?thesis
    by (simp add: dedup_range_def mem_index_def u64_add_def as_u32_def)
qed

text \<open>The two reads of the demonstration: through the chunk, and from the backend.\<close>

lemma demo_segments_inside:
  "dedup_range mem_index demo_id 1 2 (dd_index demo_dedup) =
     Inr [(DedupInfo_new 1 2 (CheckSum_from_data plain_digests [2, 3] Blake3), 2)]"
proof -
  have le: "DedupRange_encode (DedupRange_new_with_id demo_id 1 1) \<le> DedupRange_encode (DedupRange_new_with_id demo_id 1 2)"
    by (subst DedupRange_encode_le) (simp_all add: wf_range_new demo_id_def u64_add_def)
  have "db_from (ranges mem_index) (dd_index demo_dedup) (DedupRange_new_with_id demo_id 1 1) = Inr (dd_index demo_dedup)"
    using le by (simp add: mem_index_def mem_db_def mem_list_def)
  then show ?thesis
    by (simp add: dedup_range_def mem_index_def u64_add_def as_u32_def)
qed

lemma demo_chunk_read: "\<exists>D' buf'. DedupReader_fetch demo_dedup_env demo_dedup 1 [0, 0] = (D', buf', Inr 2)"
proof -
  let ?cs = "CheckSum_from_data plain_digests [2, 3] Blake3"
  have v: "is_valid (disk_of ?cs)" by simp
  have "\<exists>q. with_chunk_range (mem_chunk_env 5) ?cs 0 2 (\<lambda>w data. copy_from_chunk (FetchOp mem_source) w data 0 2) (dd_chunks demo_dedup) [0, 0] =
      (q, [2, 3], Inr (Some 2))"
    by (simp add: with_chunk_range_def mem_get FetchOp_def demo_dedup_def Let_def chunkdb_new_def mem_chunk_env_def mem_db_def
        u64_add_def slice_def splice_def)
  then obtain q where "with_chunk_range (mem_chunk_env 5) ?cs 0 2 (\<lambda>w data. copy_from_chunk (FetchOp mem_source) w data 0 2) (dd_chunks demo_dedup) [0, 0] =
      (q, [2, 3], Inr (Some 2))" ..
  then have "read_dedup_chunk demo_dedup_env (FetchOp mem_source) ?cs 0 2 0 (dd_chunks demo_dedup) [0, 0] = (q, [2, 3], Inr (Some 2))"
    by (simp only: read_dedup_chunk_def demo_dedup_env_sel) simp
  then have "process_dedup_op demo_dedup_env (FetchOp mem_source) 1 2 demo_dedup [0, 0] = (demo_dedup\<lparr>dd_chunks := q\<rparr>, [2, 3], Inr 2)"
    using demo_segments_inside v by (simp add: process_dedup_op_def process_segment_def u64_sub_def)
  moreover have "\<exists>D2. try_dedup_chunk 1 2 Blake3 (demo_dedup\<lparr>dd_chunks := q\<rparr>) = (D2, Inr ())"
    using try_chunk_ok [of 1 2 "demo_dedup\<lparr>dd_chunks := q\<rparr>" Blake3] by (cases "try_dedup_chunk 1 2 Blake3 (demo_dedup\<lparr>dd_chunks := q\<rparr>)") (simp add: CHUNK_SIZE_def)
  moreover have l: "length [0, 0 :: byte] = 2" by simp
  moreover have sz: "be_size (d_backend demo_dedup_env) (dd_b demo_dedup) = 4" by (simp add: mem_source_def)
  ultimately show ?thesis unfolding DedupReader_fetch_def dedup_read_def l sz by auto
qed

theorem dedup_reads_image_witness:
  "\<exists>D' buf'. DedupReader_fetch demo_dedup_env demo_dedup 1 [0, 0] = (D', buf', Inr 2) \<and> take 2 buf' = [2, 3]"
proof -
  obtain D' buf' where run: "DedupReader_fetch demo_dedup_env demo_dedup 1 [0, 0] = (D', buf', Inr 2)" using demo_chunk_read by blast
  have d: "distinguishes (d_digests demo_dedup_env) [1, 2, 3, 4]" using plain_distinguishes by simp
  have "take 2 buf' = slice [1, 2, 3, 4] 1 (1 + 2)"
    using dedup_reads_image [OF demo_dedup_ok d rtranclp.rtrancl_refl run] by simp
  with run show ?thesis by (simp add: slice_def)
qed

subsection \<open>Writing to a stream\<close>

lemma empty_not_valid [simp]: "cs_method CheckSum_empty = Unknown"
  by (simp add: CheckSum_empty_def)

text \<open>
  Handed to a writer that appends what it accepts, a read of the image appends the bytes of the
  image: the part from a chunk is not repeated or lost when a chunk is missing or fails and the
  backend takes over.
\<close>

theorem dedup_streams_image:
  assumes "stream_ok S I img out" "writer_ok fw out" "dedup_ok E V W I img D" "off < length img" "n < 2 ^ 32"
    and "DedupReader_write E S fw D off n w = (D', w', Inr m)"
  shows "m = min n (length img - off) \<and> out w' = out w @ slice img off (off + m) \<and> dedup_ok E V W I img D'"
  using stream_okD [OF dedup_stream_ok [OF assms(1,2)] assms(3-6)] by auto

lemma mem_stream_ok: "length img < 2 ^ 63 \<Longrightarrow> stream_ok (default_write_to_fuse_writer mem_source mem_writer) (\<lambda>b. b = img) img id"
  by (rule backend.default_stream [OF mem_source_backend mem_writer_ok])

text \<open>A demonstration with a segment from the backend.\<close>

lemma demo_write:
  "\<exists>D'. DedupReader_write demo_dedup_env (default_write_to_fuse_writer mem_source mem_writer) mem_writer demo_dedup 0 4 [9] =
     (D', [9, 1, 2, 3, 4], Inr 4)"
proof -
  let ?X = "FuseWriteOp (default_write_to_fuse_writer mem_source mem_writer) mem_writer"
  have c: "backend_copy ?X 0 0 1 demo_dedup [9] = (demo_dedup, [9, 1], Inr 1)"
    "backend_copy ?X 1 1 3 demo_dedup [9, 1] = (demo_dedup, [9, 1, 2, 3, 4], Inr 3)"
    by (simp_all add: backend_copy_def FuseWriteOp_def default_write_to_fuse_writer_def mem_source_def mem_writer_def
        as_u32_def slice_def splice_def Let_def)
  have "process_dedup_op demo_dedup_env ?X 0 4 demo_dedup [9] = (demo_dedup, [9, 1, 2, 3, 4], Inr 4)"
    using demo_segments c by (simp add: process_dedup_op_def process_segment_def u64_add_def)
  moreover have "\<exists>D2. try_dedup_chunk 0 4 Blake3 demo_dedup = (D2, Inr ())"
    using try_chunk_ok [of 0 4 demo_dedup Blake3] by (cases "try_dedup_chunk 0 4 Blake3 demo_dedup") (simp add: CHUNK_SIZE_def)
  moreover have sz: "be_size (d_backend demo_dedup_env) (dd_b demo_dedup) = 4" by (simp add: mem_source_def)
  ultimately show ?thesis unfolding DedupReader_write_def dedup_read_def sz by auto
qed

theorem dedup_streams_image_witness:
  "\<exists>D'. DedupReader_write demo_dedup_env (default_write_to_fuse_writer mem_source mem_writer) mem_writer demo_dedup 0 4 [9] =
     (D', [9, 1, 2, 3, 4], Inr 4) \<and> dedup_ok demo_dedup_env mem_views map_of (\<lambda>b. b = [1, 2, 3, 4]) [1, 2, 3, 4] D'"
proof -
  have st: "stream_ok (default_write_to_fuse_writer mem_source mem_writer) (\<lambda>b. b = [1, 2, 3, 4]) [1, 2, 3, 4] id"
    by (rule mem_stream_ok) simp
  obtain D' where run: "DedupReader_write demo_dedup_env (default_write_to_fuse_writer mem_source mem_writer) mem_writer demo_dedup 0 4 [9] =
     (D', [9, 1, 2, 3, 4], Inr 4)" using demo_write by blast
  with dedup_streams_image [OF st mem_writer_ok demo_dedup_ok _ _ run] show ?thesis by simp
qed

subsection \<open>Dropping the cached copy of a chunk\<close>

lemma seg_chain_point:
  "seg_chain P off infos \<Longrightarrow> off \<le> p \<Longrightarrow> p < off + segs_len infos \<Longrightarrow>
   \<exists>(v, n) \<in> set infos. \<exists>start. seg_ok P start v n \<and> start \<le> p \<and> p < start + n"
proof (induction infos arbitrary: off)
  case (Cons x infos)
  obtain v n where x: "x = (v, n)" by fastforce
  show ?case
  proof (cases "p < off + n")
    case True
    with Cons.prems x show ?thesis by auto
  next
    case False
    then have "\<exists>(v, n) \<in> set infos. \<exists>start. seg_ok P start v n \<and> start \<le> p \<and> p < start + n"
      using Cons.IH [of "off + n"] Cons.prems x by (simp add: add.assoc)
    then show ?thesis by auto
  qed
qed simp

text \<open>
  C29: the copy of a chunk that the backend cached is dropped only when every byte of the chunk that
  is in the image lies in a valid record of this image; otherwise nothing changes.
\<close>

theorem gc_only_recorded_chunks:
  assumes ok: "dedup_ok E V W I img D" and run: "dedup_gc_chunk E k D = (D', r)" and ch: "D' \<noteq> D"
    and p: "k * CHUNK_SIZE \<le> p" "p < (k + 1) * CHUNK_SIZE" "p < length img"
  shows "be_invalidate (d_backend E) (dd_b D) k = (dd_b D', r) \<and>
    (\<exists>rk v. W (dd_index D) rk = Some v \<and> dr_id rk = d_id E \<and> is_valid (di_cs v) \<and> di_off v \<le> p \<and> p < DedupInfo_end v)"
proof -
  note sz = dedup_okD(5,6) [OF ok]
  let ?e = "min ((k + 1) * CHUNK_SIZE) (length img)"
  obtain infos where infos: "dedup_range (d_index E) (d_id E) (k * CHUNK_SIZE) (?e - k * CHUNK_SIZE) (dd_index D) = Inr infos"
    and valid: "\<forall>x \<in> set infos. is_valid (di_cs (fst x))"
    and inv: "be_invalidate (d_backend E) (dd_b D) k = (dd_b D', r)"
    using run ch sz(1) by (auto simp: dedup_gc_chunk_def Let_def split: if_splits sum.splits prod.splits)
  have e: "k * CHUNK_SIZE \<le> ?e" "p < ?e" using p by simp_all
  have "?e < 2 ^ 64" using sz(2) less_trans [of "length img" "2 ^ 63" "2 ^ 64"] by (simp add: min_less_iff_disj)
  then have "k * CHUNK_SIZE + (?e - k * CHUNK_SIZE) < 2 ^ 64" using e(1) by (simp only: le_add_diff_inverse)
  note c = dedup_range_chain [OF core_okD(2) [OF dedup_okD(4) [OF ok]] infos this,
      where P = "\<lambda>v. \<exists>rk. W (dd_index D) rk = Some v \<and> dr_id rk = d_id E"]
  then have "seg_chain (\<lambda>v. \<exists>rk. W (dd_index D) rk = Some v \<and> dr_id rk = d_id E) (k * CHUNK_SIZE) infos"
    "segs_len infos = ?e - k * CHUNK_SIZE" by blast+
  from seg_chain_point [OF this(1) p(1)] this(2) e obtain v n start where
    "(v, n) \<in> set infos" "seg_ok (\<lambda>v. \<exists>rk. W (dd_index D) rk = Some v \<and> dr_id rk = d_id E) start v n" "start \<le> p" "p < start + n"
    by (auto simp: le_add_diff_inverse)
  moreover from this valid have "is_valid (di_cs v)" by fastforce
  ultimately have "\<exists>rk. W (dd_index D) rk = Some v \<and> dr_id rk = d_id E" "is_valid (di_cs v)" "di_off v \<le> p" "p < DedupInfo_end v"
    by (auto simp: seg_ok_def)
  with inv show ?thesis by blast
qed

text \<open>A source that logs what is dropped, and a reader of it whose image is recorded as a whole.\<close>

definition logged_source :: "(bytes \<times> nat list) backend_ex_ops" where
  "logged_source = \<lparr>be_size = \<lambda>b. length (fst b),
     be_fetch = (\<lambda>b off buf. case be_fetch mem_source (fst b) off buf of (c, buf', r) \<Rightarrow> ((c, snd b), buf', r)),
     be_invalidate = (\<lambda>b i. ((fst b, snd b @ [i]), Inr ()))\<rparr>"

lemma logged_source_ok:
  assumes "length img < 2 ^ 63"
  shows "backend_ex logged_source (\<lambda>b. fst b = img) img"
proof -
  have mem: "backend mem_source (\<lambda>b. b = img) img" by (rule mem_source_backend [OF assms])
  show ?thesis
  proof (unfold_locales, goal_cases)
    case (5 b off buf b' buf' n)
    then show ?case
      using backend.fetch_ok [OF mem, of "fst b" off buf "fst b'" buf' n]
      by (auto simp: logged_source_def split: prod.splits)
  qed (use assms in \<open>auto simp: logged_source_def mem_source_def Let_def splice_def slice_def split: prod.splits\<close>)
qed

definition recorded_env :: "(mem_chunks, (DedupRange \<times> DedupInfo) list, bytes \<times> nat list) dedup_env" where
  "recorded_env = \<lparr>d_store = mem_chunk_env 5, d_index = mem_index, d_backend = logged_source, d_digests = plain_digests,
     d_id = demo_id, d_client = None\<rparr>"

definition recorded :: "(mem_chunks, (DedupRange \<times> DedupInfo) list, bytes \<times> nat list) dedup_state" where
  "recorded =
     \<lparr>dd_chunks = chunkdb_new \<lparr>m_data = [], m_access = [], m_index = []\<rparr> False,
      dd_index = [(DedupRange_new_with_id demo_id 0 4, DedupInfo_new 0 4 (CheckSum_from_data plain_digests [1, 2, 3, 4] Blake3))],
      dd_b = ([1, 2, 3, 4], []), dd_bits = [0], dd_sync = [], dd_reqs = []\<rparr>"

lemma recorded_env_sel [simp]:
  "d_store recorded_env = mem_chunk_env 5" "d_index recorded_env = mem_index" "d_backend recorded_env = logged_source"
  "d_digests recorded_env = plain_digests" "d_id recorded_env = demo_id" "d_client recorded_env = None"
  by (simp_all add: recorded_env_def)

lemma recorded_sel [simp]:
  "dd_index recorded = [(DedupRange_new_with_id demo_id 0 4, DedupInfo_new 0 4 (CheckSum_from_data plain_digests [1, 2, 3, 4] Blake3))]"
  "dd_b recorded = ([1, 2, 3, 4], [])" "dd_bits recorded = [0]" "dd_sync recorded = []" "dd_reqs recorded = []"
  by (simp_all add: recorded_def)

lemma recorded_ok: "dedup_ok recorded_env mem_views map_of (\<lambda>b. fst b = [1, 2, 3, 4]) [1, 2, 3, 4] recorded"
proof -
  have "record_ok plain_digests [1, 2, 3, 4] (DedupInfo_new 0 4 (CheckSum_from_data plain_digests [1, 2, 3, 4] Blake3))"
    by (simp add: record_ok_def slice_def CheckSum_from_data_def)
  moreover have "chunks_ok (faithful plain_digests [1, 2, 3, 4]) mem_views (dd_chunks recorded)"
    by (simp add: chunks_ok_def stored_ok_def recorded_def mem_views_def chunkdb_new_def)
  ultimately have "core_ok recorded_env mem_views map_of [1, 2, 3, 4] recorded"
    by (simp add: core_ok_def mem_chunk_env_ok mem_index_ok client_ok_def CHUNK_SIZE_def)
  then show ?thesis by (simp add: dedup_ok_def logged_source_ok)
qed

lemma mem_index_single:
  "db_from (ranges mem_index) [(k, v)] key = Inr (if DedupRange_encode key \<le> DedupRange_encode k then [(k, v)] else [])"
  by (simp add: mem_index_def mem_db_def mem_list_def)

lemma mem_index_read [simp]: "read_txn mem_index s = Inr s"
  by (simp add: mem_index_def)

lemma recorded_gc: "dedup_gc_chunk recorded_env 0 recorded = (recorded\<lparr>dd_b := ([1, 2, 3, 4], [0])\<rparr>, Inr ())"
proof -
  have le: "DedupRange_encode (DedupRange_new_with_id demo_id 0 1) \<le> DedupRange_encode (DedupRange_new_with_id demo_id 0 4)"
    by (subst DedupRange_encode_le) (simp_all add: wf_range_new demo_id_def u64_add_def)
  have "dedup_range mem_index demo_id 0 4 (dd_index recorded) =
      Inr [(DedupInfo_new 0 4 (CheckSum_from_data plain_digests [1, 2, 3, 4] Blake3), 4)]"
    using le by (simp add: dedup_range_def mem_index_single u64_add_def)
  moreover have "min CHUNK_SIZE 4 = 4" by (simp add: CHUNK_SIZE_def)
  moreover have "be_size logged_source ([1, 2, 3, 4], []) = 4"
    "be_invalidate logged_source ([1, 2, 3, 4], []) 0 = (([1, 2, 3, 4], [0]), Inr ())" by (simp_all add: logged_source_def)
  ultimately show ?thesis by (simp add: dedup_gc_chunk_def Let_def)
qed

theorem gc_only_recorded_chunks_witness:
  "\<exists>D' r. dedup_gc_chunk recorded_env 0 recorded = (D', r) \<and> be_invalidate logged_source ([1, 2, 3, 4], []) 0 = (dd_b D', r)"
proof -
  have ne: "recorded\<lparr>dd_b := ([1, 2, 3, 4], [0])\<rparr> \<noteq> recorded" by (simp add: recorded_def)
  have p: "0 * CHUNK_SIZE \<le> (3 :: nat)" "3 < (0 + 1) * CHUNK_SIZE" "3 < length [1, 2, 3, 4 :: byte]" by (simp_all add: CHUNK_SIZE_def)
  show ?thesis
    using gc_only_recorded_chunks [OF recorded_ok recorded_gc ne p] recorded_gc by simp
qed

subsection \<open>The workers return\<close>

lemma add_data_total:
  assumes "chunk_env_ok (d_store E) V" "deletes_ok (d_store E)"
  shows "\<exists>D' r. add_data E now cs data D = Some (D', r)"
proof -
  let ?q = "submit_high (AddChunk cs data (next_reply (dd_chunks D))) ((dd_chunks D)\<lparr>next_reply := Suc (next_reply (dd_chunks D))\<rparr>)"
  obtain q' r where "writer_round (d_store E) now ?q = Some (q', r)" using writer_round_total [OF assms] by blast
  then show ?thesis by (simp add: add_data_def add_chunk_def wait_reply_def)
qed

lemma dedup_total:
  assumes "chunk_env_ok (d_store E) V" "deletes_ok (d_store E)"
  shows "\<exists>D' r. dedup E now off len c m D = Some (D', r)"
proof -
  have "\<exists>D' r. dedup_store E now sz off len m D = Some (D', r)" for sz m
  proof -
    obtain b buf r where f: "be_fetch (d_backend E) (dd_b D) off (replicate len 0) = (b, buf, r)" by (metis prod_cases3)
    have "\<exists>D' r. add_data E now (CheckSum_from_data (d_digests E) data m) data (D\<lparr>dd_b := b\<rparr>) = Some (D', r)" for data
      by (rule add_data_total [OF assms])
    then obtain g h where a: "\<And>data. add_data E now (CheckSum_from_data (d_digests E) data m) data (D\<lparr>dd_b := b\<rparr>) = Some (g data, h data)"
      by metis
    have split: "\<exists>D' r. Some p = Some (D', r)" for p :: "('a, 'b, 'c) dedup_state \<times> (error + unit)" by (cases p) simp
    show ?thesis
      using a [of "take n buf" for n] a [of buf] split
      by (cases r) (auto simp: dedup_store_def f Let_def split: sum.split)
  qed
  then show ?thesis
    unfolding dedup_def Let_def
    by (auto split: sum.split bool.split option.split simp: put_info_def split: prod.split)
qed

text \<open>
  Each worker finishes the request it has taken, whatever the backend, the index and the chunk
  database answer, as long as deletes in the chunk store do not fail.
\<close>

theorem dedup_workers_return:
  assumes "chunk_env_ok (d_store E) V" "deletes_ok (d_store E)"
  shows "(\<exists>D'. DedupWorker_step E now D = Some D') \<and> (\<exists>D'. SyncWorker_step E now D = Some D')"
proof
  show "\<exists>D'. DedupWorker_step E now D = Some D'"
  proof (cases "dd_reqs D")
    case (Cons rq rqs)
    obtain D1 r where "dedup E now (rq_off rq) (rq_len rq) (rq_check_sum rq) (rq_method rq) (D\<lparr>dd_reqs := rqs\<rparr>) = Some (D1, r)"
      using dedup_total [OF assms] by blast
    with Cons show ?thesis by (cases r) (simp_all add: DedupWorker_step_def)
  qed (simp add: DedupWorker_step_def)
  show "\<exists>D'. SyncWorker_step E now D = Some D'"
  proof (cases "dd_sync D")
    case (Cons v vs)
    have "\<exists>D'. SyncWorker_process E now v D0 = Some D'" for D0
    proof -
      obtain b buf r where f: "be_fetch (d_backend E) (dd_b D0) (di_off v) (replicate (di_len v) 0) = (b, buf, r)" by (metis prod_cases3)
      obtain D1 x where "add_data E now (checksum_of (di_cs v)) buf (D0\<lparr>dd_b := b\<rparr>) = Some (D1, x)"
        using add_data_total [OF assms] by blast
      with f show ?thesis by (cases r; cases x) (auto simp: SyncWorker_process_def Let_def)
    qed
    with Cons show ?thesis by (simp add: SyncWorker_step_def)
  qed (simp add: SyncWorker_step_def)
qed

theorem dedup_workers_return_witness:
  "\<exists>D'. DedupWorker_step demo_dedup_env 5 (demo_dedup\<lparr>dd_reqs := [DedupRequest_new 0 CHUNK_SIZE Blake3]\<rparr>) = Some D'"
proof -
  have "chunk_env_ok (d_store demo_dedup_env) mem_views" "deletes_ok (d_store demo_dedup_env)"
    by (simp_all add: mem_chunk_env_ok mem_deletes_ok)
  from dedup_workers_return [OF this] show ?thesis by blast
qed

subsection \<open>What a deduplication records\<close>

lemma put_info_success:
  assumes "index_env_ok (d_index E) W" "put_info E r cs D = (D', Inr ())"
  shows "W (dd_index D') = (W (dd_index D))(r \<mapsto> DedupInfo_new (dr_start r) (as_u32 (DedupRange_size r)) cs) \<and> dd_chunks D' = dd_chunks D"
proof -
  have db: "db_ok DedupRange_encode W (ranges (d_index E))" "txn_ok (d_index E) W" using assms(1) by (simp_all add: index_env_ok_def)
  show ?thesis
    using assms(2) txn_okD(2,3) [OF db(2)] db_okD(2) [OF db(1)]
    by (fastforce simp: put_info_def add_local_dedup_info_def split: sum.splits prod.splits)
qed


subsection \<open>Two ranges that are not served as they could be\<close>

lemma listing_single: "listing enc [k \<mapsto> v] xs \<Longrightarrow> xs = [(k, v)]"
proof -
  assume l: "listing enc [k \<mapsto> v] xs"
  have "length xs = 1" using listing_card [OF l] by simp
  then obtain x where x: "xs = [x]" by (auto simp: length_Suc_conv)
  moreover have "(k, v) \<in> set xs" using listing_in_iff [OF l] by simp
  ultimately show ?thesis by simp
qed

lemma single_from:
  assumes "index_env_ok T W" "read_txn T s = Inr r" "db_from (ranges T) r key = Inr it" "W s = [k \<mapsto> v]"
    and "DedupRange_encode key \<le> DedupRange_encode k"
  shows "it = [(k, v)]"
proof -
  have "W r = W s" using assms(1,2) txn_okD(1) by (fastforce simp: index_env_ok_def)
  then obtain xs where "listing DedupRange_encode [k \<mapsto> v] xs" "it = filter (\<lambda>x. DedupRange_encode key \<le> DedupRange_encode (fst x)) xs"
    using assms(1,3,4) db_okD(7) [of DedupRange_encode W "ranges T"] by (fastforce simp: index_env_ok_def)
  with listing_single assms(5) show ?thesis by fastforce
qed

lemma key_le:
  assumes "length i = 32" "off < a + n" "a + n < 2 ^ 64" "off < a \<or> off + 1 < a + n \<or> off = a"
  shows "DedupRange_encode (DedupRange_new_with_id i off 1) \<le> DedupRange_encode (DedupRange_new_with_id i a n)"
proof -
  have "off < 2 ^ 64" "a < 2 ^ 64" "off + 1 < 2 ^ 64" using assms by linarith+
  then show ?thesis
    using assms by (subst DedupRange_encode_le) (auto simp: wf_range_new u64_add_exact)
qed


text \<open>
  A record that begins after the requested offset is not used: the scan closes the gap before it
  and goes on with the next record, so a request that starts before the only record of an image is
  answered as unknown from beginning to end.
\<close>

theorem record_after_gap_skipped:
  assumes "index_env_ok T W" "length i = 32" "W s = [DedupRange_new_with_id i a n \<mapsto> DedupInfo_new a n cs]"
    and "off < a" "a < off + len" "off + len < 2 ^ 64" "a + n < 2 ^ 64" "dedup_range T i off len s = Inr infos"
  shows "infos = [(DedupInfo_new off (as_u32 (a - off)) CheckSum_empty, a - off),
    (DedupInfo_new a (as_u32 (off + len - a)) CheckSum_empty, off + len - a)]"
proof -
  have "len \<noteq> 0" using assms(4,5) by linarith
  then obtain r it where r: "read_txn T s = Inr r" "db_from (ranges T) r (DedupRange_new_with_id i off 1) = Inr it"
    using assms(8) by (auto simp: dedup_range_def split: sum.splits)
  have it: "it = [(DedupRange_new_with_id i a n, DedupInfo_new a n cs)]"
    by (rule single_from [OF assms(1) r assms(3) key_le]) (use assms(2,4,7) in simp_all)
  have mn: "min (a - off) len = a - off" "len - (a - off) = off + len - a" using assms(4,5) by auto
  have "u64_add off (a - off) = a" "u64_add a (off + len - a) = off + len" using assms(4-6) by (simp_all add: u64_add_exact)
  then have "scan_ranges i it off len [] = ([(DedupInfo_new off (as_u32 (a - off)) CheckSum_empty, a - off)], a, off + len - a)"
    using assms(4,5) by (simp add: it Let_def mn)
  then show ?thesis using assms(4,5,8) r by (simp add: dedup_range_def)
qed

text \<open>The demonstrations.\<close>

theorem record_after_gap_skipped_witness:
  "dedup_range mem_index demo_id 0 4 (dd_index demo_dedup) =
    Inr [(DedupInfo_new 0 1 CheckSum_empty, 1), (DedupInfo_new 1 3 CheckSum_empty, 3)]"
proof -
  obtain infos where infos: "dedup_range mem_index demo_id 0 4 (dd_index demo_dedup) = Inr infos"
    using demo_segments by blast
  have "map_of (dd_index demo_dedup) = [DedupRange_new_with_id demo_id 1 2 \<mapsto> DedupInfo_new 1 2 (CheckSum_from_data plain_digests [2, 3] Blake3)]"
    by simp
  from record_after_gap_skipped [OF mem_index_ok _ this _ _ _ _ infos] infos show ?thesis
    by (simp add: demo_id_def as_u32_def)
qed


text \<open>
  C15: the lookup of a range cuts it into consecutive segments of positive length that cover it
  exactly, and a segment with a record is inside the range that record describes and belongs to the
  image asked for; every other segment is marked as unknown.
\<close>

theorem dedup_range_partitions:
  assumes "index_env_ok T W" "dedup_range T i off len s = Inr infos" "off + len < 2 ^ 64"
  shows "segs_len infos = len \<and>
    (\<forall>j < length infos. let (v, n) = infos ! j; start = off + segs_len (take j infos) in
       0 < n \<and> (v = DedupInfo_new start (as_u32 n) CheckSum_empty \<or>
         (\<exists>k. W s k = Some v \<and> dr_id k = i) \<and> di_off v \<le> start \<and> start + n \<le> DedupInfo_end v))"
proof -
  have c: "seg_chain (\<lambda>v. \<exists>k. W s k = Some v \<and> dr_id k = i) off infos \<and> segs_len infos = len"
    by (rule dedup_range_chain [OF assms]) blast
  then have "\<forall>j < length infos. let (v, n) = infos ! j; start = off + segs_len (take j infos) in
      0 < n \<and> (v = DedupInfo_new start (as_u32 n) CheckSum_empty \<or>
        (\<exists>k. W s k = Some v \<and> dr_id k = i) \<and> di_off v \<le> start \<and> start + n \<le> DedupInfo_end v)"
    using seg_chain_nth [OF conjunct1 [OF c]] by (fastforce simp: seg_ok_def Let_def split: prod.split)
  with c show ?thesis by blast
qed

theorem dedup_range_partitions_witness:
  "\<exists>infos. dedup_range mem_index demo_id 0 4 (dd_index demo_dedup) = Inr infos \<and> sum_list (map snd infos) = 4"
  using dedup_range_partitions [OF mem_index_ok demo_segments] demo_segments by simp

lemma mem_read [simp]: "read_txn (mem_chunk_env cap) s = Inr s" "write_txn (mem_chunk_env cap) s = Inr s" "commit (mem_chunk_env cap) s = Inr s"
  by (simp_all add: mem_chunk_env_def)

text \<open>The same image without a record, in an empty chunk database.\<close>

definition empty_dedup :: "(mem_chunks, (DedupRange \<times> DedupInfo) list, bytes) dedup_state" where
  "empty_dedup = \<lparr>dd_chunks = chunkdb_new \<lparr>m_data = [], m_access = [], m_index = []\<rparr> False, dd_index = [],
     dd_b = [1, 2, 3, 4], dd_bits = [0], dd_sync = [], dd_reqs = []\<rparr>"

lemma empty_dedup_sel [simp]:
  "dd_chunks empty_dedup = chunkdb_new \<lparr>m_data = [], m_access = [], m_index = []\<rparr> False" "dd_index empty_dedup = []"
  "dd_b empty_dedup = [1, 2, 3, 4]" "dd_bits empty_dedup = [0]" "dd_sync empty_dedup = []" "dd_reqs empty_dedup = []"
  by (simp_all add: empty_dedup_def)

lemma empty_dedup_ok: "dedup_ok demo_dedup_env mem_views map_of (\<lambda>b. b = [1, 2, 3, 4]) [1, 2, 3, 4] empty_dedup"
proof -
  have "chunks_ok (faithful plain_digests [1, 2, 3, 4]) mem_views (dd_chunks empty_dedup)"
    by (simp add: chunks_ok_def stored_ok_def mem_views_def chunkdb_new_def)
  then have "core_ok demo_dedup_env mem_views map_of [1, 2, 3, 4] empty_dedup"
    by (simp add: core_ok_def mem_chunk_env_ok mem_index_ok client_ok_def CHUNK_SIZE_def)
  then show ?thesis by (simp add: dedup_ok_def mem_source_backend_ex)
qed

lemma empty_dedup_run:
  "\<exists>D'. dedup demo_dedup_env 900 0 CHUNK_SIZE None Blake3 empty_dedup = Some (D', Inr ())"
proof -
  let ?q = "chunkdb_new \<lparr>m_data = [], m_access = [], m_index = []\<rparr> False" and ?cs = "CheckSum_from_data plain_digests [1, 2, 3, 4] Blake3"
  have i: "high ?q = []" "medium ?q = []" "replies_fresh ?q" by (simp_all add: chunkdb_new_def replies_fresh_def)
  have "\<exists>q1. do_add_chunk (mem_chunk_env 5) ?cs [1, 2, 3, 4] (drain (?q\<lparr>next_reply := Suc (next_reply ?q)\<rparr>)) = Some (q1, Inr ())"
    by (subst do_add_chunk.simps) (simp add: drain_def chunkdb_new_def mem_chunk_env_def mem_db_def)
  then obtain q' where q': "add_chunk (mem_chunk_env 5) 900 ?cs [1, 2, 3, 4] ?q = Some (q', Inr ())"
    by (auto simp: add_chunk_alone [OF i])
  have f: "\<exists>buf. be_fetch mem_source [1, 2, 3, 4] 0 (replicate CHUNK_SIZE 0) = ([1, 2, 3, 4], buf, Inr 4) \<and> take 4 buf = [1, 2, 3, 4]"
  proof -
    have "min CHUNK_SIZE 4 = 4" by (simp add: CHUNK_SIZE_def)
    then show ?thesis by (simp add: mem_source_def Let_def slice_def splice_def)
  qed
  then obtain buf where f: "be_fetch mem_source [1, 2, 3, 4] 0 (replicate CHUNK_SIZE 0) = ([1, 2, 3, 4], buf, Inr 4)" "take 4 buf = [1, 2, 3, 4]"
    by blast
  have sz: "be_size mem_source [1, 2, 3, 4] = 4" by (simp add: mem_source_def)
  have c: "4 \<noteq> CHUNK_SIZE" "u64_add 0 4 = 4" by (simp_all add: CHUNK_SIZE_def u64_add_def)
  have add: "add_data demo_dedup_env 900 ?cs [1, 2, 3, 4] (empty_dedup\<lparr>dd_b := [1, 2, 3, 4]\<rparr>) = Some (empty_dedup\<lparr>dd_b := [1, 2, 3, 4], dd_chunks := q'\<rparr>, Inr ())"
    by (simp add: add_data_def q')
  have put: "\<exists>D'. put_info demo_dedup_env r ?cs D = (D', Inr ())" for r D
    by (simp add: put_info_def add_local_dedup_info_def mem_index_def mem_db_def)
  have "\<exists>D'. dedup_store demo_dedup_env 900 4 0 CHUNK_SIZE Blake3 empty_dedup = Some (D', Inr ())"
    using f add put by (simp add: dedup_store_def c Let_def)
  moreover have "dedup_check_range mem_index demo_id (DedupRange_new_with_id demo_id 0 CHUNK_SIZE) [] = Inr False"
    by (simp add: dedup_check_range_def dedup_range_def DedupRange_size_def u64_add_def u64_sub_def CHUNK_SIZE_def as_u32_def
        mem_index_def mem_db_def mem_list_def)
  moreover have "dedup_guard 4 0 CHUNK_SIZE = Inr ()" by (simp add: dedup_guard_def checked_add_u64_def CHUNK_SIZE_def)
  moreover have "CHUNK_SIZE \<noteq> 0" by simp
  ultimately show ?thesis unfolding dedup_def Let_def demo_dedup_env_sel empty_dedup_sel sz by simp
qed


subsection \<open>A new reader\<close>

text \<open>
  A new reader of a source satisfies the invariant when the chunks in the database are faithful
  and the records under the digest of the data identifier are right; its bitmap has a bit for every
  chunk of the image, and nothing is queued.
\<close>

theorem new_reader_ok:
  assumes b: "backend_ex (d_backend E) I img" "I b"
    and env: "chunk_env_ok (d_store E) V" "index_env_ok (d_index E) W" "client_ok E V img"
    and st: "chunks_ok (faithful (d_digests E) img) V q"
      "\<forall>k v. W s k = Some v \<longrightarrow> dr_id k = blake3_digest (d_digests E) data_id \<longrightarrow> record_ok (d_digests E) img v"
    and run: "DedupReader_new E data_id q s b = Inr (E', D)"
  shows "dedup_ok E' V W I img D \<and> d_id E' = blake3_digest (d_digests E) data_id \<and> dd_reqs D = [] \<and> dd_sync D = []"
proof -
  have b': "backend (d_backend E) I img" by (rule backend_ex.axioms(1) [OF b(1)])
  note sz = backend.size_image [OF b' b(2)] backend.image_range [OF b' b(2)]
  obtain a nr where a: "align_up usize_max (length img) CHUNK_SIZE = Some a" and nr: "align_up usize_max (a div CHUNK_SIZE) 64 = Some nr"
    and E': "E' = E\<lparr>d_id := blake3_digest (d_digests E) data_id\<rparr>"
    and D: "D = \<lparr>dd_chunks = q, dd_index = s, dd_b = b, dd_bits = replicate (nr div 64) 0, dd_sync = [], dd_reqs = []\<rparr>"
    using run sz by (auto simp: DedupReader_new_def split: option.splits)
  have "a = (length img + (CHUNK_SIZE - 1)) div CHUNK_SIZE * CHUNK_SIZE" "length img \<le> a"
    using align_up_value [OF a] ceil_div_bounds(1) [OF CHUNK_SIZE_pos, of "length img"] by simp_all
  then have le: "length img \<le> a div CHUNK_SIZE * CHUNK_SIZE" by simp
  have "nr = (a div CHUNK_SIZE + 63) div 64 * 64" using align_up_value [OF nr] by simp
  then have "a div CHUNK_SIZE \<le> 64 * (nr div 64)" using ceil_div_bounds(1) [of 64 "a div CHUNK_SIZE"] by simp
  then have "a div CHUNK_SIZE * CHUNK_SIZE \<le> 64 * (nr div 64) * CHUNK_SIZE" by (rule mult_le_mono1)
  with le have bits: "length img \<le> 64 * (nr div 64) * CHUNK_SIZE" by linarith
  have "core_ok E' V W img D"
    using env st sz bits by (simp add: core_ok_def E' D client_ok_def)
  then show ?thesis using b by (simp add: dedup_ok_def E' D)
qed

theorem new_reader_ok_witness:
  "\<exists>E D. DedupReader_new demo_dedup_env [1] (chunkdb_new \<lparr>m_data = [], m_access = [], m_index = []\<rparr> False) [] [1, 2, 3, 4] = Inr (E, D) \<and>
    dedup_ok E mem_views map_of (\<lambda>b. b = [1, 2, 3, 4]) [1, 2, 3, 4] D"
proof -
  let ?q = "chunkdb_new \<lparr>m_data = [], m_access = [], m_index = []\<rparr> False"
  obtain E D where run: "DedupReader_new demo_dedup_env [1] ?q [] [1, 2, 3, 4] = Inr (E, D)"
    by (simp add: DedupReader_new_def mem_source_def align_up_def usize_max_def CHUNK_SIZE_def)
  have "chunks_ok (faithful plain_digests [1, 2, 3, 4]) mem_views ?q"
    by (simp add: chunks_ok_def stored_ok_def mem_views_def chunkdb_new_def)
  then have "dedup_ok E mem_views map_of (\<lambda>b. b = [1, 2, 3, 4]) [1, 2, 3, 4] D"
    using new_reader_ok [of demo_dedup_env "\<lambda>b. b = [1, 2, 3, 4]" "[1, 2, 3, 4]" "[1, 2, 3, 4]" mem_views map_of ?q "[]" "[1]" E D] run
    by (simp add: mem_source_backend_ex mem_chunk_env_ok mem_index_ok client_ok_def)
  with run show ?thesis by blast
qed

end
