(* ===== verification/RawImageProps.thy ===== *)
theory RawImageProps
  imports RawImage DedupProps
begin

text \<open>
  The raw image as a file system: reads return the bytes of the image, over either source; the
  directory lists every entry once from any offset, and what it lists can be looked up.
\<close>

definition raw_ok ::
  "('s, 'i, 'b, 'w) raw_env \<Rightarrow> 's views \<Rightarrow> ('i \<Rightarrow> DedupRange \<rightharpoonup> DedupInfo) \<Rightarrow> ('b \<Rightarrow> bool) \<Rightarrow> bytes \<Rightarrow> ('w \<Rightarrow> bytes) \<Rightarrow>
   ('b, ('s, 'i, 'b) dedup_state) RawImage \<Rightarrow> bool" where
  "raw_ok E V W I img out R \<longleftrightarrow> raw_size R = length img \<and> length img < 2 ^ 63 \<and>
     stream_ok (rw_stream E) I img out \<and> writer_ok (rw_fuse E) out \<and>
     (case raw_b R of RawPlain b \<Rightarrow> I b | RawDedup D \<Rightarrow> dedup_ok (rw_dedup E) V W I img D)"

lemma raw_okD:
  assumes "raw_ok E V W I img out R"
  shows "raw_size R = length img" "length img < 2 ^ 63" "stream_ok (rw_stream E) I img out" "writer_ok (rw_fuse E) out"
    "raw_b R = RawPlain b \<Longrightarrow> I b" "raw_b R = RawDedup D \<Longrightarrow> dedup_ok (rw_dedup E) V W I img D"
  using assms by (simp_all add: raw_ok_def)

lemma range_add: "a < 2 ^ 63 \<Longrightarrow> b < 2 ^ 32 \<Longrightarrow> a + b < (2 :: nat) ^ 64"
  by simp

lemma RawDedup_write_inside:
  assumes "dedup_ok E V W I img D" "off < length img" "n < 2 ^ 32"
  shows "RawDedup_write (E'\<lparr>rw_dedup := E\<rparr>) D off n w =
    (if n = 0 then (D, w, Inr 0)
     else DedupReader_write E (rw_stream E') (rw_fuse E') D off (min n (length img - off)) w)"
proof -
  have sz: "be_size (DedupReader_ops E) D = length img" by (rule dedup_source.size_image [OF assms(1)])
  have lt: "length img < 2 ^ 63" by (rule dedup_source.image_range [OF assms(1)])
  have "off + n < 2 ^ 64" by (rule range_add [OF less_trans [OF assms(2) lt] assms(3)])
  then have "u64_add off n = off + n" by (rule u64_add_exact)
  then have v: "validate_range (length img) off n = Inr (off, min n (length img - off))"
    using assms(2) by (auto simp: validate_range_def min_def)
  have "min n (length img - off) < 2 ^ 32" using assms(3) by simp
  then have m: "as_u32 (min n (length img - off)) = min n (length img - off)" by (rule as_u32_exact)
  have z: "min n (length img - off) = 0 \<longleftrightarrow> n = 0" using assms(2) by auto
  show ?thesis unfolding RawDedup_write_def by (simp add: sz v m z)
qed

lemma raw_write_ok:
  assumes ok: "raw_ok E V W I img out R" and off: "off < length img" and n: "n < 2 ^ 32"
    and run: "raw_write E R off n w = (R', w', r)"
  shows "raw_ok E V W I img out R' \<and>
    (isl r \<or> r = Inr (min n (length img - off)) \<and> out w' = out w @ slice img off (off + min n (length img - off)))"
proof (cases "raw_b R")
  case (RawPlain b)
  obtain b' where s: "rw_stream E b off n w = (b', w', r)" and R': "R' = R\<lparr>raw_b := RawPlain b'\<rparr>"
    using run RawPlain by (auto simp: raw_write_def split: prod.splits)
  from stream_okD [OF raw_okD(3) [OF ok] raw_okD(5) [OF ok RawPlain] off n s] show ?thesis
    using ok by (auto simp: raw_ok_def R')
next
  case (RawDedup D)
  let ?m = "min n (length img - off)"
  have D: "dedup_ok (rw_dedup E) V W I img D" by (rule raw_okD(6) [OF ok RawDedup])
  obtain D' where s: "RawDedup_write E D off n w = (D', w', r)" and R': "R' = R\<lparr>raw_b := RawDedup D'\<rparr>"
    using run RawDedup by (auto simp: raw_write_def split: prod.splits)
  have eq: "RawDedup_write E D off n w = (if n = 0 then (D, w, Inr 0) else DedupReader_write (rw_dedup E) (rw_stream E) (rw_fuse E) D off ?m w)"
    using RawDedup_write_inside [OF D off n, of E w] by simp
  have "dedup_ok (rw_dedup E) V W I img D' \<and> (isl r \<or> r = Inr ?m \<and> out w' = out w @ slice img off (off + ?m))"
  proof (cases "n = 0")
    case True
    then show ?thesis using D s eq by (auto simp: slice_def)
  next
    case False
    then have "DedupReader_write (rw_dedup E) (rw_stream E) (rw_fuse E) D off ?m w = (D', w', r)" using eq s by simp
    moreover have "?m < 2 ^ 32" using n by simp
    ultimately show ?thesis
      using stream_okD [OF dedup_stream_ok [OF raw_okD(3) [OF ok] raw_okD(4) [OF ok]] D off] by fastforce
  qed
  then show ?thesis using ok by (simp add: raw_ok_def R')
qed

lemma raw_read_ok:
  assumes ok: "raw_ok E V W I img out R" and sz: "sz < 2 ^ 32"
    and run: "raw_read E R IMAGE_FILE_ID sz off w = (R', w', r)"
  shows "raw_ok E V W I img out R' \<and>
    (isl r \<or> r = Inr (min sz (length img - off)) \<and> out w' = out w @ slice img off (off + min sz (length img - off)))"
proof (cases "sz = 0 \<or> length img \<le> off")
  case True
  then have "R' = R" "w' = w" "r = Inr 0" using run by (auto simp: raw_read_def raw_okD(1) [OF ok] split: if_splits)
  then show ?thesis using ok True by (auto simp: slice_def)
next
  case False
  then have off: "off < length img" "sz \<noteq> 0" by auto
  have "off + sz < 2 ^ 64" by (rule range_add [OF less_trans [OF off(1) raw_okD(2) [OF ok]] sz])
  then have add: "u64_add off sz = off + sz" by (rule u64_add_exact)
  define n where "n = min sz (length img - off)"
  have n: "n < 2 ^ 32" using sz by (simp add: n_def)
  have "(if u64_add off sz > raw_size R then as_u32 (raw_size R - off) else sz) = n"
  proof (cases "off + sz > length img")
    case True
    then have "length img - off < 2 ^ 32" using sz by linarith
    from as_u32_exact [OF this] True show ?thesis by (simp add: add raw_okD(1) [OF ok] n_def)
  next
    case False
    then show ?thesis by (simp add: add raw_okD(1) [OF ok] n_def)
  qed
  then have "raw_write E R off n w = (R', w', r)"
    using run off by (simp add: raw_read_def raw_okD(1) [OF ok])
  from raw_write_ok [OF ok off(1) n this] show ?thesis by (simp add: n_def)
qed

text \<open>
  A read of the image file that succeeds returns the number of bytes between the offset and the
  end of the request or of the image, whichever comes first, and hands exactly those bytes of the
  image to the FUSE writer, with or without deduplication; a read at or past the end returns
  nothing; the file system still serves the image afterwards.
\<close>

theorem raw_read_returns_image:
  assumes ok: "raw_ok E V W I img out R" and sz: "sz < 2 ^ 32"
    and run: "raw_read E R IMAGE_FILE_ID sz off w = (R', w', r)"
  shows "raw_ok E V W I img out R' \<and>
    (isl r \<or> r = Inr (min sz (length img - off)) \<and> out w' = out w @ slice img off (off + min sz (length img - off)))"
  by (rule raw_read_ok [OF assms])

text \<open>An image with deduplication, of which two bytes are recorded.\<close>

definition demo_raw_env :: "(mem_chunks, (DedupRange \<times> DedupInfo) list, bytes, bytes) raw_env" where
  "demo_raw_env =
     \<lparr>rw_dedup = demo_dedup_env, rw_stream = default_write_to_fuse_writer mem_source mem_writer, rw_fuse = mem_writer\<rparr>"

definition demo_raw :: "(bytes, (mem_chunks, (DedupRange \<times> DedupInfo) list, bytes) dedup_state) RawImage" where
  "demo_raw = \<lparr>raw_name = [105], raw_size = 4, create_tm = 0, raw_b = RawDedup demo_dedup\<rparr>"

theorem raw_read_returns_image_witness:
  "\<exists>R'. raw_read demo_raw_env demo_raw IMAGE_FILE_ID 9 0 [9] = (R', [9, 1, 2, 3, 4], Inr 4) \<and>
    raw_ok demo_raw_env mem_views map_of (\<lambda>b. b = [1, 2, 3, 4]) [1, 2, 3, 4] id R'"
proof -
  have ok: "raw_ok demo_raw_env mem_views map_of (\<lambda>b. b = [1, 2, 3, 4]) [1, 2, 3, 4] id demo_raw"
    using mem_stream_ok [of "[1, 2, 3, 4]"] by (simp add: raw_ok_def demo_raw_env_def demo_raw_def mem_writer_ok demo_dedup_ok)
  obtain D' where D': "DedupReader_write demo_dedup_env (default_write_to_fuse_writer mem_source mem_writer) mem_writer demo_dedup 0 4 [9] =
     (D', [9, 1, 2, 3, 4], Inr 4)" using demo_write by blast
  have img: "be_size (DedupReader_ops demo_dedup_env) demo_dedup = 4"
    using dedup_source.size_image [OF demo_dedup_ok] by simp
  obtain R' where run: "raw_read demo_raw_env demo_raw IMAGE_FILE_ID 9 0 [9] = (R', [9, 1, 2, 3, 4], Inr 4)"
    using D' by (simp add: raw_read_def raw_write_def RawDedup_write_def demo_raw_def demo_raw_env_def u64_add_def as_u32_def
        validate_range_def img)
  with raw_read_returns_image [OF ok _ run] show ?thesis by simp
qed

text \<open>A directory listing can be taken up from the offset of any entry, and the entries can be looked up.\<close>

lemma raw_entries_offsets: "off < 3 \<Longrightarrow> map de_offset (raw_entries R off) = [Suc off ..< 4]"
  by (auto simp: raw_entries_def upt_rec numeral_eq_Suc less_Suc_eq)

lemma raw_entries_lookup:
  assumes "d \<in> set (raw_entries R off)" "raw_name R \<noteq> [46]" "raw_name R \<noteq> [46, 46]" "raw_size R < 2 ^ 63"
  shows "\<exists>a. raw_lookup R ROOT_ID (de_name d) = Inr (de_ino d, a) \<and> raw_getattr R (de_ino d) = Inr a"
proof -
  have "\<exists>n. align_up usize_max (raw_size R) 4096 = Some n"
    using assms(4) by (simp add: align_up_def usize_max_def Let_def)
  then show ?thesis
    using assms(1-3)
    by (auto simp: raw_entries_def raw_lookup_def raw_getattr_def get_inode_entry_def image_attr_def entry_or_def ROOT_ID_def
        IMAGE_FILE_ID_def split: if_splits)
qed

end
