(* ===== verification/PeerWire.thy ===== *)
theory PeerWire
  imports CheckSums Backend
begin

text \<open>
  \<open>src/backend/peer.rs\<close>: the wire protocol between peers and between a client and its local chunk
  server.  A connection that is read is the list of bytes that will arrive before it is closed; a
  connection that is written answers each write attempt with an event.  Requests and responses have
  fixed headers in network byte order; two request types are followed by a batch of checksums.
\<close>

definition REQUEST_LEN :: nat where "REQUEST_LEN = 50"
definition RESPONSE_HEADER_LEN :: nat where "RESPONSE_HEADER_LEN = 13"
definition STATUS_HIT :: byte where "STATUS_HIT = 0"
definition STATUS_MISS :: byte where "STATUS_MISS = 1"
definition STATUS_ERROR :: byte where "STATUS_ERROR = 2"
definition MAX_CHUNK_PAYLOAD_SIZE :: nat where "MAX_CHUNK_PAYLOAD_SIZE = CHUNK_SIZE"

subsection \<open>Requests\<close>

datatype MessageType =
    GetChunk | PrefetchChunk | RegisterChunk | UnregisterChunk | RegisterChunks | UnregisterChunks | HealthCheck

definition u8_of_message :: "MessageType \<Rightarrow> byte" where
  "u8_of_message m = (case m of GetChunk \<Rightarrow> 1 | PrefetchChunk \<Rightarrow> 2 | RegisterChunk \<Rightarrow> 3 | UnregisterChunk \<Rightarrow> 4
     | RegisterChunks \<Rightarrow> 5 | UnregisterChunks \<Rightarrow> 6 | HealthCheck \<Rightarrow> 7)"

definition message_of_u8 :: "byte \<Rightarrow> error + MessageType" where
  "message_of_u8 v =
     (if v = 1 then Inr GetChunk else if v = 2 then Inr PrefetchChunk else if v = 3 then Inr RegisterChunk
      else if v = 4 then Inr UnregisterChunk else if v = 5 then Inr RegisterChunks
      else if v = 6 then Inr UnregisterChunks else if v = 7 then Inr HealthCheck else Inl (Io InvalidData))"

record Request =
  request_id :: nat
  message_type :: MessageType
  checksum :: CheckSum
  offset :: nat
  req_length :: nat

definition Request_new :: "nat \<Rightarrow> MessageType \<Rightarrow> CheckSum \<Rightarrow> nat \<Rightarrow> nat \<Rightarrow> Request" where
  "Request_new i m cs off len =
     \<lparr>request_id = i, message_type = m, checksum = cs, offset = off, req_length = len\<rparr>"

definition whole_chunk :: "MessageType \<Rightarrow> CheckSum \<Rightarrow> Request" where
  "whole_chunk m cs = Request_new 0 m cs 0 0"

definition control_batch :: "MessageType \<Rightarrow> nat \<Rightarrow> Request" where
  "control_batch m count = Request_new 0 m CheckSum_empty 0 (as_u32 count)"

definition ensure_full_chunk :: "Request \<Rightarrow> error + unit" where
  "ensure_full_chunk r = (if offset r = 0 \<and> req_length r = 0 then Inr () else Inl (Io InvalidInput))"

definition ensure_control_batch :: "Request \<Rightarrow> error + nat" where
  "ensure_control_batch r = (if offset r \<noteq> 0 then Inl (Io InvalidInput) else Inr (req_length r))"

definition Request_encode :: "Request \<Rightarrow> bytes" where
  "Request_encode r =
     be_bytes 8 (request_id r) @ [u8_of_message (message_type r)] @ [u8_of_method (cs_method (checksum r))] @
     cs_raw (checksum r) @ be_bytes 4 (offset r) @ be_bytes 4 (req_length r)"

text \<open>The argument is an array of 50 bytes.\<close>

definition Request_decode :: "bytes \<Rightarrow> error + Request" where
  "Request_decode buf =
     (case message_of_u8 (buf ! 8) of
        Inl e \<Rightarrow> Inl e
      | Inr m \<Rightarrow>
          (case CheckSum_new (slice buf 10 42) (method_of_u8 (buf ! 9)) of
             Inl e \<Rightarrow> Inl e
           | Inr cs \<Rightarrow> Inr (Request_new (be_val (slice buf 0 8)) m cs (be_val (slice buf 42 46)) (be_val (slice buf 46 50)))))"

definition read_exact :: "nat \<Rightarrow> bytes \<Rightarrow> error + bytes \<times> bytes" where
  "read_exact n s = (if length s < n then Inl (Io UnexpectedEof) else Inr (take n s, drop n s))"

definition Request_read_from :: "bytes \<Rightarrow> error + Request \<times> bytes" where
  "Request_read_from s =
     (case read_exact REQUEST_LEN s of
        Inl e \<Rightarrow> Inl e
      | Inr (buf, s') \<Rightarrow> (case Request_decode buf of Inl e \<Rightarrow> Inl e | Inr r \<Rightarrow> Inr (r, s')))"

subsection \<open>Batches of checksums\<close>

definition batch_payload :: "CheckSum list \<Rightarrow> bytes" where
  "batch_payload css = concat (map (\<lambda>cs. u8_of_method (cs_method cs) # cs_raw cs) css)"

fun read_checksum_batch :: "nat \<Rightarrow> bytes \<Rightarrow> error + CheckSum list \<times> bytes" where
  "read_checksum_batch 0 s = Inr ([], s)"
| "read_checksum_batch (Suc n) s =
     (case read_exact 1 s of
        Inl e \<Rightarrow> Inl e
      | Inr (m, s1) \<Rightarrow>
          (case read_exact 32 s1 of
             Inl e \<Rightarrow> Inl e
           | Inr (raw, s2) \<Rightarrow>
               (case CheckSum_new raw (method_of_u8 (hd m)) of
                  Inl e \<Rightarrow> Inl e
                | Inr cs \<Rightarrow>
                    (case read_checksum_batch n s2 of Inl e \<Rightarrow> Inl e | Inr (css, s3) \<Rightarrow> Inr (cs # css, s3)))))"

text \<open>
  The reading side of \<open>RequestHandler::handle\<close>: every request up to the end of the connection, and
  how the loop ends.  A connection that ends inside a request header ends the loop like one that
  ends between requests.  The idle timeout, which also ends it, is not modelled.
\<close>

definition read_inbound :: "bytes \<Rightarrow> error + (Request \<times> CheckSum list option) \<times> bytes" where
  "read_inbound s =
     (case Request_read_from s of
        Inl e \<Rightarrow> Inl e
      | Inr (r, s1) \<Rightarrow>
          (if message_type r \<in> {RegisterChunks, UnregisterChunks} then
             (case ensure_control_batch r of
                Inl e \<Rightarrow> Inl e
              | Inr count \<Rightarrow>
                  (case read_checksum_batch count s1 of Inl e \<Rightarrow> Inl e | Inr (css, s2) \<Rightarrow> Inr ((r, Some css), s2)))
           else Inr ((r, None), s1)))"

lemma read_batch_shorter: "read_checksum_batch n s = Inr (css, s') \<Longrightarrow> length s' \<le> length s"
  by (induction n arbitrary: s css)
    (fastforce simp: read_exact_def split: sum.splits if_splits prod.splits)+

lemma read_inbound_shorter: "read_inbound s = Inr (x, s') \<Longrightarrow> length s' < length s"
  by (auto simp: read_inbound_def Request_read_from_def read_exact_def REQUEST_LEN_def
      split: sum.splits if_splits prod.splits dest!: read_batch_shorter)

function read_requests :: "bytes \<Rightarrow> (Request \<times> CheckSum list option) list \<times> (error + unit)" where
  "read_requests s =
     (case Request_read_from s of
        Inl e \<Rightarrow> ([], if e = Io UnexpectedEof then Inr () else Inl e)
      | Inr _ \<Rightarrow>
          (case read_inbound s of
             Inl e \<Rightarrow> ([], Inl e)
           | Inr (x, s') \<Rightarrow> (case read_requests s' of (xs, r) \<Rightarrow> (x # xs, r))))"
  by pat_completeness auto
termination
  by (relation "measure length") (auto dest: read_inbound_shorter)

declare read_requests.simps [simp del]

subsection \<open>Responses\<close>

record WireResponse =
  resp_id :: nat
  resp_status :: byte
  resp_payload :: bytes

definition encode_response_header :: "nat \<Rightarrow> byte \<Rightarrow> nat \<Rightarrow> bytes" where
  "encode_response_header i st payload_len = be_bytes 8 i @ [st] @ be_bytes 4 (as_u32 payload_len)"

definition WireResponse_read_from :: "bytes \<Rightarrow> error + WireResponse \<times> bytes" where
  "WireResponse_read_from s =
     (case read_exact RESPONSE_HEADER_LEN s of
        Inl e \<Rightarrow> Inl e
      | Inr (header, s1) \<Rightarrow>
          (let payload_len = be_val (slice header 9 13) in
           if payload_len > MAX_CHUNK_PAYLOAD_SIZE then Inl (Io InvalidData)
           else case read_exact payload_len s1 of
             Inl e \<Rightarrow> Inl e
           | Inr (payload, s2) \<Rightarrow>
               Inr (\<lparr>resp_id = be_val (slice header 0 8), resp_status = header ! 8, resp_payload = payload\<rparr>, s2)))"

definition WireResponse_write_to :: "WireResponse \<Rightarrow> bytes" where
  "WireResponse_write_to r = encode_response_header (resp_id r) (resp_status r) (length (resp_payload r)) @ resp_payload r"

record VectoredWriteCursor =
  vc_header :: bytes
  vc_payload :: bytes
  vc_written :: nat

definition cursor_new :: "bytes \<Rightarrow> bytes \<Rightarrow> VectoredWriteCursor" where
  "cursor_new h p = \<lparr>vc_header = h, vc_payload = p, vc_written = 0\<rparr>"

definition cursor_is_empty :: "VectoredWriteCursor \<Rightarrow> bool" where
  "cursor_is_empty c \<longleftrightarrow> vc_written c \<ge> length (vc_header c) + length (vc_payload c)"

definition fill_io_slices :: "VectoredWriteCursor \<Rightarrow> bytes list" where
  "fill_io_slices c =
     (if vc_written c < length (vc_header c) then [drop (vc_written c) (vc_header c), vc_payload c]
      else
        (let payload_offset = vc_written c - length (vc_header c) in
         if payload_offset < length (vc_payload c) then [drop payload_offset (vc_payload c)] else []))"

definition cursor_advance :: "nat \<Rightarrow> VectoredWriteCursor \<Rightarrow> VectoredWriteCursor" where
  "cursor_advance n c = c\<lparr>vc_written := min (vc_written c + n) (length (vc_header c) + length (vc_payload c))\<rparr>"

text \<open>
  One turn of the write loop meets one event: waiting for the socket fails, the socket takes the
  first bytes of the slices, or the attempt fails.  The final flush of a socket does nothing.
\<close>

datatype write_event = NotWritable ErrorKind | Written nat | WriteFailed ErrorKind

fun write_loop :: "VectoredWriteCursor \<Rightarrow> write_event list \<Rightarrow> bytes \<Rightarrow> (bytes \<times> (error + unit)) option" where
  "write_loop c [] out = (if cursor_is_empty c then Some (out, Inr ()) else None)"
| "write_loop c (ev # evs) out =
     (if cursor_is_empty c then Some (out, Inr ())
      else case ev of
        NotWritable k \<Rightarrow> Some (out, Inl (Io k))
      | Written n \<Rightarrow>
          (if n = 0 then Some (out, Inl (Io WriteZero))
           else write_loop (cursor_advance n c) evs (out @ take n (concat (fill_io_slices c))))
      | WriteFailed k \<Rightarrow> (if k = WouldBlock then write_loop c evs out else Some (out, Inl (Io k))))"

definition write_response_parts ::
  "nat \<Rightarrow> byte \<Rightarrow> bytes \<Rightarrow> write_event list \<Rightarrow> (bytes \<times> (error + unit)) option" where
  "write_response_parts i st payload evs =
     write_loop (cursor_new (encode_response_header i st (length payload)) payload) evs []"

definition write_response :: "WireResponse \<Rightarrow> write_event list \<Rightarrow> (bytes \<times> (error + unit)) option" where
  "write_response r evs = write_response_parts (resp_id r) (resp_status r) (resp_payload r) evs"

definition write_get_chunk_hit :: "nat \<Rightarrow> bytes \<Rightarrow> write_event list \<Rightarrow> (bytes \<times> (error + unit)) option" where
  "write_get_chunk_hit i payload evs = write_response_parts i STATUS_HIT payload evs"

end
