(* ===== verification/PeerSession.thy ===== *)
theory PeerSession
  imports PeerWire
begin

text \<open>
  \<open>src/backend/peer.rs\<close>: the client's side of a connection.  A pool holds the sessions to one server;
  a session carries several requests at once and matches responses by their number; a circuit
  breaker keeps a client from waiting for a local server that is known to be down.

  The awaits of the code are the places where tasks interleave: what a task does between two of them
  is one function or one step.  Times are in the unit of the code's clock.
\<close>

definition SESSION_MAX_INFLIGHT :: nat where "SESSION_MAX_INFLIGHT = 32"

subsection \<open>The pool\<close>

record PoolConfig =
  min_idle :: nat
  max_size :: nat
  idle_ttl :: nat

definition default_pool_config :: PoolConfig where
  "default_pool_config = \<lparr>min_idle = 1, max_size = 8, idle_ttl = 30 * 1000000\<rparr>"

text \<open>What the pool sees of a session; \<open>ps_name\<close> tells sessions apart.\<close>

record PoolSession =
  ps_name :: nat
  ps_closed :: bool
  ps_inflight :: nat
  ps_last_used :: nat

definition session_expired :: "PoolConfig \<Rightarrow> nat \<Rightarrow> PoolSession \<Rightarrow> bool" where
  "session_expired cfg now s \<longleftrightarrow> \<not> ps_closed s \<and> ps_inflight s = 0 \<and> now - ps_last_used s > idle_ttl cfg"

fun prune_loop :: "PoolConfig \<Rightarrow> nat \<Rightarrow> nat \<Rightarrow> PoolSession list \<Rightarrow> PoolSession list" where
  "prune_loop cfg now survivors [] = []"
| "prune_loop cfg now survivors (s # ss) =
     (if ps_closed s \<or> session_expired cfg now s \<and> survivors \<ge> min_idle cfg then prune_loop cfg now survivors ss
      else s # prune_loop cfg now (Suc survivors) ss)"

definition prune_idle_locked :: "PoolConfig \<Rightarrow> nat \<Rightarrow> PoolSession list \<Rightarrow> PoolSession list" where
  "prune_idle_locked cfg now ss = prune_loop cfg now 0 ss"

text \<open>\<open>min_by_key\<close> returns the first of the sessions with the least key.\<close>

fun least_busy :: "PoolSession list \<Rightarrow> PoolSession option" where
  "least_busy [] = None"
| "least_busy (s # ss) =
     (case least_busy ss of
        None \<Rightarrow> Some s
      | Some t \<Rightarrow> Some (if ps_inflight s \<le> ps_inflight t then s else t))"

definition touch_session :: "nat \<Rightarrow> nat \<Rightarrow> PoolSession list \<Rightarrow> PoolSession list" where
  "touch_session name now ss = map (\<lambda>s. if ps_name s = name then s\<lparr>ps_last_used := now\<rparr> else s) ss"

text \<open>
  One turn of the loop of \<open>acquire\<close> with the lock held: a session is handed out, or the caller goes
  on to connect, or it waits for a notification.
\<close>

datatype acquire_turn = Reuse PoolSession | Connect | AwaitNotify

definition acquire_turn :: "PoolConfig \<Rightarrow> nat \<Rightarrow> PoolSession list \<Rightarrow> PoolSession list \<times> acquire_turn" where
  "acquire_turn cfg now ss =
     (let ss = prune_idle_locked cfg now ss;
          next_turn = (if length ss < max_size cfg then Connect else AwaitNotify)
      in case least_busy (filter (\<lambda>s. \<not> ps_closed s) ss) of
           None \<Rightarrow> (ss, next_turn)
         | Some s \<Rightarrow>
             (if length ss < max_size cfg \<and> ps_inflight s \<ge> SESSION_MAX_INFLIGHT then (ss, next_turn)
              else (touch_session (ps_name s) now ss, Reuse s)))"

text \<open>After connecting, with the lock held again; a failed connect leaves the pool as it is.\<close>

definition acquire_connected :: "error + PoolSession \<Rightarrow> PoolSession list \<Rightarrow> PoolSession list \<times> (error + PoolSession)" where
  "acquire_connected r ss = (case r of Inl e \<Rightarrow> (ss, Inl e) | Inr s \<Rightarrow> (ss @ [s], Inr s))"

text \<open>
  Several callers: \<open>connecting\<close> counts the callers between their turn and the end of their connect.
\<close>

inductive pool_step :: "PoolConfig \<Rightarrow> PoolSession list \<times> nat \<Rightarrow> PoolSession list \<times> nat \<Rightarrow> bool" for cfg where
  pool_turn: "acquire_turn cfg now ss = (ss', t) \<Longrightarrow>
     pool_step cfg (ss, n) (ss', if t = Connect then Suc n else n)"
| pool_connected: "acquire_connected r ss = (ss', x) \<Longrightarrow> pool_step cfg (ss, Suc n) (ss', n)"
| pool_prune: "pool_step cfg (ss, n) (prune_idle_locked cfg now ss, n)"
| pool_busy: "map ps_name ss' = map ps_name ss \<Longrightarrow> pool_step cfg (ss, n) (ss', n)"

subsection \<open>A session\<close>

text \<open>
  \<open>calls\<close> are the requests under way: being written, or waiting for the response.  \<open>delivered\<close> is what
  the reader or \<open>close\<close> put into the reply channels, \<open>results\<close> what the callers returned.  \<open>checked\<close>
  counts the callers that have found the session open and not yet registered.
\<close>

datatype call_phase = Writing | Waiting

record session =
  pending :: "nat set"
  next_request_id :: nat
  closed :: bool
  inflight :: nat
  reading :: bool
  checked :: nat
  calls :: "nat \<rightharpoonup> call_phase"
  delivered :: "nat \<rightharpoonup> error + WireResponse"
  results :: "nat \<rightharpoonup> error + WireResponse"

definition session_new :: session where
  "session_new = \<lparr>pending = {}, next_request_id = 1, closed = False, inflight = 0, reading = True, checked = 0,
     calls = Map.empty, delivered = Map.empty, results = Map.empty\<rparr>"

definition session_close :: "error \<Rightarrow> session \<Rightarrow> session" where
  "session_close e s =
     (if closed s then s
      else s\<lparr>closed := True, pending := {},
             delivered := (\<lambda>i. if i \<in> pending s then Some (Inl e) else delivered s i)\<rparr>)"

definition session_receive :: "error + WireResponse \<Rightarrow> session \<Rightarrow> session" where
  "session_receive r s =
     (case r of
        Inl e \<Rightarrow> session_close e (s\<lparr>reading := False\<rparr>)
      | Inr resp \<Rightarrow>
          (if resp_id resp \<in> pending s then
             s\<lparr>pending := pending s - {resp_id resp}, delivered := (delivered s)(resp_id resp \<mapsto> Inr resp)\<rparr>
           else session_close (Io InvalidData) (s\<lparr>reading := False\<rparr>)))"

definition call_start :: "session \<Rightarrow> session" where
  "call_start s =
     (let i = next_request_id s in
      s\<lparr>checked := checked s - 1, next_request_id := Suc i, pending := insert i (pending s), inflight := Suc (inflight s),
        calls := (calls s)(i \<mapsto> Writing)\<rparr>)"

text \<open>The ends of a call: a failed or late write, the value of its channel, or no value in time.\<close>

definition call_write_failed :: "nat \<Rightarrow> error \<Rightarrow> session \<Rightarrow> session" where
  "call_write_failed i e s =
     session_close e (s\<lparr>pending := pending s - {i}, inflight := inflight s - 1, calls := (calls s)(i := None),
       results := (results s)(i \<mapsto> Inl e)\<rparr>)"

definition call_return :: "nat \<Rightarrow> error + WireResponse \<Rightarrow> session \<Rightarrow> session" where
  "call_return i r s =
     s\<lparr>inflight := inflight s - 1, calls := (calls s)(i := None), results := (results s)(i \<mapsto> r)\<rparr>"

definition call_timeout :: "nat \<Rightarrow> session \<Rightarrow> session" where
  "call_timeout i s =
     session_close (Io TimedOut) (s\<lparr>inflight := inflight s - 1, pending := pending s - {i}, calls := (calls s)(i := None),
       results := (results s)(i \<mapsto> Inl (Io TimedOut))\<rparr>)"

inductive session_step :: "session \<Rightarrow> session \<Rightarrow> bool" where
  s_check: "\<not> closed s \<Longrightarrow> session_step s (s\<lparr>checked := Suc (checked s)\<rparr>)"
| s_start: "0 < checked s \<Longrightarrow> session_step s (call_start s)"
| s_written: "calls s i = Some Writing \<Longrightarrow> session_step s (s\<lparr>calls := (calls s)(i \<mapsto> Waiting)\<rparr>)"
| s_write_failed: "calls s i = Some Writing \<Longrightarrow> session_step s (call_write_failed i e s)"
| s_receive: "reading s \<Longrightarrow> session_step s (session_receive r s)"
| s_return: "calls s i = Some Waiting \<Longrightarrow> delivered s i = Some r \<Longrightarrow> session_step s (call_return i r s)"
| s_timeout: "calls s i = Some Waiting \<Longrightarrow> session_step s (call_timeout i s)"

subsection \<open>The circuit breaker and the local client\<close>

definition CIRCUIT_BREAKER_COOLDOWN :: nat where "CIRCUIT_BREAKER_COOLDOWN = 30 * 1000"

record CircuitBreaker =
  cb_open :: bool
  last_failure_ms :: nat
  cooldown :: nat

definition breaker_new :: "nat \<Rightarrow> CircuitBreaker" where
  "breaker_new c = \<lparr>cb_open = False, last_failure_ms = 0, cooldown = c\<rparr>"

definition should_reject :: "nat \<Rightarrow> CircuitBreaker \<Rightarrow> bool" where
  "should_reject now b = (if \<not> cb_open b then False else now - last_failure_ms b < cooldown b)"

definition breaker_success :: "CircuitBreaker \<Rightarrow> CircuitBreaker" where
  "breaker_success b = b\<lparr>cb_open := False\<rparr>"

definition breaker_failure :: "nat \<Rightarrow> CircuitBreaker \<Rightarrow> CircuitBreaker" where
  "breaker_failure now b = b\<lparr>last_failure_ms := now, cb_open := True\<rparr>"

definition control_status :: "error + WireResponse \<Rightarrow> error + bool" where
  "control_status r =
     (case r of
        Inl e \<Rightarrow> Inl e
      | Inr resp \<Rightarrow>
          (if resp_status resp = STATUS_HIT then Inr True
           else if resp_status resp = STATUS_MISS then Inr False else Inl (Io Other)))"

text \<open>
  \<open>exchange\<close> is acquiring a session and sending a request and its payload over it, with the answer; the
  clock is read before and after.
\<close>

definition send_control :: "(Request \<Rightarrow> bytes \<Rightarrow> error + WireResponse) \<Rightarrow> MessageType \<Rightarrow> CheckSum \<Rightarrow> error + bool" where
  "send_control exchange m cs = control_status (exchange (whole_chunk m cs) [])"

definition send_control_batch :: "(Request \<Rightarrow> bytes \<Rightarrow> error + WireResponse) \<Rightarrow> MessageType \<Rightarrow> CheckSum list \<Rightarrow> error + bool" where
  "send_control_batch exchange m css =
     (if css = [] then Inr True
      else control_status (exchange (control_batch m (length css)) (batch_payload css)))"

definition after_control :: "nat \<Rightarrow> error + bool \<Rightarrow> CircuitBreaker \<Rightarrow> CircuitBreaker" where
  "after_control now r b = (case r of Inl _ \<Rightarrow> breaker_failure now b | Inr _ \<Rightarrow> breaker_success b)"

definition control_request ::
  "(Request \<Rightarrow> bytes \<Rightarrow> error + WireResponse) \<Rightarrow> nat \<Rightarrow> nat \<Rightarrow> MessageType \<Rightarrow> CheckSum \<Rightarrow> CircuitBreaker \<Rightarrow> CircuitBreaker \<times> bool" where
  "control_request exchange now now' m cs b =
     (if should_reject now b then (b, False)
      else (let r = send_control exchange m cs in (after_control now' r b, r = Inr True)))"

definition control_batch_request ::
  "(Request \<Rightarrow> bytes \<Rightarrow> error + WireResponse) \<Rightarrow> nat \<Rightarrow> nat \<Rightarrow> MessageType \<Rightarrow> CheckSum list \<Rightarrow> CircuitBreaker \<Rightarrow> CircuitBreaker \<times> bool" where
  "control_batch_request exchange now now' m css b =
     (if should_reject now b then (b, False)
      else (let r = send_control_batch exchange m css in (after_control now' r b, r = Inr True)))"

definition prefetch_chunk where
  "prefetch_chunk exchange now now' cs b = control_request exchange now now' PrefetchChunk cs b"

definition register_local_chunk where
  "register_local_chunk exchange now now' cs b = control_request exchange now now' RegisterChunk cs b"

definition register_local_chunks where
  "register_local_chunks exchange now now' css b = control_batch_request exchange now now' RegisterChunks css b"

definition unregister_local_chunk where
  "unregister_local_chunk exchange now now' cs b = control_request exchange now now' UnregisterChunk cs b"

definition unregister_local_chunks where
  "unregister_local_chunks exchange now now' css b = control_batch_request exchange now now' UnregisterChunks css b"

definition health_check where
  "health_check exchange now now' b = control_request exchange now now' HealthCheck CheckSum_empty b"

text \<open>One probe of the background health checker.\<close>

definition health_probe :: "bool \<Rightarrow> nat \<Rightarrow> CircuitBreaker \<Rightarrow> CircuitBreaker" where
  "health_probe connected now b = (if connected then breaker_success b else breaker_failure now b)"

end
