(* ===== verification/PeerSessionProps.thy ===== *)
theory PeerSessionProps
  imports PeerSession
begin

text \<open>
  Connections: which session the pool hands out and what pruning keeps; that several callers can
  take the pool past its limit; that responses reach the calls they answer and calls are counted
  right in every interleaving; and when the breaker lets a request through.
\<close>

subsection \<open>The pool\<close>

lemma prune_loop_open: "s \<in> set (prune_loop cfg now k ss) \<Longrightarrow> s \<in> set ss \<and> \<not> ps_closed s"
  by (induction ss arbitrary: k) (auto split: if_splits)

lemma prune_loop_alive:
  "s \<in> set ss \<Longrightarrow> \<not> ps_closed s \<Longrightarrow> \<not> session_expired cfg now s \<Longrightarrow> s \<in> set (prune_loop cfg now k ss)"
  by (induction ss arbitrary: k) auto

lemma prune_loop_min:
  "min (min_idle cfg) (k + length (filter (\<lambda>s. \<not> ps_closed s) ss)) \<le> k + length (prune_loop cfg now k ss)"
proof (induction ss arbitrary: k)
  case (Cons s ss)
  then show ?case using Cons.IH [of k] Cons.IH [of "Suc k"] by auto
qed simp

lemma least_busy_Some: "least_busy ss = Some s \<Longrightarrow> s \<in> set ss \<and> (\<forall>t \<in> set ss. ps_inflight s \<le> ps_inflight t)"
proof (induction ss arbitrary: s)
  case (Cons a ss)
  show ?case
  proof (cases "least_busy ss")
    case None
    then show ?thesis using Cons.prems by (cases ss) (auto split: option.splits)
  next
    case (Some t)
    from Cons.IH [OF this] Cons.prems Some show ?thesis by (fastforce split: if_splits)
  qed
qed simp

lemma least_busy_None [simp]: "least_busy ss = None \<longleftrightarrow> ss = []"
  by (cases ss) (auto split: option.splits)

text \<open>
  The turn first drops the closed sessions and the ones idle for too long, but keeps every busy
  or fresh session and at least the configured number of open ones; then it hands out an open
  session with the fewest requests, and goes on to connect only when the pool is below its limit
  and every session has 32 requests; with a positive limit it never waits.
\<close>

theorem acquire_turn_spec:
  assumes "acquire_turn cfg now ss = (ss', t)"
  shows "(\<forall>s \<in> set (prune_idle_locked cfg now ss). s \<in> set ss \<and> \<not> ps_closed s) \<and>
    (\<forall>s \<in> set ss. \<not> ps_closed s \<and> \<not> session_expired cfg now s \<longrightarrow> s \<in> set (prune_idle_locked cfg now ss)) \<and>
    min (min_idle cfg) (length (filter (\<lambda>s. \<not> ps_closed s) ss)) \<le> length (prune_idle_locked cfg now ss) \<and>
    (case t of
       Reuse s \<Rightarrow> s \<in> set (prune_idle_locked cfg now ss) \<and>
         (\<forall>u \<in> set (prune_idle_locked cfg now ss). ps_inflight s \<le> ps_inflight u) \<and>
         ss' = touch_session (ps_name s) now (prune_idle_locked cfg now ss)
     | Connect \<Rightarrow> ss' = prune_idle_locked cfg now ss \<and> length ss' < max_size cfg \<and>
         (\<forall>u \<in> set ss'. SESSION_MAX_INFLIGHT \<le> ps_inflight u)
     | AwaitNotify \<Rightarrow> max_size cfg = 0)"
proof -
  let ?p = "prune_idle_locked cfg now ss"
  have "filter (\<lambda>s. \<not> ps_closed s) ?p = ?p"
    using prune_loop_open by (fastforce simp: prune_idle_locked_def intro: filter_True)
  then have t: "(ss', t) = (let next_turn = (if length ?p < max_size cfg then Connect else AwaitNotify) in
      case least_busy ?p of
        None \<Rightarrow> (?p, next_turn)
      | Some s \<Rightarrow> (if length ?p < max_size cfg \<and> ps_inflight s \<ge> SESSION_MAX_INFLIGHT then (?p, next_turn)
          else (touch_session (ps_name s) now ?p, Reuse s)))"
    using assms by (simp add: acquire_turn_def Let_def)
  have "case t of
       Reuse s \<Rightarrow> s \<in> set ?p \<and> (\<forall>u \<in> set ?p. ps_inflight s \<le> ps_inflight u) \<and> ss' = touch_session (ps_name s) now ?p
     | Connect \<Rightarrow> ss' = ?p \<and> length ss' < max_size cfg \<and> (\<forall>u \<in> set ss'. SESSION_MAX_INFLIGHT \<le> ps_inflight u)
     | AwaitNotify \<Rightarrow> max_size cfg = 0"
  proof (cases "least_busy ?p")
    case None
    with t show ?thesis by (auto simp: Let_def)
  next
    case (Some s)
    with t least_busy_Some [OF Some] show ?thesis by (auto simp: Let_def split: if_splits)
  qed
  moreover have "\<forall>s \<in> set ?p. s \<in> set ss \<and> \<not> ps_closed s"
    unfolding prune_idle_locked_def using prune_loop_open by blast
  moreover have "\<forall>s \<in> set ss. \<not> ps_closed s \<and> \<not> session_expired cfg now s \<longrightarrow> s \<in> set ?p"
    unfolding prune_idle_locked_def using prune_loop_alive by blast
  moreover have "min (min_idle cfg) (length (filter (\<lambda>s. \<not> ps_closed s) ss)) \<le> length ?p"
    unfolding prune_idle_locked_def using prune_loop_min [of cfg 0 ss now] by simp
  ultimately show ?thesis by blast
qed

definition demo_pool :: "PoolSession list" where
  "demo_pool = [\<lparr>ps_name = 1, ps_closed = True, ps_inflight = 0, ps_last_used = 5\<rparr>,
     \<lparr>ps_name = 2, ps_closed = False, ps_inflight = 3, ps_last_used = 5\<rparr>,
     \<lparr>ps_name = 3, ps_closed = False, ps_inflight = 1, ps_last_used = 5\<rparr>]"

theorem acquire_turn_spec_witness:
  "\<exists>ss'. acquire_turn default_pool_config 9 demo_pool = (ss', Reuse \<lparr>ps_name = 3, ps_closed = False, ps_inflight = 1, ps_last_used = 5\<rparr>) \<and>
    ss' = touch_session 3 9 (prune_idle_locked default_pool_config 9 demo_pool)"
proof -
  obtain ss' where run: "acquire_turn default_pool_config 9 demo_pool = (ss', Reuse \<lparr>ps_name = 3, ps_closed = False, ps_inflight = 1, ps_last_used = 5\<rparr>)"
    by (simp add: acquire_turn_def prune_idle_locked_def demo_pool_def session_expired_def default_pool_config_def SESSION_MAX_INFLIGHT_def Let_def)
  with acquire_turn_spec [OF run] show ?thesis by simp
qed

text \<open>
  The limit of the pool does not bound it: callers that find the pool below the limit connect at
  the same time and each adds its session, so any number of sessions can be reached.
\<close>

theorem pool_limit_exceeded:
  assumes "0 < max_size cfg"
  shows "\<exists>ss. (pool_step cfg)\<^sup>*\<^sup>* ([], 0) (ss, 0) \<and> length ss = k \<and> (\<forall>s \<in> set ss. \<not> ps_closed s)"
proof -
  have turn: "acquire_turn cfg 0 [] = ([], Connect)"
    using assms by (simp add: acquire_turn_def prune_idle_locked_def)
  have step: "pool_step cfg ([], n) ([], Suc n)" for n
    using pool_turn [OF turn, of n] by simp
  have up: "(pool_step cfg)\<^sup>*\<^sup>* ([], 0) ([], k)" for k
  proof (induction k)
    case (Suc k)
    then show ?case using step [of k] by (rule rtranclp.rtrancl_into_rtrancl)
  qed simp
  let ?s = "\<lparr>ps_name = 0, ps_closed = False, ps_inflight = 0, ps_last_used = 0\<rparr>"
  have "(pool_step cfg)\<^sup>*\<^sup>* (ss, j) (ss @ replicate j ?s, 0)" for ss j
  proof (induction j arbitrary: ss)
    case (Suc j)
    have "pool_step cfg (ss, Suc j) (ss @ [?s], j)"
      by (rule pool_connected [of "Inr ?s"]) (simp add: acquire_connected_def)
    then show ?case using Suc [of "ss @ [?s]"] by (simp add: converse_rtranclp_into_rtranclp replicate_app_Cons_same)
  qed simp
  from rtranclp_trans [OF up [of k] this [of "[]" k]] show ?thesis by (intro exI [of _ "replicate k ?s"]) simp
qed

theorem pool_limit_exceeded_witness:
  "\<exists>ss. (pool_step default_pool_config)\<^sup>*\<^sup>* ([], 0) (ss, 0) \<and> length ss = 9 \<and> max_size default_pool_config = 8"
  using pool_limit_exceeded [of default_pool_config 9] by (auto simp: default_pool_config_def)

subsection \<open>A session\<close>

definition session_ok :: "session \<Rightarrow> bool" where
  "session_ok s \<longleftrightarrow> finite (dom (calls s)) \<and> inflight s = card (dom (calls s)) \<and> pending s \<subseteq> dom (calls s) \<and>
     (\<forall>i. i \<in> dom (calls s) \<or> i \<in> dom (delivered s) \<or> i \<in> dom (results s) \<longrightarrow> i < next_request_id s) \<and>
     dom (calls s) \<inter> dom (results s) = {} \<and> pending s \<inter> dom (delivered s) = {} \<and>
     (\<forall>i r. delivered s i = Some (Inr r) \<or> results s i = Some (Inr r) \<longrightarrow> resp_id r = i)"

lemma session_okD:
  assumes "session_ok s"
  shows "finite (dom (calls s))" "inflight s = card (dom (calls s))" "pending s \<subseteq> dom (calls s)"
    "i \<in> dom (calls s) \<or> i \<in> dom (delivered s) \<or> i \<in> dom (results s) \<Longrightarrow> i < next_request_id s"
    "dom (calls s) \<inter> dom (results s) = {}" "pending s \<inter> dom (delivered s) = {}"
    "delivered s i = Some (Inr r) \<or> results s i = Some (Inr r) \<Longrightarrow> resp_id r = i"
  using assms unfolding session_ok_def by - blast+

lemma close_ok: "session_ok s \<Longrightarrow> session_ok (session_close e s)"
  by (auto simp: session_ok_def session_close_def dom_def split: if_splits)

lemma end_call_ok:
  assumes ok: "session_ok s" and i: "calls s i = Some p" and r: "\<And>x. r = Inr x \<Longrightarrow> resp_id x = i"
    and pend: "pending s' = pending s - {i}" "next_request_id s' = next_request_id s" "inflight s' = inflight s - 1"
      "calls s' = (calls s)(i := None)" "results s' = (results s)(i \<mapsto> r)" "delivered s' = delivered s"
  shows "session_ok s'"
proof -
  note D = session_okD [OF ok]
  have "i \<in> dom (calls s)" using i by blast
  then have "inflight s' = card (dom (calls s'))" "i < next_request_id s"
    using D(1,2) D(4) [of i] by (simp_all add: pend)
  moreover have f: "dom (calls s') = dom (calls s) - {i}" "dom (results s') = insert i (dom (results s))"
    by (simp_all add: pend)
  moreover have "resp_id x = j" if "results s' j = Some (Inr x)" for j x
    using that r D(7) by (auto simp: pend split: if_splits)
  ultimately show ?thesis
    unfolding session_ok_def f pend(1,2,6) using D(1,3,4,5,6,7) by auto
qed

lemma session_step_ok:
  assumes "session_step s s'" "session_ok s"
  shows "session_ok s'"
  using assms(1)
proof cases
  case s_check
  then show ?thesis using assms(2) by (simp add: session_ok_def)
next
  case s_start
  note D = session_okD [OF assms(2)]
  have new: "next_request_id s \<notin> dom (calls s)" "next_request_id s \<notin> dom (delivered s)" "next_request_id s \<notin> dom (results s)"
    using D(4) [of "next_request_id s"] by auto
  then have "card (dom (calls s')) = Suc (card (dom (calls s)))"
    using s_start D(1) by (simp add: call_start_def Let_def)
  moreover have "\<forall>i. i \<in> dom (calls s) \<or> i \<in> dom (delivered s) \<or> i \<in> dom (results s) \<longrightarrow> i < Suc (next_request_id s)"
    using D(4) less_SucI by blast
  moreover have f: "pending s' = insert (next_request_id s) (pending s)" "dom (calls s') = insert (next_request_id s) (dom (calls s))"
    "next_request_id s' = Suc (next_request_id s)" "inflight s' = Suc (inflight s)" "delivered s' = delivered s" "results s' = results s"
    using s_start by (simp_all add: call_start_def Let_def)
  ultimately show ?thesis
    unfolding session_ok_def f using D(1,2,3,5,6,7) new f(2) by auto
next
  case (s_written i)
  then have "dom (calls s') = dom (calls s)" by auto
  then show ?thesis using s_written assms(2) by (simp add: session_ok_def)
next
  case (s_write_failed i e)
  then show ?thesis
    unfolding s_write_failed(1) call_write_failed_def
    by (intro close_ok end_call_ok [OF assms(2) s_write_failed(2), of "Inl e"]) simp_all
next
  case (s_receive r)
  show ?thesis
  proof (cases "\<exists>resp. r = Inr resp \<and> resp_id resp \<in> pending s")
    case True
    then obtain resp where resp: "r = Inr resp" "resp_id resp \<in> pending s" by blast
    have "resp_id resp < next_request_id s" using session_okD(3,4) [OF assms(2)] resp(2) by blast
    then show ?thesis
      using assms(2) resp unfolding s_receive(1) session_receive_def session_ok_def by (auto split: if_splits)
  next
    case False
    then have "\<exists>e. s' = session_close e (s\<lparr>reading := False\<rparr>)"
      unfolding s_receive(1) session_receive_def by (auto split: sum.splits)
    moreover have "session_ok (s\<lparr>reading := False\<rparr>)" using assms(2) by (simp add: session_ok_def)
    ultimately show ?thesis using close_ok by blast
  qed
next
  case (s_return i r)
  have "i \<notin> pending s" using session_okD(6) [OF assms(2)] s_return(3) by auto
  then show ?thesis
    unfolding s_return(1) call_return_def
    by (intro end_call_ok [OF assms(2) s_return(2), of r]) (use session_okD(7) [OF assms(2)] s_return(3) in simp_all)
next
  case (s_timeout i)
  then show ?thesis
    unfolding s_timeout(1) call_timeout_def
    by (intro close_ok end_call_ok [OF assms(2) s_timeout(2), of "Inl (Io TimedOut)"]) simp_all
qed

text \<open>
  C19: in every interleaving of calls, of the reader task and of closing, a call that returns a
  response returns the one with its own number, no call returns twice, and the count of requests
  under way is exact, so an idle session counts none.
\<close>

theorem session_matches_responses:
  assumes "session_step\<^sup>*\<^sup>* session_new s"
  shows "(\<forall>i r. results s i = Some (Inr r) \<longrightarrow> resp_id r = i) \<and> inflight s = card (dom (calls s)) \<and>
    dom (calls s) \<inter> dom (results s) = {} \<and> (\<forall>i. i \<in> dom (calls s) \<or> i \<in> dom (results s) \<longrightarrow> i < next_request_id s)"
proof -
  have "session_ok s"
    using assms
  proof (induction rule: rtranclp_induct)
    case base
    show ?case by (simp add: session_ok_def session_new_def)
  next
    case (step s s')
    then show ?case using session_step_ok by blast
  qed
  then show ?thesis unfolding session_ok_def by blast
qed

theorem session_matches_responses_witness:
  "\<exists>s. session_step\<^sup>*\<^sup>* session_new s \<and> results s 1 = Some (Inr \<lparr>resp_id = 1, resp_status = STATUS_MISS, resp_payload = []\<rparr>) \<and>
    inflight s = 0"
proof -
  let ?r = "\<lparr>resp_id = 1, resp_status = STATUS_MISS, resp_payload = []\<rparr>"
  define s1 where "s1 = call_start (session_new\<lparr>checked := Suc (checked session_new)\<rparr>)"
  define s2 where "s2 = s1\<lparr>calls := (calls s1)(1 \<mapsto> Waiting)\<rparr>"
  define s3 where "s3 = session_receive (Inr ?r) s2"
  define s4 where "s4 = call_return 1 (Inr ?r) s3"
  have "session_step session_new (session_new\<lparr>checked := Suc (checked session_new)\<rparr>)"
    by (rule s_check) (simp add: session_new_def)
  moreover have "session_step (session_new\<lparr>checked := Suc (checked session_new)\<rparr>) s1"
    unfolding s1_def by (rule s_start) simp
  moreover have "session_step s1 s2"
    unfolding s2_def by (rule s_written) (simp add: s1_def call_start_def session_new_def)
  moreover have "session_step s2 s3"
    unfolding s3_def by (rule s_receive) (simp add: s2_def s1_def call_start_def session_new_def)
  moreover have "session_step s3 s4"
    unfolding s4_def by (rule s_return) (simp_all add: s3_def session_receive_def s2_def s1_def call_start_def session_new_def)
  ultimately have run: "session_step\<^sup>*\<^sup>* session_new s4" by (meson rtranclp.rtrancl_into_rtrancl rtranclp.rtrancl_refl)
  have "results s4 1 = Some (Inr ?r)" "calls s4 = Map.empty"
    by (simp_all add: s4_def call_return_def s3_def session_receive_def s2_def s1_def call_start_def session_new_def)
  with session_matches_responses [OF run] run show ?thesis by auto
qed

subsection \<open>The circuit breaker\<close>

text \<open>Calls of a client by the times at which they start and end and the answers.\<close>

fun breaker_run :: "(nat \<times> nat \<times> (error + bool)) list \<Rightarrow> CircuitBreaker \<Rightarrow> bool list \<times> CircuitBreaker" where
  "breaker_run [] b = ([], b)"
| "breaker_run ((now, now', r) # evs) b =
     (let sent = \<not> should_reject now b;
          rest = breaker_run evs (if sent then after_control now' r b else b)
      in (sent # fst rest, snd rest))"

text \<open>
  After a request that failed, every request that starts within the cooldown is rejected without
  being sent and without moving the end of the cooldown; the first one after it is sent, and if it is
  answered, requests are sent again; after a request that was answered nothing is rejected.
\<close>

theorem breaker_cooldown:
  assumes "\<forall>(now, now', r) \<in> set evs. now < t + cooldown b" "t + cooldown b \<le> now1" "0 < cooldown b"
  shows "breaker_run (evs @ [(now1, now1', Inr x)]) (after_control t (Inl e) b) =
      (replicate (length evs) False @ [True], breaker_success (breaker_failure t b)) \<and>
    (\<forall>now. \<not> should_reject now (breaker_success (breaker_failure t b)))"
proof -
  let ?b = "breaker_failure t b"
  have b: "cb_open ?b" "last_failure_ms ?b = t" "cooldown ?b = cooldown b" by (simp_all add: breaker_failure_def)
  have "breaker_run (evs @ [(now1, now1', Inr x)]) ?b =
      (replicate (length evs) False @ fst (breaker_run [(now1, now1', Inr x)] ?b), snd (breaker_run [(now1, now1', Inr x)] ?b))"
    using assms(1)
  proof (induction evs)
    case (Cons ev evs)
    obtain now now' r where ev: "ev = (now, now', r)" by (metis prod_cases3)
    have "now < t + cooldown b" using Cons.prems ev by auto
    then have "should_reject now ?b" unfolding should_reject_def b using assms(3) b(1) by auto
    then show ?case using Cons ev by simp
  qed simp
  moreover have "\<not> should_reject now1 ?b" unfolding should_reject_def b using assms(2) by auto
  ultimately show ?thesis by (simp add: after_control_def should_reject_def breaker_success_def)
qed

theorem breaker_cooldown_witness:
  "breaker_run [(150, 150, Inl (Io TimedOut)), (400, 410, Inr True)] (after_control 100 (Inl (Io TimedOut)) (breaker_new 200)) =
    ([False, True], breaker_success (breaker_failure 100 (breaker_new 200)))"
  using breaker_cooldown [of "[(150, 150, Inl (Io TimedOut))]" 100 "breaker_new 200" 400 410 True "Io TimedOut"]
  by (simp add: breaker_new_def)

end
