(* ===== verification/PeerServer.thy ===== *)
theory PeerServer
  imports PeerWire ChunkContract
begin

text \<open>
  \<open>src/backend/peer.rs\<close>: the chunk server.  A request of a connection is handled by its type; its
  response is written by the connection's writer task, which also reads the payload of a chunk that
  was asked for.  The index maintenance tells the shared chunk index which chunks are here.

  The shared index and the client for other peers are interfaces (\<open>ChunkIndex\<close>, \<open>PeerClient\<close>): records
  of operations over their states \<open>'x\<close> and \<open>'p\<close>.  Operations that add a chunk return an option, as in
  \<open>ChunkApi\<close>.  Each request is handled by a task of its own, so the order of handling is any order.
\<close>

subsection \<open>The chunk index\<close>

text \<open>A result of \<open>None\<close> of the last two operations means that the index does not do this itself.\<close>

record ('x, 'a) chunk_index =
  lookup_owners :: "CheckSum \<Rightarrow> 'x \<Rightarrow> 'x \<times> (error + 'a list)"
  register :: "CheckSum \<Rightarrow> 'x \<Rightarrow> 'x \<times> (error + unit)"
  register_batch :: "CheckSum list \<Rightarrow> 'x \<Rightarrow> 'x \<times> (error + unit)"
  unregister :: "CheckSum \<Rightarrow> 'x \<Rightarrow> 'x \<times> (error + unit)"
  unregister_batch :: "CheckSum list \<Rightarrow> 'x \<Rightarrow> 'x \<times> (error + unit)"
  sync_existing_chunks :: "CheckSum list \<Rightarrow> 'x \<Rightarrow> 'x \<times> (error + nat)"
  refresh_registered :: "nat \<Rightarrow> 'x \<Rightarrow> 'x \<times> (error + nat option)"
  repair_missing_owners :: "CheckSum list \<Rightarrow> 'x \<Rightarrow> 'x \<times> (error + nat option)"
  refresh_interval :: "nat option"

text \<open>The default methods of the trait, over the ones an index must have.\<close>

fun default_unregister_batch ::
  "(CheckSum \<Rightarrow> 'x \<Rightarrow> 'x \<times> (error + unit)) \<Rightarrow> CheckSum list \<Rightarrow> 'x \<Rightarrow> 'x \<times> (error + unit)" where
  "default_unregister_batch unreg [] x = (x, Inr ())"
| "default_unregister_batch unreg (cs # css) x =
     (case unreg cs x of
        (x', Inl e) \<Rightarrow> (x', Inl e)
      | (x', Inr _) \<Rightarrow> default_unregister_batch unreg css x')"

definition default_sync_existing ::
  "(CheckSum list \<Rightarrow> 'x \<Rightarrow> 'x \<times> (error + unit)) \<Rightarrow> CheckSum list \<Rightarrow> 'x \<Rightarrow> 'x \<times> (error + nat)" where
  "default_sync_existing reg css x =
     (case reg css x of (x', Inl e) \<Rightarrow> (x', Inl e) | (x', Inr _) \<Rightarrow> (x', Inr (length css)))"

subsection \<open>State\<close>

record ('x, 'a, 'p) peer_client_ops =
  pc_fetch :: "CheckSum \<Rightarrow> 'p \<Rightarrow> 'p \<times> bytes option"
  pc_index :: "('x, 'a) chunk_index option"

record ('s, 'x, 'a, 'p) server_env =
  sv_store :: "'s chunk_env"
  sv_digests :: digests
  sv_client :: "('x, 'a, 'p) peer_client_ops option"

record ('s, 'x, 'p) server =
  sv_chunks :: "'s chunkdb"
  sv_index :: 'x
  sv_peer :: 'p

datatype transport = Tcp | Unix

datatype ResponseAction = Immediate WireResponse | SendChunk nat CheckSum

definition status_response :: "Request \<Rightarrow> byte \<Rightarrow> WireResponse" where
  "status_response r st = \<lparr>resp_id = request_id r, resp_status = st, resp_payload = []\<rparr>"

definition client_index :: "('s, 'x, 'a, 'p) server_env \<Rightarrow> ('x, 'a) chunk_index option" where
  "client_index E = (case sv_client E of None \<Rightarrow> None | Some c \<Rightarrow> pc_index c)"

subsection \<open>The handlers\<close>

definition get_action :: "Request \<Rightarrow> ResponseAction" where
  "get_action r =
     (case ensure_full_chunk r of
        Inr _ \<Rightarrow> SendChunk (request_id r) (checksum r)
      | Inl _ \<Rightarrow> Immediate (status_response r STATUS_ERROR))"

definition prefetch_from_peer ::
  "('s, 'x, 'a, 'p) server_env \<Rightarrow> nat \<Rightarrow> Request \<Rightarrow> ('s, 'x, 'p) server \<Rightarrow> (('s, 'x, 'p) server \<times> (error + bool)) option" where
  "prefetch_from_peer E now r S =
     (case has_chunk (sv_store E) (checksum r) (sv_chunks S) of
        Inl e \<Rightarrow> Some (S, Inl e)
      | Inr True \<Rightarrow> Some (S, Inr True)
      | Inr False \<Rightarrow>
          (case sv_client E of
             None \<Rightarrow> Some (S, Inr False)
           | Some c \<Rightarrow>
               (case pc_fetch c (checksum r) (sv_peer S) of
                  (p, None) \<Rightarrow> Some (S\<lparr>sv_peer := p\<rparr>, Inr False)
                | (p, Some data) \<Rightarrow>
                    (if CheckSum_from_data (sv_digests E) data (cs_method (checksum r)) \<noteq> checksum r
                     then Some (S\<lparr>sv_peer := p\<rparr>, Inr False)
                     else case add_chunk (sv_store E) now (checksum r) data (sv_chunks S) of
                       None \<Rightarrow> None
                     | Some (q, Inl e) \<Rightarrow> Some (S\<lparr>sv_peer := p, sv_chunks := q\<rparr>, Inl e)
                     | Some (q, Inr _) \<Rightarrow> Some (S\<lparr>sv_peer := p, sv_chunks := q\<rparr>, Inr True)))))"

definition process_prefetch ::
  "('s, 'x, 'a, 'p) server_env \<Rightarrow> nat \<Rightarrow> Request \<Rightarrow> ('s, 'x, 'p) server \<Rightarrow> (('s, 'x, 'p) server \<times> WireResponse) option" where
  "process_prefetch E now r S =
     (case ensure_full_chunk r of
        Inl _ \<Rightarrow> Some (S, status_response r STATUS_ERROR)
      | Inr _ \<Rightarrow>
          (case prefetch_from_peer E now r S of
             None \<Rightarrow> None
           | Some (S', Inr True) \<Rightarrow> Some (S', status_response r STATUS_HIT)
           | Some (S', Inr False) \<Rightarrow> Some (S', status_response r STATUS_MISS)
           | Some (S', Inl e) \<Rightarrow> Some (S', status_response r STATUS_ERROR)))"

definition process_health_check :: "Request \<Rightarrow> WireResponse" where
  "process_health_check r =
     (case ensure_full_chunk r of Inr _ \<Rightarrow> status_response r STATUS_HIT | Inl _ \<Rightarrow> status_response r STATUS_ERROR)"

definition handle_index_control ::
  "('s, 'x, 'a, 'p) server_env \<Rightarrow> Request \<Rightarrow> 'x \<Rightarrow> 'x \<times> (error + unit)" where
  "handle_index_control E r x =
     (case client_index E of
        None \<Rightarrow> (x, Inr ())
      | Some ix \<Rightarrow>
          (case message_type r of
             RegisterChunk \<Rightarrow> register ix (checksum r) x
           | UnregisterChunk \<Rightarrow> unregister ix (checksum r) x
           | _ \<Rightarrow> (x, Inr ())))"

definition process_control ::
  "('s, 'x, 'a, 'p) server_env \<Rightarrow> transport \<Rightarrow> Request \<Rightarrow> ('s, 'x, 'p) server \<Rightarrow> ('s, 'x, 'p) server \<times> WireResponse" where
  "process_control E tr r S =
     (if tr \<noteq> Unix then (S, status_response r STATUS_ERROR)
      else case ensure_full_chunk r of
        Inl _ \<Rightarrow> (S, status_response r STATUS_ERROR)
      | Inr _ \<Rightarrow>
          (case handle_index_control E r (sv_index S) of
             (x, Inr _) \<Rightarrow> (S\<lparr>sv_index := x\<rparr>, status_response r STATUS_HIT)
           | (x, Inl _) \<Rightarrow> (S\<lparr>sv_index := x\<rparr>, status_response r STATUS_ERROR)))"

definition handle_control_batch ::
  "('s, 'x, 'a, 'p) server_env \<Rightarrow> Request \<Rightarrow> CheckSum list \<Rightarrow> 'x \<Rightarrow> 'x \<times> (error + unit)" where
  "handle_control_batch E r css x =
     (case client_index E of
        None \<Rightarrow> (x, Inr ())
      | Some ix \<Rightarrow>
          (case message_type r of
             RegisterChunks \<Rightarrow> register_batch ix css x
           | UnregisterChunks \<Rightarrow> unregister_batch ix css x
           | _ \<Rightarrow> (x, Inr ())))"

definition process_control_batch ::
  "('s, 'x, 'a, 'p) server_env \<Rightarrow> transport \<Rightarrow> Request \<Rightarrow> CheckSum list \<Rightarrow> ('s, 'x, 'p) server \<Rightarrow>
   ('s, 'x, 'p) server \<times> WireResponse" where
  "process_control_batch E tr r css S =
     (if tr \<noteq> Unix then (S, status_response r STATUS_ERROR)
      else case ensure_control_batch r of
        Inl _ \<Rightarrow> (S, status_response r STATUS_ERROR)
      | Inr n \<Rightarrow>
          (if n = length css then
             (case handle_control_batch E r css (sv_index S) of
                (x, Inr _) \<Rightarrow> (S\<lparr>sv_index := x\<rparr>, status_response r STATUS_HIT)
              | (x, Inl _) \<Rightarrow> (S\<lparr>sv_index := x\<rparr>, status_response r STATUS_ERROR))
           else (S, status_response r STATUS_ERROR)))"

text \<open>The \<open>expect\<close> on the checksums of a batch request is a panic of the request's task: no response.\<close>

definition process_request ::
  "('s, 'x, 'a, 'p) server_env \<Rightarrow> transport \<Rightarrow> nat \<Rightarrow> Request \<times> CheckSum list option \<Rightarrow> ('s, 'x, 'p) server \<Rightarrow>
   (('s, 'x, 'p) server \<times> (error + ResponseAction)) option" where
  "process_request E tr now inbound S =
     (case inbound of (r, css) \<Rightarrow>
        (case message_type r of
           GetChunk \<Rightarrow> Some (S, Inr (get_action r))
         | PrefetchChunk \<Rightarrow> map_option (\<lambda>(S', resp). (S', Inr (Immediate resp))) (process_prefetch E now r S)
         | HealthCheck \<Rightarrow> Some (S, Inr (Immediate (process_health_check r)))
         | RegisterChunk \<Rightarrow> (case process_control E tr r S of (S', resp) \<Rightarrow> Some (S', Inr (Immediate resp)))
         | UnregisterChunk \<Rightarrow> (case process_control E tr r S of (S', resp) \<Rightarrow> Some (S', Inr (Immediate resp)))
         | RegisterChunks \<Rightarrow>
             (case css of
                None \<Rightarrow> Some (S, Inl Panic)
              | Some css \<Rightarrow> (case process_control_batch E tr r css S of (S', resp) \<Rightarrow> Some (S', Inr (Immediate resp))))
         | UnregisterChunks \<Rightarrow>
             (case css of
                None \<Rightarrow> Some (S, Inl Panic)
              | Some css \<Rightarrow> (case process_control_batch E tr r css S of (S', resp) \<Rightarrow> Some (S', Inr (Immediate resp))))))"

subsection \<open>The writer task\<close>

text \<open>
  \<open>wr\<close> writes one response to the connection \<open>w\<close>.  The bytes of a chunk are written inside the read of
  the database; when that fails, an error response follows on the same connection.
\<close>

definition writer_action ::
  "('s, 'm) chunk_env_scheme \<Rightarrow> ('w \<Rightarrow> WireResponse \<Rightarrow> 'w \<times> (error + unit)) \<Rightarrow> ResponseAction \<Rightarrow> 's chunkdb \<Rightarrow> 'w \<Rightarrow>
   's chunkdb \<times> 'w \<times> (error + unit)" where
  "writer_action L wr a q w =
     (case a of
        Immediate resp \<Rightarrow> (case wr w resp of (w', r) \<Rightarrow> (q, w', r))
      | SendChunk i cs \<Rightarrow>
          (case with_chunk L cs (\<lambda>w data.
              case wr w \<lparr>resp_id = i, resp_status = STATUS_HIT, resp_payload = data\<rparr> of
                (w', Inl e) \<Rightarrow> (w', Inl e)
              | (w', Inr _) \<Rightarrow> (w', Inr (length data))) q w of
             (q', w', Inr (Some n)) \<Rightarrow> (q', w', Inr ())
           | (q', w', Inr None) \<Rightarrow>
               (case wr w' \<lparr>resp_id = i, resp_status = STATUS_MISS, resp_payload = []\<rparr> of (w2, r) \<Rightarrow> (q', w2, r))
           | (q', w', Inl e) \<Rightarrow>
               (case wr w' \<lparr>resp_id = i, resp_status = STATUS_ERROR, resp_payload = []\<rparr> of (w2, r) \<Rightarrow> (q', w2, r))))"

text \<open>The task ends at the first failed write; the rest of the actions is dropped.\<close>

fun writer_task ::
  "('s, 'm) chunk_env_scheme \<Rightarrow> ('w \<Rightarrow> WireResponse \<Rightarrow> 'w \<times> (error + unit)) \<Rightarrow> ResponseAction list \<Rightarrow> 's chunkdb \<Rightarrow> 'w \<Rightarrow>
   's chunkdb \<times> 'w \<times> (error + unit)" where
  "writer_task L wr [] q w = (q, w, Inr ())"
| "writer_task L wr (a # as) q w =
     (case writer_action L wr a q w of
        (q', w', Inl e) \<Rightarrow> (q', w', Inl e)
      | (q', w', Inr _) \<Rightarrow> writer_task L wr as q' w')"

subsection \<open>A connection\<close>

text \<open>
  The connection's handler, its writer task and the tasks of its requests.  \<open>cn_unread\<close> are the bytes
  still to come; \<open>cn_tasks\<close> the requests being processed, \<open>cn_actions\<close> the channel to the writer task.
  Each step is the work of one task; the server's state may change between them in any way that
  \<open>other\<close>, the rest of the process, allows.
\<close>

record ('s, 'x, 'p, 'w) connection =
  cn_unread :: bytes
  cn_tasks :: "(Request \<times> CheckSum list option) list"
  cn_actions :: "ResponseAction list"
  cn_out :: 'w
  cn_server :: "('s, 'x, 'p) server"

inductive handler_step ::
  "('s, 'x, 'a, 'p) server_env \<Rightarrow> transport \<Rightarrow> ('w \<Rightarrow> WireResponse \<Rightarrow> 'w \<times> (error + unit)) \<Rightarrow>
   (('s, 'x, 'p) server \<Rightarrow> ('s, 'x, 'p) server \<Rightarrow> bool) \<Rightarrow>
   ('s, 'x, 'p, 'w) connection \<Rightarrow> ('s, 'x, 'p, 'w) connection \<Rightarrow> bool"
  for E tr wr other where
  h_read: "read_inbound (cn_unread C) = Inr (x, s) \<Longrightarrow>
     handler_step E tr wr other C (C\<lparr>cn_unread := s, cn_tasks := cn_tasks C @ [x]\<rparr>)"
| h_process: "cn_tasks C = xs @ x # ys \<Longrightarrow> process_request E tr now x (cn_server C) = Some (S, Inr a) \<Longrightarrow> now < 2 ^ 64 \<Longrightarrow>
     handler_step E tr wr other C (C\<lparr>cn_tasks := xs @ ys, cn_actions := cn_actions C @ [a], cn_server := S\<rparr>)"
| h_write: "cn_actions C = a # as \<Longrightarrow>
     writer_action (sv_store E) wr a (sv_chunks (cn_server C)) (cn_out C) = (q, w, Inr ()) \<Longrightarrow>
     handler_step E tr wr other C (C\<lparr>cn_actions := as, cn_out := w, cn_server := (cn_server C)\<lparr>sv_chunks := q\<rparr>\<rparr>)"
| h_other: "other (cn_server C) S \<Longrightarrow> handler_step E tr wr other C (C\<lparr>cn_server := S\<rparr>)"

subsection \<open>Index maintenance\<close>

definition INDEX_SYNC_BATCH_SIZE :: nat where "INDEX_SYNC_BATCH_SIZE = 1000"
definition INDEX_REPAIR_BATCH_SIZE :: nat where "INDEX_REPAIR_BATCH_SIZE = 256"

text \<open>The loop ends with the count and how it ended; the code logs this.\<close>

partial_function (option) sync_loop ::
  "('s, 'm) chunk_env_scheme \<Rightarrow> ('x, 'a) chunk_index \<Rightarrow> 's chunkdb \<Rightarrow> nat \<Rightarrow> CheckSum option \<Rightarrow> 'x \<Rightarrow>
   ('x \<times> nat \<times> (error + unit)) option" where
  "sync_loop L ix q tot cursor x =
     (case next_chunk_batch L cursor INDEX_SYNC_BATCH_SIZE q of
        Inl e \<Rightarrow> Some (x, tot, Inl e)
      | Inr batch \<Rightarrow>
          (if batch = [] then Some (x, tot, Inr ())
           else case sync_existing_chunks ix batch x of
             (x', Inl e) \<Rightarrow> Some (x', tot, Inl e)
           | (x', Inr n) \<Rightarrow> sync_loop L ix q (tot + n) (Some (last batch)) x'))"

definition maintainer_sync ::
  "('s, 'm) chunk_env_scheme \<Rightarrow> ('x, 'a) chunk_index \<Rightarrow> 's chunkdb \<Rightarrow> 'x \<Rightarrow> ('x \<times> nat \<times> (error + unit)) option" where
  "maintainer_sync L ix q x = sync_loop L ix q 0 None x"

partial_function (option) refresh_loop ::
  "('s, 'm) chunk_env_scheme \<Rightarrow> ('x, 'a) chunk_index \<Rightarrow> 's chunkdb \<Rightarrow> nat \<Rightarrow> CheckSum option \<Rightarrow> 'x \<Rightarrow>
   ('x \<times> (error + nat)) option" where
  "refresh_loop L ix q tot cursor x =
     (case next_chunk_batch L cursor INDEX_SYNC_BATCH_SIZE q of
        Inl e \<Rightarrow> Some (x, Inl e)
      | Inr batch \<Rightarrow>
          (if batch = [] then Some (x, Inr tot)
           else case register_batch ix batch x of
             (x', Inl e) \<Rightarrow> Some (x', Inl e)
           | (x', Inr _) \<Rightarrow> refresh_loop L ix q (tot + length batch) (Some (last batch)) x'))"

definition maintainer_refresh ::
  "('s, 'm) chunk_env_scheme \<Rightarrow> ('x, 'a) chunk_index \<Rightarrow> 's chunkdb \<Rightarrow> nat \<Rightarrow> 'x \<Rightarrow> ('x \<times> (error + nat)) option" where
  "maintainer_refresh L ix q spread_over x =
     (case refresh_registered ix spread_over x of
        (x', Inl e) \<Rightarrow> Some (x', Inl e)
      | (x', Inr (Some tot)) \<Rightarrow> Some (x', Inr tot)
      | (x', Inr None) \<Rightarrow> refresh_loop L ix q 0 None x')"

definition maintainer_repair ::
  "('s, 'm) chunk_env_scheme \<Rightarrow> ('x, 'a) chunk_index \<Rightarrow> 's chunkdb \<Rightarrow> CheckSum option \<Rightarrow> 'x \<Rightarrow>
   'x \<times> CheckSum option \<times> (error + nat option)" where
  "maintainer_repair L ix q repair_cursor x =
     (case next_chunk_batch L repair_cursor INDEX_REPAIR_BATCH_SIZE q of
        Inl e \<Rightarrow> (x, repair_cursor, Inl e)
      | Inr batch \<Rightarrow>
          (if batch = [] then (x, None, Inr None)
           else case repair_missing_owners ix batch x of (x', r) \<Rightarrow> (x', Some (last batch), r)))"

text \<open>One tick of \<open>run_refresh_loop\<close>: both parts run whatever the other answers.\<close>

definition refresh_tick ::
  "('s, 'm) chunk_env_scheme \<Rightarrow> ('x, 'a) chunk_index \<Rightarrow> 's chunkdb \<Rightarrow> nat \<Rightarrow> CheckSum option \<Rightarrow> 'x \<Rightarrow>
   ('x \<times> CheckSum option) option" where
  "refresh_tick L ix q spread_over repair_cursor x =
     (case maintainer_refresh L ix q spread_over x of
        None \<Rightarrow> None
      | Some (x1, _) \<Rightarrow> (case maintainer_repair L ix q repair_cursor x1 of (x2, cursor, _) \<Rightarrow> Some (x2, cursor)))"

end
