(* ===== verification/PeerWireProps.thy ===== *)
theory PeerWireProps
  imports PeerWire
begin

text \<open>
  The wire protocol: frames decode to what was sent, also when they follow each other on one
  connection; a response arrives once and whole whatever sizes the socket accepts.
\<close>

subsection \<open>Requests\<close>

lemma message_of_u8_of_message [simp]: "message_of_u8 (u8_of_message m) = Inr m"
  by (cases m) (simp_all add: message_of_u8_def u8_of_message_def)

lemma CheckSum_new_wf: "length raw = 32 \<Longrightarrow> CheckSum_new raw m = Inr \<lparr>cs_raw = raw, cs_method = m\<rparr>"
  by (simp add: CheckSum_new_def)

definition wf_request :: "Request \<Rightarrow> bool" where
  "wf_request r \<longleftrightarrow> request_id r < 2 ^ 64 \<and> wf_checksum (checksum r) \<and> offset r < 2 ^ 32 \<and> req_length r < 2 ^ 32"

lemma length_Request_encode [simp]: "wf_checksum (checksum r) \<Longrightarrow> length (Request_encode r) = REQUEST_LEN"
  by (simp add: Request_encode_def REQUEST_LEN_def wf_checksum_def)

lemma Request_decode_encode:
  assumes "wf_request r"
  shows "Request_decode (Request_encode r) = Inr r"
proof -
  have len: "length (cs_raw (checksum r)) = 32" using assms by (simp add: wf_request_def wf_checksum_def)
  have s: "slice (Request_encode r) 0 8 = be_bytes 8 (request_id r)" "slice (Request_encode r) 10 42 = cs_raw (checksum r)"
    "slice (Request_encode r) 42 46 = be_bytes 4 (offset r)" "slice (Request_encode r) 46 50 = be_bytes 4 (req_length r)"
    "Request_encode r ! 8 = u8_of_message (message_type r)" "Request_encode r ! 9 = u8_of_method (cs_method (checksum r))"
    using len by (simp_all add: Request_encode_def slice_def nth_append)
  have v: "be_val (be_bytes 8 (request_id r)) = request_id r" "be_val (be_bytes 4 (offset r)) = offset r"
    "be_val (be_bytes 4 (req_length r)) = req_length r"
    using assms by (simp_all add: wf_request_def be_val_be_bytes)
  show ?thesis
    unfolding Request_decode_def s v by (simp add: CheckSum_new_wf len Request_new_def)
qed

lemma read_exact_append [simp]: "length a = n \<Longrightarrow> read_exact n (a @ b) = Inr (a, b)"
  by (simp add: read_exact_def)

lemma Request_read_encode: "wf_request r \<Longrightarrow> Request_read_from (Request_encode r @ s) = Inr (r, s)"
  by (simp add: Request_read_from_def Request_decode_encode wf_request_def)

lemma read_batch_payload:
  "\<forall>cs \<in> set css. wf_checksum cs \<Longrightarrow> read_checksum_batch (length css) (batch_payload css @ s) = Inr (css, s)"
proof (induction css)
  case (Cons cs css)
  have "read_checksum_batch (Suc (length css)) ([u8_of_method (cs_method cs)] @ cs_raw cs @ (batch_payload css @ s)) = Inr (cs # css, s)"
    using Cons by (simp add: read_exact_def wf_checksum_def CheckSum_new_def)
  then show ?case by (simp add: batch_payload_def)
qed (simp add: batch_payload_def)

text \<open>What a client sends: a request, and the batch when its type has one.\<close>

definition frame :: "Request \<times> CheckSum list option \<Rightarrow> bytes" where
  "frame x = Request_encode (fst x) @ (case snd x of None \<Rightarrow> [] | Some css \<Rightarrow> batch_payload css)"

definition wf_frame :: "Request \<times> CheckSum list option \<Rightarrow> bool" where
  "wf_frame x \<longleftrightarrow> wf_request (fst x) \<and>
     (case snd x of
        None \<Rightarrow> message_type (fst x) \<notin> {RegisterChunks, UnregisterChunks}
      | Some css \<Rightarrow> message_type (fst x) \<in> {RegisterChunks, UnregisterChunks} \<and> offset (fst x) = 0 \<and>
          req_length (fst x) = length css \<and> (\<forall>cs \<in> set css. wf_checksum cs))"

lemma read_inbound_frame: "wf_frame x \<Longrightarrow> read_inbound (frame x @ s) = Inr (x, s)"
  by (cases x)
    (auto simp: wf_frame_def frame_def read_inbound_def Request_read_encode ensure_control_batch_def read_batch_payload
      split: option.splits)

text \<open>
  C33: the requests of a client, sent one after the other with their batches, are read as they were
  sent, to the end of the connection, whatever their types; a cut inside the last header loses that
  request only and still counts as a normal end.
\<close>

theorem pipelined_requests_read:
  assumes "\<forall>x \<in> set xs. wf_frame x" "length rest < REQUEST_LEN"
  shows "read_requests (concat (map frame xs) @ rest) = (xs, Inr ())"
  using assms(1)
proof (induction xs)
  case Nil
  then show ?case
    using assms(2) by (subst read_requests.simps) (simp add: Request_read_from_def read_exact_def)
next
  case (Cons x xs)
  let ?s = "concat (map frame xs) @ rest"
  have wf: "wf_request (fst x)" "wf_frame x" using Cons.prems by (simp_all add: wf_frame_def)
  have "Request_read_from (frame x @ ?s) = Inr (fst x, (case snd x of None \<Rightarrow> [] | Some css \<Rightarrow> batch_payload css) @ ?s)"
    unfolding frame_def append_assoc by (rule Request_read_encode [OF wf(1)])
  moreover have "read_inbound (frame x @ ?s) = Inr (x, ?s)" by (rule read_inbound_frame [OF wf(2)])
  moreover have "concat (map frame (x # xs)) @ rest = frame x @ ?s" by simp
  ultimately show ?case using Cons by (simp only:) (subst read_requests.simps, simp)
qed

theorem pipelined_requests_read_witness:
  "read_requests (frame (whole_chunk GetChunk CheckSum_empty, None) @
      frame (control_batch RegisterChunks 1, Some [CheckSum_empty]) @ [0, 0]) =
    ([(whole_chunk GetChunk CheckSum_empty, None), (control_batch RegisterChunks 1, Some [CheckSum_empty])], Inr ())"
proof -
  have "\<forall>x \<in> set [(whole_chunk GetChunk CheckSum_empty, None), (control_batch RegisterChunks 1, Some [CheckSum_empty])]. wf_frame x"
    by (simp add: wf_frame_def wf_request_def whole_chunk_def control_batch_def Request_new_def wf_checksum_empty as_u32_def)
  from pipelined_requests_read [OF this, of "[0, 0]"] show ?thesis by (simp add: REQUEST_LEN_def)
qed

subsection \<open>Responses\<close>

definition wf_response :: "WireResponse \<Rightarrow> bool" where
  "wf_response r \<longleftrightarrow> resp_id r < 2 ^ 64 \<and> length (resp_payload r) \<le> MAX_CHUNK_PAYLOAD_SIZE"

lemma length_response_header [simp]: "length (encode_response_header i st n) = 13"
  by (simp add: encode_response_header_def)

lemma response_read_write:
  assumes "wf_response r"
  shows "WireResponse_read_from (WireResponse_write_to r @ s) = Inr (r, s)"
proof -
  let ?h = "encode_response_header (resp_id r) (resp_status r) (length (resp_payload r))"
  have n: "length (resp_payload r) < 2 ^ 32" using assms by (simp add: wf_response_def MAX_CHUNK_PAYLOAD_SIZE_def CHUNK_SIZE_def)
  have h: "slice ?h 0 8 = be_bytes 8 (resp_id r)" "?h ! 8 = resp_status r" "slice ?h 9 13 = be_bytes 4 (length (resp_payload r))"
    using as_u32_exact [OF n] by (simp_all add: encode_response_header_def slice_def nth_append)
  have v: "be_val (be_bytes 8 (resp_id r)) = resp_id r" "be_val (be_bytes 4 (length (resp_payload r))) = length (resp_payload r)"
    using assms n by (simp_all add: wf_response_def be_val_be_bytes)
  show ?thesis
    using assms
    by (simp add: WireResponse_read_from_def WireResponse_write_to_def RESPONSE_HEADER_LEN_def h v Let_def wf_response_def)
qed

lemma fill_io_slices_rest:
  "vc_written c \<le> length (vc_header c) + length (vc_payload c) \<Longrightarrow>
   concat (fill_io_slices c) = drop (vc_written c) (vc_header c @ vc_payload c)"
  by (auto simp: fill_io_slices_def Let_def)

lemma write_loop_prefix:
  assumes "write_loop c evs out = Some (out', r)" "vc_written c \<le> length all"
    and "out = take (vc_written c) all" "all = vc_header c @ vc_payload c"
  shows "(\<exists>k. out' = take k all) \<and> (r = Inr () \<longleftrightarrow> out' = all)"
  using assms
proof (induction c evs out rule: write_loop.induct)
  case (1 c out)
  then have "cursor_is_empty c" "out' = out" "r = Inr ()" by (simp_all split: if_splits)
  moreover from this have "length all \<le> vc_written c" using 1(4) by (simp add: cursor_is_empty_def)
  ultimately have "out' = take (vc_written c) all" "out' = all" "r = Inr ()" using 1(3) by simp_all
  then show ?case by blast
next
  case (2 c ev evs out)
  have la: "length all = length (vc_header c) + length (vc_payload c)" using 2(6) by simp
  show ?case
  proof (cases "cursor_is_empty c")
    case True
    then have "out' = all" "r = Inr ()" "out' = take (vc_written c) all" using 2(3,5) la by (auto simp: cursor_is_empty_def)
    then show ?thesis by blast
  next
    case False
    then have lt: "vc_written c < length all" by (simp add: cursor_is_empty_def la)
    then have ne: "out \<noteq> all" using 2(5) by (metis length_take min_less_iff_conj nat_neq_iff)
    show ?thesis
    proof (cases "\<exists>n. ev = Written (Suc n)")
      case True
      then obtain n where ev: "ev = Written n" "n \<noteq> 0" by auto
      let ?c = "cursor_advance n c"
      have "out @ take n (concat (fill_io_slices c)) = take (vc_written c + n) all"
        unfolding fill_io_slices_rest [OF 2(4) [unfolded la]] 2(6) [symmetric] 2(5) by (simp add: take_add)
      also have "\<dots> = take (vc_written ?c) all" by (simp add: cursor_advance_def la [symmetric] min_def)
      finally have "out @ take n (concat (fill_io_slices c)) = take (vc_written ?c) all" .
      moreover have "write_loop ?c evs (out @ take n (concat (fill_io_slices c))) = Some (out', r)"
        using 2(3) False ev by simp
      moreover have "vc_written ?c \<le> length all" "all = vc_header ?c @ vc_payload ?c"
        using 2(6) by (simp_all add: cursor_advance_def)
      ultimately show ?thesis using 2(1) [OF False ev] by blast
    next
      case other: False
      then consider "ev = WriteFailed WouldBlock" | "\<exists>e. out' = out \<and> r = Inl e"
        using 2(3) False by (cases ev) (auto split: if_splits simp: gr0_conv_Suc)
      then show ?thesis
      proof cases
        case 1
        then show ?thesis using 2(2) [OF False 1] 2(3-6) False by simp
      next
        case 2
        then show ?thesis using ne \<open>out = take (vc_written c) all\<close> by blast
      qed
    qed
  qed
qed

lemma write_loop_ends:
  assumes "vc_written c \<le> length (vc_header c) + length (vc_payload c)"
    and "\<forall>ev \<in> set evs. (\<exists>n. ev = Written (Suc n)) \<or> ev = WriteFailed WouldBlock"
    and "length (vc_header c) + length (vc_payload c) - vc_written c \<le> length (filter (\<lambda>ev. ev \<noteq> WriteFailed WouldBlock) evs)"
  shows "\<exists>out'. write_loop c evs out = Some (out', Inr ())"
  using assms
proof (induction c evs out rule: write_loop.induct)
  case (1 c out)
  then show ?case by (simp add: cursor_is_empty_def)
next
  case (2 c ev evs out)
  show ?case
  proof (cases "cursor_is_empty c")
    case False
    have "(\<exists>n. ev = Written (Suc n)) \<or> ev = WriteFailed WouldBlock" using 2(4) by simp
    then consider n where "ev = Written (Suc n)" | "ev = WriteFailed WouldBlock" by blast
    then show ?thesis
    proof cases
      case 1
      then show ?thesis
        using 2(1) [OF False 1] 2(3-5) False by (auto simp: cursor_advance_def)
    next
      case w: 2
      then show ?thesis using 2(2) [OF False w] 2(3-5) False by simp
    qed
  qed simp
qed

text \<open>
  A response that the writer reports as sent reaches the other side whole and decodes there to
  itself; while it is being sent, or when sending fails, only a proper prefix is on the wire; and
  sending ends after at most as many accepted writes as the response has bytes.
\<close>

theorem response_sent_once:
  assumes "wf_response r"
  shows "(write_response r evs = Some (out, res) \<longrightarrow>
      (\<exists>k. out = take k (WireResponse_write_to r)) \<and>
      (res = Inr () \<longleftrightarrow> out = WireResponse_write_to r) \<and>
      (res = Inr () \<longrightarrow> WireResponse_read_from (out @ s) = Inr (r, s))) \<and>
    ((\<forall>ev \<in> set evs. (\<exists>n. ev = Written (Suc n)) \<or> ev = WriteFailed WouldBlock) \<longrightarrow>
      length (WireResponse_write_to r) \<le> length (filter (\<lambda>ev. ev \<noteq> WriteFailed WouldBlock) evs) \<longrightarrow>
      (\<exists>out. write_response r evs = Some (out, Inr ())))"
proof -
  let ?c = "cursor_new (encode_response_header (resp_id r) (resp_status r) (length (resp_payload r))) (resp_payload r)"
  have all: "vc_header ?c @ vc_payload ?c = WireResponse_write_to r" "vc_written ?c = 0"
    by (simp_all add: cursor_new_def WireResponse_write_to_def)
  have w: "write_response r evs = write_loop ?c evs []" by (simp add: write_response_def write_response_parts_def)
  have "length (vc_header ?c) + length (vc_payload ?c) = length (WireResponse_write_to r)"
    using arg_cong [OF all(1), of length] by simp
  then show ?thesis
    using write_loop_prefix [of ?c evs "[]" out res "WireResponse_write_to r"] write_loop_ends [of ?c evs "[]"] response_read_write [OF assms, of s]
    unfolding all w by auto
qed

theorem response_sent_once_witness:
  "\<exists>out. write_response \<lparr>resp_id = 5, resp_status = STATUS_HIT, resp_payload = [7, 8]\<rparr> (WriteFailed WouldBlock # replicate 15 (Written 2)) =
     Some (out, Inr ()) \<and> WireResponse_read_from (out @ [1]) = Inr (\<lparr>resp_id = 5, resp_status = STATUS_HIT, resp_payload = [7, 8]\<rparr>, [1])"
proof -
  let ?r = "\<lparr>resp_id = 5, resp_status = STATUS_HIT, resp_payload = [7, 8]\<rparr>" and ?evs = "WriteFailed WouldBlock # replicate 15 (Written 2)"
  have wf: "wf_response ?r" by (simp add: wf_response_def MAX_CHUNK_PAYLOAD_SIZE_def CHUNK_SIZE_def)
  have "\<forall>ev \<in> set ?evs. (\<exists>n. ev = Written (Suc n)) \<or> ev = WriteFailed WouldBlock" by (auto intro: exI [of _ 1])
  moreover have "length (WireResponse_write_to ?r) \<le> length (filter (\<lambda>ev. ev \<noteq> WriteFailed WouldBlock) ?evs)"
    by (simp add: WireResponse_write_to_def)
  ultimately obtain out where "write_response ?r ?evs = Some (out, Inr ())"
    using conjunct2 [OF response_sent_once [OF wf, of ?evs]] by blast
  with conjunct1 [OF response_sent_once [OF wf, of ?evs out "Inr ()" "[1]"]] show ?thesis by blast
qed

end
