(* ===== verification/PeerServerProps.thy ===== *)
theory PeerServerProps
  imports PeerServer PeerWireProps
begin

text \<open>
  The chunk server: every request is answered once under its number in every interleaving of the
  tasks; no request and no peer can put a chunk under a wrong checksum, and what is served matches
  the checksum asked for; only a local client can change the index; the index maintenance passes
  every chunk once.
\<close>

text \<open>A connection whose writes all succeed, with what was written.\<close>

definition log_response :: "WireResponse list \<Rightarrow> WireResponse \<Rightarrow> WireResponse list \<times> (error + unit)" where
  "log_response w r = (w @ [r], Inr ())"

subsection \<open>A server with one chunk\<close>

text \<open>Its only peer answers with other bytes.\<close>

definition one_store :: mem_chunks where
  "one_store = \<lparr>m_data = [(disk_of (demo_cs 3), [3, 4])], m_access = [], m_index = []\<rparr>"

definition demo_server_env :: "(mem_chunks, unit, unit, unit) server_env" where
  "demo_server_env =
     \<lparr>sv_store = mem_chunk_env 5, sv_digests = demo_digests,
      sv_client = Some \<lparr>pc_fetch = \<lambda>cs p. (p, Some [9]), pc_index = None\<rparr>\<rparr>"

definition demo_server :: "(mem_chunks, unit, unit) server" where
  "demo_server = \<lparr>sv_chunks = chunkdb_new one_store True, sv_index = (), sv_peer = ()\<rparr>"

definition demo_prefetch :: Request where
  "demo_prefetch = Request_new 7 PrefetchChunk (demo_cs 5) 0 0"

definition demo_connection :: "(mem_chunks, unit, unit, WireResponse list) connection" where
  "demo_connection =
     \<lparr>cn_unread = frame (demo_prefetch, None), cn_tasks = [], cn_actions = [], cn_out = [], cn_server = demo_server\<rparr>"

definition demo_miss :: "(mem_chunks, unit, unit, WireResponse list) connection" where
  "demo_miss =
     \<lparr>cn_unread = [], cn_tasks = [], cn_actions = [], cn_out = [status_response demo_prefetch STATUS_MISS], cn_server = demo_server\<rparr>"

lemma one_server_run: "(handler_step demo_server_env Tcp log_response (\<lambda>_ _. False))\<^sup>*\<^sup>* demo_connection demo_miss"
proof -
  let ?step = "handler_step demo_server_env Tcp log_response (\<lambda>_ _. False)"
  let ?x = "(demo_prefetch, None)" and ?a = "Immediate (status_response demo_prefetch STATUS_MISS)"
  let ?C = "\<lambda>ts as. \<lparr>cn_unread = [], cn_tasks = ts, cn_actions = as, cn_out = [], cn_server = demo_server\<rparr>"
  have "wf_frame ?x" by (simp add: wf_frame_def wf_request_def demo_prefetch_def Request_new_def)
  from h_read [of demo_connection ?x "[]"] read_inbound_frame [OF this, of "[]"]
  have "?step demo_connection (?C [?x] [])" by (simp add: demo_connection_def)
  moreover have pr: "process_request demo_server_env Tcp 900 ?x demo_server = Some (demo_server, Inr ?a)"
    by (simp add: process_request_def process_prefetch_def prefetch_from_peer_def ensure_full_chunk_def has_chunk_def
        demo_prefetch_def Request_new_def demo_server_env_def demo_server_def chunkdb_new_def one_store_def
        CheckSum_from_data_def demo_digests_def demo_cs_def)
  from h_process [of "?C [?x] []" "[]" ?x "[]" demo_server_env Tcp 900 demo_server ?a]
  have "?step (?C [?x] []) (?C [] [?a])" by (simp add: pr)
  moreover have "?step (?C [] [?a]) demo_miss"
    using h_write [of "?C [] [?a]" ?a "[]" demo_server_env log_response "sv_chunks demo_server" "[status_response demo_prefetch STATUS_MISS]"]
    by (simp add: writer_action_def log_response_def demo_miss_def)
  ultimately show ?thesis by (meson converse_rtranclp_into_rtranclp rtranclp.rtrancl_refl)
qed

subsection \<open>Answers\<close>

fun action_id :: "ResponseAction \<Rightarrow> nat" where
  "action_id (Immediate resp) = resp_id resp"
| "action_id (SendChunk i cs) = i"

abbreviation inbound_id :: "Request \<times> CheckSum list option \<Rightarrow> nat" where
  "inbound_id x \<equiv> request_id (fst x)"

lemma status_response_id [simp]: "resp_id (status_response r st) = request_id r"
  by (simp add: status_response_def)

lemma get_action_id [simp]: "action_id (get_action r) = request_id r"
  by (auto simp: get_action_def split: sum.split)

lemma process_prefetch_id: "process_prefetch E now r S = Some (S', resp) \<Longrightarrow> resp_id resp = request_id r"
  by (auto simp: process_prefetch_def split: sum.splits option.splits bool.splits)

lemma process_control_id: "process_control E tr r S = (S', resp) \<Longrightarrow> resp_id resp = request_id r"
  by (auto simp: process_control_def split: sum.splits if_splits prod.splits)

lemma process_control_batch_id: "process_control_batch E tr r css S = (S', resp) \<Longrightarrow> resp_id resp = request_id r"
  by (auto simp: process_control_batch_def split: sum.splits if_splits prod.splits)

lemma process_request_id:
  assumes "process_request E tr now x S = Some (S', Inr a)"
  shows "action_id a = inbound_id x"
  using assms
  by (cases x; cases "message_type (fst x)")
    (auto simp: process_request_def process_health_check_def split: sum.splits option.splits prod.splits
      dest: process_prefetch_id process_control_id process_control_batch_id)

lemma read_requests_Cons: "read_inbound s = Inr (x, s') \<Longrightarrow> fst (read_requests s) = x # fst (read_requests s')"
  by (subst read_requests.simps) (auto simp: read_inbound_def split: sum.splits prod.splits)

lemma writer_action_logs:
  assumes "writer_action L log_response a q w = (q', w', r)"
  shows "\<exists>resp. w' = w @ [resp] \<and> resp_id resp = action_id a"
  using assms
  by (cases a) (auto simp: writer_action_def log_response_def with_chunk_def split: sum.splits option.splits prod.splits)

definition answered :: "bytes \<Rightarrow> ('s, 'x, 'p, WireResponse list) connection \<Rightarrow> bool" where
  "answered s C \<longleftrightarrow> (\<exists>reqs. fst (read_requests s) = reqs @ fst (read_requests (cn_unread C)) \<and>
     mset (map inbound_id reqs) =
       mset (map resp_id (cn_out C)) + mset (map action_id (cn_actions C)) + mset (map inbound_id (cn_tasks C)))"

lemma answered_step: "handler_step E tr log_response other C C' \<Longrightarrow> answered s C \<Longrightarrow> answered s C'"
proof (induction rule: handler_step.induct)
  case (h_read C x s')
  then show ?case
    by (fastforce simp: answered_def dest: read_requests_Cons intro: exI [of _ "_ @ [x]"])
next
  case (h_process C xs x ys now S a)
  then show ?case by (auto simp: answered_def process_request_id)
next
  case (h_write C a as q w)
  then show ?case using writer_action_logs [OF h_write.hyps(2)] by (auto simp: answered_def)
next
  case (h_other C S)
  then show ?case by (simp add: answered_def)
qed

text \<open>
  C8: on a connection whose writes succeed, whatever the order in which requests are processed and
  responses written, the requests read so far are exactly the ones answered, waiting for the writer
  task or being processed: no request is answered twice, under another number, or dropped.
\<close>

theorem requests_answered_once:
  assumes "(handler_step E tr log_response other)\<^sup>*\<^sup>* C C'"
    and "cn_tasks C = []" "cn_actions C = []" "cn_out C = []"
  shows "\<exists>reqs. fst (read_requests (cn_unread C)) = reqs @ fst (read_requests (cn_unread C')) \<and>
     mset (map inbound_id reqs) =
       mset (map resp_id (cn_out C')) + mset (map action_id (cn_actions C')) + mset (map inbound_id (cn_tasks C'))"
proof -
  have "answered (cn_unread C) C" using assms(2-4) by (simp add: answered_def)
  with assms(1) have "answered (cn_unread C) C'"
    by (induction rule: rtranclp_induct) (auto intro: answered_step)
  then show ?thesis by (simp add: answered_def)
qed

theorem requests_answered_once_witness:
  "\<exists>reqs. fst (read_requests (frame (demo_prefetch, None))) = reqs @ fst (read_requests []) \<and>
    mset (map inbound_id reqs) = {#7#}"
  using requests_answered_once [OF one_server_run]
  by (simp add: demo_connection_def demo_miss_def demo_prefetch_def Request_new_def)

subsection \<open>Chunks\<close>

definition matches :: "digests \<Rightarrow> CheckSum \<Rightarrow> bytes \<Rightarrow> bool" where
  "matches H cs d \<longleftrightarrow> CheckSum_from_data H d (cs_method cs) = cs"

definition server_ok :: "('s, 'x, 'a, 'p) server_env \<Rightarrow> 's views \<Rightarrow> ('s, 'x, 'p) server \<Rightarrow> bool" where
  "server_ok E V S \<longleftrightarrow> chunk_env_ok (sv_store E) V \<and> chunks_ok (matches (sv_digests E)) V (sv_chunks S)"

lemma prefetch_keeps:
  assumes "server_ok E V S" "now < 2 ^ 64" "prefetch_from_peer E now r S = Some (S', x)"
  shows "server_ok E V S'"
proof -
  have keep: "chunks_ok (matches (sv_digests E)) V q"
    if "CheckSum_from_data (sv_digests E) data (cs_method (checksum r)) = checksum r"
      "add_chunk (sv_store E) now (checksum r) data (sv_chunks S) = Some (q, y)" for data q y
    using add_chunk_keeps [OF _ _ _ assms(2) that(2)] assms(1) that(1) by (simp add: server_ok_def matches_def)
  show ?thesis
    using assms(1,3) unfolding prefetch_from_peer_def server_ok_def
    by (auto split: sum.splits bool.splits option.splits prod.splits if_splits intro: keep)
qed

lemma process_control_chunks: "process_control E tr r S = (S', resp) \<Longrightarrow> sv_chunks S' = sv_chunks S"
  by (auto simp: process_control_def split: sum.splits if_splits prod.splits)

lemma process_control_batch_chunks: "process_control_batch E tr r css S = (S', resp) \<Longrightarrow> sv_chunks S' = sv_chunks S"
  by (auto simp: process_control_batch_def split: sum.splits if_splits prod.splits)

lemma server_ok_cong: "server_ok E V S \<Longrightarrow> sv_chunks S' = sv_chunks S \<Longrightarrow> server_ok E V S'"
  by (simp add: server_ok_def)

lemma process_prefetch_keeps:
  "server_ok E V S \<Longrightarrow> now < 2 ^ 64 \<Longrightarrow> process_prefetch E now r S = Some (S', resp) \<Longrightarrow> server_ok E V S'"
  by (auto simp: process_prefetch_def split: sum.splits option.splits bool.splits intro: prefetch_keeps)

text \<open>Besides a prefetch, only the index can change.\<close>

lemma process_request_chunks:
  assumes "process_request E tr now (r, css) S = Some (S', a)" "message_type r \<noteq> PrefetchChunk"
  shows "sv_chunks S' = sv_chunks S"
  using assms
  by (cases "message_type r")
    (auto simp: process_request_def split: option.splits prod.splits
      dest: process_control_chunks process_control_batch_chunks)

lemma process_request_prefetch:
  assumes "process_request E tr now (r, css) S = Some (S', a)" "message_type r = PrefetchChunk"
  shows "\<exists>resp. process_prefetch E now r S = Some (S', resp)"
  using assms by (auto simp: process_request_def)

lemma process_request_keeps:
  assumes "server_ok E V S" "now < 2 ^ 64" "process_request E tr now x S = Some (S', a)"
  shows "server_ok E V S'"
proof -
  obtain r css where x: "x = (r, css)" by (cases x)
  show ?thesis
  proof (cases "message_type r = PrefetchChunk")
    case True
    then obtain resp where "process_prefetch E now r S = Some (S', resp)"
      using process_request_prefetch assms(3) x by blast
    with assms(1,2) show ?thesis by (rule process_prefetch_keeps)
  next
    case False
    have "sv_chunks S' = sv_chunks S"
      using process_request_chunks [OF assms(3) [unfolded x] False] .
    with assms(1) show ?thesis by (rule server_ok_cong)
  qed
qed

lemma writer_action_keeps:
  assumes "chunk_env_ok L V" "writer_action L wr a q w = (q', w', r)"
  shows "env q' = env q \<and> high q' = high q"
proof (cases a)
  case (Immediate resp)
  then show ?thesis using assms(2) by (auto simp: writer_action_def split: prod.splits)
next
  case (SendChunk i cs)
  let ?f = "\<lambda>w data. case wr w \<lparr>resp_id = i, resp_status = STATUS_HIT, resp_payload = data\<rparr> of
                (w', Inl e) \<Rightarrow> (w', Inl e)
              | (w', Inr _) \<Rightarrow> (w', Inr (length data))"
  obtain q1 w1 x where run: "with_chunk L cs ?f q w = (q1, w1, x)" by (rule prod_cases3)
  then have "q' = q1"
    using assms(2) SendChunk by (auto simp: writer_action_def split: sum.splits option.splits prod.splits)
  then show ?thesis using with_chunk_result [OF assms(1) run] by blast
qed

lemma server_ok_step:
  assumes "handler_step E tr wr other C C'" "server_ok E V (cn_server C)"
    and "\<And>S S'. other S S' \<Longrightarrow> server_ok E V S \<Longrightarrow> server_ok E V S'"
  shows "server_ok E V (cn_server C')"
  using assms
proof (induction rule: handler_step.induct)
  case (h_read C x s)
  then show ?case by simp
next
  case (h_process C xs x ys now S a)
  then show ?case by (simp add: process_request_keeps)
next
  case (h_write C a as q w)
  have "chunk_env_ok (sv_store E) V" using h_write.prems by (simp add: server_ok_def)
  from writer_action_keeps [OF this h_write.hyps(2)] show ?case
    using h_write.prems by (simp add: server_ok_def chunks_ok_def)
next
  case (h_other C S)
  then show ?case by simp
qed

text \<open>
  C7: whatever requests arrive on a connection and whatever bytes other peers return for a chunk
  that is prefetched, every stored chunk keeps matching the checksum it is stored under, provided
  the rest of the process keeps this.
\<close>

theorem requests_keep_chunks:
  assumes "(handler_step E tr wr other)\<^sup>*\<^sup>* C C'"
    and "chunk_env_ok (sv_store E) V" "chunks_ok (matches (sv_digests E)) V (sv_chunks (cn_server C))"
    and "\<And>S S'. other S S' \<Longrightarrow> chunks_ok (matches (sv_digests E)) V (sv_chunks S) \<Longrightarrow>
      chunks_ok (matches (sv_digests E)) V (sv_chunks S')"
  shows "chunks_ok (matches (sv_digests E)) V (sv_chunks (cn_server C'))"
proof -
  have "server_ok E V (cn_server C)" using assms(2,3) by (simp add: server_ok_def)
  with assms(1) have "server_ok E V (cn_server C')"
  proof (induction rule: rtranclp_induct)
    case (step C1 C2)
    have "server_ok E V S'" if "other S S'" "server_ok E V S" for S S'
      using assms(4) [OF that(1)] that(2) by (simp add: server_ok_def)
    from server_ok_step [OF step.hyps(2) step.IH [OF step.prems] this] show ?case .
  qed
  then show ?thesis by (simp add: server_ok_def)
qed

lemma one_server_chunks: "chunks_ok (matches demo_digests) mem_views (sv_chunks demo_server)"
proof -
  have "CheckSum_from_data demo_digests [3, 4] Blake3 = demo_cs 3"
    by (simp add: CheckSum_from_data_def demo_digests_def demo_cs_def)
  moreover have "cs = demo_cs 3" if "disk_of cs = disk_of (demo_cs 3)" for cs
    using that by (metis checksum_of_disk_of)
  ultimately show ?thesis
    by (auto simp: chunks_ok_def stored_ok_def matches_def mem_views_def demo_server_def chunkdb_new_def one_store_def demo_cs_def)
qed

theorem requests_keep_chunks_witness:
  "(handler_step demo_server_env Tcp log_response (\<lambda>_ _. False))\<^sup>*\<^sup>* demo_connection demo_miss \<and>
    chunks_ok (matches demo_digests) mem_views (sv_chunks (cn_server demo_miss))"
  using requests_keep_chunks [OF one_server_run, of mem_views] one_server_run one_server_chunks
  by (simp add: demo_server_env_def mem_chunk_env_ok demo_connection_def)

text \<open>
  C16: the answer to a request for a chunk: over a working connection one response goes out; a hit
  carries the stored bytes, which match the checksum asked for, a miss means that the chunk is not
  stored, and anything else is an error without a payload.
\<close>

theorem served_chunk_matches:
  assumes ok: "chunk_env_ok L V" and st: "chunks_ok (matches H) V q"
    and run: "writer_action L log_response (SendChunk i cs) q w = (q', w', r)"
  shows "\<exists>resp. r = Inr () \<and> w' = w @ [resp] \<and> resp_id resp = i \<and>
    (if resp_status resp = STATUS_HIT
     then v_data V (env q) (disk_of cs) = Some (resp_payload resp) \<and> CheckSum_from_data H (resp_payload resp) (cs_method cs) = cs
     else resp_payload resp = [] \<and>
       (if resp_status resp = STATUS_MISS then v_data V (env q) (disk_of cs) = None else resp_status resp = STATUS_ERROR))"
proof -
  have st_ne: "STATUS_MISS \<noteq> STATUS_HIT" "STATUS_ERROR \<noteq> STATUS_HIT" "STATUS_ERROR \<noteq> STATUS_MISS"
    by (simp_all add: STATUS_HIT_def STATUS_MISS_def STATUS_ERROR_def)
  let ?f = "\<lambda>w data. case log_response w \<lparr>resp_id = i, resp_status = STATUS_HIT, resp_payload = data\<rparr> of
                (w', Inl e) \<Rightarrow> (w', Inl e)
              | (w', Inr _) \<Rightarrow> (w', Inr (length data))"
  obtain q1 w1 x where wc: "with_chunk L cs ?f q w = (q1, w1, x)" by (rule prod_cases3)
  have m: "CheckSum_from_data H d (cs_method cs) = cs" if "v_data V (env q) (disk_of cs) = Some d" for d
    using st that by (simp add: chunks_ok_def stored_ok_def matches_def)
  have wa: "writer_action L log_response (SendChunk i cs) q w =
      (q1, w1 @ (case x of Inr (Some n) \<Rightarrow> [] | Inr None \<Rightarrow> [\<lparr>resp_id = i, resp_status = STATUS_MISS, resp_payload = []\<rparr>]
        | Inl e \<Rightarrow> [\<lparr>resp_id = i, resp_status = STATUS_ERROR, resp_payload = []\<rparr>]), Inr ())"
    using wc by (simp add: writer_action_def log_response_def split: sum.split option.split)
  from with_chunk_result [OF ok wc]
  consider (failed) e where "w1 = w" "x = Inl e" | (missing) "w1 = w" "x = Inr None" "v_data V (env q) (disk_of cs) = None"
    | (hit) d where "v_data V (env q) (disk_of cs) = Some d" "x = Inr (Some (length d))"
        "w1 = w @ [\<lparr>resp_id = i, resp_status = STATUS_HIT, resp_payload = d\<rparr>]"
    by (auto simp: log_response_def)
  then show ?thesis
  proof cases
    case hit
    then show ?thesis
      using run wa m [OF hit(1)]
      by (intro exI [of _ "\<lparr>resp_id = i, resp_status = STATUS_HIT, resp_payload = d\<rparr>"]) simp
  next
    case failed
    then show ?thesis
      using run wa st_ne by (intro exI [of _ "\<lparr>resp_id = i, resp_status = STATUS_ERROR, resp_payload = []\<rparr>"]) simp
  next
    case missing
    then show ?thesis
      using run wa st_ne by (intro exI [of _ "\<lparr>resp_id = i, resp_status = STATUS_MISS, resp_payload = []\<rparr>"]) simp
  qed
qed

theorem served_chunk_matches_witness:
  "\<exists>q' resp. writer_action (mem_chunk_env 5) log_response (SendChunk 9 (demo_cs 3)) (sv_chunks demo_server) [] = (q', [resp], Inr ()) \<and>
    resp_id resp = 9 \<and> (resp_status resp = STATUS_HIT \<longrightarrow> resp_payload resp = [3, 4])"
proof -
  obtain q' w' r where run: "writer_action (mem_chunk_env 5) log_response (SendChunk 9 (demo_cs 3)) (sv_chunks demo_server) [] = (q', w', r)"
    by (rule prod_cases3)
  from served_chunk_matches [OF mem_chunk_env_ok one_server_chunks run] obtain resp where
    "r = Inr ()" "w' = [resp]" "resp_id resp = 9"
    "resp_status resp = STATUS_HIT \<Longrightarrow> v_data mem_views (env (sv_chunks demo_server)) (disk_of (demo_cs 3)) = Some (resp_payload resp)"
    by auto
  with run show ?thesis by (simp add: mem_views_def demo_server_def chunkdb_new_def one_store_def)
qed

subsection \<open>Control requests\<close>

text \<open>
  C32: over TCP a peer cannot change the chunk index: no request does, and every registration or its
  withdrawal is answered with an error.
\<close>

theorem tcp_cannot_control:
  assumes "process_request E Tcp now (r, css) S = Some (S', a)"
  shows "sv_index S' = sv_index S \<and>
    (message_type r \<in> {RegisterChunk, UnregisterChunk} \<or>
     message_type r \<in> {RegisterChunks, UnregisterChunks} \<and> css \<noteq> None \<longrightarrow>
     a = Inr (Immediate (status_response r STATUS_ERROR)) \<and> S' = S)"
proof -
  have p: "sv_index S1 = sv_index S" if "process_prefetch E now r S = Some (S1, resp)" for S1 resp
    using that
    by (auto simp: process_prefetch_def prefetch_from_peer_def split: sum.splits option.splits bool.splits prod.splits if_splits)
  then show ?thesis
    using assms
    by (cases "message_type r")
      (auto simp: process_request_def process_control_def process_control_batch_def split: option.splits prod.splits)
qed

theorem tcp_cannot_control_witness:
  "process_request demo_server_env Tcp 900 (whole_chunk RegisterChunk (demo_cs 3), None) demo_server =
    Some (demo_server, Inr (Immediate (status_response (whole_chunk RegisterChunk (demo_cs 3)) STATUS_ERROR)))"
proof -
  let ?r = "whole_chunk RegisterChunk (demo_cs 3)"
  obtain S' a where run: "process_request demo_server_env Tcp 900 (?r, None) demo_server = Some (S', a)"
    by (simp add: process_request_def process_control_def whole_chunk_def Request_new_def)
  have "message_type ?r = RegisterChunk" by (simp add: whole_chunk_def Request_new_def)
  with tcp_cannot_control [OF run] show ?thesis using run by simp
qed

subsection \<open>Index maintenance\<close>

text \<open>
  An index whose operations succeed and do \<open>reg\<close> for each checksum of a batch.  Both loops do what
  one pass over the listing would do; so does the repair, one batch a tick.
\<close>

lemma list_batches_induct [consumes 1, case_names last_batch batch]:
  fixes L :: "('s, 'm) chunk_env_scheme"
  assumes run: "list_batches L n cursor acc q = Some (Inr css)"
    and base: "\<And>cursor. next_chunk_batch L cursor n q = Inr [] \<Longrightarrow> P cursor css"
    and step: "\<And>cursor acc b. next_chunk_batch L cursor n q = Inr b \<Longrightarrow> b \<noteq> [] \<Longrightarrow> P (Some (last b)) (acc @ b) \<Longrightarrow> P cursor acc"
  shows "P cursor acc"
proof -
  define Q where "Q L' n' c a q' r \<longleftrightarrow> (L' = L \<longrightarrow> n' = n \<longrightarrow> q' = q \<longrightarrow> r = Inr css \<longrightarrow> P c a)"
    for L' :: "('s, 'm) chunk_env_scheme" and n' c a q' and r :: "error + CheckSum list"
  have "Q L n cursor acc q (Inr css)"
  proof (rule list_batches.raw_induct [where P = Q, OF _ run])
    fix rec L' n' c a q' r
    assume IH: "\<And>L n c a q r. rec L n c a q = Some r \<Longrightarrow> Q L n c a q r"
      and eq: "(case next_chunk_batch (L' :: ('s, 'm) chunk_env_scheme) c n' q' of Inl e \<Rightarrow> Some (Inl e)
        | Inr b \<Rightarrow> if b = [] then Some (Inr a) else rec L' n' (Some (last b)) (a @ b) q') = Some r"
    show "Q L' n' c a q' r"
      unfolding Q_def
    proof (intro impI)
      assume h: "L' = L" "n' = n" "q' = q" "r = Inr css"
      obtain b where b: "next_chunk_batch L c n q = Inr b"
        using eq h by (cases "next_chunk_batch L c n q") auto
      show "P c a"
      proof (cases "b = []")
        case True
        then show ?thesis using eq h b base [of c] by simp
      next
        case False
        then have "rec L n (Some (last b)) (a @ b) q = Some (Inr css)" using eq h b by simp
        from IH [OF this] have "P (Some (last b)) (a @ b)" by (simp add: Q_def)
        with b False show ?thesis by (rule step)
      qed
    qed
  qed
  then show ?thesis by (simp add: Q_def)
qed

lemma sync_loop_lists:
  assumes "\<And>css x. sync_existing_chunks ix css x = (fold reg css x, Inr (length css))"
    and "list_batches L INDEX_SYNC_BATCH_SIZE cursor acc q = Some (Inr css)"
  shows "\<exists>rest. css = acc @ rest \<and> (\<forall>x k. sync_loop L ix q k cursor x = Some (fold reg rest x, k + length rest, Inr ()))"
  using assms(2)
proof (induction rule: list_batches_induct)
  case (last_batch cursor)
  then show ?case by (simp add: sync_loop.simps)
next
  case (batch cursor acc b)
  then obtain rest where rest: "css = acc @ b @ rest"
    "\<And>x k. sync_loop L ix q k (Some (last b)) x = Some (fold reg rest x, k + length rest, Inr ())" by auto
  have "sync_loop L ix q k cursor x = Some (fold reg (b @ rest) x, k + length (b @ rest), Inr ())" for x k
    by (subst sync_loop.simps) (simp add: batch.hyps assms(1) rest(2))
  with rest(1) show ?case by blast
qed

lemma refresh_loop_lists:
  assumes "\<And>css x. register_batch ix css x = (fold reg css x, Inr ())"
    and "list_batches L INDEX_SYNC_BATCH_SIZE cursor acc q = Some (Inr css)"
  shows "\<exists>rest. css = acc @ rest \<and> (\<forall>x k. refresh_loop L ix q k cursor x = Some (fold reg rest x, Inr (k + length rest)))"
  using assms(2)
proof (induction rule: list_batches_induct)
  case (last_batch cursor)
  then show ?case by (simp add: refresh_loop.simps)
next
  case (batch cursor acc b)
  then obtain rest where rest: "css = acc @ b @ rest"
    "\<And>x k. refresh_loop L ix q k (Some (last b)) x = Some (fold reg rest x, Inr (k + length rest))" by auto
  have "refresh_loop L ix q k cursor x = Some (fold reg (b @ rest) x, Inr (k + length (b @ rest)))" for x k
    by (subst refresh_loop.simps) (simp add: batch.hyps assms(1) rest(2))
  with rest(1) show ?case by blast
qed

text \<open>\<open>n\<close> ticks of the repair from a cursor.\<close>

fun repair_ticks ::
  "('s, 'm) chunk_env_scheme \<Rightarrow> ('x, 'a) chunk_index \<Rightarrow> 's chunkdb \<Rightarrow> nat \<Rightarrow> CheckSum option \<times> 'x \<Rightarrow> CheckSum option \<times> 'x" where
  "repair_ticks L ix q 0 st = st"
| "repair_ticks L ix q (Suc n) (cursor, x) =
     (case maintainer_repair L ix q cursor x of (x', cursor', _) \<Rightarrow> repair_ticks L ix q n (cursor', x'))"

lemma repair_ticks_lists:
  assumes "\<And>css x. fst (repair_missing_owners ix css x) = fold reg css x"
    and "list_batches L INDEX_REPAIR_BATCH_SIZE cursor acc q = Some (Inr css)"
  shows "\<exists>rest n. css = acc @ rest \<and> (\<forall>x. repair_ticks L ix q (Suc n) (cursor, x) = (None, fold reg rest x))"
  using assms(2)
proof (induction rule: list_batches_induct)
  case (last_batch cursor)
  then show ?case by (auto simp: maintainer_repair_def intro!: exI [of _ 0])
next
  case (batch cursor acc b)
  then obtain rest n where rest: "css = acc @ b @ rest"
    "\<And>x. repair_ticks L ix q (Suc n) (Some (last b), x) = (None, fold reg rest x)" by auto
  have "repair_ticks L ix q (Suc (Suc n)) (cursor, x) = (None, fold reg (b @ rest) x)" for x
  proof -
    obtain r where r: "repair_missing_owners ix b x = (fold reg b x, r)"
      using assms(1) [of b x] by (cases "repair_missing_owners ix b x") auto
    have "maintainer_repair L ix q cursor x = (fold reg b x, Some (last b), r)"
      by (simp add: maintainer_repair_def batch.hyps r)
    then show ?thesis using rest(2) [of "fold reg b x"] by (simp del: repair_ticks.simps add: repair_ticks.simps(2) [of _ _ _ "Suc n"])
  qed
  with rest(1) show ?case by blast
qed


definition recording_index :: "(CheckSum list, unit) chunk_index" where
  "recording_index =
     \<lparr>lookup_owners = \<lambda>cs x. (x, Inr []), register = \<lambda>cs x. (x @ [cs], Inr ()),
      register_batch = \<lambda>css x. (fold (\<lambda>cs x. x @ [cs]) css x, Inr ()), unregister = \<lambda>cs x. (x, Inr ()),
      unregister_batch = \<lambda>css x. (x, Inr ()), sync_existing_chunks = \<lambda>css x. (fold (\<lambda>cs x. x @ [cs]) css x, Inr (length css)),
      refresh_registered = \<lambda>t x. (x, Inr None),
      repair_missing_owners = \<lambda>css x. (fold (\<lambda>cs x. x @ [cs]) css x, Inr None), refresh_interval = None\<rparr>"


end
