(* ===== verification/PeerIndex.thy ===== *)
theory PeerIndex
  imports PeerServer
begin

text \<open>
  \<open>src/backend/peer.rs\<close>: the chunk index in Redis.  Each chunk has a sorted set of the addresses that
  hold it, scored by the time of their registration; a script that Redis runs atomically adds an
  address, drops the ones that are too old and keeps at most the newest \<open>MAX_CHUNK_OWNERS\<close>.

  Redis is not part of the program: the sorted-set commands are arguments (\<open>zset_ops\<close>), over a state
  \<open>'r\<close> of the server and the world around it.  Between two commands of a pipeline other nodes may run
  theirs (\<open>rd_others\<close>); a pipeline may fail before any of its answers has arrived, while the server
  still runs some of its commands (\<open>rd_fault\<close>).  The tracker, a hash set, is a list without
  repetitions; \<open>rd_order\<close> is the order in which it is iterated.
\<close>

subsection \<open>The register script\<close>

record 'r zset_ops =
  z_remrangebyscore :: "string \<Rightarrow> int \<Rightarrow> 'r \<Rightarrow> 'r"
  z_add :: "string \<Rightarrow> int \<Rightarrow> string \<Rightarrow> 'r \<Rightarrow> 'r"
  z_card :: "string \<Rightarrow> 'r \<Rightarrow> nat"
  z_remrangebyrank :: "string \<Rightarrow> nat \<Rightarrow> nat \<Rightarrow> 'r \<Rightarrow> 'r"
  z_expire :: "string \<Rightarrow> nat \<Rightarrow> 'r \<Rightarrow> 'r"
  z_score :: "string \<Rightarrow> string \<Rightarrow> 'r \<Rightarrow> int option"
  z_rangebyscore :: "string \<Rightarrow> int \<Rightarrow> 'r \<Rightarrow> string list"
  z_rem :: "string \<Rightarrow> string \<Rightarrow> 'r \<Rightarrow> 'r"

definition MAX_CHUNK_OWNERS :: nat where "MAX_CHUNK_OWNERS = 3"
definition REDIS_REGISTER_BATCH_SIZE :: nat where "REDIS_REGISTER_BATCH_SIZE = 1000"

definition method_name :: "CheckSumMethod \<Rightarrow> string" where
  "method_name m = (case m of Sha256 \<Rightarrow> ''Sha256'' | Blake3 \<Rightarrow> ''Blake3'' | Unknown \<Rightarrow> ''Unknown'')"

definition CheckSum_display :: "(bytes \<Rightarrow> string) \<Rightarrow> CheckSum \<Rightarrow> string" where
  "CheckSum_display hex cs = method_name (cs_method cs) @ '':'' @ hex (cs_raw cs)"

definition chunk_index_key :: "(bytes \<Rightarrow> string) \<Rightarrow> CheckSum \<Rightarrow> string" where
  "chunk_index_key hex cs = ''distill-fs:chunk-owner:'' @ CheckSum_display hex cs"

definition register_script :: "'r zset_ops \<Rightarrow> string \<Rightarrow> string \<Rightarrow> int \<Rightarrow> nat \<Rightarrow> nat \<Rightarrow> 'r \<Rightarrow> 'r \<times> bool" where
  "register_script Z key addr now ttl max_owners r =
     (let cutoff = now - int ttl;
          r1 = z_remrangebyscore Z key cutoff r;
          r2 = z_add Z key now addr r1;
          n = z_card Z key r2;
          r3 = (if n > max_owners then z_remrangebyrank Z key 0 (n - max_owners - 1) r2 else r2);
          r4 = z_expire Z key ttl r3
      in (r4, z_score Z key addr r4 \<noteq> None))"

subsection \<open>The tracker\<close>

definition insert_many :: "CheckSumOnDisk list \<Rightarrow> CheckSumOnDisk list \<Rightarrow> CheckSumOnDisk list" where
  "insert_many css t = fold List.insert css t"

definition remove_many :: "CheckSumOnDisk list \<Rightarrow> CheckSumOnDisk list \<Rightarrow> CheckSumOnDisk list" where
  "remove_many css t = fold removeAll css t"

definition tracker_contains :: "CheckSum \<Rightarrow> CheckSumOnDisk list \<Rightarrow> bool" where
  "tracker_contains cs t \<longleftrightarrow> disk_of cs \<in> set t"

definition tracker_snapshot :: "(CheckSumOnDisk list \<Rightarrow> CheckSumOnDisk list) \<Rightarrow> CheckSumOnDisk list \<Rightarrow> CheckSum list" where
  "tracker_snapshot order t = map checksum_of (order t)"

subsection \<open>The connection to Redis\<close>

record ('r, 'a) redis_env =
  rd_zset :: "'r zset_ops"
  rd_hex :: "bytes \<Rightarrow> string"
  rd_parse :: "string \<Rightarrow> 'a option"
  rd_clock :: "'r \<Rightarrow> nat"
  rd_others :: "'r \<Rightarrow> 'r"
  rd_connect :: "'r \<Rightarrow> error option"
  rd_load :: "'r \<Rightarrow> error option"
  rd_fault :: "'r \<Rightarrow> (error \<times> nat) option"
  rd_order :: "CheckSumOnDisk list \<Rightarrow> CheckSumOnDisk list"

record 'r redis_index =
  ri_redis :: 'r
  ri_connected :: bool
  ri_script_loaded :: bool
  ri_addr :: string
  ri_ttl :: nat
  ri_tracker :: "CheckSumOnDisk list"

definition redis_index_new :: "'r \<Rightarrow> string \<Rightarrow> nat \<Rightarrow> 'r redis_index" where
  "redis_index_new r addr ttl =
     \<lparr>ri_redis = r, ri_connected = False, ri_script_loaded = False, ri_addr = addr, ri_ttl = ttl, ri_tracker = []\<rparr>"

definition redis_conn :: "('r, 'a) redis_env \<Rightarrow> 'r redis_index \<Rightarrow> 'r redis_index \<times> (error + unit)" where
  "redis_conn E x =
     (if ri_connected x then (x, Inr ())
      else case rd_connect E (ri_redis x) of
        Some e \<Rightarrow> (x, Inl e)
      | None \<Rightarrow> (x\<lparr>ri_script_loaded := False, ri_connected := True\<rparr>, Inr ()))"

definition load_register_script :: "('r, 'a) redis_env \<Rightarrow> 'r redis_index \<Rightarrow> 'r redis_index \<times> (error + unit)" where
  "load_register_script E x =
     (if ri_script_loaded x then (x, Inr ())
      else case rd_load E (ri_redis x) of
        Some e \<Rightarrow> (x, Inl e)
      | None \<Rightarrow> (x\<lparr>ri_script_loaded := True\<rparr>, Inr ()))"

definition live_owner_cutoff :: "('r, 'a) redis_env \<Rightarrow> 'r redis_index \<Rightarrow> int" where
  "live_owner_cutoff E x = int (rd_clock E (ri_redis x) - ri_ttl x)"

text \<open>The commands of a pipeline and their answers.\<close>

fun run_pipe :: "('r, 'a) redis_env \<Rightarrow> ('r \<Rightarrow> 'r \<times> 'b) list \<Rightarrow> 'r \<Rightarrow> 'r \<times> (error + 'b list)" where
  "run_pipe E [] r = (r, Inr [])"
| "run_pipe E (c # cs) r =
     (case rd_fault E r of
        Some (e, n) \<Rightarrow> (fold (\<lambda>c r. fst (c (rd_others E r))) (take n (c # cs)) r, Inl e)
      | None \<Rightarrow>
          (case c (rd_others E r) of (r1, b) \<Rightarrow>
             (case run_pipe E cs r1 of
                (r2, Inl e) \<Rightarrow> (r2, Inl e)
              | (r2, Inr bs) \<Rightarrow> (r2, Inr (b # bs)))))"

text \<open>One pipeline per batch, the answers put together; the first error ends it.\<close>

fun run_batches ::
  "('r, 'a) redis_env \<Rightarrow> (CheckSum \<Rightarrow> 'r \<Rightarrow> 'r \<times> 'b) \<Rightarrow> CheckSum list list \<Rightarrow> 'r \<Rightarrow> 'r \<times> (error + (CheckSum \<times> 'b) list)" where
  "run_batches E c [] r = (r, Inr [])"
| "run_batches E c (b # bs) r =
     (case run_pipe E (map c b) r of
        (r1, Inl e) \<Rightarrow> (r1, Inl e)
      | (r1, Inr vals) \<Rightarrow>
          (case run_batches E c bs r1 of
             (r2, Inl e) \<Rightarrow> (r2, Inl e)
           | (r2, Inr rest) \<Rightarrow> (r2, Inr (zip b vals @ rest))))"

subsection \<open>The operations\<close>

definition lookup_command :: "('r, 'a) redis_env \<Rightarrow> int \<Rightarrow> CheckSum \<Rightarrow> 'r \<Rightarrow> 'r \<times> string list" where
  "lookup_command E cutoff cs r = (r, z_rangebyscore (rd_zset E) (chunk_index_key (rd_hex E) cs) cutoff r)"

definition register_command :: "('r, 'a) redis_env \<Rightarrow> string \<Rightarrow> int \<Rightarrow> nat \<Rightarrow> CheckSum \<Rightarrow> 'r \<Rightarrow> 'r \<times> bool" where
  "register_command E addr now ttl cs r =
     register_script (rd_zset E) (chunk_index_key (rd_hex E) cs) addr now ttl MAX_CHUNK_OWNERS r"

definition unregister_command :: "('r, 'a) redis_env \<Rightarrow> string \<Rightarrow> CheckSum \<Rightarrow> 'r \<Rightarrow> 'r \<times> unit" where
  "unregister_command E addr cs r = (z_rem (rd_zset E) (chunk_index_key (rd_hex E) cs) addr r, ())"

definition lookup_owner_values ::
  "('r, 'a) redis_env \<Rightarrow> CheckSum list \<Rightarrow> 'r redis_index \<Rightarrow> 'r redis_index \<times> (error + (CheckSum \<times> string list) list)" where
  "lookup_owner_values E css x =
     (if css = [] then (x, Inr [])
      else case redis_conn E x of
        (x1, Inl e) \<Rightarrow> (x1, Inl e)
      | (x1, Inr _) \<Rightarrow>
          (case run_batches E (lookup_command E (live_owner_cutoff E x1)) (chunks_of REDIS_REGISTER_BATCH_SIZE css) (ri_redis x1) of
             (r, res) \<Rightarrow> (x1\<lparr>ri_redis := r\<rparr>, res)))"

fun parse_all :: "(string \<Rightarrow> 'a option) \<Rightarrow> string list \<Rightarrow> error + 'a list" where
  "parse_all parse [] = Inr []"
| "parse_all parse (v # vs) =
     (case parse v of
        None \<Rightarrow> Inl (Anyhow ''invalid socket address syntax'')
      | Some a \<Rightarrow> (case parse_all parse vs of Inl e \<Rightarrow> Inl e | Inr as \<Rightarrow> Inr (a # as)))"

definition resolve_owners :: "('r, 'a) redis_env \<Rightarrow> CheckSum \<Rightarrow> 'r redis_index \<Rightarrow> 'r redis_index \<times> (error + 'a list)" where
  "resolve_owners E cs x =
     (case lookup_owner_values E [cs] x of
        (x', Inl e) \<Rightarrow> (x', Inl e)
      | (x', Inr owners) \<Rightarrow> (x', parse_all (rd_parse E) (case owners of [] \<Rightarrow> [] | (_, vs) # _ \<Rightarrow> vs)))"

definition register_many :: "('r, 'a) redis_env \<Rightarrow> CheckSum list \<Rightarrow> 'r redis_index \<Rightarrow> 'r redis_index \<times> (error + nat)" where
  "register_many E css x =
     (if css = [] then (x, Inr 0)
      else case redis_conn E x of
        (x1, Inl e) \<Rightarrow> (x1, Inl e)
      | (x1, Inr _) \<Rightarrow>
          (case load_register_script E x1 of
             (x2, Inl e) \<Rightarrow> (x2, Inl e)
           | (x2, Inr _) \<Rightarrow>
               (let now = int (rd_clock E (ri_redis x2)) in
                case run_batches E (register_command E (ri_addr x2) now (ri_ttl x2))
                       (chunks_of REDIS_REGISTER_BATCH_SIZE css) (ri_redis x2) of
                  (r, Inl e) \<Rightarrow> (x2\<lparr>ri_redis := r\<rparr>, Inl e)
                | (r, Inr answers) \<Rightarrow>
                    (let retained = map (\<lambda>a. disk_of (fst a)) (filter snd answers) in
                     (x2\<lparr>ri_redis := r, ri_tracker := insert_many retained (ri_tracker x2)\<rparr>, Inr (length retained))))))"

definition unregister_many :: "('r, 'a) redis_env \<Rightarrow> CheckSum list \<Rightarrow> 'r redis_index \<Rightarrow> 'r redis_index \<times> (error + unit)" where
  "unregister_many E css x =
     (if css = [] then (x, Inr ())
      else case redis_conn E x of
        (x1, Inl e) \<Rightarrow> (x1, Inl e)
      | (x1, Inr _) \<Rightarrow>
          (case run_batches E (unregister_command E (ri_addr x1)) (chunks_of REDIS_REGISTER_BATCH_SIZE css) (ri_redis x1) of
             (r, Inl e) \<Rightarrow> (x1\<lparr>ri_redis := r\<rparr>, Inl e)
           | (r, Inr _) \<Rightarrow>
               (x1\<lparr>ri_redis := r, ri_tracker := remove_many (map disk_of css) (ri_tracker x1)\<rparr>, Inr ())))"

definition sync_tracked :: "string \<Rightarrow> (CheckSum \<times> string list) list \<Rightarrow> CheckSum list" where
  "sync_tracked addr answers = map fst (filter (\<lambda>(_, owners). addr \<in> set owners) answers)"

definition sync_missing :: "string \<Rightarrow> (CheckSum \<times> string list) list \<Rightarrow> CheckSum list" where
  "sync_missing addr answers =
     map fst (filter (\<lambda>(_, owners). addr \<notin> set owners \<and> length owners < MAX_CHUNK_OWNERS) answers)"

definition sync_chunks :: "('r, 'a) redis_env \<Rightarrow> CheckSum list \<Rightarrow> 'r redis_index \<Rightarrow> 'r redis_index \<times> (error + nat)" where
  "sync_chunks E css x =
     (case lookup_owner_values E css x of
        (x1, Inl e) \<Rightarrow> (x1, Inl e)
      | (x1, Inr answers) \<Rightarrow>
          (let tracked = map disk_of (sync_tracked (ri_addr x1) answers);
               x2 = x1\<lparr>ri_tracker := insert_many tracked (ri_tracker x1)\<rparr>
           in case register_many E (sync_missing (ri_addr x1) answers) x2 of
             (x3, Inl e) \<Rightarrow> (x3, Inl e)
           | (x3, Inr n) \<Rightarrow> (x3, Inr (length tracked + n))))"

text \<open>The pauses between the batches only let time pass.\<close>

fun refresh_batches :: "('r, 'a) redis_env \<Rightarrow> CheckSum list list \<Rightarrow> nat \<Rightarrow> 'r redis_index \<Rightarrow> 'r redis_index \<times> (error + nat)" where
  "refresh_batches E [] tot x = (x, Inr tot)"
| "refresh_batches E (b # bs) tot x =
     (case register_many E b x of
        (x1, Inl e) \<Rightarrow> (x1, Inl e)
      | (x1, Inr n) \<Rightarrow> refresh_batches E bs (tot + n) x1)"

definition refresh_registrations :: "('r, 'a) redis_env \<Rightarrow> 'r redis_index \<Rightarrow> 'r redis_index \<times> (error + nat)" where
  "refresh_registrations E x =
     refresh_batches E (chunks_of REDIS_REGISTER_BATCH_SIZE (tracker_snapshot (rd_order E) (ri_tracker x))) 0 x"

definition repair_missing_chunks :: "('r, 'a) redis_env \<Rightarrow> CheckSum list \<Rightarrow> 'r redis_index \<Rightarrow> 'r redis_index \<times> (error + nat)" where
  "repair_missing_chunks E css x = sync_chunks E (filter (\<lambda>cs. \<not> tracker_contains cs (ri_tracker x)) css) x"

subsection \<open>The index as a chunk index\<close>

definition unit_result :: "'x \<times> (error + nat) \<Rightarrow> 'x \<times> (error + unit)" where
  "unit_result y = (case y of (x, Inl e) \<Rightarrow> (x, Inl e) | (x, Inr _) \<Rightarrow> (x, Inr ()))"

definition some_result :: "'x \<times> (error + nat) \<Rightarrow> 'x \<times> (error + nat option)" where
  "some_result y = (case y of (x, Inl e) \<Rightarrow> (x, Inl e) | (x, Inr n) \<Rightarrow> (x, Inr (Some n)))"

definition redis_chunk_index :: "('r, 'a) redis_env \<Rightarrow> nat \<Rightarrow> ('r redis_index, 'a) chunk_index" where
  "redis_chunk_index E ttl =
     \<lparr>lookup_owners = resolve_owners E,
      register = \<lambda>cs x. unit_result (register_many E [cs] x),
      register_batch = \<lambda>css x. unit_result (register_many E css x),
      unregister = \<lambda>cs. unregister_many E [cs],
      unregister_batch = unregister_many E,
      sync_existing_chunks = sync_chunks E,
      refresh_registered = \<lambda>spread_over x. some_result (refresh_registrations E x),
      repair_missing_owners = \<lambda>css x. some_result (repair_missing_chunks E css x),
      refresh_interval = Some (max (ttl div 3) 1)\<rparr>"

end
