(* ===== verification/PeerIndexProps.thy ===== *)
theory PeerIndexProps
  imports PeerIndex
begin

text \<open>
  The chunk index in Redis: what the register script leaves in a sorted set; that no chunk gets more
  owners than the limit whatever fails and whatever other nodes do; and, when nothing interferes,
  that the tracker of a node is what Redis holds for it.
\<close>

subsection \<open>What Redis promises\<close>

definition newest :: "nat \<Rightarrow> (string \<rightharpoonup> int) \<Rightarrow> (string \<rightharpoonup> int) \<Rightarrow> bool" where
  "newest n m m' \<longleftrightarrow> m' \<subseteq>\<^sub>m m \<and> card (dom m') = n \<and>
     (\<forall>a s b t. m' a = Some s \<longrightarrow> m b = Some t \<longrightarrow> m' b = None \<longrightarrow> t \<le> s)"

definition cut_below :: "int \<Rightarrow> (string \<rightharpoonup> int) \<Rightarrow> (string \<rightharpoonup> int)" where
  "cut_below c m = m |` {a. \<exists>s. m a = Some s \<and> c < s}"

text \<open>
  \<open>v\<close> reads the sorted set of a key, \<open>ok\<close> is what holds of every state of the server.  A removal by
  rank removes entries with the least scores; \<open>EXPIRE\<close> with a positive time removes nothing now.
\<close>

definition zset_ok :: "'r zset_ops \<Rightarrow> ('r \<Rightarrow> bool) \<Rightarrow> ('r \<Rightarrow> string \<Rightarrow> (string \<rightharpoonup> int)) \<Rightarrow> bool" where
  "zset_ok Z ok v \<longleftrightarrow> (\<forall>r. ok r \<longrightarrow>
     (\<forall>k. finite (dom (v r k))) \<and>
     (\<forall>k c. ok (z_remrangebyscore Z k c r) \<and> v (z_remrangebyscore Z k c r) = (v r)(k := cut_below c (v r k))) \<and>
     (\<forall>k s a. ok (z_add Z k s a r) \<and> v (z_add Z k s a r) = (v r)(k := (v r k)(a \<mapsto> s))) \<and>
     (\<forall>k. z_card Z k r = card (dom (v r k))) \<and>
     (\<forall>k n. ok (z_remrangebyrank Z k 0 n r) \<and>
        (\<exists>m. v (z_remrangebyrank Z k 0 n r) = (v r)(k := m) \<and> newest (card (dom (v r k)) - Suc n) (v r k) m)) \<and>
     (\<forall>k t. 0 < t \<longrightarrow> ok (z_expire Z k t r) \<and> v (z_expire Z k t r) = v r) \<and>
     (\<forall>k a. z_score Z k a r = v r k a) \<and>
     (\<forall>k c. distinct (z_rangebyscore Z k c r) \<and> set (z_rangebyscore Z k c r) = {a. \<exists>s. v r k a = Some s \<and> c \<le> s}) \<and>
     (\<forall>k a. ok (z_rem Z k a r) \<and> v (z_rem Z k a r) = (v r)(k := (v r k)(a := None))))"

lemma zset_okD:
  assumes "zset_ok Z ok v" "ok r"
  shows "finite (dom (v r k))"
    "ok (z_remrangebyscore Z k c r)" "v (z_remrangebyscore Z k c r) = (v r)(k := cut_below c (v r k))"
    "ok (z_add Z k s a r)" "v (z_add Z k s a r) = (v r)(k := (v r k)(a \<mapsto> s))"
    "z_card Z k r = card (dom (v r k))"
    "ok (z_remrangebyrank Z k 0 n r)"
    "\<exists>m. v (z_remrangebyrank Z k 0 n r) = (v r)(k := m) \<and> newest (card (dom (v r k)) - Suc n) (v r k) m"
    "0 < t \<Longrightarrow> ok (z_expire Z k t r)" "0 < t \<Longrightarrow> v (z_expire Z k t r) = v r"
    "z_score Z k a r = v r k a"
    "distinct (z_rangebyscore Z k c r)" "set (z_rangebyscore Z k c r) = {a. \<exists>s. v r k a = Some s \<and> c \<le> s}"
    "ok (z_rem Z k a r)" "v (z_rem Z k a r) = (v r)(k := (v r k)(a := None))"
  using assms by (simp_all add: zset_ok_def)

lemma newest_card: "newest n m m' \<Longrightarrow> card (dom m') = n"
  by (simp add: newest_def)

subsection \<open>A sorted set in memory\<close>

type_synonym mem_redis = "string \<Rightarrow> (string \<times> int) list"

definition mem_zset :: "mem_redis zset_ops" where
  "mem_zset =
     \<lparr>z_remrangebyscore = \<lambda>k c r. r(k := filter (\<lambda>x. c < snd x) (r k)),
      z_add = \<lambda>k s a r. r(k := (a, s) # filter (\<lambda>x. fst x \<noteq> a) (r k)),
      z_card = \<lambda>k r. length (r k),
      z_remrangebyrank = \<lambda>k i n r. r(k := drop (Suc n) (sort_key snd (r k))),
      z_expire = \<lambda>k t r. r,
      z_score = \<lambda>k a r. map_of (r k) a,
      z_rangebyscore = \<lambda>k c r. map fst (filter (\<lambda>x. c \<le> snd x) (r k)),
      z_rem = \<lambda>k a r. r(k := filter (\<lambda>x. fst x \<noteq> a) (r k))\<rparr>"

definition mem_redis_ok :: "mem_redis \<Rightarrow> bool" where
  "mem_redis_ok r \<longleftrightarrow> (\<forall>k. distinct (map fst (r k)))"

definition mem_redis_view :: "mem_redis \<Rightarrow> string \<Rightarrow> (string \<rightharpoonup> int)" where
  "mem_redis_view r k = map_of (r k)"

lemma map_of_filter_pair: "distinct (map fst xs) \<Longrightarrow> map_of (filter P xs) a = (case map_of xs a of Some s \<Rightarrow> if P (a, s) then Some s else None | None \<Rightarrow> None)"
  by (induction xs) (auto simp: map_of_eq_None_iff image_iff split: option.splits)

lemma distinct_sort_fst: "distinct (map fst xs) \<Longrightarrow> distinct (map fst (sort_key snd xs))"
  by (metis distinct_map distinct_sort set_sort)

lemma newest_drop:
  assumes d: "distinct (map fst xs)"
  shows "newest (length xs - n) (map_of xs) (map_of (drop n (sort_key snd xs)))"
proof -
  let ?ys = "sort_key snd xs"
  have dy: "distinct (map fst ?ys)"
    using d by (rule distinct_sort_fst)
  have eq: "map_of ?ys = map_of xs"
    using map_of_inject_set [OF dy d] by simp
  have split: "map_of ?ys = map_of (drop n ?ys) ++ map_of (take n ?ys)"
    by (metis append_take_drop_id map_of_append)
  have dd: "distinct (map fst (drop n ?ys))" using dy by (metis distinct_drop drop_map)
  have in_drop: "(a, s) \<in> set (drop n ?ys) \<longleftrightarrow> map_of (drop n ?ys) a = Some s" for a s
    using dd by simp
  have sub: "map_of (drop n ?ys) \<subseteq>\<^sub>m map_of xs"
  proof -
    have "map_of ?ys a = Some s" if "map_of (drop n ?ys) a = Some s" for a s
      using that in_drop dy by (metis in_set_dropD map_of_eq_Some_iff)
    then show ?thesis by (auto simp: map_le_def eq dom_def)
  qed
  moreover have "card (dom (map_of (drop n ?ys))) = length xs - n"
    using dd by (metis dom_map_of_conv_image_fst distinct_card length_drop length_map length_sort list.set_map)
  moreover have "t \<le> s" if "map_of (drop n ?ys) a = Some s" "map_of xs b = Some t" "map_of (drop n ?ys) b = None" for a s b t
  proof -
    have "(b, t) \<in> set (take n ?ys)"
      using that(2,3) by (simp flip: eq add: split map_add_def split: option.splits) (meson map_of_SomeD)
    moreover have "(a, s) \<in> set (drop n ?ys)" using that(1) in_drop by blast
    moreover have "sorted (map snd (take n ?ys @ drop n ?ys))" by simp
    ultimately show ?thesis
      unfolding map_append sorted_append by (metis (no_types, lifting) image_eqI list.set_map snd_conv)
  qed
  ultimately show ?thesis by (simp add: newest_def)
qed

lemma mem_zset_ok: "zset_ok mem_zset mem_redis_ok mem_redis_view"
proof -
  have "newest (card (dom (map_of (r k))) - Suc n) (map_of (r k)) (map_of (drop (Suc n) (sort_key snd (r k))))"
    if "distinct (map fst (r k))" for r :: mem_redis and k n
    using newest_drop [OF that, of "Suc n"] that
    by (metis dom_map_of_conv_image_fst distinct_card length_map list.set_map)
  moreover have "card (dom (map_of xs)) = length xs" if "distinct (map fst xs)" for xs :: "(string \<times> int) list"
    using that by (metis dom_map_of_conv_image_fst distinct_card length_map list.set_map)
  moreover have "distinct (map fst (drop n (sort_key snd xs)))" if "distinct (map fst xs)" for n and xs :: "(string \<times> int) list"
    using distinct_sort_fst [OF that] by (metis distinct_drop drop_map)
  moreover have "s = t" if "distinct (map fst xs)" "(a, s) \<in> set xs" "(a, t) \<in> set xs" for a and s t :: int and xs :: "(string \<times> int) list"
    using that by (rule eq_key_imp_eq_value)
  ultimately show ?thesis
    unfolding zset_ok_def mem_zset_def mem_redis_ok_def
    by (auto simp: mem_redis_view_def fun_eq_iff cut_below_def map_of_filter_pair restrict_map_def distinct_map_filter
        finite_dom_map_of image_iff Bex_def split: option.splits intro!: exI)
      metis
qed

subsection \<open>The script\<close>

lemma cut_below_Some: "cut_below c m a = Some s \<longleftrightarrow> m a = Some s \<and> c < s"
  by (auto simp: cut_below_def restrict_map_def)

text \<open>The entries that are live with the new one.\<close>

definition live_with :: "string \<Rightarrow> int \<Rightarrow> nat \<Rightarrow> (string \<rightharpoonup> int) \<Rightarrow> (string \<rightharpoonup> int)" where
  "live_with addr now ttl m = (cut_below (now - int ttl) m)(addr \<mapsto> now)"

lemma register_script_effect:
  assumes Z: "zset_ok Z ok v" and r: "ok r" and ttl: "0 < ttl"
    and run: "register_script Z key addr now ttl n r = (r', b)"
  shows "ok r' \<and> (\<exists>m. v r' = (v r)(key := m) \<and> newest (min n (card (dom (live_with addr now ttl (v r key))))) (live_with addr now ttl (v r key)) m \<and>
    (b \<longleftrightarrow> addr \<in> dom m))"
proof -
  define r1 where "r1 = z_remrangebyscore Z key (now - int ttl) r"
  define r2 where "r2 = z_add Z key now addr r1"
  define k where "k = z_card Z key r2"
  define r3 where "r3 = (if k > n then z_remrangebyrank Z key 0 (k - n - 1) r2 else r2)"
  let ?m = "live_with addr now ttl (v r key)"
  have o1: "ok r1" "v r1 = (v r)(key := cut_below (now - int ttl) (v r key))"
    unfolding r1_def by (rule zset_okD(2,3) [OF Z r])+
  have o2: "ok r2" "v r2 = (v r)(key := ?m)"
    unfolding r2_def using zset_okD(4,5) [OF Z o1(1), of key now addr] by (simp_all add: o1(2) live_with_def)
  have k: "k = card (dom ?m)" unfolding k_def using zset_okD(6) [OF Z o2(1), of key] by (simp add: o2(2))
  have o3: "ok r3 \<and> (\<exists>m. v r3 = (v r)(key := m) \<and> newest (min n (card (dom ?m))) ?m m)"
  proof (cases "k > n")
    case True
    then have r3: "r3 = z_remrangebyrank Z key 0 (k - n - 1) r2" by (simp add: r3_def)
    obtain m where "v r3 = (v r2)(key := m)" "newest (card (dom (v r2 key)) - Suc (k - n - 1)) (v r2 key) m"
      using zset_okD(8) [OF Z o2(1), of key "k - n - 1"] r3 by blast
    moreover have "card (dom ?m) - Suc (k - n - 1) = min n (card (dom ?m))" using True k by simp
    ultimately show ?thesis using zset_okD(7) [OF Z o2(1), of key "k - n - 1"] r3 by (auto simp: o2(2))
  next
    case False
    then have "newest (min n (card (dom ?m))) ?m ?m" using k by (simp add: newest_def)
    with False o2 show ?thesis by (auto simp: r3_def)
  qed
  then obtain m where m: "ok r3" "v r3 = (v r)(key := m)" "newest (min n (card (dom ?m))) ?m m" by blast
  have "register_script Z key addr now ttl n r = (z_expire Z key ttl r3, z_score Z key addr (z_expire Z key ttl r3) \<noteq> None)"
    by (simp only: register_script_def Let_def r3_def k_def r2_def r1_def)
  with run have run': "r' = z_expire Z key ttl r3" "b = (z_score Z key addr r' \<noteq> None)" by auto
  have o4: "ok r'" "v r' = v r3" unfolding run'(1) by (rule zset_okD(9,10) [OF Z m(1) ttl])+
  have "b \<longleftrightarrow> addr \<in> dom m"
    using zset_okD(11) [OF Z o4(1), of key addr] by (simp add: run'(2) o4(2) m(2) dom_def)
  with o4 m show ?thesis by auto
qed

text \<open>
  The register script leaves in the set of the chunk the newest of the live addresses, this one
  with the present time among them, at most as many as the limit; it touches no other chunk and
  reports whether the address was kept.
\<close>

theorem register_script_keeps_newest:
  assumes "zset_ok Z ok v" "ok r" "0 < ttl" "register_script Z key addr now ttl n r = (r', b)"
  shows "\<exists>m. v r' = (v r)(key := m) \<and> m \<subseteq>\<^sub>m (cut_below (now - int ttl) (v r key))(addr \<mapsto> now) \<and>
    card (dom m) = min n (card (dom ((cut_below (now - int ttl) (v r key))(addr \<mapsto> now)))) \<and>
    (\<forall>a s c t. m a = Some s \<longrightarrow> ((cut_below (now - int ttl) (v r key))(addr \<mapsto> now)) c = Some t \<longrightarrow> m c = None \<longrightarrow> t \<le> s) \<and>
    (b \<longleftrightarrow> m addr = Some now)"
proof -
  obtain m where m: "v r' = (v r)(key := m)" "newest (min n (card (dom (live_with addr now ttl (v r key))))) (live_with addr now ttl (v r key)) m"
    "b \<longleftrightarrow> addr \<in> dom m"
    using register_script_effect [OF assms] by blast
  have "m addr = Some now" if "addr \<in> dom m"
  proof -
    have "m addr = live_with addr now ttl (v r key) addr" using m(2) that by (simp add: newest_def map_le_def)
    then show ?thesis by (simp add: live_with_def)
  qed
  then have "b \<longleftrightarrow> m addr = Some now" using m(3) by auto
  with m(1,2) show ?thesis unfolding newest_def live_with_def by blast
qed

theorem register_script_keeps_newest_witness:
  "\<exists>r' b. register_script mem_zset ''k'' ''d'' 100 60 3 (\<lambda>_. [(''a'', 90), (''b'', 30), (''c'', 95)]) = (r', b) \<and>
    (b \<longleftrightarrow> mem_redis_view r' ''k'' ''d'' = Some 100) \<and> card (dom (mem_redis_view r' ''k'')) \<le> 3"
proof -
  let ?r = "\<lambda>_ :: string. [(''a'', 90 :: int), (''b'', 30), (''c'', 95)]"
  obtain r' b where run: "register_script mem_zset ''k'' ''d'' 100 60 3 ?r = (r', b)" by (rule prod.exhaust)
  have "mem_redis_ok ?r" by (simp add: mem_redis_ok_def)
  from register_script_keeps_newest [OF mem_zset_ok this _ run]
  obtain m where "mem_redis_view r' = (mem_redis_view ?r)(''k'' := m)"
    "card (dom m) = min 3 (card (dom ((cut_below (100 - int 60) (mem_redis_view ?r ''k''))(''d'' \<mapsto> 100))))"
    "b \<longleftrightarrow> m ''d'' = Some 100"
    by auto
  with run show ?thesis by simp
qed

subsection \<open>The limit\<close>

definition owners_bounded :: "('r \<Rightarrow> bool) \<Rightarrow> ('r \<Rightarrow> string \<Rightarrow> (string \<rightharpoonup> int)) \<Rightarrow> 'r \<Rightarrow> bool" where
  "owners_bounded ok v r \<longleftrightarrow> ok r \<and> (\<forall>k. card (dom (v r k)) \<le> MAX_CHUNK_OWNERS)"

text \<open>A property of the server that every command and the other nodes keep is kept by the operations.\<close>

locale server_invariant =
  fixes E :: "('r, 'a) redis_env" and P :: "'r \<Rightarrow> bool"
  assumes others: "P r \<Longrightarrow> P (rd_others E r)"
    and reg: "P r \<Longrightarrow> 0 < ttl \<Longrightarrow> P (fst (register_command E addr now ttl cs r))"
    and unreg: "P r \<Longrightarrow> P (fst (unregister_command E addr cs r))"
begin

lemma fold_commands:
  assumes "\<And>c r. c \<in> set cmds \<Longrightarrow> P r \<Longrightarrow> P (fst (c r))" "P r"
  shows "P (fold (\<lambda>c r. fst (c (rd_others E r))) cmds r)"
  using assms by (induction cmds arbitrary: r) (simp_all add: others)

lemma run_pipe:
  assumes "\<And>c r. c \<in> set cmds \<Longrightarrow> P r \<Longrightarrow> P (fst (c r))" "P r"
  shows "P (fst (run_pipe E cmds r))"
  using assms
proof (induction cmds arbitrary: r)
  case (Cons c cs)
  show ?case
  proof (cases "rd_fault E r")
    case None
    obtain r1 b where c: "c (rd_others E r) = (r1, b)" by fastforce
    have "P r1" using Cons.prems(1) [of c "rd_others E r"] others [OF Cons.prems(2)] c by simp
    with Cons.IH [of r1] Cons.prems(1) have "P (fst (run_pipe E cs r1))" by simp
    then show ?thesis using None c by (auto split: prod.split sum.split)
  next
    case (Some f)
    obtain e n where f: "f = (e, n)" by fastforce
    have "P (fold (\<lambda>c r. fst (c (rd_others E r))) (take n (c # cs)) r)"
      by (rule fold_commands) (use Cons.prems in \<open>auto dest: in_set_takeD\<close>)
    then show ?thesis using Some f by simp
  qed
qed simp

lemma run_batches:
  assumes "\<And>cs r. P r \<Longrightarrow> P (fst (c cs r))" "P r"
  shows "P (fst (run_batches E c bs r))"
  using assms(2)
proof (induction bs arbitrary: r)
  case (Cons b bs)
  obtain r1 x where p: "run_pipe E (map c b) r = (r1, x)" by fastforce
  have "P (fst (run_pipe E (map c b) r))" by (rule run_pipe) (use assms(1) Cons.prems in auto)
  then have r1: "P r1" by (simp add: p)
  from Cons.IH [OF this] show ?case
    by (cases x; cases "run_batches E c bs r1") (auto simp: p r1 split: sum.split)
qed simp

lemma conn: "redis_conn E x = (x1, y) \<Longrightarrow> ri_redis x1 = ri_redis x \<and> ri_ttl x1 = ri_ttl x"
  by (auto simp: redis_conn_def split: if_splits option.splits)

lemma load: "load_register_script E x = (x1, y) \<Longrightarrow> ri_redis x1 = ri_redis x \<and> ri_ttl x1 = ri_ttl x"
  by (auto simp: load_register_script_def split: if_splits option.splits)

lemma lookup:
  assumes "P (ri_redis x)" "lookup_owner_values E css x = (x', res)"
  shows "P (ri_redis x') \<and> ri_ttl x' = ri_ttl x"
proof -
  have "P (fst (run_batches E (lookup_command E c) bs (ri_redis x)))" for c bs
    by (rule run_batches) (simp_all add: lookup_command_def assms(1))
  then show ?thesis
    using assms by (auto simp: lookup_owner_values_def split: if_splits sum.splits prod.splits dest!: conn) (metis fst_conv)+
qed

lemma resolve: "P (ri_redis x) \<Longrightarrow> resolve_owners E cs x = (x', res) \<Longrightarrow> P (ri_redis x') \<and> ri_ttl x' = ri_ttl x"
  by (auto simp: resolve_owners_def split: sum.splits prod.splits dest: lookup)

lemma register:
  assumes "P (ri_redis x)" "0 < ri_ttl x" "register_many E css x = (x', res)"
  shows "P (ri_redis x') \<and> ri_ttl x' = ri_ttl x"
proof -
  have "P (fst (run_batches E (register_command E a now (ri_ttl x)) bs (ri_redis x)))" for a now bs
    by (rule run_batches) (simp_all add: reg assms(1,2))
  then show ?thesis
    using assms
    by (auto simp: register_many_def Let_def split: if_splits sum.splits prod.splits dest!: conn load) (metis fst_conv)+
qed

lemma unregister:
  assumes "P (ri_redis x)" "unregister_many E css x = (x', res)"
  shows "P (ri_redis x') \<and> ri_ttl x' = ri_ttl x"
proof -
  have "P (fst (run_batches E (unregister_command E a) bs (ri_redis x)))" for a bs
    by (rule run_batches) (simp_all add: unreg assms(1))
  then show ?thesis
    using assms by (auto simp: unregister_many_def split: if_splits sum.splits prod.splits dest!: conn) (metis fst_conv)+
qed

lemma sync:
  assumes "P (ri_redis x)" "0 < ri_ttl x" "sync_chunks E css x = (x', res)"
  shows "P (ri_redis x') \<and> ri_ttl x' = ri_ttl x"
proof -
  obtain x1 y where l: "lookup_owner_values E css x = (x1, y)" by fastforce
  have x1: "P (ri_redis x1)" "ri_ttl x1 = ri_ttl x" using lookup [OF assms(1) l] by auto
  then have "P (ri_redis x2) \<and> ri_ttl x2 = ri_ttl x"
    if "register_many E cs (x1\<lparr>ri_tracker := t\<rparr>) = (x2, z)" for cs t x2 z
    using register [OF _ _ that] assms(2) by simp
  with x1 show ?thesis
    using assms(3) l by (auto simp: sync_chunks_def Let_def split: sum.splits prod.splits)
qed

lemma refresh_batches:
  "P (ri_redis x) \<Longrightarrow> 0 < ri_ttl x \<Longrightarrow> refresh_batches E bs tot x = (x', res) \<Longrightarrow> P (ri_redis x') \<and> ri_ttl x' = ri_ttl x"
proof (induction bs arbitrary: tot x)
  case (Cons b bs)
  obtain x1 y where r: "register_many E b x = (x1, y)" by fastforce
  have "P (ri_redis x1) \<and> ri_ttl x1 = ri_ttl x" by (rule register [OF Cons.prems(1,2) r])
  then show ?case using Cons.IH [of x1] Cons.prems(2,3) r by (auto split: sum.splits)
qed simp

end

text \<open>What a node does with its index, with whatever happens meanwhile.\<close>

inductive index_step :: "('r, 'a) redis_env \<Rightarrow> 'r redis_index \<Rightarrow> 'r redis_index \<Rightarrow> bool" for E where
  i_resolve: "resolve_owners E cs x = (x', a) \<Longrightarrow> index_step E x x'"
| i_register: "register_many E css x = (x', b) \<Longrightarrow> index_step E x x'"
| i_unregister: "unregister_many E css x = (x', c) \<Longrightarrow> index_step E x x'"
| i_sync: "sync_chunks E css x = (x', b) \<Longrightarrow> index_step E x x'"
| i_refresh: "refresh_registrations E x = (x', b) \<Longrightarrow> index_step E x x'"
| i_repair: "repair_missing_chunks E css x = (x', b) \<Longrightarrow> index_step E x x'"
| i_others: "index_step E x (x\<lparr>ri_redis := rd_others E (ri_redis x)\<rparr>)"

context server_invariant
begin

lemma step: "index_step E x x' \<Longrightarrow> P (ri_redis x) \<and> 0 < ri_ttl x \<Longrightarrow> P (ri_redis x') \<and> 0 < ri_ttl x'"
proof (induction rule: index_step.induct)
  case (i_resolve cs x x' a)
  then show ?case using resolve [OF _ i_resolve.hyps] by simp
next
  case (i_register css x x' b)
  then show ?case using register [OF _ _ i_register.hyps] by simp
next
  case (i_unregister css x x' c)
  then show ?case using unregister [OF _ i_unregister.hyps] by simp
next
  case (i_sync css x x' b)
  then show ?case using sync [OF _ _ i_sync.hyps] by simp
next
  case (i_refresh x x' b)
  then show ?case using refresh_batches [OF _ _ i_refresh.hyps [unfolded refresh_registrations_def]] by simp
next
  case (i_repair css x x' b)
  then show ?case using sync [OF _ _ i_repair.hyps [unfolded repair_missing_chunks_def]] by simp
next
  case (i_others x)
  then show ?case by (simp add: others)
qed

lemma steps: "(index_step E)\<^sup>*\<^sup>* x x' \<Longrightarrow> P (ri_redis x) \<Longrightarrow> 0 < ri_ttl x \<Longrightarrow> P (ri_redis x') \<and> 0 < ri_ttl x'"
  by (induction rule: rtranclp_induct) (auto dest: step)

end

definition others_bounded :: "('r, 'a) redis_env \<Rightarrow> ('r \<Rightarrow> bool) \<Rightarrow> ('r \<Rightarrow> string \<Rightarrow> (string \<rightharpoonup> int)) \<Rightarrow> bool" where
  "others_bounded E ok v \<longleftrightarrow> (\<forall>r. owners_bounded ok v r \<longrightarrow> owners_bounded ok v (rd_others E r))"

interpretation bounded: server_invariant E "\<lambda>r. zset_ok (rd_zset E) ok v \<and> others_bounded E ok v \<and> owners_bounded ok v r"
  for E :: "('r, 'a) redis_env" and ok v
proof (unfold_locales, goal_cases)
  case (1 r)
  then show ?case by (simp add: others_bounded_def)
next
  case (2 r ttl addr now cs)
  obtain r' b where run: "register_script (rd_zset E) (chunk_index_key (rd_hex E) cs) addr now ttl MAX_CHUNK_OWNERS r = (r', b)"
    by fastforce
  have h: "zset_ok (rd_zset E) ok v" "ok r" "\<forall>k. card (dom (v r k)) \<le> MAX_CHUNK_OWNERS"
    using 2(1) by (simp_all add: owners_bounded_def)
  obtain m where "ok r'" "v r' = (v r)(chunk_index_key (rd_hex E) cs := m)" "card (dom m) \<le> MAX_CHUNK_OWNERS"
    using register_script_effect [OF h(1,2) 2(2) run] newest_card by (metis min.cobounded1)
  then have "owners_bounded ok v r'" using h(3) by (simp add: owners_bounded_def)
  with 2(1) run show ?case by (simp add: register_command_def)
next
  case (3 r addr cs)
  then have h: "zset_ok (rd_zset E) ok v" "ok r" "\<forall>k. card (dom (v r k)) \<le> MAX_CHUNK_OWNERS"
    by (simp_all add: owners_bounded_def)
  let ?k = "chunk_index_key (rd_hex E) cs"
  have "card (dom ((v r ?k)(addr := None))) \<le> card (dom (v r ?k))"
    by (simp add: card_Diff1_le zset_okD(1) [OF h(1,2)])
  then have "card (dom ((v r ?k)(addr := None))) \<le> MAX_CHUNK_OWNERS"
    using h(3) order_trans by blast
  with 3 h show ?case
    using zset_okD(14,15) [OF h(1,2)] by (simp add: unregister_command_def owners_bounded_def)
qed


text \<open>A node alone with a Redis in memory.\<close>

definition demo_hex :: "bytes \<Rightarrow> string" where
  "demo_hex b = map (\<lambda>w. char_of (unat w)) b"

definition demo_redis_env :: "(mem_redis, string) redis_env" where
  "demo_redis_env =
     \<lparr>rd_zset = mem_zset, rd_hex = demo_hex, rd_parse = Some, rd_clock = \<lambda>_. 1000, rd_others = \<lambda>r. r, rd_connect = \<lambda>_. None,
      rd_load = \<lambda>_. None, rd_fault = \<lambda>_. None, rd_order = \<lambda>t. t\<rparr>"

definition demo_index :: "mem_redis redis_index" where
  "demo_index = redis_index_new (\<lambda>k. if k = chunk_index_key demo_hex (demo_cs 1) then [(''a'', 950)] else []) ''b'' 60"

lemma demo_redis_ok: "owners_bounded mem_redis_ok mem_redis_view (ri_redis demo_index)"
  by (simp add: owners_bounded_def mem_redis_ok_def mem_redis_view_def demo_index_def redis_index_new_def MAX_CHUNK_OWNERS_def)


subsection \<open>Without interference\<close>

text \<open>Nothing fails, no other node acts, and the clock stands.\<close>

definition quiet :: "('r, 'a) redis_env \<Rightarrow> nat \<Rightarrow> bool" where
  "quiet E now \<longleftrightarrow> (\<forall>r. rd_others E r = r \<and> rd_clock E r = now \<and> rd_connect E r = None \<and> rd_load E r = None \<and> rd_fault E r = None)"

fun answer_all :: "(CheckSum \<Rightarrow> 'r \<Rightarrow> 'r \<times> 'b) \<Rightarrow> CheckSum list \<Rightarrow> 'r \<Rightarrow> 'r \<times> (CheckSum \<times> 'b) list" where
  "answer_all c [] r = (r, [])"
| "answer_all c (cs # css) r =
     (case c cs r of (r1, b) \<Rightarrow> (case answer_all c css r1 of (r2, l) \<Rightarrow> (r2, (cs, b) # l)))"

lemma answer_all_fst: "answer_all c css r = (r', l) \<Longrightarrow> map fst l = css"
  by (induction css arbitrary: r l) (auto split: prod.splits)

lemma answer_all_append:
  "answer_all c (xs @ ys) r = (case answer_all c xs r of (r1, l1) \<Rightarrow> (case answer_all c ys r1 of (r2, l2) \<Rightarrow> (r2, l1 @ l2)))"
  by (induction xs arbitrary: r) (auto split: prod.split)

lemma run_pipe_quiet:
  "quiet E now \<Longrightarrow> run_pipe E (map c css) r = (case answer_all c css r of (r', l) \<Rightarrow> (r', Inr (map snd l)))"
  by (induction css arbitrary: r) (auto simp: quiet_def split: prod.split sum.split)

lemma run_batches_quiet:
  assumes "quiet E now"
  shows "run_batches E c bs r = (case answer_all c (concat bs) r of (r', l) \<Rightarrow> (r', Inr l))"
proof (induction bs arbitrary: r)
  case (Cons b bs)
  obtain r1 l1 where a: "answer_all c b r = (r1, l1)" by fastforce
  have "zip b (map snd l1) = l1" using answer_all_fst [OF a] by (metis zip_map_fst_snd)
  then show ?case
    using Cons [of r1] by (auto simp: run_pipe_quiet [OF assms] a answer_all_append split: prod.split)
qed simp

lemma quietD:
  assumes "quiet E now"
  shows "rd_clock E r = now" "rd_connect E r = None" "rd_load E r = None"
  using assms by (simp_all add: quiet_def)

lemma conn_quiet:
  assumes "quiet E now" "redis_conn E x = (x1, y)"
  shows "y = Inr () \<and> ri_redis x1 = ri_redis x \<and> ri_addr x1 = ri_addr x \<and> ri_ttl x1 = ri_ttl x \<and> ri_tracker x1 = ri_tracker x"
  using assms(2) by (auto simp: redis_conn_def quietD [OF assms(1)] split: if_splits)

lemma load_quiet:
  assumes "quiet E now" "load_register_script E x = (x1, y)"
  shows "y = Inr () \<and> ri_redis x1 = ri_redis x \<and> ri_addr x1 = ri_addr x \<and> ri_ttl x1 = ri_ttl x \<and> ri_tracker x1 = ri_tracker x"
  using assms(2) by (auto simp: load_register_script_def quietD [OF assms(1)] split: if_splits)

lemma lookup_quiet:
  assumes "quiet E now"
  shows "\<exists>x1. lookup_owner_values E css x =
      (x1, Inr (map (\<lambda>cs. (cs, z_rangebyscore (rd_zset E) (chunk_index_key (rd_hex E) cs) (int (now - ri_ttl x)) (ri_redis x))) css)) \<and>
    ri_redis x1 = ri_redis x \<and> ri_addr x1 = ri_addr x \<and> ri_ttl x1 = ri_ttl x \<and> ri_tracker x1 = ri_tracker x"
proof -
  have l: "answer_all (lookup_command E c) css r =
      (r, map (\<lambda>cs. (cs, z_rangebyscore (rd_zset E) (chunk_index_key (rd_hex E) cs) c r)) css)" for c r
    by (induction css) (simp_all add: lookup_command_def)
  obtain x1 where x1: "redis_conn E x = (x1, Inr ())" "ri_redis x1 = ri_redis x" "ri_addr x1 = ri_addr x" "ri_ttl x1 = ri_ttl x"
      "ri_tracker x1 = ri_tracker x"
    using conn_quiet [OF assms] by (metis prod.exhaust)
  have q: "live_owner_cutoff E x1 = int (now - ri_ttl x)"
    by (simp add: live_owner_cutoff_def quietD [OF assms] x1(4))
  have b: "concat (chunks_of REDIS_REGISTER_BATCH_SIZE css) = css"
    by (rule concat_chunks_of) (simp add: REDIS_REGISTER_BATCH_SIZE_def)
  show ?thesis
  proof (cases "css = []")
    case False
    then show ?thesis
      unfolding lookup_owner_values_def x1(1)
      by (intro exI [of _ "x1\<lparr>ri_redis := ri_redis x1\<rparr>"]) (simp add: run_batches_quiet [OF assms] l q b x1(2-))
  qed (simp add: lookup_owner_values_def)
qed

text \<open>The answers of the script for distinct keys.\<close>

lemma register_answers:
  assumes Z: "zset_ok (rd_zset E) ok v" and ttl: "0 < ttl" and inj: "inj (chunk_index_key (rd_hex E))"
  shows "ok r \<Longrightarrow> distinct css \<Longrightarrow> answer_all (register_command E addr now ttl) css r = (r', l) \<Longrightarrow>
    ok r' \<and> (\<forall>k. k \<notin> chunk_index_key (rd_hex E) ` set css \<longrightarrow> v r' k = v r k) \<and>
    (\<forall>(cs, b) \<in> set l. b \<longleftrightarrow> addr \<in> dom (v r' (chunk_index_key (rd_hex E) cs))) \<and>
    (\<forall>cs \<in> set css. newest (min MAX_CHUNK_OWNERS (card (dom (live_with addr now ttl (v r (chunk_index_key (rd_hex E) cs))))))
       (live_with addr now ttl (v r (chunk_index_key (rd_hex E) cs))) (v r' (chunk_index_key (rd_hex E) cs)))"
proof (induction css arbitrary: r l)
  case (Cons c css)
  let ?k = "chunk_index_key (rd_hex E)"
  obtain r1 b where c: "register_command E addr now ttl c r = (r1, b)" by fastforce
  obtain l1 where l: "answer_all (register_command E addr now ttl) css r1 = (r', l1)" "l = (c, b) # l1"
    using Cons.prems(3) c by (auto split: prod.splits)
  obtain m where m: "ok r1" "v r1 = (v r)(?k c := m)"
    "newest (min MAX_CHUNK_OWNERS (card (dom (live_with addr now ttl (v r (?k c)))))) (live_with addr now ttl (v r (?k c))) m" "b \<longleftrightarrow> addr \<in> dom m"
    using register_script_effect [OF Z Cons.prems(1) ttl c [unfolded register_command_def]] by blast
  have IH: "ok r'" "\<And>k. k \<notin> ?k ` set css \<Longrightarrow> v r' k = v r1 k"
    "\<And>cs b. (cs, b) \<in> set l1 \<Longrightarrow> b \<longleftrightarrow> addr \<in> dom (v r' (?k cs))"
    "\<And>cs. cs \<in> set css \<Longrightarrow> newest (min MAX_CHUNK_OWNERS (card (dom (live_with addr now ttl (v r1 (?k cs))))))
       (live_with addr now ttl (v r1 (?k cs))) (v r' (?k cs))"
    using Cons.IH [OF m(1) _ l(1)] Cons.prems(2) by auto
  have kc: "?k c \<notin> ?k ` set css" using Cons.prems(2) inj by (auto dest: injD)
  have vc: "v r' (?k c) = m" using IH(2) [OF kc] by (simp add: m(2))
  have other: "v r1 (?k cs) = v r (?k cs)" if "cs \<in> set css" for cs
  proof -
    have "?k cs \<noteq> ?k c" using that kc by (metis imageI)
    then show ?thesis by (simp add: m(2))
  qed
  show ?case
  proof (intro conjI)
    show "ok r'" by (rule IH(1))
    show "\<forall>k. k \<notin> ?k ` set (c # css) \<longrightarrow> v r' k = v r k" using IH(2) by (simp add: m(2))
    show "\<forall>(cs, b) \<in> set l. b \<longleftrightarrow> addr \<in> dom (v r' (?k cs))" using IH(3) m(4) vc by (auto simp: l(2))
    show "\<forall>cs \<in> set (c # css). newest (min MAX_CHUNK_OWNERS (card (dom (live_with addr now ttl (v r (?k cs))))))
       (live_with addr now ttl (v r (?k cs))) (v r' (?k cs))"
      using IH(4) m(3) vc other by auto
  qed
qed simp

lemma register_quiet:
  assumes q: "quiet E now" and Z: "zset_ok (rd_zset E) ok v" and r: "ok (ri_redis x)" and ttl: "0 < ri_ttl x"
    and inj: "inj (chunk_index_key (rd_hex E))" and d: "distinct css" and run: "register_many E css x = (x', y)"
  shows "y = Inr (length (filter (\<lambda>cs. ri_addr x \<in> dom (v (ri_redis x') (chunk_index_key (rd_hex E) cs))) css)) \<and>
    set (ri_tracker x') = set (ri_tracker x) \<union>
      disk_of ` {cs \<in> set css. ri_addr x \<in> dom (v (ri_redis x') (chunk_index_key (rd_hex E) cs))} \<and>
    ok (ri_redis x') \<and> ri_addr x' = ri_addr x \<and>
    (\<forall>k. k \<notin> chunk_index_key (rd_hex E) ` set css \<longrightarrow> v (ri_redis x') k = v (ri_redis x) k) \<and>
    (\<forall>cs \<in> set css. newest (min MAX_CHUNK_OWNERS (card (dom (live_with (ri_addr x) (int now) (ri_ttl x) (v (ri_redis x) (chunk_index_key (rd_hex E) cs))))))
       (live_with (ri_addr x) (int now) (ri_ttl x) (v (ri_redis x) (chunk_index_key (rd_hex E) cs))) (v (ri_redis x') (chunk_index_key (rd_hex E) cs)))"
proof (cases "css = []")
  case True
  then show ?thesis using run r by (simp add: register_many_def)
next
  case False
  let ?k = "chunk_index_key (rd_hex E)"
  obtain x1 where x1: "redis_conn E x = (x1, Inr ())" "ri_redis x1 = ri_redis x" "ri_addr x1 = ri_addr x" "ri_ttl x1 = ri_ttl x"
      "ri_tracker x1 = ri_tracker x"
    using conn_quiet [OF q] by (metis prod.exhaust)
  obtain x2 where x2: "load_register_script E x1 = (x2, Inr ())" "ri_redis x2 = ri_redis x" "ri_addr x2 = ri_addr x" "ri_ttl x2 = ri_ttl x"
      "ri_tracker x2 = ri_tracker x"
    using load_quiet [OF q, of x1] x1 by (metis prod.exhaust)
  obtain r' l where a: "answer_all (register_command E (ri_addr x) (int now) (ri_ttl x)) css (ri_redis x) = (r', l)" by fastforce
  have b: "concat (chunks_of REDIS_REGISTER_BATCH_SIZE css) = css"
    by (rule concat_chunks_of) (simp add: REDIS_REGISTER_BATCH_SIZE_def)
  let ?ret = "map (\<lambda>a. disk_of (fst a)) (filter snd l)"
  have run': "x' = x2\<lparr>ri_redis := r', ri_tracker := insert_many ?ret (ri_tracker x2)\<rparr>" "y = Inr (length ?ret)"
    using run False by (simp_all add: register_many_def x1(1) x2 run_batches_quiet [OF q] b quietD(1) [OF q] a Let_def)
  note ans = register_answers [OF Z ttl inj r d a]
  have fst_l: "map fst l = css" by (rule answer_all_fst [OF a])
  have "map fst (filter snd l) = filter (\<lambda>cs. ri_addr x \<in> dom (v r' (?k cs))) css"
  proof -
    have "filter snd l = filter (\<lambda>z. ri_addr x \<in> dom (v r' (?k (fst z)))) l"
      using ans by (intro filter_cong) (auto simp: domIff)
    then show ?thesis by (simp add: filter_map comp_def flip: fst_l)
  qed
  then have ret: "?ret = map disk_of (filter (\<lambda>cs. ri_addr x \<in> dom (v r' (?k cs))) css)"
    by (metis (no_types, lifting) comp_apply map_eq_conv map_map)
  have ins: "set (insert_many xs t) = set t \<union> set xs" for xs t
    unfolding insert_many_def by (induction xs arbitrary: t) auto
  have r': "ri_redis x' = r'" by (simp add: run'(1))
  show ?thesis
    using ans by (simp add: run' ret ins x2(3,5) image_def set_filter)
qed

text \<open>Different checksums have different keys.\<close>

lemma chunk_index_key_inj:
  assumes "inj hex"
  shows "inj (chunk_index_key hex)"
proof (rule injI)
  fix a b
  assume "chunk_index_key hex a = chunk_index_key hex b"
  then have "method_name (cs_method a) @ '':'' @ hex (cs_raw a) = method_name (cs_method b) @ '':'' @ hex (cs_raw b)"
    by (simp add: chunk_index_key_def CheckSum_display_def)
  then have "cs_method a = cs_method b \<and> hex (cs_raw a) = hex (cs_raw b)"
    by (cases "cs_method a"; cases "cs_method b") (simp_all add: method_name_def)
  with assms show "a = b" by (auto dest: injD)
qed

text \<open>A new owner is among the newest when there are fewer live ones than are kept.\<close>

lemma underowned_keeps_new:
  assumes f: "finite (dom m)" and ttl: "ttl \<le> now"
    and few: "a \<notin> {b. \<exists>s. m b = Some s \<and> int (now - ttl) \<le> s}" "card {b. \<exists>s. m b = Some s \<and> int (now - ttl) \<le> s} < K"
    and new: "newest (min K (card (dom (live_with a (int now) ttl m)))) (live_with a (int now) ttl m) m'"
  shows "a \<in> dom m'"
proof -
  let ?l = "live_with a (int now) ttl m" and ?live = "{b. \<exists>s. m b = Some s \<and> int (now - ttl) \<le> s}"
  have fl: "finite ?live" using f by (rule rev_finite_subset) auto
  have sub: "dom ?l \<subseteq> insert a ?live"
    using ttl by (auto simp: live_with_def cut_below_Some of_nat_diff split: if_splits)
  then have "card (dom ?l) \<le> card (insert a ?live)" using fl by (intro card_mono) auto
  also have "\<dots> \<le> K" using few fl by simp
  finally have n: "newest (card (dom ?l)) ?l m'" using new by (simp add: min_absorb2)
  have "finite (dom ?l)" using fl sub by (meson finite_insert finite_subset)
  moreover have "dom m' \<subseteq> dom ?l" using n by (auto simp: newest_def map_le_def dom_def)
  ultimately have "dom m' = dom ?l" using n by (intro card_subset_eq) (auto simp: newest_def)
  then show ?thesis by (simp add: live_with_def)
qed

text \<open>
  C35: when nothing interferes, syncing distinct chunks succeeds; afterwards every chunk that had a
  live registration of this node is tracked, every other chunk with fewer than three live owners has
  this node as an owner and is tracked, and no other chunk is touched.
\<close>

theorem sync_registers_underowned:
  assumes q: "quiet E now" and Z: "zset_ok (rd_zset E) ok v" and r: "ok (ri_redis x)" and ttl: "0 < ri_ttl x" "ri_ttl x \<le> now"
    and hex: "inj (rd_hex E)" and d: "distinct css" and run: "sync_chunks E css x = (x', y)"
  defines "live \<equiv> \<lambda>cs. {a. \<exists>s. v (ri_redis x) (chunk_index_key (rd_hex E) cs) a = Some s \<and> int (now - ri_ttl x) \<le> s}"
  shows "isl y = False \<and>
    (\<forall>cs \<in> set css. ri_addr x \<in> live cs \<longrightarrow> disk_of cs \<in> set (ri_tracker x')) \<and>
    (\<forall>cs \<in> set css. ri_addr x \<notin> live cs \<and> card (live cs) < MAX_CHUNK_OWNERS \<longrightarrow>
      ri_addr x \<in> dom (v (ri_redis x') (chunk_index_key (rd_hex E) cs)) \<and> disk_of cs \<in> set (ri_tracker x')) \<and>
    (\<forall>cs. cs \<notin> set css \<or> ri_addr x \<in> live cs \<or> MAX_CHUNK_OWNERS \<le> card (live cs) \<longrightarrow>
      v (ri_redis x') (chunk_index_key (rd_hex E) cs) = v (ri_redis x) (chunk_index_key (rd_hex E) cs))"
proof -
  let ?k = "chunk_index_key (rd_hex E)"
  have inj: "inj ?k" by (rule chunk_index_key_inj [OF hex])
  define ans where "ans = map (\<lambda>cs. (cs, z_rangebyscore (rd_zset E) (?k cs) (int (now - ri_ttl x)) (ri_redis x))) css"
  obtain x1 where x1: "lookup_owner_values E css x = (x1, Inr ans)" "ri_redis x1 = ri_redis x" "ri_addr x1 = ri_addr x"
      "ri_ttl x1 = ri_ttl x" "ri_tracker x1 = ri_tracker x"
    using lookup_quiet [OF q, of css x] by (auto simp: ans_def)
  have owners: "set (z_rangebyscore (rd_zset E) (?k cs) (int (now - ri_ttl x)) (ri_redis x)) = live cs"
      "length (z_rangebyscore (rd_zset E) (?k cs) (int (now - ri_ttl x)) (ri_redis x)) = card (live cs)" for cs
  proof -
    show s: "set (z_rangebyscore (rd_zset E) (?k cs) (int (now - ri_ttl x)) (ri_redis x)) = live cs"
      using zset_okD(13) [OF Z r] by (simp add: live_def)
    show "length (z_rangebyscore (rd_zset E) (?k cs) (int (now - ri_ttl x)) (ri_redis x)) = card (live cs)"
      using zset_okD(12) [OF Z r] s by (metis distinct_card)
  qed
  define missing where "missing = filter (\<lambda>cs. ri_addr x \<notin> live cs \<and> card (live cs) < MAX_CHUNK_OWNERS) css"
  have mt: "sync_missing (ri_addr x) ans = missing" "sync_tracked (ri_addr x) ans = filter (\<lambda>cs. ri_addr x \<in> live cs) css"
    unfolding ans_def by (simp_all add: sync_missing_def sync_tracked_def missing_def filter_map comp_def owners)
  define x2 where "x2 = x1\<lparr>ri_tracker := insert_many (map disk_of (sync_tracked (ri_addr x) ans)) (ri_tracker x)\<rparr>"
  obtain x3 z where reg: "register_many E missing x2 = (x3, z)" by fastforce
  have fin: "x' = x3" "y = (case z of Inl e \<Rightarrow> Inl e | Inr n \<Rightarrow> Inr (length (sync_tracked (ri_addr x) ans) + n))"
    using run reg by (auto simp: sync_chunks_def x1 Let_def mt x2_def split: sum.splits)
  have h: "ok (ri_redis x2)" "0 < ri_ttl x2" "distinct missing" using r ttl d by (simp_all add: x2_def x1 missing_def)
  note R = register_quiet [OF q Z h(1,2) inj h(3) reg]
  have x2: "ri_redis x2 = ri_redis x" "ri_addr x2 = ri_addr x" "ri_ttl x2 = ri_ttl x" by (simp_all add: x2_def x1)
  have ins: "set (insert_many xs t) = set t \<union> set xs" for xs t
    unfolding insert_many_def by (induction xs arbitrary: t) auto
  have tr: "disk_of ` {cs \<in> set css. ri_addr x \<in> live cs} \<subseteq> set (ri_tracker x3)"
    using R by (auto simp: x2_def ins mt)
  have own: "ri_addr x \<in> dom (v (ri_redis x3) (?k cs))" if "cs \<in> set missing" for cs
    by (rule underowned_keeps_new [OF zset_okD(1) [OF Z r] ttl(2), of "ri_addr x" "?k cs" MAX_CHUNK_OWNERS])
      (use R that in \<open>simp_all add: x2 missing_def live_def\<close>)
  show ?thesis
  proof (intro conjI ballI allI impI)
    show "isl y = False" using R fin(2) by auto
    show "disk_of cs \<in> set (ri_tracker x')" if "cs \<in> set css" "ri_addr x \<in> live cs" for cs
      using tr that fin(1) by auto
    fix cs
    assume "cs \<in> set css" "ri_addr x \<notin> live cs \<and> card (live cs) < MAX_CHUNK_OWNERS"
    then have m: "cs \<in> set missing" by (simp add: missing_def)
    then show "ri_addr x \<in> dom (v (ri_redis x') (?k cs))" using own fin(1) by simp
    show "disk_of cs \<in> set (ri_tracker x')" using R own [OF m] m fin(1) by (auto simp: x2)
  next
    fix cs
    assume "cs \<notin> set css \<or> ri_addr x \<in> live cs \<or> MAX_CHUNK_OWNERS \<le> card (live cs)"
    then have "cs \<notin> set missing" by (auto simp: missing_def)
    then have "?k cs \<notin> ?k ` set missing" using inj by (auto dest: injD)
    then show "v (ri_redis x') (?k cs) = v (ri_redis x) (?k cs)" using R by (simp add: fin(1) x2)
  qed
qed

lemma demo_hex_inj: "inj demo_hex"
proof -
  have "inj (\<lambda>w :: byte. char_of (unat w) :: char)"
  proof (rule injI)
    fix a b :: byte
    assume "(char_of (unat a) :: char) = char_of (unat b)"
    then have "unat a mod 256 = unat b mod 256" by (metis of_char_of)
    then have "unat a = unat b" using unat_byte_less [of a] unat_byte_less [of b] by simp
    then show "a = b" by (metis unsigned_word_eqI)
  qed
  then show ?thesis unfolding demo_hex_def [abs_def] by (rule inj_mapI)
qed

theorem sync_registers_underowned_witness:
  "\<exists>x' y. sync_chunks demo_redis_env [demo_cs 1, demo_cs 2] demo_index = (x', y) \<and>
    {disk_of (demo_cs 1), disk_of (demo_cs 2)} \<subseteq> set (ri_tracker x')"
proof -
  obtain x' y where run: "sync_chunks demo_redis_env [demo_cs 1, demo_cs 2] demo_index = (x', y)" by (rule prod.exhaust)
  have q: "quiet demo_redis_env 1000" by (simp add: quiet_def demo_redis_env_def)
  have Z: "zset_ok (rd_zset demo_redis_env) mem_redis_ok mem_redis_view" by (simp add: demo_redis_env_def mem_zset_ok)
  have x: "mem_redis_ok (ri_redis demo_index)" "0 < ri_ttl demo_index" "ri_ttl demo_index \<le> 1000"
    using demo_redis_ok by (simp_all add: owners_bounded_def demo_index_def redis_index_new_def)
  have h: "inj (rd_hex demo_redis_env)" "distinct [demo_cs 1, demo_cs 2]"
    using demo_hex_inj by (simp_all add: demo_redis_env_def demo_cs_def)
  have v: "mem_redis_view (ri_redis demo_index) k = (if k = chunk_index_key demo_hex (demo_cs 1) then [''a'' \<mapsto> 950] else Map.empty)" for k
    by (simp add: mem_redis_view_def demo_index_def redis_index_new_def)
  have lives: "ri_addr demo_index \<notin> {a. \<exists>s. mem_redis_view (ri_redis demo_index) k a = Some s \<and> c \<le> s}"
    "card {a. \<exists>s. mem_redis_view (ri_redis demo_index) k a = Some s \<and> c \<le> s} < MAX_CHUNK_OWNERS" for k c
  proof -
    have sub: "{a. \<exists>s. mem_redis_view (ri_redis demo_index) k a = Some s \<and> c \<le> s} \<subseteq> {''a''}"
      by (auto simp: v split: if_splits)
    then have "card {a. \<exists>s. mem_redis_view (ri_redis demo_index) k a = Some s \<and> c \<le> s} \<le> card {''a''}"
      by (rule card_mono [rotated]) simp
    then show "card {a. \<exists>s. mem_redis_view (ri_redis demo_index) k a = Some s \<and> c \<le> s} < MAX_CHUNK_OWNERS"
      by (simp add: MAX_CHUNK_OWNERS_def)
    show "ri_addr demo_index \<notin> {a. \<exists>s. mem_redis_view (ri_redis demo_index) k a = Some s \<and> c \<le> s}"
      using sub by (auto simp: demo_index_def redis_index_new_def)
  qed
  from sync_registers_underowned [OF q Z x h run] lives run show ?thesis by simp
qed

end
