(* ===== verification/PeerClient.thy ===== *)
theory PeerClient
  imports Complex_Main PeerServer "HOL-Library.Product_Lexorder"
begin

text \<open>
  \<open>src/backend/peer.rs\<close>: the client for the chunks of other peers.  It remembers which peers had chunks
  (\<open>PeerHitHints\<close>) and how they answered (\<open>PeerHealthTracker\<close>), picks at most \<open>max_query_peers\<close> to
  ask, and asks them in turn.

  An \<open>f64\<close> is a real number here, without rounding; \<open>ln_1p\<close> and \<open>exp\<close> are the functions of that name.
  Times are arguments.  The order of a random shuffle is an argument (\<open>shuf\<close>); an address is a value
  of type \<open>'a\<close>; asking a peer is an argument over the state \<open>'w\<close> of the network.
\<close>

definition DEFAULT_MAX_QUERY_PEERS :: nat where "DEFAULT_MAX_QUERY_PEERS = 3"
definition HINT_MAX_RECENT :: nat where "HINT_MAX_RECENT = 256"
definition HINT_TTL_SECS :: nat where "HINT_TTL_SECS = 300"

subsection \<open>Hit hints\<close>

record HitRecord =
  hit_count :: nat
  last_hit_time :: nat
  recent_checksums :: "CheckSumOnDisk list"

definition default_hit :: HitRecord where
  "default_hit = \<lparr>hit_count = 0, last_hit_time = 0, recent_checksums = []\<rparr>"

type_synonym 'a hints = "'a \<rightharpoonup> HitRecord"

text \<open>The loop drops from the front until at most \<open>HINT_MAX_RECENT\<close> are left.\<close>

definition record_hit :: "nat \<Rightarrow> 'a \<Rightarrow> CheckSum \<Rightarrow> 'a hints \<Rightarrow> 'a hints" where
  "record_hit now a cs h =
     (let r = (case h a of None \<Rightarrow> default_hit | Some r \<Rightarrow> r);
          recent = recent_checksums r @ [disk_of cs]
      in h(a \<mapsto> \<lparr>hit_count = hit_count r + 1, last_hit_time = now,
             recent_checksums = drop (length recent - HINT_MAX_RECENT) recent\<rparr>))"

definition hit_score :: "nat \<Rightarrow> HitRecord \<Rightarrow> real" where
  "hit_score now r = ln (1 + real (hit_count r)) * exp (- real (now - last_hit_time r) / 60)"

definition score_snapshot :: "nat \<Rightarrow> 'a hints \<Rightarrow> ('a \<rightharpoonup> real)" where
  "score_snapshot now h = map_option (hit_score now) \<circ> h"

definition hints_gc_expired :: "nat \<Rightarrow> 'a hints \<Rightarrow> 'a hints" where
  "hints_gc_expired now h =
     (\<lambda>a. case h a of None \<Rightarrow> None | Some r \<Rightarrow> if last_hit_time r \<ge> now - HINT_TTL_SECS then Some r else None)"

subsection \<open>Health\<close>

record PeerHealth =
  avg_rtt_ms :: real
  consecutive_failures :: nat
  last_failure_time :: nat
  total_requests :: nat
  total_hits :: nat

definition default_health :: PeerHealth where
  "default_health = \<lparr>avg_rtt_ms = 50, consecutive_failures = 0, last_failure_time = 0, total_requests = 0, total_hits = 0\<rparr>"

type_synonym 'a health = "'a \<rightharpoonup> PeerHealth"

definition health_entry :: "'a \<Rightarrow> 'a health \<Rightarrow> PeerHealth" where
  "health_entry a h = (case h a of None \<Rightarrow> default_health | Some p \<Rightarrow> p)"

definition record_success :: "'a \<Rightarrow> real \<Rightarrow> 'a health \<Rightarrow> 'a health" where
  "record_success a rtt h =
     (let p = health_entry a h in
      h(a \<mapsto> p\<lparr>avg_rtt_ms := 3 / 10 * rtt + 7 / 10 * avg_rtt_ms p, consecutive_failures := 0,
               total_requests := total_requests p + 1, total_hits := total_hits p + 1\<rparr>))"

definition record_failure :: "nat \<Rightarrow> 'a \<Rightarrow> 'a health \<Rightarrow> 'a health" where
  "record_failure now a h =
     (let p = health_entry a h in
      h(a \<mapsto> p\<lparr>consecutive_failures := consecutive_failures p + 1, last_failure_time := now,
               total_requests := total_requests p + 1\<rparr>))"

definition record_miss :: "'a \<Rightarrow> 'a health \<Rightarrow> 'a health" where
  "record_miss a h = (let p = health_entry a h in h(a \<mapsto> p\<lparr>total_requests := total_requests p + 1\<rparr>))"

definition peer_unhealthy :: "nat \<Rightarrow> PeerHealth \<Rightarrow> bool" where
  "peer_unhealthy now p \<longleftrightarrow> consecutive_failures p \<ge> 3 \<and> now - last_failure_time p < 30"

definition is_unhealthy :: "nat \<Rightarrow> 'a \<Rightarrow> 'a health \<Rightarrow> bool" where
  "is_unhealthy now a h = (case h a of None \<Rightarrow> False | Some p \<Rightarrow> peer_unhealthy now p)"

definition get_rtt_ms :: "'a \<Rightarrow> 'a health \<Rightarrow> real" where
  "get_rtt_ms a h = (case h a of None \<Rightarrow> 50 | Some p \<Rightarrow> avg_rtt_ms p)"

text \<open>The snapshot of the ranking: whether each known peer is healthy, and its round-trip time.\<close>

definition health_snapshot :: "nat \<Rightarrow> 'a health \<Rightarrow> ('a \<rightharpoonup> bool \<times> real)" where
  "health_snapshot now h = map_option (\<lambda>p. (\<not> peer_unhealthy now p, avg_rtt_ms p)) \<circ> h"

subsection \<open>Ranking\<close>

definition is_self :: "'a option \<Rightarrow> 'a \<Rightarrow> bool" where
  "is_self local_addr a \<longleftrightarrow> local_addr = Some a"

definition score_of :: "('a \<rightharpoonup> real) \<Rightarrow> 'a \<Rightarrow> real" where
  "score_of scores a = (case scores a of None \<Rightarrow> 0 | Some s \<Rightarrow> s)"

definition rank_entry :: "('a \<rightharpoonup> bool \<times> real) \<Rightarrow> 'a \<Rightarrow> bool \<times> real" where
  "rank_entry health a = (case health a of None \<Rightarrow> (True, 50) | Some x \<Rightarrow> x)"

definition rank_score :: "('a \<rightharpoonup> bool \<times> real) \<Rightarrow> ('a \<rightharpoonup> real) \<Rightarrow> 'a \<Rightarrow> real" where
  "rank_score health scores a = score_of scores a * 10 + 100 / max (snd (rank_entry health a)) 1"

text \<open>The comparison: healthy peers first, then the greater score; the sort is stable.\<close>

definition ranked_peers_with_scores :: "nat \<Rightarrow> 'a option \<Rightarrow> 'a health \<Rightarrow> 'a list \<Rightarrow> ('a \<rightharpoonup> real) \<Rightarrow> 'a list" where
  "ranked_peers_with_scores now local_addr h peers scores =
     (let health = health_snapshot now h;
          peers = filter (\<lambda>a. \<not> is_self local_addr a) peers;
          peers = sort_key (\<lambda>a. (\<not> fst (rank_entry health a), - rank_score health scores a)) peers
      in remdups_adj peers)"

subsection \<open>The client\<close>

datatype fetch_source = FromIndex | FromHints | FromRandom

record 'a peer_config =
  cfg_local_addr :: "'a option"
  cfg_max_query_peers :: nat

record ('x, 'a, 'w) client_env =
  ce_index :: "('x, 'a) chunk_index option"
  ce_discovery :: "'w \<Rightarrow> 'a list"
  ce_exchange :: "'a \<Rightarrow> Request \<Rightarrow> 'w \<Rightarrow> 'w \<times> (error + WireResponse)"
  ce_shuffle :: "'a list \<Rightarrow> 'w \<Rightarrow> 'a list"
  ce_secs :: "'w \<Rightarrow> nat"
  ce_rtt :: "'w \<Rightarrow> 'w \<Rightarrow> real"

record ('x, 'a, 'w) peer_client =
  pcl_hints :: "'a hints"
  pcl_health :: "'a health"
  pcl_index :: 'x
  pcl_net :: 'w

definition discovery_peers :: "('x, 'a, 'w) client_env \<Rightarrow> 'a peer_config \<Rightarrow> ('x, 'a, 'w) peer_client \<Rightarrow> 'a list" where
  "discovery_peers E c P = filter (\<lambda>a. \<not> is_self (cfg_local_addr c) a) (ce_discovery E (pcl_net P))"

definition index_owners ::
  "('x, 'a, 'w) client_env \<Rightarrow> 'a peer_config \<Rightarrow> CheckSum \<Rightarrow> ('a \<rightharpoonup> real) \<Rightarrow> ('x, 'a, 'w) peer_client \<Rightarrow>
   ('x, 'a, 'w) peer_client \<times> 'a list" where
  "index_owners E c cs scores P =
     (case ce_index E of
        None \<Rightarrow> (P, [])
      | Some ix \<Rightarrow>
          (case lookup_owners ix cs (pcl_index P) of
             (x, Inr owners) \<Rightarrow>
               (P\<lparr>pcl_index := x\<rparr>,
                ranked_peers_with_scores (ce_secs E (pcl_net P)) (cfg_local_addr c) (pcl_health P) owners scores)
           | (x, Inl _) \<Rightarrow> (P\<lparr>pcl_index := x\<rparr>, [])))"

definition select_peers :: "('a list \<Rightarrow> 'a list) \<Rightarrow> nat \<Rightarrow> ('a \<rightharpoonup> real) \<Rightarrow> 'a list \<Rightarrow> 'a list \<times> fetch_source" where
  "select_peers shuf n scores ranked =
     (if ranked = [] then ([], FromRandom)
      else (let hinted = filter (\<lambda>a. score_of scores a > 0) ranked;
                unknown = filter (\<lambda>a. \<not> score_of scores a > 0) ranked
            in if hinted \<noteq> [] then
                 (take n (if length hinted < n \<and> unknown \<noteq> [] then hinted @ take (n - length hinted) (shuf unknown) else hinted),
                  FromHints)
               else (take n (shuf unknown), FromRandom)))"

definition candidate_peers ::
  "('x, 'a, 'w) client_env \<Rightarrow> 'a peer_config \<Rightarrow> CheckSum \<Rightarrow> ('x, 'a, 'w) peer_client \<Rightarrow>
   ('x, 'a, 'w) peer_client \<times> 'a list \<times> fetch_source" where
  "candidate_peers E c cs P =
     (let scores = score_snapshot (ce_secs E (pcl_net P)) (pcl_hints P) in
      case index_owners E c cs scores P of
        (P, owners) \<Rightarrow>
          (if owners \<noteq> [] then (P, take (cfg_max_query_peers c) owners, FromIndex)
           else (P, select_peers (\<lambda>xs. ce_shuffle E xs (pcl_net P)) (cfg_max_query_peers c) scores
                      (ranked_peers_with_scores (ce_secs E (pcl_net P)) (cfg_local_addr c) (pcl_health P)
                        (discovery_peers E c P) scores))))"

definition query_peer :: "('x, 'a, 'w) client_env \<Rightarrow> 'a \<Rightarrow> CheckSum \<Rightarrow> 'w \<Rightarrow> 'w \<times> (error + bytes option)" where
  "query_peer E a cs w =
     (case ce_exchange E a (whole_chunk GetChunk cs) w of
        (w', Inl e) \<Rightarrow> (w', Inl e)
      | (w', Inr resp) \<Rightarrow>
          (w', if resp_status resp = STATUS_HIT then Inr (Some (resp_payload resp))
               else if resp_status resp = STATUS_MISS then Inr None else Inl (Io Other)))"

fun fetch_loop ::
  "('x, 'a, 'w) client_env \<Rightarrow> CheckSum \<Rightarrow> 'a list \<Rightarrow> ('x, 'a, 'w) peer_client \<Rightarrow> ('x, 'a, 'w) peer_client \<times> bytes option" where
  "fetch_loop E cs [] P = (P, None)"
| "fetch_loop E cs (a # as) P =
     (case query_peer E a cs (pcl_net P) of
        (w, Inr (Some data)) \<Rightarrow>
          (P\<lparr>pcl_net := w, pcl_health := record_success a (ce_rtt E (pcl_net P) w) (pcl_health P),
             pcl_hints := record_hit (ce_secs E w) a cs (pcl_hints P)\<rparr>, Some data)
      | (w, Inr None) \<Rightarrow> fetch_loop E cs as (P\<lparr>pcl_net := w, pcl_health := record_miss a (pcl_health P)\<rparr>)
      | (w, Inl _) \<Rightarrow>
          fetch_loop E cs as (P\<lparr>pcl_net := w, pcl_health := record_failure (ce_secs E w) a (pcl_health P)\<rparr>))"

definition fetch_chunk_from_peers ::
  "('x, 'a, 'w) client_env \<Rightarrow> 'a peer_config \<Rightarrow> CheckSum \<Rightarrow> ('x, 'a, 'w) peer_client \<Rightarrow>
   ('x, 'a, 'w) peer_client \<times> bytes option" where
  "fetch_chunk_from_peers E c cs P = (case candidate_peers E c cs P of (P, peers, _) \<Rightarrow> fetch_loop E cs peers P)"

definition peer_health_check :: "('x, 'a, 'w) client_env \<Rightarrow> 'a \<Rightarrow> 'w \<Rightarrow> 'w \<times> bool" where
  "peer_health_check E a w =
     (case ce_exchange E a (whole_chunk HealthCheck CheckSum_empty) w of
        (w', Inl _) \<Rightarrow> (w', False)
      | (w', Inr resp) \<Rightarrow> (w', resp_status resp = STATUS_HIT))"

subsection \<open>The index used without a server\<close>

definition sync_register_chunk :: "('x, 'a) chunk_index \<Rightarrow> CheckSum \<Rightarrow> 'x \<Rightarrow> 'x \<times> bool" where
  "sync_register_chunk ix cs x = (case register ix cs x of (x', r) \<Rightarrow> (x', \<not> isl r))"

definition sync_register_chunks :: "('x, 'a) chunk_index \<Rightarrow> CheckSum list \<Rightarrow> 'x \<Rightarrow> 'x \<times> bool" where
  "sync_register_chunks ix css x = (case register_batch ix css x of (x', r) \<Rightarrow> (x', \<not> isl r))"

definition sync_unregister_chunk :: "('x, 'a) chunk_index \<Rightarrow> CheckSum \<Rightarrow> 'x \<Rightarrow> 'x \<times> bool" where
  "sync_unregister_chunk ix cs x = (case unregister ix cs x of (x', r) \<Rightarrow> (x', \<not> isl r))"

definition sync_unregister_chunks :: "('x, 'a) chunk_index \<Rightarrow> CheckSum list \<Rightarrow> 'x \<Rightarrow> 'x \<times> bool" where
  "sync_unregister_chunks ix css x = (case unregister_batch ix css x of (x', r) \<Rightarrow> (x', \<not> isl r))"

end
