(* ===== verification/Discovery.thy ===== *)
theory Discovery
  imports Prelude
begin

text \<open>
  \<open>src/backend/peer.rs\<close>: how the peers of a node are found: a fixed list from the command line, or
  the keys that every node keeps in Redis; and the handle that stops background tasks.

  The parser of socket addresses and the commands of Redis are arguments.  \<open>trim\<close> and \<open>split\<close> are
  those of the standard library for strings of ASCII characters.
\<close>

definition ascii_space :: "char \<Rightarrow> bool" where
  "ascii_space c \<longleftrightarrow> of_char c \<in> {9, 10, 11, 12, 13, 32 :: nat}"

definition trim_start :: "string \<Rightarrow> string" where
  "trim_start s = dropWhile ascii_space s"

definition trim :: "string \<Rightarrow> string" where
  "trim s = rev (trim_start (rev (trim_start s)))"

fun split_on :: "char \<Rightarrow> string \<Rightarrow> string list" where
  "split_on sep [] = [[]]"
| "split_on sep (c # s) =
     (if c = sep then [] # split_on sep s
      else case split_on sep s of [] \<Rightarrow> [[c]] | p # ps \<Rightarrow> (c # p) # ps)"

definition starts_with :: "string \<Rightarrow> string \<Rightarrow> bool" where
  "starts_with p s \<longleftrightarrow> take (length p) s = p"

fun parse_addrs :: "(string \<Rightarrow> 'a option) \<Rightarrow> string list \<Rightarrow> error + 'a list" where
  "parse_addrs parse [] = Inr []"
| "parse_addrs parse (s # ss) =
     (case parse s of
        None \<Rightarrow> Inl (Anyhow (''invalid peer addr: '' @ s))
      | Some a \<Rightarrow> (case parse_addrs parse ss of Inl e \<Rightarrow> Inl e | Inr as \<Rightarrow> Inr (a # as)))"

definition parse_peer_addrs :: "(string \<Rightarrow> 'a option) \<Rightarrow> string \<Rightarrow> error + 'a list" where
  "parse_peer_addrs parse s = parse_addrs parse (filter (\<lambda>p. p \<noteq> []) (map trim (split_on CHR '','' s)))"

datatype 'a discovery = RedisAt string 'a string | StaticPeers "'a list"

text \<open>\<open>open\<close> tells whether the Redis client can be made from the address.\<close>

definition build_discovery ::
  "(string \<Rightarrow> error option) \<Rightarrow> (string \<Rightarrow> 'a option) \<Rightarrow> string \<Rightarrow> string \<Rightarrow> 'a \<Rightarrow> string \<Rightarrow> error + 'a discovery" where
  "build_discovery open parse peer_discovery peer_addrs advertise_addr node_id =
     (if starts_with ''redis://'' peer_discovery then
        (case open peer_discovery of Some e \<Rightarrow> Inl e | None \<Rightarrow> Inr (RedisAt peer_discovery advertise_addr node_id))
      else if trim peer_discovery \<noteq> [] then
        Inl (Anyhow (''unsupported peer discovery configuration: '' @ peer_discovery))
      else case parse_peer_addrs parse peer_addrs of Inl e \<Rightarrow> Inl e | Inr peers \<Rightarrow> Inr (StaticPeers peers))"

subsection \<open>Peers in Redis\<close>

definition DISCOVERY_TTL_SECS :: nat where "DISCOVERY_TTL_SECS = 60"

record ('r, 'a) discovery_env =
  de_connect :: "'r \<Rightarrow> 'r \<times> (error + unit)"
  de_set_ex :: "string \<Rightarrow> string \<Rightarrow> nat \<Rightarrow> 'r \<Rightarrow> 'r \<times> (error + unit)"
  de_keys :: "string \<Rightarrow> 'r \<Rightarrow> 'r \<times> (error + string list)"
  de_mget :: "string list \<Rightarrow> 'r \<Rightarrow> 'r \<times> (error + string option list)"
  de_del :: "string \<Rightarrow> 'r \<Rightarrow> 'r \<times> (error + nat)"
  de_parse :: "string \<Rightarrow> 'a option"

record ('r, 'a) discovery_worker =
  dw_redis :: 'r
  dw_conn :: bool
  dw_key :: string
  dw_value :: string
  dw_advertise :: 'a
  dw_peers :: "'a list"

definition worker_new :: "('a \<Rightarrow> string) \<Rightarrow> 'r \<Rightarrow> 'a \<Rightarrow> string \<Rightarrow> ('r, 'a) discovery_worker" where
  "worker_new display r addr node_id =
     \<lparr>dw_redis = r, dw_conn = False, dw_key = ''distill-fs:peers:'' @ node_id, dw_value = display addr,
      dw_advertise = addr, dw_peers = []\<rparr>"

definition ensure_conn :: "('r, 'a) discovery_env \<Rightarrow> ('r, 'a) discovery_worker \<Rightarrow> ('r, 'a) discovery_worker \<times> (error + unit)" where
  "ensure_conn E D =
     (if dw_conn D then (D, Inr ())
      else case de_connect E (dw_redis D) of
        (r, Inl e) \<Rightarrow> (D\<lparr>dw_redis := r\<rparr>, Inl e)
      | (r, Inr _) \<Rightarrow> (D\<lparr>dw_redis := r, dw_conn := True\<rparr>, Inr ()))"

definition peer_values :: "(string \<Rightarrow> 'a option) \<Rightarrow> 'a \<Rightarrow> string option list \<Rightarrow> 'a list" where
  "peer_values parse self vals = filter (\<lambda>a. a \<noteq> self) (List.map_filter parse (List.map_filter id vals))"

definition refresh_peers ::
  "('r, 'a) discovery_env \<Rightarrow> ('r, 'a) discovery_worker \<Rightarrow> ('r, 'a) discovery_worker \<times> (error + 'a list)" where
  "refresh_peers E D =
     (case ensure_conn E D of
        (D, Inl e) \<Rightarrow> (D, Inl e)
      | (D, Inr _) \<Rightarrow>
          (case de_set_ex E (dw_key D) (dw_value D) DISCOVERY_TTL_SECS (dw_redis D) of
             (r, Inl e) \<Rightarrow> (D\<lparr>dw_redis := r\<rparr>, Inl e)
           | (r, Inr _) \<Rightarrow>
               (case de_keys E ''distill-fs:peers:*'' r of
                  (r, Inl e) \<Rightarrow> (D\<lparr>dw_redis := r\<rparr>, Inl e)
                | (r, Inr keys) \<Rightarrow>
                    (case (if keys = [] then (r, Inr []) else de_mget E keys r) of
                       (r, Inl e) \<Rightarrow> (D\<lparr>dw_redis := r\<rparr>, Inl e)
                     | (r, Inr vals) \<Rightarrow> (D\<lparr>dw_redis := r\<rparr>, Inr (peer_values (de_parse E) (dw_advertise D) vals))))))"

definition delete_peer ::
  "('r, 'a) discovery_env \<Rightarrow> ('r, 'a) discovery_worker \<Rightarrow> ('r, 'a) discovery_worker \<times> (error + unit)" where
  "delete_peer E D =
     (case ensure_conn E D of
        (D, Inl e) \<Rightarrow> (D, Inl e)
      | (D, Inr _) \<Rightarrow>
          (case de_del E (dw_key D) (dw_redis D) of
             (r, Inl e) \<Rightarrow> (D\<lparr>dw_redis := r\<rparr>, Inl e)
           | (r, Inr _) \<Rightarrow> (D\<lparr>dw_redis := r\<rparr>, Inr ())))"

text \<open>One turn of the worker's loop: the peers known so far stay when the refresh fails.\<close>

definition worker_turn :: "('r, 'a) discovery_env \<Rightarrow> ('r, 'a) discovery_worker \<Rightarrow> ('r, 'a) discovery_worker" where
  "worker_turn E D =
     (case refresh_peers E D of
        (D, Inr peers) \<Rightarrow> D\<lparr>dw_peers := peers\<rparr>
      | (D, Inl _) \<Rightarrow> D\<lparr>dw_conn := False\<rparr>)"

subsection \<open>Shutdown\<close>

text \<open>
  \<open>shutdown\<close> sets the flag and then wakes the tasks that wait at that moment.  A task that calls \<open>wait\<close>
  first looks at the flag and then, in a second step, begins to wait.
\<close>

datatype waiter = NotWaiting | Checked | Waits | Returned

record shutdown_state =
  stopped :: bool
  notifying :: bool
  waiters :: "nat \<Rightarrow> waiter"

definition shutdown_new :: shutdown_state where
  "shutdown_new = \<lparr>stopped = False, notifying = False, waiters = (\<lambda>_. NotWaiting)\<rparr>"

inductive shutdown_step :: "shutdown_state \<Rightarrow> shutdown_state \<Rightarrow> bool" where
  sd_store: "shutdown_step s (s\<lparr>stopped := True, notifying := True\<rparr>)"
| sd_notify: "notifying s \<Longrightarrow>
     shutdown_step s (s\<lparr>notifying := False, waiters := (\<lambda>i. if waiters s i = Waits then Returned else waiters s i)\<rparr>)"
| sd_check: "waiters s i = NotWaiting \<Longrightarrow>
     shutdown_step s (s\<lparr>waiters := (waiters s)(i := if stopped s then Returned else Checked)\<rparr>)"
| sd_wait: "waiters s i = Checked \<Longrightarrow> shutdown_step s (s\<lparr>waiters := (waiters s)(i := Waits)\<rparr>)"

end
