(* ===== verification/PeerClientProps.thy ===== *)
theory PeerClientProps
  imports PeerClient Discovery "HOL-Library.Multiset"
begin

text \<open>
  The client for other peers: the order in which peers are ranked and how many are asked; what a
  fetch returns and what it remembers.  The shutdown handle can lose a wake-up.
\<close>

subsection \<open>What is remembered\<close>

lemma record_hit_bounded:
  assumes "\<And>b r. h b = Some r \<Longrightarrow> length (recent_checksums r) \<le> HINT_MAX_RECENT"
    and "record_hit now a cs h b = Some r"
  shows "length (recent_checksums r) \<le> HINT_MAX_RECENT"
  using assms by (auto simp: record_hit_def Let_def default_hit_def split: if_splits option.splits)

text \<open>A peer scores exactly when a hit of it is remembered.\<close>

lemma hit_score_pos: "0 < hit_score now r \<longleftrightarrow> 0 < hit_count r"
  by (cases "hit_count r") (simp_all add: hit_score_def)

lemma unhealthy_after_three:
  assumes "t1 \<le> t2" "t2 \<le> t3" "t3 \<le> now" "now < t3 + 30"
  shows "is_unhealthy now a (record_failure t3 a (record_failure t2 a (record_failure t1 a h)))"
    and "\<not> is_unhealthy now a (record_success a rtt (record_failure t3 a h))"
  using assms
  by (auto simp: is_unhealthy_def peer_unhealthy_def record_failure_def record_success_def health_entry_def Let_def)

subsection \<open>Ranking\<close>

lemma sorted_map_remdups_adj: "sorted (map f xs) \<Longrightarrow> sorted (map f (remdups_adj xs))"
proof (induction xs rule: remdups_adj.induct)
  case (3 x y xs)
  then show ?case by (cases "x = y") (auto simp del: remdups_adj.simps simp add: remdups_adj.simps(3))
qed simp_all

text \<open>
  The ranking keeps every peer but the node itself, puts the healthy ones first, and orders each
  group from the highest score down (the keys are compared lexicographically); no peer stands next
  to itself.
\<close>

theorem ranked_peers_order:
  "set (ranked_peers_with_scores now self h peers scores) = {a \<in> set peers. self \<noteq> Some a} \<and>
   sorted (map (\<lambda>a. (\<not> fst (rank_entry (health_snapshot now h) a), - rank_score (health_snapshot now h) scores a))
     (ranked_peers_with_scores now self h peers scores)) \<and>
   successively (\<noteq>) (ranked_peers_with_scores now self h peers scores)"
proof -
  let ?key = "\<lambda>a. (\<not> fst (rank_entry (health_snapshot now h) a), - rank_score (health_snapshot now h) scores a)"
  let ?l = "ranked_peers_with_scores now self h peers scores"
  have l: "?l = remdups_adj (sort_key ?key (filter (\<lambda>a. \<not> is_self self a) peers))"
    by (simp add: ranked_peers_with_scores_def Let_def)
  have "sorted (map ?key ?l)" unfolding l by (rule sorted_map_remdups_adj) simp
  moreover have "successively (\<noteq>) ?l" unfolding l by (rule distinct_adj_remdups_adj [unfolded distinct_adj_def])
  moreover have "set ?l = {a \<in> set peers. self \<noteq> Some a}" unfolding l by (auto simp: is_self_def)
  ultimately show ?thesis by simp
qed

text \<open>Only neighbours are compared when duplicates are dropped, so a peer can be ranked twice.\<close>

lemma ranked_keeps_duplicate:
  "ranked_peers_with_scores now None Map.empty [1, 2, 1 :: nat] Map.empty = [1, 2, 1]"
proof -
  have "sort_key (\<lambda>a. (\<not> fst (rank_entry (health_snapshot now Map.empty) a), - rank_score (health_snapshot now Map.empty) Map.empty a)) [1, 2, 1 :: nat] = [1, 2, 1]"
    by (simp add: rank_entry_def rank_score_def health_snapshot_def score_of_def)
  then show ?thesis by (simp add: ranked_peers_with_scores_def is_self_def)
qed

subsection \<open>Fetching\<close>

lemma ranked_no_self: "a \<in> set (ranked_peers_with_scores now self h peers scores) \<Longrightarrow> self \<noteq> Some a"
  by (auto simp: ranked_peers_with_scores_def Let_def is_self_def)

lemma select_peers_spec:
  assumes "\<And>xs. mset (shuf xs) = mset xs" "select_peers shuf n scores ranked = (ps, src)"
  shows "length ps = min n (length ranked) \<and> set ps \<subseteq> set ranked"
proof -
  have s: "length (shuf xs) = length xs" "set (shuf xs) = set xs" for xs
    using assms(1) [of xs] mset_eq_setD mset_eq_length by metis+
  define u where "u = filter (\<lambda>a. \<not> score_of scores a > 0) ranked"
  define h where "h = filter (\<lambda>a. score_of scores a > 0) ranked"
  have len: "length h + length u = length ranked" unfolding h_def u_def by (rule sum_length_filter_compl)
  have u: "set (shuf u) \<subseteq> set ranked" "length (shuf u) = length u" by (auto simp: s u_def)
  consider "ranked = []" "ps = []" | "h \<noteq> []" "length h < n \<and> u \<noteq> []" "ps = take n (h @ take (n - length h) (shuf u))"
    | "h \<noteq> []" "\<not> (length h < n \<and> u \<noteq> [])" "ps = take n h" | "h = []" "ps = take n (shuf u)"
    using assms(2) unfolding select_peers_def Let_def h_def [symmetric] u_def [symmetric] by (auto split: if_splits)
  then show ?thesis
  proof cases
    case 2
    then have "length ps = min n (length ranked)" using len u(2) by auto
    moreover have "set ps \<subseteq> set h \<union> set (shuf u)"
      using 2(3) by (auto dest: in_set_takeD)
    ultimately show ?thesis using u(1) by (auto simp: h_def)
  next
    case 3
    then have "length ps = min n (length ranked)" using len by auto
    then show ?thesis using 3(3) by (auto simp: h_def dest: in_set_takeD)
  next
    case 4
    have "length u = length ranked" using len unfolding 4(1) by simp
    then have "length ps = min n (length ranked)" using u(2) by (simp add: 4(2) min.commute)
    moreover have "set ps \<subseteq> set (shuf u)" unfolding 4(2) by (rule set_take_subset)
    ultimately show ?thesis using u(1) by blast
  qed simp
qed

lemma candidate_peers_spec:
  assumes "\<And>xs w. mset (ce_shuffle E xs w) = mset xs" "candidate_peers E c cs P = (P1, ps, src)"
  shows "length ps \<le> cfg_max_query_peers c \<and> (\<forall>a \<in> set ps. cfg_local_addr c \<noteq> Some a) \<and>
    pcl_net P1 = pcl_net P \<and> pcl_health P1 = pcl_health P \<and> pcl_hints P1 = pcl_hints P"
proof -
  let ?scores = "score_snapshot (ce_secs E (pcl_net P)) (pcl_hints P)"
  obtain P2 owners where ix: "index_owners E c cs ?scores P = (P2, owners)" by fastforce
  then have P2: "pcl_net P2 = pcl_net P" "pcl_health P2 = pcl_health P" "pcl_hints P2 = pcl_hints P"
    by (auto simp: index_owners_def split: option.splits prod.splits sum.splits)
  have o: "\<forall>a \<in> set owners. cfg_local_addr c \<noteq> Some a"
    using ix by (auto simp: index_owners_def split: option.splits prod.splits sum.splits dest: ranked_no_self)
  show ?thesis
  proof (cases "owners = []")
    case True
    then have sel: "P1 = P2" "select_peers (\<lambda>xs. ce_shuffle E xs (pcl_net P2)) (cfg_max_query_peers c) ?scores
        (ranked_peers_with_scores (ce_secs E (pcl_net P2)) (cfg_local_addr c) (pcl_health P2) (discovery_peers E c P2) ?scores) = (ps, src)"
      using assms(2) ix by (auto simp: candidate_peers_def Let_def)
    from select_peers_spec [OF assms(1) this(2)] P2 sel(1) show ?thesis
      using ranked_no_self by (metis min.cobounded1 subsetD)
  next
    case False
    then have "P1 = P2" "ps = take (cfg_max_query_peers c) owners"
      using assms(2) ix by (auto simp: candidate_peers_def Let_def)
    with o P2 show ?thesis by (auto dest: in_set_takeD)
  qed
qed

text \<open>The answers in the order they are asked for, up to the first hit.\<close>

fun asked :: "('x, 'a, 'w) client_env \<Rightarrow> CheckSum \<Rightarrow> 'a list \<Rightarrow> 'w \<Rightarrow> ('a \<times> (error + bytes option)) list" where
  "asked E cs [] w = []"
| "asked E cs (a # as) w =
     (case query_peer E a cs w of (w', r) \<Rightarrow>
        (a, r) # (case r of Inr (Some data) \<Rightarrow> [] | _ \<Rightarrow> asked E cs as w'))"

definition requests_of :: "'a \<Rightarrow> 'a health \<Rightarrow> nat" where
  "requests_of a h = total_requests (health_entry a h)"

lemma requests_of_record [simp]:
  "requests_of b (record_success a rtt h) = requests_of b h + of_bool (b = a)"
  "requests_of b (record_failure now a h) = requests_of b h + of_bool (b = a)"
  "requests_of b (record_miss a h) = requests_of b h + of_bool (b = a)"
  by (auto simp: requests_of_def record_success_def record_failure_def record_miss_def health_entry_def Let_def)

lemma fetch_loop_asked:
  assumes "fetch_loop E cs ps P = (P', r)"
  shows "(case r of
      Some data \<Rightarrow> asked E cs ps (pcl_net P) \<noteq> [] \<and> snd (last (asked E cs ps (pcl_net P))) = Inr (Some data)
    | None \<Rightarrow> map fst (asked E cs ps (pcl_net P)) = ps \<and> (\<forall>d. Inr (Some d) \<notin> snd ` set (asked E cs ps (pcl_net P)))) \<and>
    (\<forall>a. requests_of a (pcl_health P') = requests_of a (pcl_health P) + count_list (map fst (asked E cs ps (pcl_net P))) a)"
  using assms
proof (induction ps arbitrary: P)
  case (Cons a ps)
  obtain w y where q: "query_peer E a cs (pcl_net P) = (w, y)" by fastforce
  consider (hit) d where "y = Inr (Some d)" | (miss) "y = Inr None" | (err) e where "y = Inl e"
    by (cases y; cases "projr y") auto
  then show ?case
  proof cases
    case hit
    then show ?thesis using Cons.prems q by auto
  next
    case miss
    let ?P = "P\<lparr>pcl_net := w, pcl_health := record_miss a (pcl_health P)\<rparr>"
    have "fetch_loop E cs ps ?P = (P', r)" using Cons.prems q miss by simp
    from Cons.IH [OF this] q miss show ?thesis by (cases r) auto
  next
    case err
    let ?P = "P\<lparr>pcl_net := w, pcl_health := record_failure (ce_secs E w) a (pcl_health P)\<rparr>"
    have "fetch_loop E cs ps ?P = (P', r)" using Cons.prems q err by simp
    from Cons.IH [OF this] q err show ?thesis by (cases r) auto
  qed
qed simp

text \<open>
  C36: a fetch asks at most the configured number of peers, never the node itself, one after the other
  until one has the chunk; it returns that answer's data, or nothing after all of them were asked
  in vain; and every request is counted for the peer that was asked.
\<close>

theorem fetch_asks_in_order:
  assumes "\<And>xs w. mset (ce_shuffle E xs w) = mset xs" "fetch_chunk_from_peers E c cs P = (P', r)"
  shows "\<exists>ps. length ps \<le> cfg_max_query_peers c \<and> (\<forall>a \<in> set ps. cfg_local_addr c \<noteq> Some a) \<and>
    (case r of
       Some data \<Rightarrow> asked E cs ps (pcl_net P) \<noteq> [] \<and> snd (last (asked E cs ps (pcl_net P))) = Inr (Some data)
     | None \<Rightarrow> map fst (asked E cs ps (pcl_net P)) = ps \<and> (\<forall>d. Inr (Some d) \<notin> snd ` set (asked E cs ps (pcl_net P)))) \<and>
    (\<forall>a. requests_of a (pcl_health P') = requests_of a (pcl_health P) + count_list (map fst (asked E cs ps (pcl_net P))) a)"
proof -
  obtain P1 ps src where cand: "candidate_peers E c cs P = (P1, ps, src)" by (rule prod_cases3)
  have "fetch_loop E cs ps P1 = (P', r)" using assms(2) cand by (simp add: fetch_chunk_from_peers_def)
  from fetch_loop_asked [OF this] have f:
    "case r of
       Some data \<Rightarrow> asked E cs ps (pcl_net P1) \<noteq> [] \<and> snd (last (asked E cs ps (pcl_net P1))) = Inr (Some data)
     | None \<Rightarrow> map fst (asked E cs ps (pcl_net P1)) = ps \<and> (\<forall>d. Inr (Some d) \<notin> snd ` set (asked E cs ps (pcl_net P1)))"
    "\<forall>a. requests_of a (pcl_health P') = requests_of a (pcl_health P1) + count_list (map fst (asked E cs ps (pcl_net P1))) a"
    by blast+
  have c: "length ps \<le> cfg_max_query_peers c" "\<forall>a \<in> set ps. cfg_local_addr c \<noteq> Some a"
    "pcl_net P1 = pcl_net P" "pcl_health P1 = pcl_health P"
    using candidate_peers_spec [OF assms(1) cand] by blast+
  show ?thesis using c(1,2) f [unfolded c(3,4)] by blast
qed

text \<open>A network in which peer 2 has the chunk.\<close>

definition demo_client_env :: "(unit, nat, unit) client_env" where
  "demo_client_env =
     \<lparr>ce_index = None, ce_discovery = \<lambda>_. [1, 2, 3],
      ce_exchange = \<lambda>a r w. (w, Inr \<lparr>resp_id = 0, resp_status = (if a = 2 then STATUS_HIT else STATUS_MISS), resp_payload = [7]\<rparr>),
      ce_shuffle = \<lambda>xs w. xs, ce_secs = \<lambda>_. 100, ce_rtt = \<lambda>_ _. 1\<rparr>"

definition demo_client :: "(unit, nat, unit) peer_client" where
  "demo_client = \<lparr>pcl_hints = Map.empty, pcl_health = Map.empty, pcl_index = (), pcl_net = ()\<rparr>"

theorem fetch_asks_in_order_witness:
  "\<exists>P' r ps. fetch_chunk_from_peers demo_client_env \<lparr>cfg_local_addr = Some 3, cfg_max_query_peers = 3\<rparr> CheckSum_empty demo_client = (P', r) \<and>
    length ps \<le> 3 \<and> (3 :: nat) \<notin> set ps"
proof -
  let ?c = "\<lparr>cfg_local_addr = Some (3 :: nat), cfg_max_query_peers = 3\<rparr>"
  obtain P' r where run: "fetch_chunk_from_peers demo_client_env ?c CheckSum_empty demo_client = (P', r)" by (rule prod.exhaust)
  have "mset (ce_shuffle demo_client_env xs w) = mset xs" for xs w by (simp add: demo_client_env_def)
  from fetch_asks_in_order [OF this run]
  obtain ps where "length ps \<le> cfg_max_query_peers ?c" "\<forall>a \<in> set ps. cfg_local_addr ?c \<noteq> Some a" by blast
  then have "length ps \<le> 3 \<and> 3 \<notin> set ps" by auto
  with run show ?thesis by blast
qed

subsection \<open>Shutdown\<close>

text \<open>
  A task that has seen the flag unset and has not begun to wait when the flag is set and the waiting
  tasks are woken then waits for good: no later step wakes it, unless shutdown is called again.
\<close>

lemma shutdown_wakeup_lost:
  "\<exists>s. shutdown_step\<^sup>*\<^sup>* shutdown_new s \<and> stopped s \<and> waiters s i = Waits \<and>
    (\<forall>s'. shutdown_step s s' \<longrightarrow> waiters s' i = Waits)"
proof -
  define s1 where "s1 = shutdown_new\<lparr>waiters := (waiters shutdown_new)(i := Checked)\<rparr>"
  define s2 where "s2 = s1\<lparr>stopped := True, notifying := True\<rparr>"
  define s3 where "s3 = s2\<lparr>notifying := False, waiters := (\<lambda>j. if waiters s2 j = Waits then Returned else waiters s2 j)\<rparr>"
  define s4 where "s4 = s3\<lparr>waiters := (waiters s3)(i := Waits)\<rparr>"
  have "shutdown_step shutdown_new s1" using sd_check [of shutdown_new i] by (simp add: s1_def shutdown_new_def)
  moreover have "shutdown_step s1 s2" unfolding s2_def by (rule sd_store)
  moreover have "shutdown_step s2 s3" unfolding s3_def by (rule sd_notify) (simp add: s2_def)
  moreover have "shutdown_step s3 s4" unfolding s4_def by (rule sd_wait) (simp add: s3_def s2_def s1_def shutdown_new_def)
  ultimately have "shutdown_step\<^sup>*\<^sup>* shutdown_new s4" by (meson rtranclp.rtrancl_into_rtrancl rtranclp.rtrancl_refl)
  moreover have s4: "stopped s4" "\<not> notifying s4" "waiters s4 i = Waits" by (simp_all add: s4_def s3_def s2_def)
  moreover have "waiters s' i = Waits" if "shutdown_step s4 s'" for s'
    using that s4 by cases auto
  ultimately show ?thesis by blast
qed

end
