(* ===== verification/Acceptor.thy ===== *)
theory Acceptor
  imports PeerServer
begin

text \<open>
  \<open>src/backend/peer.rs\<close>: starting the chunk server (\<open>ChunkServer::new\<close>) and its two accept loops
  (\<open>ConnectionAcceptor\<close>).  The loops for TCP and for the Unix socket share one semaphore; a handler
  runs as a task that holds a permit until it ends, be it by a panic.  What a handler does on its
  connection is the subject of \<open>PeerServer\<close>.
\<close>

definition DEFAULT_MAX_CONNECTIONS :: nat where "DEFAULT_MAX_CONNECTIONS = 8"

subsection \<open>Starting\<close>

text \<open>The calls of the host, over its state; \<open>parent_dir\<close> is a function of the path.\<close>

record ('h, 'a) host_ops =
  parent_dir :: "string \<Rightarrow> string option"
  create_dir_all :: "string \<Rightarrow> 'h \<Rightarrow> 'h \<times> (error + unit)"
  h_exists :: "string \<Rightarrow> 'h \<Rightarrow> bool"
  h_remove_file :: "string \<Rightarrow> 'h \<Rightarrow> 'h \<times> (error + unit)"
  bind_tcp :: "'a \<Rightarrow> 'h \<Rightarrow> 'h \<times> (error + nat)"
  bind_unix :: "string \<Rightarrow> 'h \<Rightarrow> 'h \<times> (error + nat)"
  set_nonblocking :: "nat \<Rightarrow> 'h \<Rightarrow> 'h \<times> (error + unit)"

record ChunkServer =
  cs_tcp :: nat
  cs_unix :: nat
  unix_socket_path :: string
  max_connections :: nat

definition h_bind :: "('h \<Rightarrow> 'h \<times> (error + 'x)) \<Rightarrow> ('x \<Rightarrow> 'h \<Rightarrow> 'h \<times> (error + 'y)) \<Rightarrow> 'h \<Rightarrow> 'h \<times> (error + 'y)" where
  "h_bind m f h = (case m h of (h', Inl e) \<Rightarrow> (h', Inl e) | (h', Inr x) \<Rightarrow> f x h')"

definition ChunkServer_new :: "('h, 'a) host_ops \<Rightarrow> 'a \<Rightarrow> string \<Rightarrow> 'h \<Rightarrow> 'h \<times> (error + ChunkServer)" where
  "ChunkServer_new H listen_addr path =
     h_bind (case parent_dir H path of Some parent \<Rightarrow> create_dir_all H parent | None \<Rightarrow> (\<lambda>h. (h, Inr ()))) (\<lambda>_.
     h_bind (\<lambda>h. if h_exists H path h then h_remove_file H path h else (h, Inr ())) (\<lambda>_.
     h_bind (bind_tcp H listen_addr) (\<lambda>tcp.
     h_bind (bind_unix H path) (\<lambda>unix.
     h_bind (set_nonblocking H tcp) (\<lambda>_.
     h_bind (set_nonblocking H unix) (\<lambda>_ h.
       (h, Inr \<lparr>cs_tcp = tcp, cs_unix = unix, unix_socket_path = path, max_connections = DEFAULT_MAX_CONNECTIONS\<rparr>)))))))"

subsection \<open>The accept loops\<close>

text \<open>
  A loop waits for a connection or the shutdown, holds an accepted connection while it waits for a
  permit, or has ended.  The handlers are counted by transport.
\<close>

datatype accept_pc = Accepting | AwaitPermit | Ended "error option"

record acceptor =
  permits :: nat
  pcs :: "transport \<Rightarrow> accept_pc"
  handlers :: "transport \<Rightarrow> nat"
  ac_stopped :: bool

definition acceptor_new :: "ChunkServer \<Rightarrow> acceptor" where
  "acceptor_new S = \<lparr>permits = max_connections S, pcs = (\<lambda>_. Accepting), handlers = (\<lambda>_. 0), ac_stopped = False\<rparr>"

inductive accept_step :: "acceptor \<Rightarrow> acceptor \<Rightarrow> bool" where
  ac_accept: "pcs A t = Accepting \<Longrightarrow> accept_step A (A\<lparr>pcs := (pcs A)(t := AwaitPermit)\<rparr>)"
| ac_failed: "pcs A t = Accepting \<Longrightarrow> accept_step A (A\<lparr>pcs := (pcs A)(t := Ended (Some e))\<rparr>)"
| ac_leave: "pcs A t = Accepting \<Longrightarrow> ac_stopped A \<Longrightarrow> accept_step A (A\<lparr>pcs := (pcs A)(t := Ended None)\<rparr>)"
| ac_spawn: "pcs A t = AwaitPermit \<Longrightarrow> 0 < permits A \<Longrightarrow>
    accept_step A (A\<lparr>permits := permits A - 1, pcs := (pcs A)(t := Accepting), handlers := (handlers A)(t := Suc (handlers A t))\<rparr>)"
| ac_finish: "0 < handlers A t \<Longrightarrow>
    accept_step A (A\<lparr>permits := Suc (permits A), handlers := (handlers A)(t := handlers A t - 1)\<rparr>)"
| ac_stop: "accept_step A (A\<lparr>ac_stopped := True\<rparr>)"

inductive_cases accept_stepE: "accept_step A B"

text \<open>The result of \<open>run_inner\<close>, once both loops have ended: the error of the TCP loop comes first.\<close>

definition server_result :: "acceptor \<Rightarrow> (error + unit) option" where
  "server_result A =
     (case (pcs A Tcp, pcs A Unix) of
        (Ended r, Ended r') \<Rightarrow>
          Some (case r of Some e \<Rightarrow> Inl e | None \<Rightarrow> (case r' of Some e \<Rightarrow> Inl e | None \<Rightarrow> Inr ()))
      | _ \<Rightarrow> None)"

subsection \<open>How many connections are open\<close>

definition open_connections :: "acceptor \<Rightarrow> nat" where
  "open_connections A = handlers A Tcp + handlers A Unix +
     (if pcs A Tcp = AwaitPermit then 1 else 0) + (if pcs A Unix = AwaitPermit then 1 else 0)"

lemma accept_step_permits:
  "accept_step A B \<Longrightarrow> permits B + handlers B Tcp + handlers B Unix = permits A + handlers A Tcp + handlers A Unix"
proof (erule accept_stepE, goal_cases)
  case (4 t)
  then show ?case by (cases t) simp_all
next
  case (5 t)
  then show ?case by (cases t) simp_all
qed simp_all

lemma accept_steps_permits:
  "accept_step\<^sup>*\<^sup>* A B \<Longrightarrow> permits B + handlers B Tcp + handlers B Unix = permits A + handlers A Tcp + handlers A Unix"
  by (induction rule: rtranclp_induct) (use accept_step_permits in fastforce)+

lemma accept_step_ended: "accept_step A B \<Longrightarrow> pcs A t = Ended r \<Longrightarrow> pcs B t = Ended r"
  by (erule accept_stepE) auto

lemma accept_steps_ended: "accept_step\<^sup>*\<^sup>* A B \<Longrightarrow> pcs A t = Ended r \<Longrightarrow> pcs B t = Ended r"
  by (induction rule: rtranclp_induct) (use accept_step_ended in fastforce)+



text \<open>
  A loop that holds a connection looks at neither the shutdown nor its listener: with every permit
  taken, nothing but the end of a handler lets it go on, so a server under load does not stop when it
  is told to.
\<close>

lemma shutdown_waits_for_permit:
  assumes "pcs A t = AwaitPermit" "permits A = 0" "accept_step A B"
  shows "pcs B t = AwaitPermit \<and> (permits B = 0 \<or> (\<exists>u. handlers B u < handlers A u))"
  using assms(3)
proof cases
  case (ac_finish u)
  then have "handlers B u < handlers A u" "pcs B t = AwaitPermit" using assms(1) by simp_all
  then show ?thesis by blast
qed (use assms(1,2) in auto)

lemma full_server_ignores_shutdown:
  assumes "pcs A t = AwaitPermit" "permits A = 0"
    and "(\<lambda>A B. accept_step A B \<and> handlers B = handlers A)\<^sup>*\<^sup>* A B"
  shows "pcs B t = AwaitPermit \<and> permits B = 0 \<and> server_result B = None"
proof -
  have "pcs B t = AwaitPermit \<and> permits B = 0 \<and> handlers B = handlers A"
    using assms(3)
  proof (induction rule: rtranclp_induct)
    case (step C D)
    then show ?case using shutdown_waits_for_permit [of C t D] by auto
  qed (use assms in auto)
  then show ?thesis by (cases t) (auto simp: server_result_def split: accept_pc.splits)
qed

text \<open>
  When one loop ends with an error, the other goes on, and the server does not return before that one
  ends as well.
\<close>

lemma failed_loop_unnoticed:
  assumes "accept_step\<^sup>*\<^sup>* A B" "pcs A Tcp = Ended (Some e)" "\<forall>r. pcs B Unix \<noteq> Ended r"
  shows "pcs B Tcp = Ended (Some e) \<and> server_result B = None"
  using accept_steps_ended [OF assms(1,2)] assms(3) by (auto simp: server_result_def split: accept_pc.splits)

end
