(* ===== verification/LogRotation.thy ===== *)
theory LogRotation
  imports Capacity "HOL-Library.Sublist"
begin

text \<open>
  \<open>src/log_rotation.rs\<close>: a log writer that keeps the current file and two older ones.  The file system
  maps paths to files; an open file stays writable when its path is renamed or removed.  Every
  system call may fail, and a write may take fewer bytes than it is given: \<open>lf_fails\<close> and \<open>lf_short\<close>
  say so for each call by its number.  A path is known by its directory and file name; the few paths
  without a file name are \<open>Unnamed\<close>.
\<close>

definition MAX_LOG_SIZE :: nat where "MAX_LOG_SIZE = 10 * 1024 * 1024"
definition MAX_LOG_FILES :: nat where "MAX_LOG_FILES = 3"

subsection \<open>Files\<close>

datatype log_path = Named string string | Unnamed string

record log_fs =
  lf_names :: "log_path \<rightharpoonup> nat"
  lf_data :: "nat \<Rightarrow> bytes"
  lf_next :: nat
  lf_calls :: nat
  lf_fails :: "nat \<Rightarrow> error option"
  lf_short :: "nat \<Rightarrow> nat"

definition sys_call :: "log_fs \<Rightarrow> log_fs \<times> error option" where
  "sys_call s = (s\<lparr>lf_calls := Suc (lf_calls s)\<rparr>, lf_fails s (lf_calls s))"

definition path_exists :: "log_path \<Rightarrow> log_fs \<Rightarrow> bool" where
  "path_exists p s \<longleftrightarrow> lf_names s p \<noteq> None"

definition remove_file :: "log_path \<Rightarrow> log_fs \<Rightarrow> log_fs \<times> (error + unit)" where
  "remove_file p s =
     (case sys_call s of
        (s', Some e) \<Rightarrow> (s', Inl e)
      | (s', None) \<Rightarrow> (s'\<lparr>lf_names := (lf_names s')(p := None)\<rparr>, Inr ()))"

definition rename :: "log_path \<Rightarrow> log_path \<Rightarrow> log_fs \<Rightarrow> log_fs \<times> (error + unit)" where
  "rename a b s =
     (case sys_call s of
        (s', Some e) \<Rightarrow> (s', Inl e)
      | (s', None) \<Rightarrow> (if a = b then s' else s'\<lparr>lf_names := (lf_names s')(b := lf_names s' a, a := None)\<rparr>, Inr ()))"

definition open_append :: "log_path \<Rightarrow> log_fs \<Rightarrow> log_fs \<times> (error + nat)" where
  "open_append p s =
     (case sys_call s of
        (s', Some e) \<Rightarrow> (s', Inl e)
      | (s', None) \<Rightarrow>
          (case lf_names s' p of
             Some x \<Rightarrow> (s', Inr x)
           | None \<Rightarrow>
               (s'\<lparr>lf_names := (lf_names s')(p \<mapsto> lf_next s'), lf_data := (lf_data s')(lf_next s' := []),
                   lf_next := Suc (lf_next s')\<rparr>, Inr (lf_next s'))))"

definition file_len :: "nat \<Rightarrow> log_fs \<Rightarrow> log_fs \<times> (error + nat)" where
  "file_len x s =
     (case sys_call s of
        (s', Some e) \<Rightarrow> (s', Inl e)
      | (s', None) \<Rightarrow> (s', Inr (length (lf_data s' x))))"

definition write_file :: "nat \<Rightarrow> bytes \<Rightarrow> log_fs \<Rightarrow> log_fs \<times> (error + nat)" where
  "write_file x buf s =
     (let n = min (length buf) (lf_short s (lf_calls s)) in
      case sys_call s of
        (s', Some e) \<Rightarrow> (s', Inl e)
      | (s', None) \<Rightarrow> (s'\<lparr>lf_data := (lf_data s')(x := lf_data s' x @ take n buf)\<rparr>, Inr n))"

subsection \<open>The writer\<close>

record RotatingFileWriter =
  base_path :: log_path
  current_file :: nat
  current_size :: nat

text \<open>\<open>set_extension\<close> leaves a path without a file name as it is.\<close>

fun rotated_path :: "log_path \<Rightarrow> nat \<Rightarrow> log_path" where
  "rotated_path (Named dir name) index = Named dir (name @ ''.'' @ decimal index)"
| "rotated_path (Unnamed p) index = Unnamed p"

definition open_or_create_file :: "log_path \<Rightarrow> log_fs \<Rightarrow> log_fs \<times> (error + nat \<times> nat)" where
  "open_or_create_file path s =
     (case open_append path s of
        (s1, Inl e) \<Rightarrow> (s1, Inl e)
      | (s1, Inr x) \<Rightarrow>
          (case file_len x s1 of
             (s2, Inl e) \<Rightarrow> (s2, Inl e)
           | (s2, Inr n) \<Rightarrow> (s2, Inr (x, n))))"

definition RotatingFileWriter_new :: "log_path \<Rightarrow> log_fs \<Rightarrow> log_fs \<times> (error + RotatingFileWriter)" where
  "RotatingFileWriter_new path s =
     (case open_or_create_file path s of
        (s', Inl e) \<Rightarrow> (s', Inl e)
      | (s', Inr (x, n)) \<Rightarrow> (s', Inr \<lparr>base_path = path, current_file = x, current_size = n\<rparr>))"

text \<open>The loop renames file \<open>i\<close> to \<open>i + 1\<close> for the indices in the list.\<close>

fun shift_files :: "log_path \<Rightarrow> nat list \<Rightarrow> log_fs \<Rightarrow> log_fs \<times> (error + unit)" where
  "shift_files base [] s = (s, Inr ())"
| "shift_files base (i # is) s =
     (if path_exists (rotated_path base i) s then
        (case rename (rotated_path base i) (rotated_path base (i + 1)) s of
           (s', Inl e) \<Rightarrow> (s', Inl e)
         | (s', Inr _) \<Rightarrow> shift_files base is s')
      else shift_files base is s)"

definition drop_oldest :: "log_path \<Rightarrow> log_fs \<Rightarrow> log_fs \<times> (error + unit)" where
  "drop_oldest base s =
     (let oldest = rotated_path base (MAX_LOG_FILES - 1) in
      if path_exists oldest s then remove_file oldest s else (s, Inr ()))"

definition rotate_files :: "log_path \<Rightarrow> log_fs \<Rightarrow> log_fs \<times> (error + unit)" where
  "rotate_files base s =
     (case drop_oldest base s of
        (s1, Inl e) \<Rightarrow> (s1, Inl e)
      | (s1, Inr _) \<Rightarrow>
          (case shift_files base (rev [1 ..< MAX_LOG_FILES - 1]) s1 of
             (s2, Inl e) \<Rightarrow> (s2, Inl e)
           | (s2, Inr _) \<Rightarrow>
               if path_exists base s2 then rename base (rotated_path base 1) s2 else (s2, Inr ())))"

text \<open>The check of \<open>write\<close>; flushing a file does nothing.\<close>

definition rotate_if_full ::
  "nat \<Rightarrow> RotatingFileWriter \<times> log_fs \<Rightarrow> (RotatingFileWriter \<times> log_fs) \<times> (error + unit)" where
  "rotate_if_full len x =
     (let (lw, s) = x in
      if u64_add (current_size lw) len > MAX_LOG_SIZE then
        (case rotate_files (base_path lw) s of
           (s1, Inl e) \<Rightarrow> ((lw, s1), Inl e)
         | (s1, Inr _) \<Rightarrow>
             (case open_or_create_file (base_path lw) s1 of
                (s2, Inl e) \<Rightarrow> ((lw, s2), Inl e)
              | (s2, Inr (f, n)) \<Rightarrow> ((lw\<lparr>current_file := f, current_size := n\<rparr>, s2), Inr ())))
      else ((lw, s), Inr ()))"

definition log_write ::
  "bytes \<Rightarrow> RotatingFileWriter \<times> log_fs \<Rightarrow> (RotatingFileWriter \<times> log_fs) \<times> (error + nat)" where
  "log_write buf x =
     (case rotate_if_full (length buf) x of
        (x', Inl e) \<Rightarrow> (x', Inl e)
      | ((lw, s), Inr _) \<Rightarrow>
          (case write_file (current_file lw) buf s of
             (s', Inl e) \<Rightarrow> ((lw, s'), Inl e)
           | (s', Inr written) \<Rightarrow> ((lw\<lparr>current_size := u64_add (current_size lw) written\<rparr>, s'), Inr written)))"

text \<open>The writer's clones share it behind a lock, so the calls come one after the other; the result adds what was written.\<close>

fun log_writes :: "bytes list \<Rightarrow> (RotatingFileWriter \<times> log_fs) \<times> bytes \<Rightarrow> (RotatingFileWriter \<times> log_fs) \<times> bytes" where
  "log_writes [] x = x"
| "log_writes (buf # bufs) (x, out) =
     (case log_write buf x of
        (x', Inl e) \<Rightarrow> log_writes bufs (x', out)
      | (x', Inr n) \<Rightarrow> log_writes bufs (x', out @ take n buf))"

end
