(* ===== verification/LogRotationProps.thy ===== *)
theory LogRotationProps
  imports LogRotation
begin

text \<open>
  What rotation keeps: the three files, oldest first, hold the end of everything written, whichever
  calls fail and however short writes are; files stay within the limit; without faults nothing is
  dropped while the files hold less than the limit.
\<close>

subsection \<open>The chain of files\<close>

definition log_paths :: "log_path \<Rightarrow> log_path list" where
  "log_paths base = [rotated_path base 2, rotated_path base 1, base]"

definition chain :: "log_path \<Rightarrow> log_fs \<Rightarrow> nat list" where
  "chain base s = List.map_filter (lf_names s) (log_paths base)"

definition kept :: "log_path \<Rightarrow> log_fs \<Rightarrow> bytes" where
  "kept base s = concat (map (lf_data s) (chain base s))"

lemma chain_eq:
  "chain base s =
    (case lf_names s (rotated_path base 2) of None \<Rightarrow> [] | Some x \<Rightarrow> [x]) @
    (case lf_names s (rotated_path base 1) of None \<Rightarrow> [] | Some x \<Rightarrow> [x]) @
    (case lf_names s base of None \<Rightarrow> [] | Some x \<Rightarrow> [x])"
  by (simp add: chain_def log_paths_def List.map_filter_def split: option.splits)

text \<open>The open file is the newest with data, or no file on disk has data.\<close>

definition newest :: "(nat \<Rightarrow> bytes) \<Rightarrow> nat \<Rightarrow> nat list \<Rightarrow> bool" where
  "newest d h c \<longleftrightarrow> (\<exists>ys zs. c = ys @ h # zs \<and> (\<forall>z \<in> set zs. d z = [])) \<or> h \<notin> set c \<and> (\<forall>z \<in> set c. d z = [])"

lemma newest_tl: "newest d h (x # c) \<Longrightarrow> distinct (x # c) \<Longrightarrow> newest d h c"
  by (cases "x = h") (fastforce simp: newest_def Cons_eq_append_conv)+

lemma newest_snoc_old: "newest d h c \<Longrightarrow> d x = [] \<Longrightarrow> x \<noteq> h \<Longrightarrow> newest d h (c @ [x])"
  unfolding newest_def
proof (elim disjE exE conjE)
  fix ys zs
  assume "c = ys @ h # zs" "\<forall>z \<in> set zs. d z = []" "d x = []"
  then have "c @ [x] = ys @ h # (zs @ [x]) \<and> (\<forall>z \<in> set (zs @ [x]). d z = [])" by simp
  then show "(\<exists>ys zs. c @ [x] = ys @ h # zs \<and> (\<forall>z \<in> set zs. d z = [])) \<or> h \<notin> set (c @ [x]) \<and> (\<forall>z \<in> set (c @ [x]). d z = [])" by blast
qed auto

lemma newest_last: "newest d x (c @ [x])"
  unfolding newest_def by (rule disjI1, rule exI [of _ c], rule exI [of _ "[]"]) simp

lemma newest_data:
  assumes "newest d h c" "distinct c"
  shows "h \<in> set c \<and> concat (map (d(h := d h @ w)) c) = concat (map d c) @ w \<or>
    h \<notin> set c \<and> concat (map (d(h := d h @ w)) c) = [] \<and> concat (map d c) = []"
  using assms unfolding newest_def
proof (elim disjE exE conjE)
  fix ys zs
  assume c: "c = ys @ h # zs" and z: "\<forall>z \<in> set zs. d z = []"
  have h: "h \<notin> set ys" "h \<notin> set zs" using assms(2) c by auto
  have "concat (map (d(h := d h @ w)) c) = concat (map d ys) @ d h @ w @ concat (map d zs)"
    unfolding c by (simp only: map_append list.map map_fun_upd [OF h(1)] map_fun_upd [OF h(2)] fun_upd_same concat_append
        concat.simps append_assoc)
  moreover have "concat (map d zs) = []" using z by simp
  ultimately show ?thesis using c by simp
qed auto

lemma newest_write: "newest d h c \<Longrightarrow> distinct c \<Longrightarrow> newest (d(h := y)) h c"
  unfolding newest_def
proof (elim disjE exE conjE)
  fix ys zs
  assume "c = ys @ h # zs" "\<forall>z \<in> set zs. d z = []" "distinct c"
  then have "c = ys @ h # zs \<and> (\<forall>z \<in> set zs. (d(h := y)) z = [])" by auto
  then show "(\<exists>ys zs. c = ys @ h # zs \<and> (\<forall>z \<in> set zs. (d(h := y)) z = [])) \<or>
    h \<notin> set c \<and> (\<forall>z \<in> set c. (d(h := y)) z = [])" by blast
qed auto

subsection \<open>The invariant\<close>

definition chain_ok :: "log_path \<Rightarrow> nat \<Rightarrow> log_fs \<Rightarrow> bool" where
  "chain_ok base h s \<longleftrightarrow> distinct (chain base s) \<and> (\<forall>x \<in> set (chain base s). x < lf_next s) \<and> h < lf_next s \<and>
     newest (lf_data s) h (chain base s)"

text \<open>A step on files that only drops the oldest ones.\<close>

definition trims :: "log_path \<Rightarrow> log_fs \<Rightarrow> log_fs \<Rightarrow> bool" where
  "trims base s s' \<longleftrightarrow> (chain base s' = chain base s \<or> (\<exists>x. lf_names s (rotated_path base 2) = Some x \<and> chain base s = x # chain base s')) \<and>
     lf_data s' = lf_data s \<and> lf_next s' = lf_next s \<and> lf_fails s' = lf_fails s \<and> lf_short s' = lf_short s"

lemma trims_ok: "trims base s s' \<Longrightarrow> chain_ok base h s \<Longrightarrow> chain_ok base h s'"
  unfolding trims_def chain_ok_def
proof (elim conjE disjE exE)
  fix x
  assume "chain base s = x # chain base s'" "distinct (chain base s)" "newest (lf_data s) h (chain base s)"
  then have "newest (lf_data s) h (chain base s')" by (metis newest_tl)
  moreover assume "chain base s = x # chain base s'" "distinct (chain base s)" "\<forall>x \<in> set (chain base s). x < lf_next s"
    "h < lf_next s" "lf_data s' = lf_data s" "lf_next s' = lf_next s"
  ultimately show "distinct (chain base s') \<and> (\<forall>x \<in> set (chain base s'). x < lf_next s') \<and> h < lf_next s' \<and>
    newest (lf_data s') h (chain base s')" by simp
qed simp

lemma rotated_named:
  assumes "base = Named dir name"
  shows "rotated_path base 1 \<noteq> base" "rotated_path base 2 \<noteq> base" "rotated_path base 2 \<noteq> rotated_path base 1"
  using assms by (simp_all add: decimal.simps)

lemma sys_call_frame:
  "sys_call s = (s', r) \<Longrightarrow> lf_names s' = lf_names s \<and> lf_data s' = lf_data s \<and> lf_next s' = lf_next s \<and>
     lf_fails s' = lf_fails s \<and> lf_short s' = lf_short s \<and> r = lf_fails s (lf_calls s)"
  by (auto simp: sys_call_def)

lemma chain_cong: "lf_names s' = lf_names s \<Longrightarrow> chain base s' = chain base s"
  by (simp add: chain_def)

lemma drop_oldest_trims:
  assumes base: "base = Named dir name" and run: "drop_oldest base s = (s', r)"
  shows "trims base s s' \<and> (r = Inr () \<longrightarrow> lf_names s' (rotated_path base 2) = None)"
  using run rotated_named [OF base]
  by (auto simp: drop_oldest_def Let_def MAX_LOG_FILES_def remove_file_def path_exists_def sys_call_def trims_def chain_eq
      split: option.splits if_splits)

text \<open>A rename to a free name of the next older file does not change the chain.\<close>

definition same_files :: "log_path \<Rightarrow> log_fs \<Rightarrow> log_fs \<Rightarrow> bool" where
  "same_files base s s' \<longleftrightarrow> chain base s' = chain base s \<and>
     lf_data s' = lf_data s \<and> lf_next s' = lf_next s \<and> lf_fails s' = lf_fails s \<and> lf_short s' = lf_short s"

lemma trims_same: "trims base s s1 \<Longrightarrow> same_files base s1 s2 \<Longrightarrow> trims base s s2"
  by (auto simp: trims_def same_files_def)

lemma shift_same:
  assumes base: "base = Named dir name" and free: "lf_names s (rotated_path base 2) = None"
    and run: "shift_files base [1] s = (s', r)"
  shows "same_files base s s' \<and> (r = Inr () \<longrightarrow> lf_names s' (rotated_path base 1) = None)"
proof -
  have two: "Suc 1 = (2 :: nat)" by simp
  show ?thesis
    using run free rotated_named [OF base]
    by (auto simp: rename_def path_exists_def sys_call_def same_files_def chain_eq numeral_2_eq_2 split: option.splits if_splits prod.splits)
qed

lemma rename_same:
  assumes base: "base = Named dir name" and free: "lf_names s (rotated_path base 1) = None"
    and run: "rename base (rotated_path base 1) s = (s', r)"
  shows "same_files base s s' \<and> (r = Inr () \<longrightarrow> lf_names s' base = None)"
  using run free rotated_named [OF base]
  by (auto simp: rename_def sys_call_def same_files_def chain_eq split: option.splits if_splits)

lemma rotate_trims:
  assumes base: "base = Named dir name" and run: "rotate_files base s = (s', r)"
  shows "trims base s s' \<and> (r = Inr () \<longrightarrow> lf_names s' base = None)"
proof -
  obtain s1 r1 where d: "drop_oldest base s = (s1, r1)" by (rule prod.exhaust)
  note h1 = drop_oldest_trims [OF base d]
  show ?thesis
  proof (cases r1)
    case (Inl e)
    then show ?thesis using run d h1 by (auto simp: rotate_files_def)
  next
    case (Inr u)
    obtain s2 r2 where sh: "shift_files base [1] s1 = (s2, r2)" by (rule prod.exhaust)
    have idx: "rev [1 ..< MAX_LOG_FILES - 1] = [1]" by (simp add: MAX_LOG_FILES_def upt_rec)
    have h2: "same_files base s1 s2 \<and> (r2 = Inr () \<longrightarrow> lf_names s2 (rotated_path base 1) = None)"
      using shift_same [OF base _ sh] h1 Inr by simp
    have run1: "(case shift_files base [1] s1 of (s2, Inl e) \<Rightarrow> (s2, Inl e)
        | (s2, Inr _) \<Rightarrow> if path_exists base s2 then rename base (rotated_path base 1) s2 else (s2, Inr ())) = (s', r)"
      using run d Inr unfolding rotate_files_def idx by simp
    have t2: "trims base s s2" using h1 h2 trims_same by blast
    show ?thesis
    proof (cases r2)
      case (Inl e)
      then show ?thesis using run1 [unfolded sh] t2 by auto
    next
      case r2: (Inr v)
      have run2: "(if path_exists base s2 then rename base (rotated_path base 1) s2 else (s2, Inr ())) = (s', r)"
        using run1 [unfolded sh] r2 by simp
      show ?thesis
      proof (cases "path_exists base s2")
        case True
        then have "same_files base s2 s' \<and> (r = Inr () \<longrightarrow> lf_names s' base = None)"
          using rename_same [OF base, of s2 s' r] h2 r2 run2 by fastforce
        then show ?thesis using t2 trims_same by blast
      next
        case False
        then show ?thesis using run2 t2 by (auto simp: path_exists_def)
      qed
    qed
  qed
qed

lemma open_or_create_chain:
  assumes base: "base = Named dir name" and ok: "chain_ok base h s" and free: "lf_names s base = None" and run: "open_or_create_file base s = (s', r)"
  shows "(\<forall>x n. r = Inr (x, n) \<longrightarrow> n = 0 \<and> lf_data s' x = [] \<and> chain_ok base x s') \<and>
    (isl r \<longrightarrow> chain_ok base h s' \<and> lf_data s' h = lf_data s h) \<and>
    kept base s' = kept base s \<and> lf_fails s' = lf_fails s \<and> lf_short s' = lf_short s \<and>
    ((\<forall>x \<in> set (chain base s). length (lf_data s x) \<le> B) \<longrightarrow> (\<forall>x \<in> set (chain base s'). length (lf_data s' x) \<le> B))"
proof (cases "lf_fails s (lf_calls s)")
  case (Some e)
  then have s': "s' = s\<lparr>lf_calls := Suc (lf_calls s)\<rparr>" "r = Inl e"
    using run by (simp_all add: open_or_create_file_def open_append_def sys_call_def)
  then show ?thesis using ok by (simp add: chain_ok_def kept_def chain_def)
next
  case None
  let ?new = "lf_next s"
  define s1 where "s1 = s\<lparr>lf_calls := Suc (lf_calls s), lf_names := (lf_names s)(base \<mapsto> ?new),
    lf_data := (lf_data s)(?new := []), lf_next := Suc ?new\<rparr>"
  have 1: "open_append base s = (s1, Inr ?new)"
    using None free by (simp add: open_append_def sys_call_def s1_def)
  have s': "s' = s1\<lparr>lf_calls := Suc (lf_calls s1)\<rparr>"
    and r: "r = (case lf_fails s1 (lf_calls s1) of Some e \<Rightarrow> Inl e | None \<Rightarrow> Inr (?new, 0))"
    using run 1 by (auto simp: open_or_create_file_def file_len_def sys_call_def s1_def split: option.splits)
  have c: "chain base s' = chain base s @ [?new]"
    using free rotated_named [OF base] by (simp add: s' s1_def chain_eq)
  have d: "lf_data s' = (lf_data s)(?new := [])" "lf_next s' = Suc ?new" "lf_fails s' = lf_fails s" "lf_short s' = lf_short s"
    by (simp_all add: s' s1_def)
  have lt: "x \<in> set (chain base s) \<Longrightarrow> x < ?new" "h < ?new" for x using ok by (auto simp: chain_ok_def)
  have fresh: "?new \<notin> set (chain base s)" using lt(1) by blast
  have same: "map (lf_data s') (chain base s) = map (lf_data s) (chain base s)" unfolding d by (rule map_fun_upd [OF fresh])
  have k: "kept base s' = kept base s" unfolding kept_def c using same by (simp only: map_append concat_append) (simp add: d(1))
  have nw: "newest (lf_data s') h (chain base s)"
    using ok lt unfolding chain_ok_def newest_def d by fastforce
  have "chain_ok base ?new s'"
    using ok lt newest_last [of "lf_data s'" ?new "chain base s"] by (auto simp: chain_ok_def c d(2) less_Suc_eq)
  moreover have "chain_ok base h s'"
    using ok lt newest_snoc_old [OF nw, of ?new] by (auto simp: chain_ok_def c d less_Suc_eq)
  ultimately show ?thesis using k lt by (auto simp: r c d split: option.splits)
qed

subsection \<open>Writing\<close>

definition no_faults :: "log_fs \<Rightarrow> bool" where
  "no_faults s \<longleftrightarrow> (\<forall>k. lf_fails s k = None) \<and> (\<forall>k. MAX_LOG_SIZE \<le> lf_short s k)"

text \<open>
  \<open>out\<close> is everything written so far; \<open>small\<close> says that every buffer is within the limit.
\<close>

definition log_inv :: "bool \<Rightarrow> log_path \<Rightarrow> RotatingFileWriter \<times> log_fs \<Rightarrow> bytes \<Rightarrow> bool" where
  "log_inv small base x out \<longleftrightarrow>
     (let (lw, s) = x in
      base_path lw = base \<and> chain_ok base (current_file lw) s \<and> suffix (kept base s) out \<and>
      (no_faults s \<longrightarrow> lf_names s base = Some (current_file lw)) \<and>
      (small \<longrightarrow> current_size lw = length (lf_data s (current_file lw)) \<and> current_size lw \<le> MAX_LOG_SIZE \<and>
         (\<forall>f \<in> set (chain base s). length (lf_data s f) \<le> MAX_LOG_SIZE) \<and>
         (no_faults s \<longrightarrow> kept base s = out \<or> MAX_LOG_SIZE < length (kept base s))))"

lemma drop_no_fail:
  "\<forall>k. lf_fails s k = None \<Longrightarrow> \<exists>s'. drop_oldest base s = (s', Inr ()) \<and> lf_fails s' = lf_fails s"
  by (simp add: drop_oldest_def remove_file_def sys_call_def Let_def)

lemma rename_no_fail:
  "\<forall>k. lf_fails s k = None \<Longrightarrow> \<exists>s'. rename a b s = (s', Inr ()) \<and> lf_fails s' = lf_fails s"
  by (simp add: rename_def sys_call_def)

lemma shift_no_fail:
  "\<forall>k. lf_fails s k = None \<Longrightarrow> \<exists>s'. shift_files base is s = (s', Inr ()) \<and> lf_fails s' = lf_fails s"
proof (induction "is" arbitrary: s)
  case (Cons i js)
  obtain s1 where "rename (rotated_path base i) (rotated_path base (i + 1)) s = (s1, Inr ())" "lf_fails s1 = lf_fails s"
    using rename_no_fail [OF Cons.prems] by blast
  then show ?case using Cons.IH [of s1] Cons.IH [of s] Cons.prems by simp
qed simp

lemma rotate_no_fail:
  assumes f: "\<forall>k. lf_fails s k = None"
  shows "\<exists>s'. rotate_files base s = (s', Inr ())"
proof -
  obtain s1 where 1: "drop_oldest base s = (s1, Inr ())" "lf_fails s1 = lf_fails s" using drop_no_fail [OF f] by blast
  obtain s2 where 2: "shift_files base (rev [1 ..< MAX_LOG_FILES - 1]) s1 = (s2, Inr ())" "lf_fails s2 = lf_fails s1"
    using shift_no_fail [of s1] f 1 by fastforce
  have "\<exists>s'. rename base (rotated_path base 1) s2 = (s', Inr ())" using rename_no_fail [of s2] f 1 2 by fastforce
  then show ?thesis unfolding rotate_files_def 1 2 prod.case sum.case by auto
qed

lemma open_no_fail:
  assumes "\<forall>k. lf_fails s k = None"
  shows "\<exists>s' x n. open_or_create_file base s = (s', Inr (x, n)) \<and> lf_names s' base = Some x"
proof -
  have f: "lf_fails s = (\<lambda>_. None)" using assms by auto
  show ?thesis
    by (cases "lf_names s base") (simp_all add: open_or_create_file_def open_append_def file_len_def sys_call_def f)
qed

lemma length_in_concat: "x \<in> set c \<Longrightarrow> length (d x) \<le> length (concat (map d c))"
  by (induction c) auto

lemma kept_trims:
  assumes "trims base s s'"
  shows "suffix (kept base s') (kept base s)"
  using assms by (auto simp: trims_def kept_def suffix_def)

lemma kept_after_drop:
  assumes ok: "chain_ok base h s" and h: "lf_names s base = Some h" and t: "trims base s s'"
  shows "h \<in> set (chain base s') \<and> (kept base s' = kept base s \<or> length (lf_data s h) \<le> length (kept base s'))"
proof -
  have "h \<in> set (chain base s')"
    using ok h t by (auto simp: trims_def chain_ok_def chain_eq split: option.splits)
  then show ?thesis using length_in_concat [of h "chain base s'" "lf_data s"] t by (simp add: kept_def trims_def)
qed

lemma rotate_ok:
  assumes base: "base = Named dir name" and inv: "log_inv small base (lw, s) out" and len: "small \<Longrightarrow> len \<le> MAX_LOG_SIZE"
    and run: "rotate_if_full len (lw, s) = ((lw', s'), r)"
  shows "base_path lw' = base \<and> chain_ok base (current_file lw') s' \<and> suffix (kept base s') out \<and>
    lf_fails s' = lf_fails s \<and> lf_short s' = lf_short s \<and>
    (no_faults s \<longrightarrow> r = Inr () \<and> lf_names s' base = Some (current_file lw')) \<and>
    (small \<longrightarrow> current_size lw' = length (lf_data s' (current_file lw')) \<and> current_size lw' \<le> MAX_LOG_SIZE \<and>
       (\<forall>f \<in> set (chain base s'). length (lf_data s' f) \<le> MAX_LOG_SIZE) \<and> (r = Inr () \<longrightarrow> current_size lw' + len \<le> MAX_LOG_SIZE) \<and>
       (no_faults s \<longrightarrow> kept base s' = out \<or> MAX_LOG_SIZE < length (kept base s') + len))"
proof (cases "u64_add (current_size lw) len > MAX_LOG_SIZE")
  case False
  have "current_size lw + len \<le> MAX_LOG_SIZE" if small
  proof -
    have "current_size lw + len < 2 ^ 64" using inv len that by (simp add: log_inv_def MAX_LOG_SIZE_def)
    from u64_add_exact [OF this] False show ?thesis by simp
  qed
  then show ?thesis using run inv False by (auto simp: rotate_if_full_def log_inv_def)
next
  case full: True
  have b: "base_path lw = base" and ch: "chain_ok base (current_file lw) s" and sf: "suffix (kept base s) out"
    using inv by (simp_all add: log_inv_def)
  obtain s1 r1 where rot: "rotate_files base s = (s1, r1)" by (rule prod.exhaust)
  note t = rotate_trims [OF base rot]
  have fr: "lf_data s1 = lf_data s" "lf_fails s1 = lf_fails s" "lf_short s1 = lf_short s" using t by (simp_all add: trims_def)
  have sub: "set (chain base s1) \<subseteq> set (chain base s)" using t by (auto simp: trims_def)
  have ch1: "chain_ok base (current_file lw) s1" using trims_ok t ch by blast
  have sf1: "suffix (kept base s1) out" using kept_trims t sf suffix_order.trans by blast
  show ?thesis
  proof (cases r1)
    case (Inl e)
    then have "\<not> no_faults s" using rotate_no_fail [of s base] rot by (auto simp: no_faults_def)
    then show ?thesis using run full rot Inl b ch1 sf1 fr sub inv by (auto simp: rotate_if_full_def log_inv_def)
  next
    case (Inr u)
    obtain s2 r2 where op: "open_or_create_file base s1 = (s2, r2)" by (rule prod.exhaust)
    have "lf_names s1 base = None" using t Inr by simp
    note o = open_or_create_chain [OF base ch1 this op, of MAX_LOG_SIZE]
    show ?thesis
    proof (cases r2)
      case (Inl e)
      have "\<not> no_faults s" using open_no_fail [of s1 base] op Inl fr by (auto simp: no_faults_def)
      then show ?thesis using run full rot Inr op Inl b o sf1 fr sub inv by (auto simp: rotate_if_full_def log_inv_def)
    next
      case r2: (Inr p)
      obtain f n where p: "p = (f, n)" by (rule prod.exhaust)
      have res: "lw' = lw\<lparr>current_file := f, current_size := n\<rparr>" "s' = s2" "r = Inr ()"
        using run full rot Inr op r2 p b by (auto simp: rotate_if_full_def)
      have o': "n = 0" "lf_data s2 f = []" "chain_ok base f s2" "kept base s2 = kept base s1" using o r2 p by simp_all
      have nf: "lf_names s2 base = Some f" if "no_faults s"
        using open_no_fail [of s1 base] op r2 p fr that by (auto simp: no_faults_def)
      have big: "kept base s1 = out \<or> MAX_LOG_SIZE < length (kept base s1) + len" if small "no_faults s"
      proof -
        have i: "lf_names s base = Some (current_file lw)" "current_size lw = length (lf_data s (current_file lw))"
          "current_size lw \<le> MAX_LOG_SIZE" "kept base s = out \<or> MAX_LOG_SIZE < length (kept base s)"
          using inv that by (simp_all add: log_inv_def)
        have "current_size lw + len < 2 ^ 64" using i(3) len that by (simp add: MAX_LOG_SIZE_def)
        from u64_add_exact [OF this] full have "MAX_LOG_SIZE < current_size lw + len" by simp
        then show ?thesis using kept_after_drop [OF ch i(1) conjunct1 [OF t]] i(2,4) by auto
      qed
      have sz: "\<forall>x \<in> set (chain base s2). length (lf_data s2 x) \<le> MAX_LOG_SIZE" if small
        using o inv sub fr that by (auto simp: log_inv_def)
      show ?thesis using res o o' nf big sz sf1 fr b len by (auto simp: no_faults_def)
    qed
  qed
qed

lemma no_faults_cong: "lf_fails s' = lf_fails s \<Longrightarrow> lf_short s' = lf_short s \<Longrightarrow> no_faults s' = no_faults s"
  by (simp add: no_faults_def)

lemma write_ok:
  assumes base: "base = Named dir name" and inv: "log_inv small base x out" and len: "small \<Longrightarrow> length buf \<le> MAX_LOG_SIZE"
    and run: "log_write buf x = (x', r)"
  shows "log_inv small base x' (case r of Inl e \<Rightarrow> out | Inr n \<Rightarrow> out @ take n buf) \<and> no_faults (snd x') = no_faults (snd x)"
proof -
  obtain lw s where x: "x = (lw, s)" by (rule prod.exhaust)
  obtain lw1 s1 r1 where rot: "rotate_if_full (length buf) (lw, s) = ((lw1, s1), r1)" by (metis prod.exhaust)
  note h = rotate_ok [OF base inv [unfolded x] len rot]
  have nf1: "no_faults s1 = no_faults s" using h no_faults_cong by blast
  show ?thesis
  proof (cases r1)
    case (Inl e)
    have "x' = (lw1, s1) \<and> r = Inl e" using run x rot Inl by (simp add: log_write_def)
    then show ?thesis using h nf1 Inl by (auto simp: log_inv_def x)
  next
    case (Inr u)
    define n where "n = min (length buf) (lf_short s1 (lf_calls s1))"
    let ?f = "current_file lw1"
    show ?thesis
    proof (cases "lf_fails s1 (lf_calls s1)")
      case (Some e)
      then have "x' = (lw1, s1\<lparr>lf_calls := Suc (lf_calls s1)\<rparr>) \<and> r = Inl e"
        using run x rot Inr by (simp add: log_write_def write_file_def sys_call_def Let_def)
      then show ?thesis using h nf1 Some by (auto simp: log_inv_def x no_faults_def chain_ok_def kept_def chain_def)
    next
      case None
      define s2 where "s2 = s1\<lparr>lf_calls := Suc (lf_calls s1), lf_data := (lf_data s1)(?f := lf_data s1 ?f @ take n buf)\<rparr>"
      have x': "x' = (lw1\<lparr>current_size := u64_add (current_size lw1) n\<rparr>, s2)" "r = Inr n"
        using run x rot Inr None by (simp_all add: log_write_def write_file_def sys_call_def Let_def s2_def n_def)
      have c: "chain base s2 = chain base s1" "lf_next s2 = lf_next s1" "lf_names s2 = lf_names s1"
        "lf_data s2 = (lf_data s1)(?f := lf_data s1 ?f @ take n buf)" "no_faults s2 = no_faults s1"
        by (simp_all add: s2_def chain_def no_faults_def)
      have ch: "distinct (chain base s1)" "newest (lf_data s1) ?f (chain base s1)" using h by (simp_all add: chain_ok_def)
      have kept: "?f \<in> set (chain base s1) \<and> kept base s2 = kept base s1 @ take n buf \<or> ?f \<notin> set (chain base s1) \<and> kept base s2 = []"
        using newest_data [OF ch(2,1), of "take n buf"] by (auto simp: kept_def c)
      have "chain_ok base ?f s2" using h newest_write [OF ch(2,1)] by (simp add: chain_ok_def c)
      moreover have "suffix (kept base s2) (out @ take n buf)" using kept h by (auto simp: suffix_def)
      moreover have "u64_add (current_size lw1) n = length (lf_data s2 ?f) \<and> length (lf_data s2 ?f) \<le> MAX_LOG_SIZE" if small
      proof -
        have "current_size lw1 + n \<le> MAX_LOG_SIZE" "current_size lw1 = length (lf_data s1 ?f)" using h that Inr by (auto simp: n_def)
        moreover from this have "u64_add (current_size lw1) n = current_size lw1 + n"
          by (intro u64_add_exact) (simp add: MAX_LOG_SIZE_def)
        ultimately show ?thesis by (simp add: c n_def)
      qed
      moreover have "kept base s2 = out @ take n buf \<or> MAX_LOG_SIZE < length (kept base s2)" if small "no_faults s2"
      proof -
        have nf: "no_faults s" "no_faults s1" using that c nf1 by simp_all
        have "n = length buf" using nf(2) len [OF that(1)] unfolding n_def no_faults_def by (meson le_trans min.absorb1)
        moreover have "?f \<in> set (chain base s1)" using h nf(1) by (auto simp: chain_eq)
        ultimately show ?thesis using kept h that(1) nf(1) by auto
      qed
      ultimately show ?thesis using h nf1 x' by (auto simp: log_inv_def x c)
    qed
  qed
qed

lemma writes_ok:
  assumes base: "base = Named dir name"
  shows "log_writes bufs (x, out) = (x', out') \<Longrightarrow> log_inv small base x out \<Longrightarrow> (small \<Longrightarrow> \<forall>buf \<in> set bufs. length buf \<le> MAX_LOG_SIZE) \<Longrightarrow>
    log_inv small base x' out' \<and> no_faults (snd x') = no_faults (snd x)"
proof (induction bufs arbitrary: x out)
  case (Cons buf bufs)
  obtain x1 r where w: "log_write buf x = (x1, r)" by (rule prod.exhaust)
  have "small \<Longrightarrow> length buf \<le> MAX_LOG_SIZE" using Cons.prems(3) by simp
  note h = write_ok [OF base Cons.prems(2) this w]
  show ?case using Cons.IH [of x1 "case r of Inl e \<Rightarrow> out | Inr n \<Rightarrow> out @ take n buf"] Cons.prems(1,3) w h by (auto split: sum.splits)
qed simp


definition demo_log_fs :: log_fs where
  "demo_log_fs = \<lparr>lf_names = Map.empty, lf_data = \<lambda>_. [], lf_next = 0, lf_calls = 0, lf_fails = \<lambda>_. None, lf_short = \<lambda>_. MAX_LOG_SIZE\<rparr>"


end
