(* ===== verification/Nydus.thy ===== *)
theory Nydus
  imports RawImage CacheOps
begin

text \<open>
  \<open>src/image/nydus.rs\<close>: the file system of a RAFS image, whose files are lists of chunks that lie,
  possibly compressed, in blobs.  The chunks come from the chunk database or from the blob's reader,
  which reads the storage backend directly, through a cache, or through a cache with deduplication;
  chunks that were read are handed to a worker that stores them.

  The \<open>nydus\<close> crates are arguments: the super block with its inodes (\<open>rafs\<close>), the decompressor and
  the storage backend.  The image is a state passed along: its readers by blob, the databases they
  share with it, the bounded channel of the worker.  A reader over both databases keeps its own copy
  of their state in the model, which is replaced by the shared one for each call.
\<close>

subsection \<open>The image format\<close>

datatype DigestAlgorithm = DigestBlake3 | DigestSha256

record chunk_info =
  ck_id :: bytes
  ck_blob :: nat
  ck_encrypted :: bool
  ck_batch :: bool
  ck_compressed :: bool
  ck_coffset :: nat
  ck_csize :: nat
  ck_usize :: nat

record blob_info =
  bl_index :: nat
  bl_id :: string
  bl_digester :: DigestAlgorithm
  bl_compressor :: nat

text \<open>The fields of \<open>stat64\<close> and \<open>Attr\<close> that the file system changes.\<close>

record file_attr =
  fa_ino :: nat
  fa_uid :: nat
  fa_gid :: nat
  fa_atime :: int
  fa_ctime :: int
  fa_mtime :: int

record fs_entry =
  fe_inode :: nat
  fe_attr :: file_attr
  fe_attr_timeout :: nat
  fe_entry_timeout :: nat

record rafs_inode =
  ri_ino :: nat
  ri_dir :: bool
  ri_reg :: bool
  ri_size :: nat
  ri_parent :: nat
  ri_entry :: fs_entry
  ri_attr :: file_attr
  ri_symlink :: "error + bytes"
  ri_xattr :: "bytes \<Rightarrow> error + bytes option"
  ri_xattrs :: "error + bytes list"
  ri_chunk :: "nat \<Rightarrow> error + chunk_info"

record rafs =
  rs_inode :: "nat \<Rightarrow> error + rafs_inode"
  rs_ext_inode :: "nat \<Rightarrow> error + rafs_inode"
  rs_child :: "rafs_inode \<Rightarrow> bytes \<Rightarrow> error + rafs_inode"
  rs_blobs :: "blob_info list"
  rs_v6 :: bool
  rs_root :: nat
  rs_chunk_size :: nat
  rs_has_xattr :: bool
  rs_explicit_uidgid :: bool
  rs_attr_timeout :: nat
  rs_entry_timeout :: nat
  rs_magic :: nat
  rs_inodes_count :: nat

subsection \<open>State\<close>

definition CHUNK_STORE_REQ_BUF_SIZE :: nat where "CHUNK_STORE_REQ_BUF_SIZE = 4096"
definition CHUNK_STORE_BATCH_SIZE :: nat where "CHUNK_STORE_BATCH_SIZE = 64"

datatype ('s, 'i, 'b) blob_reader =
    Direct 'b
  | Cached "'b cache"
  | Deduped "('s, 'i, 'b cache) dedup_env" "('s, 'i, 'b cache) dedup_state"

text \<open>
  The worker's channel is \<open>ni_queue\<close>, the oldest request first; \<open>ni_worker\<close> tells whether its receiver
  still exists.
\<close>

record ('s, 'i, 'b) NydusImage =
  ni_readers :: "string \<rightharpoonup> ('s, 'i, 'b) blob_reader"
  ni_db :: "('s chunkdb \<times> 'i) option"
  ni_queue :: "(CheckSum \<times> bytes) list"
  ni_worker :: bool
  ni_dropped :: nat
  ni_limiter :: RateLimitedLog

record ('s, 'i, 'b) nydus_env =
  ne_sb :: rafs
  ne_blobs :: "nat \<rightharpoonup> blob_info"
  ne_source :: "'b backend_ex_ops"
  ne_get_reader :: "string \<Rightarrow> error + 'b"
  ne_fs :: fs_ops
  ne_files :: file_ops
  ne_page :: nat
  ne_dedup :: "('s, 'i, 'b cache) dedup_env"
  ne_decompress :: "nat \<Rightarrow> bytes \<Rightarrow> bytes \<Rightarrow> bytes \<times> (error + nat)"
  ne_cache_dir :: string
  ne_uid :: nat
  ne_gid :: nat
  ne_time :: nat

text \<open>
  \<open>new\<close>; the file test, the loader of the super block, the files, the databases with the client (\<open>D\<close>), the
  decompressor and the identity and time of the process are arguments.
\<close>

definition NydusImage_new ::
  "('f, 'c, 'k, 'r) factory \<Rightarrow> 'r blob_ops \<Rightarrow> (string \<Rightarrow> bool) \<Rightarrow> (string \<Rightarrow> 'c \<Rightarrow> error + rafs) \<Rightarrow>
   fs_ops \<Rightarrow> file_ops \<Rightarrow> nat \<Rightarrow> ('s, 'i, 'r BackendReader cache) dedup_env \<Rightarrow>
   (nat \<Rightarrow> bytes \<Rightarrow> bytes \<Rightarrow> bytes \<times> (error + nat)) \<Rightarrow> nat \<Rightarrow> nat \<Rightarrow> nat \<Rightarrow>
   string \<Rightarrow> string \<Rightarrow> string \<Rightarrow> ('s chunkdb \<times> 'i) option \<Rightarrow>
   error + ('s, 'i, 'r BackendReader) nydus_env \<times> ('s, 'i, 'r BackendReader) NydusImage" where
  "NydusImage_new F R is_file load_from_file fs files page D decompress uid gid now bootstrap backend_cfg cache_dir dedup_db =
     (if \<not> is_file backend_cfg then Inl (Io InvalidInput)
      else case GeneralBackend_new F backend_cfg of
        Inl e \<Rightarrow> Inl e
      | Inr gb \<Rightarrow>
          (case load_from_file bootstrap (gb_config gb) of
             Inl e \<Rightarrow> Inl e
           | Inr sb \<Rightarrow>
               if rs_v6 sb then Inl (Io Unsupported)
               else Inr
                 (\<lparr>ne_sb = sb, ne_blobs = map_of (rev (map (\<lambda>b. (bl_index b, b)) (rs_blobs sb))),
                   ne_source = BackendReader_ops R, ne_get_reader = GeneralBackend_get_reader F R gb,
                   ne_fs = fs, ne_files = files, ne_page = page, ne_dedup = D\<lparr>d_backend := cache_ops fs (BackendReader_ops R)\<rparr>,
                   ne_decompress = decompress, ne_cache_dir = cache_dir, ne_uid = uid, ne_gid = gid, ne_time = now\<rparr>,
                  \<lparr>ni_readers = Map.empty, ni_db = dedup_db, ni_queue = [], ni_worker = True, ni_dropped = 0,
                   ni_limiter = RateLimitedLog_new 5\<rparr>)))"

definition root_ino :: "('s, 'i, 'b) nydus_env \<Rightarrow> nat" where
  "root_ino N = rs_root (ne_sb N)"

definition to_rafs_ino :: "('s, 'i, 'b) nydus_env \<Rightarrow> nat \<Rightarrow> nat" where
  "to_rafs_ino N ino = (if ino = ROOT_ID then root_ino N else ino)"

definition get_blob :: "('s, 'i, 'b) nydus_env \<Rightarrow> nat \<Rightarrow> error + blob_info" where
  "get_blob N i = (case ne_blobs N i of None \<Rightarrow> Inl (Io NotFound) | Some b \<Rightarrow> Inr b)"

subsection \<open>Readers\<close>

text \<open>The bytes of a string, which is ASCII here.\<close>

definition string_bytes :: "string \<Rightarrow> bytes" where
  "string_bytes s = map of_char s"

text \<open>A reader is created on first use; the lock on the map is held throughout.\<close>

definition new_blob_reader ::
  "('s, 'i, 'b) nydus_env \<Rightarrow> string \<Rightarrow> ('s chunkdb \<times> 'i) option \<Rightarrow> error + ('s, 'i, 'b) blob_reader" where
  "new_blob_reader N blob_id db =
     (case ne_get_reader N blob_id of
        Inl e \<Rightarrow> Inl e
      | Inr b \<Rightarrow>
          if ne_cache_dir N = [] then Inr (Direct b)
          else
            (let cache_file = ne_cache_dir N @ ''/'' @ blob_id in
             case cache_io (Cache_new (ne_files N) (ne_page N) (ne_source N) b cache_file) of
               Inl e \<Rightarrow> Inl e
             | Inr c \<Rightarrow>
                 (case db of
                    None \<Rightarrow> Inr (Cached c)
                  | Some (q, ix) \<Rightarrow>
                      (case DedupReader_new (ne_dedup N) (string_bytes blob_id) q ix c of
                         Inl e \<Rightarrow> Inl (if e = Panic then Panic else Io Other)
                       | Inr (E, D) \<Rightarrow> Inr (Deduped E D)))))"

definition get_blob_reader ::
  "('s, 'i, 'b) nydus_env \<Rightarrow> string \<Rightarrow> ('s, 'i, 'b) NydusImage \<Rightarrow>
   ('s, 'i, 'b) NydusImage \<times> (error + ('s, 'i, 'b) blob_reader)" where
  "get_blob_reader N blob_id img =
     (case ni_readers img blob_id of
        Some rd \<Rightarrow> (img, Inr rd)
      | None \<Rightarrow>
          (case new_blob_reader N blob_id (ni_db img) of
             Inl e \<Rightarrow> (img, Inl e)
           | Inr rd \<Rightarrow> (img\<lparr>ni_readers := (ni_readers img)(blob_id \<mapsto> rd)\<rparr>, Inr rd)))"

text \<open>\<open>fetch\<close> of a reader, over the databases it shares with the image.\<close>

definition reader_fetch ::
  "('s, 'i, 'b) nydus_env \<Rightarrow> ('s chunkdb \<times> 'i) option \<times> ('s, 'i, 'b) blob_reader \<Rightarrow> nat \<Rightarrow> bytes \<Rightarrow>
   (('s chunkdb \<times> 'i) option \<times> ('s, 'i, 'b) blob_reader) \<times> bytes \<times> (error + nat)" where
  "reader_fetch N x off buf =
     (case x of
        (db, Direct b) \<Rightarrow> (case be_fetch (ne_source N) b off buf of (b', buf', r) \<Rightarrow> ((db, Direct b'), buf', r))
      | (db, Cached c) \<Rightarrow>
          (case be_fetch (cache_ops (ne_fs N) (ne_source N)) c off buf of (c', buf', r) \<Rightarrow> ((db, Cached c'), buf', r))
      | (db, Deduped E D) \<Rightarrow>
          (let D0 = (case db of None \<Rightarrow> D | Some (q, ix) \<Rightarrow> D\<lparr>dd_chunks := q, dd_index := ix\<rparr>) in
           case DedupReader_fetch E D0 off buf of
             (D', buf', r) \<Rightarrow> ((map_option (\<lambda>_. (dd_chunks D', dd_index D')) db, Deduped E D'), buf', r)))"

subsection \<open>Chunks\<close>

definition checksum_from_chunk :: "chunk_info \<Rightarrow> blob_info \<Rightarrow> error + CheckSum" where
  "checksum_from_chunk chunk blob =
     CheckSum_new (ck_id chunk) (case bl_digester blob of DigestBlake3 \<Rightarrow> Blake3 | DigestSha256 \<Rightarrow> Sha256)"

text \<open>The loop of \<open>read_blob_range\<close>: \<open>rd\<close> bytes of \<open>buf\<close> are filled.\<close>

function range_loop ::
  "('x \<Rightarrow> nat \<Rightarrow> bytes \<Rightarrow> 'x \<times> bytes \<times> (error + nat)) \<Rightarrow> nat \<Rightarrow> nat \<Rightarrow> bytes \<Rightarrow> nat \<Rightarrow> 'x \<Rightarrow> 'x \<times> (error + bytes)" where
  "range_loop fetch off sz buf rd x =
     (if rd \<ge> sz then (x, Inr buf)
      else case fetch x (u64_add off rd) (drop rd buf) of
        (x', sub, Inl e) \<Rightarrow> (x', Inl e)
      | (x', sub, Inr n) \<Rightarrow>
          if n = 0 then (x', Inl (Io UnexpectedEof)) else range_loop fetch off sz (take rd buf @ sub) (rd + n) x')"
  by pat_completeness auto
termination
  by (relation "measure (\<lambda>(fetch, off, sz, buf, rd, x). sz - rd)") auto

declare range_loop.simps [simp del]

definition read_blob_range ::
  "('s, 'i, 'b) nydus_env \<Rightarrow> string \<Rightarrow> ('s, 'i, 'b) blob_reader \<Rightarrow> nat \<Rightarrow> nat \<Rightarrow> ('s, 'i, 'b) NydusImage \<Rightarrow>
   ('s, 'i, 'b) NydusImage \<times> (error + bytes)" where
  "read_blob_range N blob_id rd offset sz img =
     (case range_loop (reader_fetch N) offset sz (replicate sz 0) 0 (ni_db img, rd) of
        ((db, rd'), r) \<Rightarrow> (img\<lparr>ni_db := db, ni_readers := (ni_readers img)(blob_id \<mapsto> rd')\<rparr>, r))"

definition read_chunk_data ::
  "('s, 'i, 'b) nydus_env \<Rightarrow> chunk_info \<Rightarrow> blob_info \<Rightarrow> ('s, 'i, 'b) NydusImage \<Rightarrow>
   ('s, 'i, 'b) NydusImage \<times> (error + bytes)" where
  "read_chunk_data N chunk blob img =
     (if ck_encrypted chunk \<or> ck_batch chunk then (img, Inl (Io Unsupported))
      else if ck_usize chunk = 0 then (img, Inr [])
      else if ck_csize chunk = 0 then (img, Inr (replicate (ck_usize chunk) 0))
      else case get_blob_reader N (bl_id blob) img of
        (img1, Inl e) \<Rightarrow> (img1, Inl e)
      | (img1, Inr rd) \<Rightarrow>
          (case read_blob_range N (bl_id blob) rd (ck_coffset chunk) (ck_csize chunk) img1 of
             (img2, Inl e) \<Rightarrow> (img2, Inl e)
           | (img2, Inr compressed) \<Rightarrow>
               if \<not> ck_compressed chunk then
                 (if length compressed < ck_usize chunk then (img2, Inl (Io InvalidData))
                  else (img2, Inr (take (ck_usize chunk) compressed)))
               else case ne_decompress N (bl_compressor blob) compressed (replicate (ck_usize chunk) 0) of
                 (d, Inl e) \<Rightarrow> (img2, Inl (Io InvalidData))
               | (d, Inr n) \<Rightarrow> (img2, Inr (if n \<noteq> ck_usize chunk then take n d else d))))"

text \<open>A full channel, or one without receiver, drops the request; the count of drops is logged now and then.\<close>

definition store_chunk_bg ::
  "nat \<Rightarrow> CheckSum \<Rightarrow> bytes \<Rightarrow> ('s, 'i, 'b) NydusImage \<Rightarrow> ('s, 'i, 'b) NydusImage" where
  "store_chunk_bg now cs data img =
     (if ni_db img = None then img
      else if ni_worker img \<and> length (ni_queue img) < CHUNK_STORE_REQ_BUF_SIZE
      then img\<lparr>ni_queue := ni_queue img @ [(cs, data)]\<rparr>
      else case should_log (ni_limiter img) now of
        (l, log) \<Rightarrow> img\<lparr>ni_limiter := l, ni_dropped := (if log then 0 else u64_add (ni_dropped img) 1)\<rparr>)"

definition read_from_chunkdb ::
  "('s, 'i, 'b) nydus_env \<Rightarrow> ('w \<Rightarrow> bytes \<Rightarrow> 'w \<times> (error + nat)) \<Rightarrow> CheckSum \<Rightarrow> nat \<Rightarrow> nat \<Rightarrow>
   ('s, 'i, 'b) NydusImage \<Rightarrow> 'w \<Rightarrow> ('s, 'i, 'b) NydusImage \<times> 'w \<times> (error + nat option)" where
  "read_from_chunkdb N fw cs start len img w =
     (case ni_db img of
        None \<Rightarrow> (img, w, Inr None)
      | Some (q, ix) \<Rightarrow>
          (case with_chunk_range (d_store (ne_dedup N)) cs start len fw q w of
             (q', w', r) \<Rightarrow>
               (img\<lparr>ni_db := Some (q', ix)\<rparr>, w',
                case r of Inr x \<Rightarrow> Inr x | Inl e \<Rightarrow> if e = Panic then Inl Panic else Inr None)))"

subsection \<open>Reading a file\<close>

definition check_read_range :: "rafs_inode \<Rightarrow> nat \<Rightarrow> nat \<Rightarrow> error + nat" where
  "check_read_range inode sz offset =
     (if checked_add_u64 offset sz = None then Inl (Io InvalidInput)
      else if \<not> ri_reg inode then Inl (Os 21)
      else if sz = 0 \<or> offset \<ge> ri_size inode then Inr 0
      else Inr (min sz (ri_size inode - offset)))"

text \<open>
  The product \<open>chunk_idx * chunk_size\<close> is at most the end of the range, which the check above keeps in
  the range of \<open>u64\<close>.  The state holds \<open>remaining\<close> and \<open>total\<close>.
\<close>

definition read_chunk_into_writer ::
  "('s, 'i, 'b) nydus_env \<Rightarrow> ('w \<Rightarrow> bytes \<Rightarrow> 'w \<times> (error + nat)) \<Rightarrow> nat \<Rightarrow> rafs_inode \<Rightarrow> nat \<Rightarrow> nat \<Rightarrow> nat \<Rightarrow> nat \<times> nat \<Rightarrow>
   ('s, 'i, 'b) NydusImage \<Rightarrow> 'w \<Rightarrow> ('s, 'i, 'b) NydusImage \<times> 'w \<times> (error + nat \<times> nat)" where
  "read_chunk_into_writer N fw now inode chunk_idx offset chunk_size counts img w =
     (let (remaining, tot) = counts in
      case ri_chunk inode (as_u32 chunk_idx) of
        Inl e \<Rightarrow> (img, w, Inl e)
      | Inr chunk \<Rightarrow>
          (case get_blob N (ck_blob chunk) of
             Inl e \<Rightarrow> (img, w, Inl e)
           | Inr blob \<Rightarrow>
               (let chunk_base = chunk_idx * chunk_size;
                    chunk_offset = (if offset > chunk_base then offset - chunk_base else 0)
                in if chunk_offset \<ge> ck_usize chunk then (img, w, Inl (Io InvalidData))
                   else
                     (let wanted = min remaining (ck_usize chunk - chunk_offset) in
                      case checksum_from_chunk chunk blob of
                        Inl e \<Rightarrow> (img, w, Inl e)
                      | Inr cs \<Rightarrow>
                          (case read_from_chunkdb N fw cs chunk_offset wanted img w of
                             (img1, w1, Inl e) \<Rightarrow> (img1, w1, Inl e)
                           | (img1, w1, Inr (Some n)) \<Rightarrow> (img1, w1, Inr (u64_sub remaining n, tot + n))
                           | (img1, w1, Inr None) \<Rightarrow>
                               (case read_chunk_data N chunk blob img1 of
                                  (img2, Inl e) \<Rightarrow> (img2, w1, Inl e)
                                | (img2, Inr data) \<Rightarrow>
                                    if chunk_offset + wanted > length data then (img2, w1, Inl (Io InvalidData))
                                    else
                                      (case fw w1 (slice data chunk_offset (chunk_offset + wanted)) of
                                         (w2, Inl e) \<Rightarrow> (img2, w2, Inl e)
                                       | (w2, Inr n) \<Rightarrow>
                                           (if length data = ck_usize chunk then store_chunk_bg now cs data img2 else img2,
                                            w2, Inr (u64_sub remaining n, tot + n)))))))))"

fun read_chunks ::
  "('s, 'i, 'b) nydus_env \<Rightarrow> ('w \<Rightarrow> bytes \<Rightarrow> 'w \<times> (error + nat)) \<Rightarrow> nat \<Rightarrow> rafs_inode \<Rightarrow> nat list \<Rightarrow> nat \<Rightarrow> nat \<Rightarrow> nat \<times> nat \<Rightarrow>
   ('s, 'i, 'b) NydusImage \<Rightarrow> 'w \<Rightarrow> ('s, 'i, 'b) NydusImage \<times> 'w \<times> (error + nat)" where
  "read_chunks N fw now inode [] offset chunk_size counts img w = (img, w, Inr (snd counts))"
| "read_chunks N fw now inode (chunk_idx # idxs) offset chunk_size counts img w =
     (case read_chunk_into_writer N fw now inode chunk_idx offset chunk_size counts img w of
        (img', w', Inl e) \<Rightarrow> (img', w', Inl e)
      | (img', w', Inr counts') \<Rightarrow>
          if fst counts' = 0 then (img', w', Inr (snd counts'))
          else read_chunks N fw now inode idxs offset chunk_size counts' img' w')"

definition nydus_read ::
  "('s, 'i, 'b) nydus_env \<Rightarrow> ('w \<Rightarrow> bytes \<Rightarrow> 'w \<times> (error + nat)) \<Rightarrow> nat \<Rightarrow> nat \<Rightarrow> nat \<Rightarrow> nat \<Rightarrow>
   ('s, 'i, 'b) NydusImage \<Rightarrow> 'w \<Rightarrow> ('s, 'i, 'b) NydusImage \<times> 'w \<times> (error + nat)" where
  "nydus_read N fw now ino sz offset img w =
     (case rs_ext_inode (ne_sb N) (to_rafs_ino N ino) of
        Inl e \<Rightarrow> (img, w, Inl e)
      | Inr inode \<Rightarrow>
          (case check_read_range inode sz offset of
             Inl e \<Rightarrow> (img, w, Inl e)
           | Inr read_size \<Rightarrow>
               if read_size = 0 then (img, w, Inr 0)
               else
                 (let chunk_size = rs_chunk_size (ne_sb N) in
                  if chunk_size = 0 then (img, w, Inl Panic)
                  else read_chunks N fw now inode [offset div chunk_size ..< Suc ((offset + read_size - 1) div chunk_size)]
                         offset chunk_size (read_size, 0) img w)))"

subsection \<open>The worker\<close>

text \<open>
  One turn of \<open>run\<close>: the requests in the channel, at most a batch, are stored together.  A failure
  is logged.
\<close>

definition store_turn ::
  "('s, 'i, 'b) nydus_env \<Rightarrow> nat \<Rightarrow> ('s, 'i, 'b) NydusImage \<Rightarrow> ('s, 'i, 'b) NydusImage option" where
  "store_turn N now img =
     (case ni_db img of
        None \<Rightarrow> Some img
      | Some (q, ix) \<Rightarrow>
          (case add_chunks (d_store (ne_dedup N)) now (take CHUNK_STORE_BATCH_SIZE (ni_queue img)) q of
             None \<Rightarrow> None
           | Some (q', r) \<Rightarrow>
               Some (img\<lparr>ni_db := Some (q', ix), ni_queue := drop CHUNK_STORE_BATCH_SIZE (ni_queue img)\<rparr>)))"

text \<open>Dropping the image closes the channel and waits for the worker, which stores what is left.\<close>

function store_rest ::
  "('s, 'i, 'b) nydus_env \<Rightarrow> nat \<Rightarrow> ('s, 'i, 'b) NydusImage \<Rightarrow> ('s, 'i, 'b) NydusImage option" where
  "store_rest N now img =
     (if ni_queue img = [] \<or> ni_db img = None then Some (img\<lparr>ni_worker := False\<rparr>)
      else case store_turn N now img of
        None \<Rightarrow> None
      | Some img' \<Rightarrow> store_rest N now img')"
  by pat_completeness auto
termination
proof (relation "measure (\<lambda>(N, now, img). length (ni_queue img))", simp, goal_cases)
  case (1 N now img img')
  then have "ni_queue img' = drop CHUNK_STORE_BATCH_SIZE (ni_queue img)"
    by (auto simp: store_turn_def split: option.splits)
  with 1 show ?case by (simp add: CHUNK_STORE_BATCH_SIZE_def)
qed

declare store_rest.simps [simp del]

end
