(* ===== verification/NydusFs.thy ===== *)
theory NydusFs
  imports Nydus
begin

text \<open>
  \<open>src/image/nydus.rs\<close>: the operations of the file system other than reading.  Names are byte strings
  without the terminating zero.  The walk over a directory is the inode's own and is an argument: it
  hands the children from an offset on to a handler until the handler fails or says to stop.
\<close>

definition ENOTDIR :: nat where "ENOTDIR = 20"
definition ERANGE :: nat where "ERANGE = 34"
definition ENOSYS :: nat where "ENOSYS = 38"
definition ENODATA :: nat where "ENODATA = 61"

datatype fs_option = ASYNC_READ | ASYNC_DIO | BIG_WRITES | MAX_PAGES | ZERO_MESSAGE_OPEN | ZERO_MESSAGE_OPENDIR

text \<open>\<open>init\<close>: the options are a set of flags.\<close>

definition nydus_init :: "fs_option list \<Rightarrow> fs_option list" where
  "nydus_init capable =
     [ASYNC_READ, ASYNC_DIO, BIG_WRITES, MAX_PAGES] @
     (if ZERO_MESSAGE_OPEN \<in> set capable then [ZERO_MESSAGE_OPEN] else []) @
     (if ZERO_MESSAGE_OPENDIR \<in> set capable then [ZERO_MESSAGE_OPENDIR] else [])"

text \<open>The raw image (\<open>image/raw.rs\<close>) asks for the same but for big writes.\<close>

definition raw_init :: "fs_option list \<Rightarrow> fs_option list" where
  "raw_init capable =
     [ASYNC_DIO, ASYNC_READ, MAX_PAGES] @
     (if ZERO_MESSAGE_OPEN \<in> set capable then [ZERO_MESSAGE_OPEN] else []) @
     (if ZERO_MESSAGE_OPENDIR \<in> set capable then [ZERO_MESSAGE_OPENDIR] else [])"

subsection \<open>Attributes\<close>

text \<open>The two adjustments common to entries and attributes; the second uses the mount time for a file without one.\<close>

definition own_attr :: "('s, 'i, 'b) nydus_env \<Rightarrow> file_attr \<Rightarrow> file_attr" where
  "own_attr N a = (if \<not> rs_explicit_uidgid (ne_sb N) then a\<lparr>fa_uid := ne_uid N, fa_gid := ne_gid N\<rparr> else a)"

definition time_attr :: "('s, 'i, 'b) nydus_env \<Rightarrow> file_attr \<Rightarrow> file_attr" where
  "time_attr N a =
     (if fa_mtime a = 0 then a\<lparr>fa_atime := int (ne_time N), fa_ctime := int (ne_time N), fa_mtime := int (ne_time N)\<rparr> else a)"

definition nydus_entry :: "('s, 'i, 'b) nydus_env \<Rightarrow> rafs_inode \<Rightarrow> fs_entry" where
  "nydus_entry N inode =
     (let entry = ri_entry inode;
          ino = (if ri_ino inode = root_ino N then ROOT_ID else ri_ino inode)
      in entry\<lparr>fe_inode := ino, fe_attr := time_attr N (own_attr N ((fe_attr entry)\<lparr>fa_ino := ino\<rparr>)),
               fe_attr_timeout := rs_attr_timeout (ne_sb N), fe_entry_timeout := rs_entry_timeout (ne_sb N)\<rparr>)"

definition nydus_attr :: "('s, 'i, 'b) nydus_env \<Rightarrow> nat \<Rightarrow> error + file_attr" where
  "nydus_attr N ino =
     (let rafs_ino = to_rafs_ino N ino in
      case rs_ext_inode (ne_sb N) rafs_ino of
        Inl e \<Rightarrow> Inl e
      | Inr inode \<Rightarrow>
          (let attr = ri_attr inode;
               attr = (if rafs_ino = root_ino N then attr\<lparr>fa_ino := ROOT_ID\<rparr> else attr)
           in Inr (time_attr N (own_attr N attr))))"

definition nydus_getattr :: "('s, 'i, 'b) nydus_env \<Rightarrow> nat \<Rightarrow> error + file_attr \<times> nat" where
  "nydus_getattr N ino =
     (case nydus_attr N ino of Inl e \<Rightarrow> Inl e | Inr a \<Rightarrow> Inr (a, rs_attr_timeout (ne_sb N)))"

subsection \<open>Names\<close>

definition DOT :: bytes where "DOT = [46]"
definition DOTDOT :: bytes where "DOTDOT = [46, 46]"

definition nydus_lookup :: "('s, 'i, 'b) nydus_env \<Rightarrow> nat \<Rightarrow> bytes \<Rightarrow> error + fs_entry" where
  "nydus_lookup N parent target =
     (let rafs_parent = to_rafs_ino N parent in
      case rs_inode (ne_sb N) rafs_parent of
        Inl e \<Rightarrow> Inl e
      | Inr parent_inode \<Rightarrow>
          if \<not> ri_dir parent_inode then Inl (Os ENOTDIR)
          else if target = DOT \<or> rafs_parent = root_ino N \<and> target = DOTDOT then Inr (nydus_entry N parent_inode)
          else if target = DOTDOT then
            (case rs_ext_inode (ne_sb N) (ri_ino parent_inode) of
               Inl e \<Rightarrow> Inl e
             | Inr p \<Rightarrow>
                 (case rs_inode (ne_sb N) (ri_parent p) of
                    Inl e \<Rightarrow> Inl e
                  | Inr inode \<Rightarrow> Inr (nydus_entry N inode)))
          else
            (case rs_child (ne_sb N) parent_inode target of
               Inr inode \<Rightarrow> Inr (nydus_entry N inode)
             | Inl _ \<Rightarrow> Inl (Os ENOENT)))"

definition nydus_readlink :: "('s, 'i, 'b) nydus_env \<Rightarrow> nat \<Rightarrow> error + bytes" where
  "nydus_readlink N ino =
     (case rs_inode (ne_sb N) (to_rafs_ino N ino) of Inl e \<Rightarrow> Inl e | Inr inode \<Rightarrow> ri_symlink inode)"

subsection \<open>Directories\<close>

definition do_readdir ::
  "('s, 'i, 'b) nydus_env \<Rightarrow> (rafs_inode \<Rightarrow> nat \<Rightarrow> ('w \<Rightarrow> bytes \<times> nat \<times> nat \<Rightarrow> 'w \<times> (error + bool)) \<Rightarrow> 'w \<Rightarrow> 'w \<times> (error + unit)) \<Rightarrow>
   nat \<Rightarrow> nat \<Rightarrow> nat \<Rightarrow> ('w \<Rightarrow> dir_entry \<Rightarrow> 'w \<times> (error + nat)) \<Rightarrow> 'w \<Rightarrow> 'w \<times> (error + unit)" where
  "do_readdir N walk ino sz offset add_entry w =
     (if sz = 0 then (w, Inr ())
      else case rs_inode (ne_sb N) (to_rafs_ino N ino) of
        Inl e \<Rightarrow> (w, Inl e)
      | Inr parent \<Rightarrow>
          if \<not> ri_dir parent then (w, Inl (Os ENOTDIR))
          else walk parent offset
            (\<lambda>w (name, ino, offset).
               case add_entry w \<lparr>de_ino = ino, de_offset = offset, de_name = name\<rparr> of
                 (w', Inl e) \<Rightarrow> (w', Inl e)
               | (w', Inr n) \<Rightarrow> (w', Inr (n \<noteq> 0)))
            w)"

definition nydus_readdirplus ::
  "('s, 'i, 'b) nydus_env \<Rightarrow> (rafs_inode \<Rightarrow> nat \<Rightarrow> ('w \<Rightarrow> bytes \<times> nat \<times> nat \<Rightarrow> 'w \<times> (error + bool)) \<Rightarrow> 'w \<Rightarrow> 'w \<times> (error + unit)) \<Rightarrow>
   nat \<Rightarrow> nat \<Rightarrow> nat \<Rightarrow> ('w \<Rightarrow> dir_entry \<Rightarrow> fs_entry \<Rightarrow> 'w \<times> (error + nat)) \<Rightarrow> 'w \<Rightarrow> 'w \<times> (error + unit)" where
  "nydus_readdirplus N walk ino sz offset add_entry w =
     do_readdir N walk ino sz offset
       (\<lambda>w d. case rs_inode (ne_sb N) (de_ino d) of
                Inl e \<Rightarrow> (w, Inl e)
              | Inr inode \<Rightarrow> add_entry w d (nydus_entry N inode))
       w"

subsection \<open>Extended attributes\<close>

datatype xattr_reply = XCount nat | XValue bytes

definition nydus_getxattr :: "('s, 'i, 'b) nydus_env \<Rightarrow> nat \<Rightarrow> bytes \<Rightarrow> nat \<Rightarrow> error + xattr_reply" where
  "nydus_getxattr N ino name sz =
     (if \<not> rs_has_xattr (ne_sb N) then Inl (Os ENOSYS)
      else case rs_inode (ne_sb N) (to_rafs_ino N ino) of
        Inl e \<Rightarrow> Inl e
      | Inr inode \<Rightarrow>
          (case ri_xattr inode name of
             Inl e \<Rightarrow> Inl e
           | Inr None \<Rightarrow> Inl (Os ENODATA)
           | Inr (Some v) \<Rightarrow>
               if sz = 0 then Inr (XCount (as_u32 (length v + 1)))
               else if sz < as_u32 (length v) then Inl (Os ERANGE)
               else Inr (XValue v)))"

text \<open>The loop over the names: the count and the buffer.\<close>

fun list_names :: "nat \<Rightarrow> bytes list \<Rightarrow> nat \<times> bytes \<Rightarrow> nat \<times> bytes" where
  "list_names sz [] acc = acc"
| "list_names sz (name # names) acc =
     list_names sz names (fst acc + length name + 1, if sz \<noteq> 0 then snd acc @ name @ [0] else snd acc)"

definition nydus_listxattr :: "('s, 'i, 'b) nydus_env \<Rightarrow> nat \<Rightarrow> nat \<Rightarrow> error + xattr_reply" where
  "nydus_listxattr N ino sz =
     (if \<not> rs_has_xattr (ne_sb N) then Inl (Os ENOSYS)
      else case rs_inode (ne_sb N) (to_rafs_ino N ino) of
        Inl e \<Rightarrow> Inl e
      | Inr inode \<Rightarrow>
          (case ri_xattrs inode of
             Inl e \<Rightarrow> Inl e
           | Inr names \<Rightarrow>
               (let (n, buf) = list_names sz names (0, []) in
                if sz = 0 then Inr (XCount (as_u32 n))
                else if sz < as_u32 n then Inl (Os ERANGE)
                else Inr (XValue buf))))"

record statvfs =
  f_namemax :: nat
  f_bsize :: nat
  f_fsid :: nat
  f_files :: nat

definition nydus_statfs :: "('s, 'i, 'b) nydus_env \<Rightarrow> statvfs" where
  "nydus_statfs N =
     \<lparr>f_namemax = 255, f_bsize = 512, f_fsid = rs_magic (ne_sb N), f_files = rs_inodes_count (ne_sb N)\<rparr>"

subsection \<open>What the replies say\<close>

text \<open>
  The size a caller learns from a reply of size 0 is enough for the call that follows, and that call
  returns the names each followed by a zero.
\<close>

lemma list_names_acc:
  "list_names sz names (n, buf) =
    (n + length (concat (map (\<lambda>x. x @ [0]) names)), if sz \<noteq> 0 then buf @ concat (map (\<lambda>x. x @ [0]) names) else buf)"
  by (induction names arbitrary: n buf) auto

lemma listxattr_probe:
  assumes "nydus_listxattr N ino 0 = Inr (XCount n)" "0 < n"
  shows "\<exists>inode names. rs_inode (ne_sb N) (to_rafs_ino N ino) = Inr inode \<and> ri_xattrs inode = Inr names \<and>
    nydus_listxattr N ino n = Inr (XValue (concat (map (\<lambda>x. x @ [0]) names)))"
  using assms by (auto simp: nydus_listxattr_def list_names_acc split: sum.splits if_splits)

lemma getxattr_probe:
  assumes "nydus_getxattr N ino name 0 = Inr (XCount n)" "n \<noteq> 0"
  shows "\<exists>v. nydus_getxattr N ino name n = Inr (XValue v) \<and> n = as_u32 (length v + 1)"
proof -
  obtain inode v where *: "rs_has_xattr (ne_sb N)" "rs_inode (ne_sb N) (to_rafs_ino N ino) = Inr inode"
    "ri_xattr inode name = Inr (Some v)" "n = as_u32 (length v + 1)"
    using assms by (auto simp: nydus_getxattr_def split: sum.splits if_splits option.splits)
  have "\<not> n < as_u32 (length v)"
  proof
    assume lt: "n < as_u32 (length v)"
    have "as_u32 (length v + 1) = (as_u32 (length v) + 1) mod 2 ^ 32" by (simp add: as_u32_def mod_simps)
    moreover have "as_u32 (length v) + 1 \<le> 2 ^ 32" using as_u32_less [of "length v"] by linarith
    ultimately show False using lt *(4) assms(2) by (cases "as_u32 (length v) + 1 = 2 ^ 32") simp_all
  qed
  then show ?thesis using * assms(2) by (auto simp: nydus_getxattr_def)
qed

text \<open>Every entry the file system hands out carries one inode number in both places, and never the inner root number.\<close>

lemma nydus_entry_ino:
  "fe_inode (nydus_entry N inode) = fa_ino (fe_attr (nydus_entry N inode))"
  "fe_inode (nydus_entry N inode) = root_ino N \<Longrightarrow> root_ino N = ROOT_ID"
  by (auto simp: nydus_entry_def Let_def own_attr_def time_attr_def split: if_splits)

lemma to_rafs_ino_entry:
  assumes "ri_ino inode \<noteq> ROOT_ID \<or> root_ino N = ROOT_ID"
  shows "to_rafs_ino N (fe_inode (nydus_entry N inode)) = ri_ino inode"
  using assms by (auto simp: to_rafs_ino_def nydus_entry_def Let_def)

end
