(* ===== verification/Cli.thy ===== *)
theory Cli
  imports NydusFs OpenDb Stats Discovery
begin

text \<open>
  \<open>src/cli.rs\<close>: what the commands put together.  The parsed options are records; the parser of the
  command line, daemonising, logging, metrics and the mounting itself are not modelled, and what is
  mounted is the result.  The environment \<open>mount_env\<close> has what the host and the other crates
  provide: the storage backends, files, the openers of the two stores by directory, and the client
  of the chunk server by the path of its socket.
\<close>

datatype Source = Local | Oss | Nydus

record FsOptions =
  o_name :: string
  o_cache_file :: string
  o_cache_dir :: string
  o_cfg :: string
  o_src :: Source
  o_chunk_db_dir :: string
  o_chunk_db_size :: "nat option"
  o_image_meta_dir :: string
  o_bootstrap :: string
  o_chunk_server_sock :: string
  o_tokio_worker_threads :: nat

record ('s, 'i, 'f, 'c, 'k, 'r, 'w) mount_env =
  me_factory :: "('f, 'c, 'k, 'r) factory"
  me_blob :: "'r blob_ops"
  me_is_file :: "string \<Rightarrow> bool"
  me_load_rafs :: "string \<Rightarrow> 'c \<Rightarrow> error + rafs"
  me_decompress :: "nat \<Rightarrow> bytes \<Rightarrow> bytes \<Rightarrow> bytes \<times> (error + nat)"
  me_fs :: fs_ops
  me_files :: file_ops
  me_page :: nat
  me_open_chunks :: "string \<Rightarrow> 's open_ops"
  me_open_index :: "string \<Rightarrow> 'i open_ops"
  me_store :: "'s chunk_env"
  me_index :: "'i index_env"
  me_digests :: digests
  me_runtime :: "nat \<Rightarrow> bool"
  me_client :: "string \<Rightarrow> CheckSum \<Rightarrow> 's chunkdb \<Rightarrow> 's chunkdb"
  me_fuse :: "'w \<Rightarrow> bytes \<Rightarrow> 'w \<times> (error + nat)"
  me_uid :: nat
  me_gid :: nat
  me_now :: nat

text \<open>Paths are strings; \<open>join\<close> of a directory.\<close>

definition default_chunk_server_socket :: "string \<Rightarrow> string" where
  "default_chunk_server_socket chunk_db_dir =
     (if chunk_db_dir \<noteq> [] \<and> last chunk_db_dir = CHR ''/'' then chunk_db_dir @ ''chunkserver.sock''
      else chunk_db_dir @ ''/chunkserver.sock'')"

definition resolve_chunk_server_socket :: "string \<Rightarrow> string \<Rightarrow> string option" where
  "resolve_chunk_server_socket chunk_db_dir chunk_server_sock =
     (if chunk_server_sock \<noteq> [] then Some chunk_server_sock
      else if chunk_db_dir \<noteq> [] then Some (default_chunk_server_socket chunk_db_dir)
      else None)"

text \<open>A runtime that cannot be started leaves the mount without a client.\<close>

definition build_local_chunk_client ::
  "('s, 'i, 'f, 'c, 'k, 'r, 'w) mount_env \<Rightarrow> FsOptions \<Rightarrow> (CheckSum \<Rightarrow> 's chunkdb \<Rightarrow> 's chunkdb) option" where
  "build_local_chunk_client M opts =
     (case resolve_chunk_server_socket (o_chunk_db_dir opts) (o_chunk_server_sock opts) of
        None \<Rightarrow> None
      | Some path \<Rightarrow> if me_runtime M (o_tokio_worker_threads opts) then Some (me_client M path) else None)"

text \<open>The builder of the runtime panics when it is given no worker thread, as its documentation says.\<close>

definition runtime_panics :: "nat \<Rightarrow> bool" where
  "runtime_panics worker_threads \<longleftrightarrow> worker_threads = 0"

definition client_panics :: "FsOptions \<Rightarrow> bool" where
  "client_panics opts \<longleftrightarrow>
     resolve_chunk_server_socket (o_chunk_db_dir opts) (o_chunk_server_sock opts) \<noteq> None \<and>
     runtime_panics (o_tokio_worker_threads opts)"

text \<open>\<open>ctl\<close> tells whether the chunk database reports to an index, which is the client above.\<close>

definition setup_chunk_and_index_db ::
  "('s, 'i, 'f, 'c, 'k, 'r, 'w) mount_env \<Rightarrow> string \<Rightarrow> nat option \<Rightarrow> string \<Rightarrow> bool \<Rightarrow> error + ('s chunkdb \<times> 'i) option" where
  "setup_chunk_and_index_db M chunk_db_dir chunk_db_size image_meta_dir ctl =
     (let conf_chunk_db = chunk_db_dir \<noteq> []; conf_image_meta = image_meta_dir \<noteq> [] in
      if chunk_db_size \<noteq> None \<and> \<not> conf_chunk_db then Inl (Anyhow ''--chunk-db-size requires --chunk-db-dir'')
      else if conf_image_meta \<noteq> conf_chunk_db then Inl (Io InvalidInput)
      else if conf_chunk_db then
        and_then (ChunkDB_open (me_open_chunks M chunk_db_dir) (int (me_page M)) chunk_db_size ctl) (\<lambda>chunk_db.
        and_then (IndexDB_open (me_open_index M image_meta_dir)) (\<lambda>index_db.
          Inr (Some (chunk_db, index_db))))
      else Inr None)"

definition setup_dbs ::
  "('s, 'i, 'f, 'c, 'k, 'r, 'w) mount_env \<Rightarrow> FsOptions \<Rightarrow> error + ('s chunkdb \<times> 'i) option" where
  "setup_dbs M opts =
     setup_chunk_and_index_db M (o_chunk_db_dir opts) (o_chunk_db_size opts) (o_image_meta_dir opts)
       (build_local_chunk_client M opts \<noteq> None)"

text \<open>The errors of the cache, as the caller sees them.\<close>

definition cache_any :: "CacheError + 'a \<Rightarrow> error + 'a" where
  "cache_any r = (case r of Inl (IoError e) \<Rightarrow> Inl e | Inl InvalidRange \<Rightarrow> Inl (Anyhow ''Invalid range'')
                  | Inl Timeout \<Rightarrow> Inl (Anyhow ''Timeout'') | Inr x \<Rightarrow> Inr x)"

definition dedup_env_for ::
  "('s, 'i, 'f, 'c, 'k, 'r, 'w) mount_env \<Rightarrow> FsOptions \<Rightarrow> 'b backend_ex_ops \<Rightarrow> ('s, 'i, 'b) dedup_env" where
  "dedup_env_for M opts B =
     \<lparr>d_store = me_store M, d_index = me_index M, d_backend = B, d_digests = me_digests M, d_id = [],
      d_client = build_local_chunk_client M opts\<rparr>"

text \<open>The last steps of \<open>prepare_oss\<close> and \<open>prepare_local\<close>, from the cache on.\<close>

definition raw_image_over ::
  "('s, 'i, 'f, 'c, 'k, 'r, 'w) mount_env \<Rightarrow> FsOptions \<Rightarrow> ('b, 'm) backend_ops_scheme \<Rightarrow> 'b cache \<Rightarrow>
   error + ('s, 'i, 'b cache, 'w) raw_env \<times> ('b cache, ('s, 'i, 'b cache) dedup_state) RawImage" where
  "raw_image_over M opts B c =
     (if client_panics opts then Inl Panic else
     and_then (setup_dbs M opts) (\<lambda>dedup_db.
       RawImage_new
         \<lparr>rw_dedup = dedup_env_for M opts (cache_ops (me_fs M) B),
          rw_stream = cache_write_to_fuse_writer B (me_fuse M), rw_fuse = me_fuse M\<rparr>
         (string_bytes (o_name opts)) c dedup_db (me_now M)))"

definition prepare_oss ::
  "('s, 'i, 'f, 'c, 'k, 'r, 'w) mount_env \<Rightarrow> FsOptions \<Rightarrow>
   error + ('s, 'i, 'r BackendReader cache, 'w) raw_env \<times>
     ('r BackendReader cache, ('s, 'i, 'r BackendReader cache) dedup_state) RawImage" where
  "prepare_oss M opts =
     and_then (GeneralBackend_new (me_factory M) (o_cfg opts)) (\<lambda>gb.
     and_then (GeneralBackend_get_reader (me_factory M) (me_blob M) gb (o_name opts)) (\<lambda>oss_file.
       if be_size (BackendReader_ops (me_blob M)) oss_file = 0 then Inl (Io InvalidInput)
       else
         and_then (cache_any (Cache_new (me_files M) (me_page M) (BackendReader_ops (me_blob M)) oss_file (o_cache_file opts))) (\<lambda>c.
           raw_image_over M opts (BackendReader_ops (me_blob M)) c)))"

definition prepare_local ::
  "('s, 'i, 'f, 'c, 'k, 'r, 'w) mount_env \<Rightarrow> FsOptions \<Rightarrow>
   error + ('s, 'i, nat cache, 'w) raw_env \<times> (nat cache, ('s, 'i, nat cache) dedup_state) RawImage" where
  "prepare_local M opts =
     and_then (cache_any (from_raw_file (me_files M) (me_page M) (o_cache_file opts))) (\<lambda>c.
       if be_size EmptyBackend_ops (c_inner c) = 0 then Inl (Io InvalidInput)
       else raw_image_over M opts EmptyBackend_ops c)"

definition prepare_nydus ::
  "('s, 'i, 'f, 'c, 'k, 'r, 'w) mount_env \<Rightarrow> FsOptions \<Rightarrow>
   error + ('s, 'i, 'r BackendReader) nydus_env \<times> ('s, 'i, 'r BackendReader) NydusImage" where
  "prepare_nydus M opts =
     (if client_panics opts then Inl Panic else
     and_then (setup_dbs M opts) (\<lambda>dedup_db.
       NydusImage_new (me_factory M) (me_blob M) (me_is_file M) (me_load_rafs M)
         (me_fs M) (me_files M) (me_page M) (dedup_env_for M opts (cache_ops (me_fs M) (BackendReader_ops (me_blob M))))
         (me_decompress M) (me_uid M) (me_gid M) (me_now M)
         (o_bootstrap opts) (o_cfg opts) (o_cache_dir opts) dedup_db))"

text \<open>The mount command: the file system that is mounted.\<close>

datatype ('l, 'o, 'n) mounted = MountedLocal 'l | MountedOss 'o | MountedNydus 'n

definition run_mount where
  "run_mount M opts =
     (case o_src opts of
        Local \<Rightarrow> map_sum id MountedLocal (prepare_local M opts)
      | Oss \<Rightarrow> map_sum id MountedOss (prepare_oss M opts)
      | Nydus \<Rightarrow> map_sum id MountedNydus (prepare_nydus M opts))"

subsection \<open>The chunk server\<close>

record ServeChunkOptions =
  v_chunk_db_dir :: string
  v_chunk_db_size :: "nat option"
  v_listen_port :: nat
  v_peer_addrs :: string
  v_peer_discovery :: string
  v_advertise_addr :: string
  v_node_id :: string
  v_chunk_server_sock :: string
  v_chunk_index_url :: string
  v_chunk_index_ttl :: nat
  v_tokio_worker_threads :: nat

text \<open>What the server is started with; \<open>sc_index\<close> is the index by its URL and the client tells whether it uses it.\<close>

record ('s, 'a) serve_config =
  sc_listen :: 'a
  sc_socket :: string
  sc_chunks :: "'s chunkdb"
  sc_peers :: "('a discovery \<times> bool) option"
  sc_index :: "(string \<times> 'a \<times> string \<times> nat) option"

definition run_serve_chunk ::
  "('s, 'i, 'f, 'c, 'k, 'r, 'w) mount_env \<Rightarrow> (string \<Rightarrow> 'a option) \<Rightarrow> (string \<Rightarrow> error option) \<Rightarrow> (string \<Rightarrow> error option) \<Rightarrow>
   ('a discovery \<Rightarrow> 'a list) \<Rightarrow> string \<Rightarrow> ServeChunkOptions \<Rightarrow> error + ('s, 'a) serve_config" where
  "run_serve_chunk M parse open_redis open_index get_peers host opts =
     (if runtime_panics (v_tokio_worker_threads opts) then Inl Panic
      else if \<not> me_runtime M (v_tokio_worker_threads opts) then Inl (Io Other)
      else
        (let addr = (\<lambda>s. case parse s of None \<Rightarrow> Inl (Anyhow ''invalid socket address syntax'') | Some a \<Rightarrow> Inr a);
             socket_path = (if v_chunk_server_sock opts \<noteq> [] then v_chunk_server_sock opts
                            else default_chunk_server_socket (v_chunk_db_dir opts));
             node_id = (if v_node_id opts = [] then host else v_node_id opts)
         in
         and_then (addr (''0.0.0.0:'' @ decimal (v_listen_port opts))) (\<lambda>listen_addr.
         and_then (if v_advertise_addr opts = [] then addr (''127.0.0.1:'' @ decimal (v_listen_port opts))
                   else addr (v_advertise_addr opts)) (\<lambda>advertise_addr.
         and_then (build_discovery open_redis parse (v_peer_discovery opts) (v_peer_addrs opts) advertise_addr node_id) (\<lambda>discovery.
         and_then (if v_chunk_index_url opts = [] then Inr None
                   else case open_index (v_chunk_index_url opts) of
                     Some e \<Rightarrow> Inl e
                   | None \<Rightarrow> Inr (Some (v_chunk_index_url opts, advertise_addr, node_id, v_chunk_index_ttl opts))) (\<lambda>chunk_index.
         and_then (ChunkDB_open (me_open_chunks M (v_chunk_db_dir opts)) (int (me_page M)) (v_chunk_db_size opts) (chunk_index \<noteq> None))
           (\<lambda>chunk_db.
           Inr \<lparr>sc_listen = listen_addr, sc_socket = socket_path, sc_chunks = chunk_db,
                sc_peers = (if get_peers discovery = [] \<and> trim (v_peer_discovery opts) = [] then None
                            else Some (discovery, chunk_index \<noteq> None)),
                sc_index = chunk_index\<rparr>)))))))"

subsection \<open>Collecting and statistics\<close>

definition DEFAULT_GC_EXPIRE_SECS :: nat where "DEFAULT_GC_EXPIRE_SECS = 24 * 60 * 60"
definition GC_HIGH_WATERMARK :: rat where "GC_HIGH_WATERMARK = 9 / 10"
definition GC_LOW_WATERMARK :: rat where "GC_LOW_WATERMARK = 8 / 10"

text \<open>The collector opens the database without an index; what it removes goes to the client of the chunk server.\<close>

definition build_gc_local_chunk_client :: "('s, 'i, 'f, 'c, 'k, 'r, 'w) mount_env \<Rightarrow> string \<Rightarrow> string \<Rightarrow> bool" where
  "build_gc_local_chunk_client M chunk_db_dir chunk_server_sock \<longleftrightarrow>
     me_runtime M 8 \<and> resolve_chunk_server_socket chunk_db_dir chunk_server_sock \<noteq> None"

definition new_with_local_client ::
  "('s, 'i, 'f, 'c, 'k, 'r, 'w) mount_env \<Rightarrow> string \<Rightarrow> nat option \<Rightarrow> bool \<Rightarrow> error + GcWorker \<times> 's chunkdb" where
  "new_with_local_client M chunk_db_dir sz client =
     and_then (GcWorker_new client DEFAULT_GC_EXPIRE_SECS GC_HIGH_WATERMARK GC_LOW_WATERMARK) (\<lambda>worker.
     and_then (ChunkDB_open (me_open_chunks M chunk_db_dir) (int (me_page M)) sz False) (\<lambda>q.
       Inr (worker, q)))"

text \<open>The result is the database afterwards, the calls to the client, and how the run ended.\<close>

definition run_gc_chunk ::
  "('s, 'i, 'f, 'c, 'k, 'r, 'w) mount_env \<Rightarrow> 's usage \<Rightarrow> string \<Rightarrow> nat option \<Rightarrow> string \<Rightarrow> bool \<Rightarrow>
   (error + ('s chunkdb \<times> CheckSum list list) \<times> (error + unit)) option" where
  "run_gc_chunk M U chunk_db_dir chunk_db_size chunk_server_sock dry_run =
     (case new_with_local_client M chunk_db_dir chunk_db_size
             (build_gc_local_chunk_client M chunk_db_dir chunk_server_sock) of
        Inl e \<Rightarrow> Some (Inl e)
      | Inr (worker, q) \<Rightarrow> map_option Inr (gc_run (me_store M) U (me_now M) worker dry_run q []))"

definition run_stats_chunk ::
  "('s, 'i, 'f, 'c, 'k, 'r, 'w) mount_env \<Rightarrow> 's stat_ops \<Rightarrow> string \<Rightarrow> nat option \<Rightarrow> error + stats" where
  "run_stats_chunk M U chunk_db_dir chunk_db_size =
     and_then (ChunkDB_open (me_open_chunks M chunk_db_dir) (int (me_page M)) chunk_db_size False) (get_stats (me_store M) U)"

text \<open>
  The options let zero worker threads through: a mount with a chunk database then panics, and so does the
  chunk server.
\<close>

lemma zero_threads_panic:
  assumes "o_tokio_worker_threads opts = 0" "o_chunk_db_dir opts \<noteq> []"
  shows "raw_image_over M opts B c = Inl Panic" "prepare_nydus M opts = Inl Panic"
    "v_tokio_worker_threads vopts = 0 \<Longrightarrow> run_serve_chunk M parse open_redis open_index get_peers host vopts = Inl Panic"
  using assms
  by (simp_all add: raw_image_over_def prepare_nydus_def run_serve_chunk_def client_panics_def runtime_panics_def
      resolve_chunk_server_socket_def)

end
