(* ===== verification/NydusSpec.thy ===== *)
theory NydusSpec
  imports NydusFs DedupProps CacheSpec
begin

text \<open>
  What the file system of a RAFS image relies on and keeps: the blobs have fixed contents, the chunk
  database holds nothing but what its checksums say, and every reader is a source of its blob.
\<close>

subsection \<open>A read of the deduplicating source leaves the shared databases as good as they were\<close>

lemma with_chunk_range_frame:
  assumes "with_chunk_range L cs start len f q w = (q', w', r)"
  shows "env q' = env q" "high q' = high q"
  using assms
  by (auto simp: with_chunk_range_def Let_def enqueue_access_def split: sum.splits option.splits if_splits prod.splits)

definition client_keeps :: "(CheckSum \<Rightarrow> bytes \<Rightarrow> bool) \<Rightarrow> 's views \<Rightarrow> ('s, 'i, 'b) dedup_env \<Rightarrow> bool" where
  "client_keeps Q V E \<longleftrightarrow> (\<forall>prefetch cs q. d_client E = Some prefetch \<longrightarrow> chunks_ok Q V q \<longrightarrow> chunks_ok Q V (prefetch cs q))"

lemma client_keepsD: "client_keeps Q V E \<Longrightarrow> d_client E = Some prefetch \<Longrightarrow> chunks_ok Q V q \<Longrightarrow> chunks_ok Q V (prefetch cs q)"
  by (simp add: client_keeps_def)

lemma read_dedup_chunk_frame:
  assumes cl: "client_keeps Q V E"
    and q: "chunks_ok Q V q" and run: "read_dedup_chunk E X cs start len pos q w = (q', w', r)"
  shows "chunks_ok Q V q'"
proof -
  let ?f = "\<lambda>w data. copy_from_chunk X w data pos len"
  obtain q1 w1 r1 where 1: "with_chunk_range (d_store E) cs start len ?f q w = (q1, w1, r1)" by (rule prod_cases3)
  have q1: "chunks_ok Q V q1" using chunks_ok_cong [OF q] with_chunk_range_frame [OF 1] by blast
  show ?thesis
  proof (cases "d_client E")
    case None
    then show ?thesis using run 1 q1 by (auto simp: read_dedup_chunk_def split: sum.splits option.splits)
  next
    case (Some prefetch)
    obtain q2 w2 r2 where 2: "with_chunk_range (d_store E) cs start len ?f (prefetch cs q1) w1 = (q2, w2, r2)" by (rule prod_cases3)
    have "chunks_ok Q V q2" using chunks_ok_cong [OF client_keepsD [OF cl Some q1]] with_chunk_range_frame [OF 2] by blast
    then show ?thesis using run 1 2 q1 Some by (auto simp: read_dedup_chunk_def split: sum.splits option.splits)
  qed
qed

definition dbs_keep :: "(CheckSum \<Rightarrow> bytes \<Rightarrow> bool) \<Rightarrow> 's views \<Rightarrow> ('s, 'i, 'b) dedup_state \<Rightarrow> ('s, 'i, 'b) dedup_state \<Rightarrow> bool" where
  "dbs_keep Q V D D' \<longleftrightarrow> (chunks_ok Q V (dd_chunks D) \<longrightarrow> chunks_ok Q V (dd_chunks D')) \<and> dd_index D' = dd_index D"

lemma dbs_keep_refl [simp]: "dbs_keep Q V D D"
  by (simp add: dbs_keep_def)

lemma dbs_keep_trans: "dbs_keep Q V D D1 \<Longrightarrow> dbs_keep Q V D1 D2 \<Longrightarrow> dbs_keep Q V D D2"
  by (simp add: dbs_keep_def)

lemma backend_copy_frame: "backend_copy X off pos len D w = (D', w', r) \<Longrightarrow> dbs_keep Q V D D'"
  by (auto simp: backend_copy_def dbs_keep_def split: prod.splits)

lemma enqueue_sync_index [simp]: "dd_index (enqueue_sync v D) = dd_index D"
  by (simp add: enqueue_sync_def)

lemma process_segment_frame:
  assumes cl: "client_keeps Q V E"
    and run: "process_segment E X v n pos off D w = (D', w', r)"
  shows "dbs_keep Q V D D'"
proof (cases "is_valid (di_cs v)")
  case False
  then show ?thesis using run backend_copy_frame by (simp add: process_segment_def)
next
  case True
  obtain q w1 r1 where c: "read_dedup_chunk E X (checksum_of (di_cs v)) (u64_sub off (di_off v)) n pos (dd_chunks D) w = (q, w1, r1)"
    by (rule prod_cases3)
  have k: "dbs_keep Q V D (D\<lparr>dd_chunks := q\<rparr>)" "dbs_keep Q V D (enqueue_sync v (D\<lparr>dd_chunks := q\<rparr>))"
    using read_dedup_chunk_frame [OF cl _ c] by (simp_all add: dbs_keep_def)
  consider "D' = D\<lparr>dd_chunks := q\<rparr>" | "backend_copy X off pos n (enqueue_sync v (D\<lparr>dd_chunks := q\<rparr>)) w1 = (D', w', r)"
    | "backend_copy X off pos n (D\<lparr>dd_chunks := q\<rparr>) w1 = (D', w', r)"
    using run c True by (auto simp: process_segment_def split: sum.splits option.splits if_splits)
  then show ?thesis
  proof cases
    case 2
    show ?thesis by (rule dbs_keep_trans [OF k(2) backend_copy_frame [OF 2]])
  next
    case 3
    show ?thesis by (rule dbs_keep_trans [OF k(1) backend_copy_frame [OF 3]])
  qed (use k in simp)
qed

lemma process_segments_frame:
  assumes cl: "client_keeps Q V E"
  shows "process_segments E X infos pos off D w = (D', w', r) \<Longrightarrow> dbs_keep Q V D D'"
proof (induction infos arbitrary: pos off D w)
  case (Cons x infos)
  obtain v n where x: "x = (v, n)" by (rule prod.exhaust)
  obtain D1 w1 r1 where 1: "process_segment E X v n pos off D w = (D1, w1, r1)" by (rule prod_cases3)
  note k = process_segment_frame [OF cl 1]
  show ?case
  proof (cases r1)
    case (Inl e)
    then show ?thesis using Cons.prems 1 x k by simp
  next
    case (Inr m)
    then have "process_segments E X infos (pos + m) (u64_add off m) D1 w1 = (D', w', r)" using Cons.prems 1 x by simp
    from dbs_keep_trans [OF k Cons.IH [OF this]] show ?thesis .
  qed
qed simp

lemma try_chunks_frame: "try_dedup_chunks idxs m D = (D', r) \<Longrightarrow> dd_chunks D' = dd_chunks D \<and> dd_index D' = dd_index D"
proof (induction idxs arbitrary: D)
  case (Cons idx idxs)
  show ?case
  proof (cases "D' = D")
    case False
    then consider "try_dedup_chunks idxs m D = (D', r)"
      | bits where "try_dedup_chunks idxs m (D\<lparr>dd_reqs := dd_reqs D @ [DedupRequest_new (idx * CHUNK_SIZE) CHUNK_SIZE m],
          dd_bits := bits\<rparr>) = (D', r)"
      using Cons.prems by (auto split: sum.splits bool.splits if_splits)
    then show ?thesis by cases (use Cons.IH in fastforce)+
  qed simp
qed simp

lemma try_chunk_frame: "try_dedup_chunk off len m D = (D', r) \<Longrightarrow> dbs_keep Q V D D'"
  using try_chunks_frame [of _ m D D' r] by (simp only: try_dedup_chunk_def dbs_keep_def split: if_splits) auto

lemma dedup_fetch_frame:
  assumes cl: "client_keeps Q V E"
    and run: "DedupReader_fetch E D off buf = (D', buf', r)"
  shows "dbs_keep Q V D D'"
proof (cases "(D', buf', r) = (D, buf, Inr 0)")
  case False
  let ?X = "FetchOp (d_backend E)" and ?len = "min (length buf) (be_size (d_backend E) (dd_b D) - off)"
  obtain D1 w1 r1 where 1: "process_dedup_op E ?X off ?len D buf = (D1, w1, r1)" by (rule prod_cases3)
  have k: "dbs_keep Q V D D1"
    using 1 process_segments_frame [OF cl] backend_copy_frame
    by (auto simp: process_dedup_op_def split: sum.splits if_splits)
  consider "D' = D1" | r2 where "try_dedup_chunk off ?len Blake3 D1 = (D', r2)"
    using run 1 False by (auto simp: DedupReader_fetch_def dedup_read_def Let_def split: if_splits sum.splits prod.splits)
  then show ?thesis
  proof cases
    case 2
    show ?thesis by (rule dbs_keep_trans [OF k try_chunk_frame [OF 2]])
  qed (use k in simp)
qed simp

subsection \<open>The invariant\<close>

text \<open>
  \<open>imgs\<close> gives the content of every blob, \<open>known\<close> collects all contents, of blobs and of files; a stored
  chunk is right when it is the data of every known range with its checksum.
\<close>

definition right :: "digests \<Rightarrow> bytes set \<Rightarrow> CheckSum \<Rightarrow> bytes \<Rightarrow> bool" where
  "right H K cs d \<longleftrightarrow> (\<forall>img \<in> K. faithful H img cs d)"

lemma right_single: "right H {img} = faithful H img"
  by (simp add: right_def fun_eq_iff)

lemma chunks_ok_mono: "chunks_ok R V q \<Longrightarrow> (\<And>cs d. R cs d \<Longrightarrow> R' cs d) \<Longrightarrow> chunks_ok R' V q"
  unfolding chunks_ok_def stored_ok_def by blast

lemma chunks_right: "chunks_ok (right H K) V q \<Longrightarrow> img \<in> K \<Longrightarrow> chunks_ok (faithful H img) V q"
  using chunks_ok_mono [of "right H K" V q "faithful H img"] by (simp add: right_def)

definition nydus_env_ok ::
  "('s, 'i, 'b) nydus_env \<Rightarrow> 's views \<Rightarrow> ('i \<Rightarrow> DedupRange \<rightharpoonup> DedupInfo) \<Rightarrow> (string \<Rightarrow> 'b \<Rightarrow> bool) \<Rightarrow> (string \<Rightarrow> bytes) \<Rightarrow>
   bytes set \<Rightarrow> bool" where
  "nydus_env_ok N V W I imgs known \<longleftrightarrow>
     chunk_env_ok (d_store (ne_dedup N)) V \<and> index_env_ok (d_index (ne_dedup N)) W \<and>
     d_backend (ne_dedup N) = cache_ops (ne_fs N) (ne_source N) \<and> fs_ok (ne_fs N) \<and> set_len_ok (ne_files N) \<and>
     (\<forall>path xs. open_or_create (ne_files N) path = Inr xs \<longrightarrow> xs = []) \<and>
     (\<forall>bid. backend (ne_source N) (I bid) (imgs bid)) \<and> (\<forall>bid b. ne_get_reader N bid = Inr b \<longrightarrow> I bid b) \<and>
     range imgs \<subseteq> known \<and> (\<forall>K. K \<subseteq> known \<longrightarrow> client_keeps (right (d_digests (ne_dedup N)) K) V (ne_dedup N))"

definition dbs_ok ::
  "('s, 'i, 'b) nydus_env \<Rightarrow> 's views \<Rightarrow> ('i \<Rightarrow> DedupRange \<rightharpoonup> DedupInfo) \<Rightarrow> (string \<Rightarrow> bytes) \<Rightarrow> bytes set \<Rightarrow>
   ('s chunkdb \<times> 'i) option \<Rightarrow> bool" where
  "dbs_ok N V W imgs known db \<longleftrightarrow> (\<forall>q ix. db = Some (q, ix) \<longrightarrow>
     chunks_ok (right (d_digests (ne_dedup N)) known) V q \<and>
     (\<forall>bid k v. W ix k = Some v \<longrightarrow> dr_id k = blake3_digest (d_digests (ne_dedup N)) (string_bytes bid) \<longrightarrow>
        record_ok (d_digests (ne_dedup N)) (imgs bid) v))"

fun reader_ok ::
  "('s, 'i, 'b) nydus_env \<Rightarrow> 's views \<Rightarrow> ('i \<Rightarrow> DedupRange \<rightharpoonup> DedupInfo) \<Rightarrow> (string \<Rightarrow> 'b \<Rightarrow> bool) \<Rightarrow> (string \<Rightarrow> bytes) \<Rightarrow>
   string \<Rightarrow> ('s chunkdb \<times> 'i) option \<times> ('s, 'i, 'b) blob_reader \<Rightarrow> bool" where
  "reader_ok N V W I imgs bid (db, Direct b) = I bid b"
| "reader_ok N V W I imgs bid (db, Cached c) = cache_ok (ne_fs N) (ne_source N) (I bid) (imgs bid) c"
| "reader_ok N V W I imgs bid (db, Deduped E D) =
     (E = (ne_dedup N)\<lparr>d_id := blake3_digest (d_digests (ne_dedup N)) (string_bytes bid)\<rparr> \<and>
      (\<exists>q ix. db = Some (q, ix) \<and>
        dedup_ok E V W (cache_ok (ne_fs N) (ne_source N) (I bid) (imgs bid)) (imgs bid) (D\<lparr>dd_chunks := q, dd_index := ix\<rparr>)))"

lemma nydus_env_okD:
  assumes "nydus_env_ok N V W I imgs known"
  shows "chunk_env_ok (d_store (ne_dedup N)) V" "index_env_ok (d_index (ne_dedup N)) W"
    "d_backend (ne_dedup N) = cache_ops (ne_fs N) (ne_source N)" "fs_ok (ne_fs N)" "set_len_ok (ne_files N)"
    "open_or_create (ne_files N) path = Inr xs \<Longrightarrow> xs = []" "backend (ne_source N) (I bid) (imgs bid)"
    "ne_get_reader N bid = Inr b \<Longrightarrow> I bid b" "imgs bid \<in> known"
    "K \<subseteq> known \<Longrightarrow> client_keeps (right (d_digests (ne_dedup N)) K) V (ne_dedup N)"
  using assms by (simp_all add: nydus_env_ok_def image_subset_iff)

lemma dbs_okD:
  assumes "dbs_ok N V W imgs known (Some (q, ix))"
  shows "chunks_ok (right (d_digests (ne_dedup N)) known) V q"
    "W ix k = Some v \<Longrightarrow> dr_id k = blake3_digest (d_digests (ne_dedup N)) (string_bytes bid) \<Longrightarrow>
     record_ok (d_digests (ne_dedup N)) (imgs bid) v"
  using assms unfolding dbs_ok_def by blast+

text \<open>Other users may change the shared databases between two calls of a reader.\<close>

lemma dedup_ok_shared:
  assumes ok: "dedup_ok E V W I img D" and q: "chunks_ok (faithful (d_digests E) img) V q"
    and ix: "\<And>k v. W ix k = Some v \<Longrightarrow> dr_id k = d_id E \<Longrightarrow> record_ok (d_digests E) img v"
  shows "dedup_ok E V W I img (D\<lparr>dd_chunks := q, dd_index := ix\<rparr>)"
  using ok q ix by (simp add: dedup_ok_def core_ok_def)

lemma reader_ok_dbs:
  assumes env: "nydus_env_ok N V W I imgs known" and rd: "reader_ok N V W I imgs bid (db, rd)"
    and db: "dbs_ok N V W imgs known db'" "db = None \<longleftrightarrow> db' = None"
  shows "reader_ok N V W I imgs bid (db', rd)"
proof (cases rd)
  case (Deduped E D)
  then obtain q ix where old: "db = Some (q, ix)" and E: "E = (ne_dedup N)\<lparr>d_id := blake3_digest (d_digests (ne_dedup N)) (string_bytes bid)\<rparr>"
    and ok: "dedup_ok E V W (cache_ok (ne_fs N) (ne_source N) (I bid) (imgs bid)) (imgs bid) (D\<lparr>dd_chunks := q, dd_index := ix\<rparr>)"
    using rd by auto
  obtain q' ix' where new: "db' = Some (q', ix')" using old db(2) by fastforce
  note d = dbs_okD [OF db(1) [unfolded new]]
  have "dedup_ok E V W (cache_ok (ne_fs N) (ne_source N) (I bid) (imgs bid)) (imgs bid) (D\<lparr>dd_chunks := q', dd_index := ix'\<rparr>)"
    using dedup_ok_shared [OF ok, of q' ix'] chunks_right [OF d(1) nydus_env_okD(9) [OF env]] d(2) by (simp add: E)
  then show ?thesis using Deduped E new by auto
qed (use rd in simp_all)

subsection \<open>Readers\<close>

lemma reader_fetch_ok:
  assumes env: "nydus_env_ok N V W I imgs known" and db: "dbs_ok N V W imgs known (fst x)" and rd: "reader_ok N V W I imgs bid x"
    and run: "reader_fetch N x off buf = (x', buf', r)"
  shows "dbs_ok N V W imgs known (fst x') \<and> (fst x' = None \<longleftrightarrow> fst x = None) \<and> reader_ok N V W I imgs bid x' \<and>
    length buf' = length buf \<and>
    (\<forall>n. r = Inr n \<longrightarrow> off < length (imgs bid) \<longrightarrow> length buf < 2 ^ 63 \<longrightarrow>
       n = min (length buf) (length (imgs bid) - off) \<and> take n buf' = slice (imgs bid) off (off + n))"
proof -
  obtain d rd0 where x: "x = (d, rd0)" by (rule prod.exhaust)
  have src: "backend (ne_source N) (I bid) (imgs bid)" by (rule nydus_env_okD(7) [OF env])
  show ?thesis
  proof (cases rd0)
    case (Direct b)
    then obtain b' where f: "be_fetch (ne_source N) b off buf = (b', buf', r)" and x': "x' = (d, Direct b')"
      using run x by (auto simp: reader_fetch_def split: prod.splits)
    have I: "I bid b" using rd x Direct by simp
    show ?thesis
      using db x x' backend.fetch_inv [OF src I f] backend.fetch_len [OF src I f] backend.fetch_ok [OF src I f [THEN trans]] f
      by (auto intro: backend.fetch_ok [OF src I] simp: f)
  next
    case (Cached c)
    let ?B = "cache_ops (ne_fs N) (ne_source N)"
    obtain c' where f: "be_fetch ?B c off buf = (c', buf', r)" and x': "x' = (d, Cached c')"
      using run x Cached by (auto simp: reader_fetch_def split: prod.splits)
    have I: "cache_ok (ne_fs N) (ne_source N) (I bid) (imgs bid) c" using rd x Cached by simp
    show ?thesis
      using db x x' cache.fetch_inv [OF I f] cache.fetch_len [OF I f] cache.fetch_ok [OF I] f by auto
  next
    case (Deduped E D)
    then obtain q ix where d: "d = Some (q, ix)" and E: "E = (ne_dedup N)\<lparr>d_id := blake3_digest (d_digests (ne_dedup N)) (string_bytes bid)\<rparr>"
      and ok: "dedup_ok E V W (cache_ok (ne_fs N) (ne_source N) (I bid) (imgs bid)) (imgs bid) (D\<lparr>dd_chunks := q, dd_index := ix\<rparr>)"
      using rd x by auto
    obtain D' where f: "DedupReader_fetch E (D\<lparr>dd_chunks := q, dd_index := ix\<rparr>) off buf = (D', buf', r)"
      and x': "x' = (Some (dd_chunks D', dd_index D'), Deduped E D')"
      using run x d Deduped by (auto simp: reader_fetch_def Let_def split: prod.splits)
    have f': "be_fetch (DedupReader_ops E) (D\<lparr>dd_chunks := q, dd_index := ix\<rparr>) off buf = (D', buf', r)"
      using f by (simp add: DedupReader_ops_def)
    have "client_keeps (right (d_digests (ne_dedup N)) known) V E"
      using nydus_env_okD(10) [OF env, of known] by (simp add: E client_keeps_def)
    note k = dedup_fetch_frame [OF this f]
    have "dbs_ok N V W imgs known (fst x')"
      using db k unfolding x x' d by (auto simp: dbs_ok_def dbs_keep_def)
    moreover have "reader_ok N V W I imgs bid x'"
      using dedup_source.fetch_inv [OF ok f'] by (simp add: x' E)
    ultimately show ?thesis
      using x' x d dedup_source.fetch_len [OF ok f'] dedup_source.fetch_ok [OF ok] f' by auto
  qed
qed

end
