(* ===== verification/NydusProps.thy ===== *)
theory NydusProps
  imports NydusSpec
begin

text \<open>
  Reads of a RAFS image: a chunk's data is the file's, whichever way it is obtained; a read hands the
  bytes of the file to the FUSE writer; what is queued for the chunk database is right, so that the
  worker keeps it right.
\<close>

subsection \<open>The image\<close>

definition nydus_ok ::
  "('s, 'i, 'b) nydus_env \<Rightarrow> 's views \<Rightarrow> ('i \<Rightarrow> DedupRange \<rightharpoonup> DedupInfo) \<Rightarrow> (string \<Rightarrow> 'b \<Rightarrow> bool) \<Rightarrow> (string \<Rightarrow> bytes) \<Rightarrow>
   bytes set \<Rightarrow> ('s, 'i, 'b) NydusImage \<Rightarrow> bool" where
  "nydus_ok N V W I imgs known M \<longleftrightarrow>
     nydus_env_ok N V W I imgs known \<and> dbs_ok N V W imgs known (ni_db M) \<and>
     (\<forall>bid rd. ni_readers M bid = Some rd \<longrightarrow> reader_ok N V W I imgs bid (ni_db M, rd)) \<and>
     (\<forall>(cs, d) \<in> set (ni_queue M). right (d_digests (ne_dedup N)) known cs d)"

lemma nydus_okD:
  assumes "nydus_ok N V W I imgs known M"
  shows "nydus_env_ok N V W I imgs known" "dbs_ok N V W imgs known (ni_db M)"
    "ni_readers M bid = Some rd \<Longrightarrow> reader_ok N V W I imgs bid (ni_db M, rd)"
    "(cs, d) \<in> set (ni_queue M) \<Longrightarrow> right (d_digests (ne_dedup N)) known cs d"
  using assms by (auto simp: nydus_ok_def)

lemma nydus_ok_reader:
  assumes ok: "nydus_ok N V W I imgs known M" and db: "dbs_ok N V W imgs known db" "db = None \<longleftrightarrow> ni_db M = None"
    and rd: "reader_ok N V W I imgs bid (db, rd)"
  shows "nydus_ok N V W I imgs known (M\<lparr>ni_db := db, ni_readers := (ni_readers M)(bid \<mapsto> rd)\<rparr>)"
  using ok db rd reader_ok_dbs [OF nydus_okD(1) [OF ok] nydus_okD(3) [OF ok] db(1)]
  by (auto simp: nydus_ok_def)

lemma new_blob_reader_ok:
  assumes env: "nydus_env_ok N V W I imgs known" and db: "dbs_ok N V W imgs known d"
    and run: "new_blob_reader N bid d = Inr rd"
  shows "reader_ok N V W I imgs bid (d, rd)"
proof -
  obtain b where b: "ne_get_reader N bid = Inr b" using run by (auto simp: new_blob_reader_def split: sum.splits)
  have I: "I bid b" by (rule nydus_env_okD(8) [OF env b])
  show ?thesis
  proof (cases "ne_cache_dir N = []")
    case True
    then show ?thesis using run b I by (auto simp: new_blob_reader_def)
  next
    case False
    let ?path = "ne_cache_dir N @ ''/'' @ bid"
    obtain c where c: "Cache_new (ne_files N) (ne_page N) (ne_source N) b ?path = Inr c"
      using run b False by (auto simp: new_blob_reader_def cache_io_def Let_def split: sum.splits)
    obtain xs ys where "open_or_create (ne_files N) ?path = Inr xs" "open_or_create (ne_files N) (?path @ ''.bitmap'') = Inr ys"
      using c by (auto simp: Cache_new_def split: sum.splits)
    then have fresh: "open_or_create (ne_files N) ?path = Inr []" "open_or_create (ne_files N) (?path @ ''.bitmap'') = Inr []"
      using nydus_env_okD(6) [OF env] by metis+
    have cache: "cache_ok (ne_fs N) (ne_source N) (I bid) (imgs bid) c"
      using new_cache_ok [OF nydus_env_okD(4) [OF env] nydus_env_okD(7) [OF env] I nydus_env_okD(5) [OF env] fresh c] by blast
    show ?thesis
    proof (cases d)
      case None
      then have "rd = Cached c" using run b False c by (simp add: new_blob_reader_def cache_io_def Let_def)
      then show ?thesis using cache by simp
    next
      case (Some x)
      obtain q ix where x: "d = Some (q, ix)" using Some by (cases x) auto
      obtain E D where new: "DedupReader_new (ne_dedup N) (string_bytes bid) q ix c = Inr (E, D)" and rd: "rd = Deduped E D"
        using run b False c x by (auto simp: new_blob_reader_def cache_io_def Let_def split: sum.splits)
      let ?H = "d_digests (ne_dedup N)"
      note dd = dbs_okD [OF db [unfolded x]]
      have cl: "client_ok (ne_dedup N) V (imgs bid)"
        using nydus_env_okD(10) [OF env, of "{imgs bid}"] nydus_env_okD(9) [OF env]
        by (simp add: right_single client_keeps_def client_ok_def)
      have be: "backend_ex (d_backend (ne_dedup N)) (cache_ok (ne_fs N) (ne_source N) (I bid) (imgs bid)) (imgs bid)"
        unfolding nydus_env_okD(3) [OF env] by (rule cache.backend_ex_axioms)
      have rec: "\<forall>k v. W ix k = Some v \<longrightarrow> dr_id k = blake3_digest ?H (string_bytes bid) \<longrightarrow> record_ok ?H (imgs bid) v"
        using dd(2) by blast
      have D: "dedup_ok E V W (cache_ok (ne_fs N) (ne_source N) (I bid) (imgs bid)) (imgs bid) D"
        using new_reader_ok [OF be cache nydus_env_okD(1,2) [OF env] cl chunks_right [OF dd(1) nydus_env_okD(9) [OF env]] rec new] by blast
      have E: "E = (ne_dedup N)\<lparr>d_id := blake3_digest ?H (string_bytes bid)\<rparr>" and sh: "D\<lparr>dd_chunks := q, dd_index := ix\<rparr> = D"
        using new by (auto simp: DedupReader_new_def split: option.splits)
      show ?thesis using D E sh by (simp add: rd x)
    qed
  qed
qed

lemma get_blob_reader_ok:
  assumes ok: "nydus_ok N V W I imgs known M" and run: "get_blob_reader N bid M = (M', r)"
  shows "nydus_ok N V W I imgs known M' \<and> ni_db M' = ni_db M \<and> ni_queue M' = ni_queue M \<and>
    (\<forall>rd. r = Inr rd \<longrightarrow> reader_ok N V W I imgs bid (ni_db M', rd))"
proof (cases "ni_readers M bid")
  case (Some rd)
  then show ?thesis using ok run nydus_okD(3) [OF ok] by (auto simp: get_blob_reader_def)
next
  case None
  show ?thesis
  proof (cases "new_blob_reader N bid (ni_db M)")
    case (Inl e)
    then show ?thesis using ok run None by (auto simp: get_blob_reader_def)
  next
    case (Inr rd)
    have rd: "reader_ok N V W I imgs bid (ni_db M, rd)"
      by (rule new_blob_reader_ok [OF nydus_okD(1,2) [OF ok] Inr])
    have M': "M' = M\<lparr>ni_readers := (ni_readers M)(bid \<mapsto> rd)\<rparr>" "r = Inr rd" using run None Inr by (simp_all add: get_blob_reader_def)
    show ?thesis using nydus_ok_reader [OF ok nydus_okD(2) [OF ok] refl rd] rd by (simp add: M')
  qed
qed

subsection \<open>The data of a chunk\<close>

lemma reader_ok_range:
  assumes "nydus_env_ok N V W I imgs known" "reader_ok N V W I imgs bid x"
  shows "length (imgs bid) < 2 ^ 63"
proof -
  note src = nydus_env_okD(7) [OF assms(1), of bid]
  obtain d rd where x: "x = (d, rd)" by (rule prod.exhaust)
  show ?thesis
  proof (cases rd)
    case (Direct b)
    then show ?thesis using backend.image_range [OF src] assms(2) x by simp
  next
    case (Cached c)
    then show ?thesis using cache.image_range assms(2) x by auto
  next
    case (Deduped E D)
    then show ?thesis using dedup_source.image_range assms(2) x by auto
  qed
qed

lemma range_loop_ok:
  assumes env: "nydus_env_ok N V W I imgs known" and small: "off + sz \<le> length (imgs bid)"
    and run: "range_loop (reader_fetch N) off sz buf n x = (x', r)"
    and inv: "dbs_ok N V W imgs known (fst x)" "reader_ok N V W I imgs bid x" "length buf = sz" "n \<le> sz"
      "take n buf = slice (imgs bid) off (off + n)"
  shows "dbs_ok N V W imgs known (fst x') \<and> (fst x' = None \<longleftrightarrow> fst x = None) \<and> reader_ok N V W I imgs bid x' \<and>
    (\<forall>d. r = Inr d \<longrightarrow> d = slice (imgs bid) off (off + sz))"
  using run inv
proof (induction "sz - n" arbitrary: n buf x rule: less_induct)
  case less
  show ?case
  proof (cases "n \<ge> sz")
    case True
    then show ?thesis using less.prems by (auto simp: range_loop.simps)
  next
    case False
    obtain x1 sub r1 where f: "reader_fetch N x (off + n) (drop n buf) = (x1, sub, r1)" by (rule prod_cases3)
    have lt: "length (imgs bid) < 2 ^ 63" by (rule reader_ok_range [OF env less.prems(3)])
    have "off + n < 2 ^ 63" using small False lt by linarith
    then have wrap: "u64_add off n = off + n" using less_trans [of "off + n" "2 ^ 63" "2 ^ 64"] by (simp add: u64_add_exact)
    have step: "range_loop (reader_fetch N) off sz buf n x =
      (case r1 of Inl e \<Rightarrow> (x1, Inl e)
       | Inr m \<Rightarrow> if m = 0 then (x1, Inl (Io UnexpectedEof)) else range_loop (reader_fetch N) off sz (take n buf @ sub) (n + m) x1)"
      using False by (subst range_loop.simps) (simp add: wrap f)
    note h = reader_fetch_ok [OF env less.prems(2,3) f]
    show ?thesis
    proof (cases r1)
      case (Inl e)
      then show ?thesis using less.prems(1) step h by auto
    next
      case (Inr m)
      have "length (drop n buf) < 2 ^ 63" using less.prems(4) small lt by simp
      moreover have "off + n < length (imgs bid)" using small False by simp
      ultimately have hm: "m = min (length (drop n buf)) (length (imgs bid) - (off + n)) \<and>
          take m sub = slice (imgs bid) (off + n) (off + n + m)"
        using h Inr by blast
      from hm have m: "m = min (sz - n) (length (imgs bid) - (off + n))" using less.prems(4) by simp
      from hm have part: "take m sub = slice (imgs bid) (off + n) (off + n + m)" by (rule conjunct2)
      have m': "m = sz - n" "0 < m" using m small False by auto
      have len: "length (take n buf @ sub) = sz" using h less.prems(4) False by simp
      have "take (n + m) (take n buf @ sub) = take n buf @ take m sub" using less.prems(4,5) by simp
      also have "\<dots> = slice (imgs bid) off (off + (n + m))"
        using part m' less.prems(6) small slice_append [of off "off + n" "off + n + m" "imgs bid"] by (simp only: add.assoc)
      finally have "take (n + m) (take n buf @ sub) = slice (imgs bid) off (off + (n + m))" .
      moreover have "range_loop (reader_fetch N) off sz (take n buf @ sub) (n + m) x1 = (x', r)"
        using less.prems(1) step Inr m' by simp
      ultimately show ?thesis
        using less.hyps [of "n + m" "take n buf @ sub" x1] m' False h len by simp
    qed
  qed
qed

lemma read_blob_range_ok:
  assumes ok: "nydus_ok N V W I imgs known M" and rd: "reader_ok N V W I imgs bid (ni_db M, rd)"
    and small: "off + sz \<le> length (imgs bid)" and run: "read_blob_range N bid rd off sz M = (M', r)"
  shows "nydus_ok N V W I imgs known M' \<and> ni_queue M' = ni_queue M \<and> (\<forall>d. r = Inr d \<longrightarrow> d = slice (imgs bid) off (off + sz))"
proof -
  obtain db rd' where l: "range_loop (reader_fetch N) off sz (replicate sz 0) 0 (ni_db M, rd) = ((db, rd'), r)"
    and M': "M' = M\<lparr>ni_db := db, ni_readers := (ni_readers M)(bid \<mapsto> rd')\<rparr>"
    using run by (auto simp: read_blob_range_def split: prod.splits)
  have h: "dbs_ok N V W imgs known (fst (db, rd')) \<and> (fst (db, rd') = None \<longleftrightarrow> fst (ni_db M, rd) = None) \<and>
      reader_ok N V W I imgs bid (db, rd') \<and> (\<forall>d. r = Inr d \<longrightarrow> d = slice (imgs bid) off (off + sz))"
    by (rule range_loop_ok [OF nydus_okD(1) [OF ok] small l]) (use nydus_okD(2) [OF ok] rd in simp_all)
  then show ?thesis using nydus_ok_reader [OF ok, of db bid rd'] by (simp add: M')
qed

text \<open>
  What the super block says of a file with content \<open>fdata\<close>: chunk \<open>i\<close> is the \<open>i\<close>-th piece of the file;
  its identifier is the piece's digest; its place in the blob holds the piece, compressed or not.
\<close>

definition piece :: "('s, 'i, 'b) nydus_env \<Rightarrow> bytes \<Rightarrow> nat \<Rightarrow> bytes" where
  "piece N fdata i =
     (let k = rs_chunk_size (ne_sb N) in slice fdata (i * k) (min ((i + 1) * k) (length fdata)))"

definition chunk_ok :: "('s, 'i, 'b) nydus_env \<Rightarrow> (string \<Rightarrow> bytes) \<Rightarrow> bytes \<Rightarrow> chunk_info \<Rightarrow> blob_info \<Rightarrow> bool" where
  "chunk_ok N imgs x chunk blob \<longleftrightarrow>
     (let stored = slice (imgs (bl_id blob)) (ck_coffset chunk) (ck_coffset chunk + ck_csize chunk) in
      ck_usize chunk = length x \<and>
      (\<forall>cs. checksum_from_chunk chunk blob = Inr cs \<longrightarrow> CheckSum_from_data (d_digests (ne_dedup N)) x (cs_method cs) = cs) \<and>
      ck_coffset chunk + ck_csize chunk \<le> length (imgs (bl_id blob)) \<and>
      (if ck_csize chunk = 0 then x = replicate (ck_usize chunk) 0
       else if ck_compressed chunk then
         (\<forall>d n. ne_decompress N (bl_compressor blob) stored (replicate (ck_usize chunk) 0) = (d, Inr n) \<longrightarrow>
            length d = ck_usize chunk \<and> n = ck_usize chunk \<and> d = x)
       else length x \<le> length stored \<longrightarrow> take (ck_usize chunk) stored = x))"

definition file_ok :: "('s, 'i, 'b) nydus_env \<Rightarrow> (string \<Rightarrow> bytes) \<Rightarrow> bytes \<Rightarrow> rafs_inode \<Rightarrow> bool" where
  "file_ok N imgs fdata inode \<longleftrightarrow>
     ri_size inode = length fdata \<and> length fdata < 2 ^ 63 \<and> length fdata \<le> rs_chunk_size (ne_sb N) * 2 ^ 32 \<and>
     (\<forall>i chunk blob. i * rs_chunk_size (ne_sb N) < length fdata \<longrightarrow> ri_chunk inode i = Inr chunk \<longrightarrow>
        get_blob N (ck_blob chunk) = Inr blob \<longrightarrow> chunk_ok N imgs (piece N fdata i) chunk blob)"

lemma chunk_okD:
  assumes "chunk_ok N imgs x chunk blob"
  shows "ck_usize chunk = length x" "ck_coffset chunk + ck_csize chunk \<le> length (imgs (bl_id blob))"
    "checksum_from_chunk chunk blob = Inr cs \<Longrightarrow> CheckSum_from_data (d_digests (ne_dedup N)) x (cs_method cs) = cs"
    "ck_csize chunk = 0 \<Longrightarrow> replicate (ck_usize chunk) 0 = x"
    "ck_csize chunk \<noteq> 0 \<Longrightarrow> ck_compressed chunk \<Longrightarrow>
     ne_decompress N (bl_compressor blob) (slice (imgs (bl_id blob)) (ck_coffset chunk) (ck_coffset chunk + ck_csize chunk))
       (replicate (ck_usize chunk) 0) = (d, Inr n) \<Longrightarrow> n = ck_usize chunk \<and> d = x"
    "ck_csize chunk \<noteq> 0 \<Longrightarrow> \<not> ck_compressed chunk \<Longrightarrow>
     length x \<le> length (slice (imgs (bl_id blob)) (ck_coffset chunk) (ck_coffset chunk + ck_csize chunk)) \<Longrightarrow>
     take (ck_usize chunk) (slice (imgs (bl_id blob)) (ck_coffset chunk) (ck_coffset chunk + ck_csize chunk)) = x"
proof -
  note all = assms [unfolded chunk_ok_def Let_def]
  show "ck_usize chunk = length x" "ck_coffset chunk + ck_csize chunk \<le> length (imgs (bl_id blob))"
    "checksum_from_chunk chunk blob = Inr cs \<Longrightarrow> CheckSum_from_data (d_digests (ne_dedup N)) x (cs_method cs) = cs"
    using all [THEN conjunct1] all [THEN conjunct2, THEN conjunct1] all [THEN conjunct2, THEN conjunct2, THEN conjunct1] by simp_all
  note data = all [THEN conjunct2, THEN conjunct2, THEN conjunct2]
  show "replicate (ck_usize chunk) 0 = x" if "ck_csize chunk = 0"
    by (rule data [unfolded if_P [OF that], THEN sym])
  show "n = ck_usize chunk \<and> d = x" if "ck_csize chunk \<noteq> 0" "ck_compressed chunk"
    "ne_decompress N (bl_compressor blob) (slice (imgs (bl_id blob)) (ck_coffset chunk) (ck_coffset chunk + ck_csize chunk))
       (replicate (ck_usize chunk) 0) = (d, Inr n)"
    using data [unfolded if_not_P [OF that(1)] if_P [OF that(2)]] that(3) by blast
  show "take (ck_usize chunk) (slice (imgs (bl_id blob)) (ck_coffset chunk) (ck_coffset chunk + ck_csize chunk)) = x"
    if "ck_csize chunk \<noteq> 0" "\<not> ck_compressed chunk"
      "length x \<le> length (slice (imgs (bl_id blob)) (ck_coffset chunk) (ck_coffset chunk + ck_csize chunk))"
    using data [unfolded if_not_P [OF that(1)] if_not_P [OF that(2)]] that(3) by blast
qed

lemma read_chunk_data_ok:
  assumes ok: "nydus_ok N V W I imgs known M" and ch: "chunk_ok N imgs x chunk blob"
    and run: "read_chunk_data N chunk blob M = (M', r)"
  shows "nydus_ok N V W I imgs known M' \<and> ni_queue M' = ni_queue M \<and> (\<forall>d. r = Inr d \<longrightarrow> d = x)"
proof -
  let ?stored = "slice (imgs (bl_id blob)) (ck_coffset chunk) (ck_coffset chunk + ck_csize chunk)"
  note c = chunk_okD [OF ch]
  show ?thesis
  proof (cases "ck_encrypted chunk \<or> ck_batch chunk \<or> ck_usize chunk = 0 \<or> ck_csize chunk = 0")
    case True
    then have "M' = M \<and> (isl r \<or> r = Inr [] \<and> ck_usize chunk = 0 \<or> r = Inr (replicate (ck_usize chunk) 0) \<and> ck_csize chunk = 0)"
      using run by (auto simp: read_chunk_data_def split: if_splits)
    then show ?thesis using ok c(1,4) by auto
  next
    case False
    obtain M1 r1 where g: "get_blob_reader N (bl_id blob) M = (M1, r1)" by (rule prod.exhaust)
    note h1 = get_blob_reader_ok [OF ok g]
    show ?thesis
    proof (cases r1)
      case (Inl e)
      then show ?thesis using run False g h1 by (auto simp: read_chunk_data_def)
    next
      case (Inr rd)
      obtain M2 r2 where l: "read_blob_range N (bl_id blob) rd (ck_coffset chunk) (ck_csize chunk) M1 = (M2, r2)" by (rule prod.exhaust)
      have rd: "reader_ok N V W I imgs (bl_id blob) (ni_db M1, rd)" using h1 Inr by blast
      note h2 = read_blob_range_ok [OF conjunct1 [OF h1] rd c(2) l]
      have M': "M' = M2" using run False g Inr l by (auto simp: read_chunk_data_def split: sum.splits prod.splits if_splits)
      have "d = x" if d: "r = Inr d" for d
      proof -
        obtain y where y: "r2 = Inr y" using run False g Inr l d by (auto simp: read_chunk_data_def split: sum.splits)
        have st: "y = ?stored" using h2 y by simp
        show ?thesis
        proof (cases "ck_compressed chunk")
          case True
          then obtain z n where "ne_decompress N (bl_compressor blob) y (replicate (ck_usize chunk) 0) = (z, Inr n)"
            "d = (if n \<noteq> ck_usize chunk then take n z else z)"
            using run False g Inr l y d by (auto simp: read_chunk_data_def split: sum.splits prod.splits)
          then show ?thesis using c(5) True False st by fastforce
        next
          case plain: False
          then have "\<not> length y < ck_usize chunk" "d = take (ck_usize chunk) y"
            using run False g Inr l y d by (auto simp: read_chunk_data_def split: if_splits)
          then show ?thesis using c(6) plain False st c(1) by simp
        qed
      qed
      then show ?thesis using h1 h2 M' by simp
    qed
  qed
qed

subsection \<open>Reading a file\<close>

text \<open>No two different ranges of the known contents have the same checksum.\<close>

definition collision_free :: "digests \<Rightarrow> bytes set \<Rightarrow> bool" where
  "collision_free H K \<longleftrightarrow> (\<forall>x \<in> K. \<forall>y \<in> K. \<forall>a b a' b' m. a \<le> b \<longrightarrow> b \<le> length x \<longrightarrow> a' \<le> b' \<longrightarrow> b' \<le> length y \<longrightarrow>
     CheckSum_from_data H (slice x a b) m = CheckSum_from_data H (slice y a' b') m \<longrightarrow> slice x a b = slice y a' b')"

lemma right_slice:
  assumes cf: "collision_free H K" and x: "x \<in> K" "a \<le> b" "b \<le> length x"
    and cs: "CheckSum_from_data H (slice x a b) (cs_method cs) = cs"
  shows "right H K cs (slice x a b)"
  unfolding right_def faithful_def
proof (intro ballI allI impI)
  fix y a' b'
  assume "y \<in> K" "a' \<le> b'" "b' \<le> length y" "CheckSum_from_data H (slice y a' b') (cs_method cs) = cs"
  moreover from this cs have "CheckSum_from_data H (slice x a b) (cs_method cs) = CheckSum_from_data H (slice y a' b') (cs_method cs)"
    by simp
  ultimately show "slice x a b = slice y a' b'" using cf x unfolding collision_free_def by blast
qed

lemma store_chunk_ok:
  assumes ok: "nydus_ok N V W I imgs known M" and r: "right (d_digests (ne_dedup N)) known cs d"
  shows "nydus_ok N V W I imgs known (store_chunk_bg now cs d M)"
  using ok r by (auto simp: store_chunk_bg_def nydus_ok_def split: prod.splits)

lemma read_from_chunkdb_ok:
  assumes ok: "nydus_ok N V W I imgs known M" and fw: "writer_ok fw out"
    and x: "x \<in> known" "a \<le> b" "b \<le> length x" "CheckSum_from_data (d_digests (ne_dedup N)) (slice x a b) (cs_method cs) = cs"
    and n: "start + n \<le> b - a" "b < 2 ^ 63"
    and run: "read_from_chunkdb N fw cs start n M w = (M', w', r)"
  shows "nydus_ok N V W I imgs known M' \<and>
    (case r of Inl e \<Rightarrow> True | Inr None \<Rightarrow> out w' = out w
     | Inr (Some m) \<Rightarrow> m = n \<and> out w' = out w @ slice x (a + start) (a + start + n))"
proof (cases "ni_db M")
  case None
  then have "M' = M" "w' = w" "r = Inr None" using run by (simp_all add: read_from_chunkdb_def)
  then show ?thesis using ok by simp
next
  case (Some p)
  obtain q ix where db: "ni_db M = Some (q, ix)" using Some by (cases p) auto
  obtain q' r1 where c: "with_chunk_range (d_store (ne_dedup N)) cs start n fw q w = (q', w', r1)"
    and M': "M' = M\<lparr>ni_db := Some (q', ix)\<rparr>" and r: "r = (case r1 of Inr x \<Rightarrow> Inr x | Inl e \<Rightarrow> if e = Panic then Inl Panic else Inr None)"
    using run db by (auto simp: read_from_chunkdb_def split: prod.splits)
  note env = nydus_okD(1) [OF ok]
  note d = dbs_okD [OF nydus_okD(2) [OF ok, unfolded db]]
  note h = with_chunk_range_cases [OF nydus_env_okD(1) [OF env] c]
  have q': "chunks_ok (right (d_digests (ne_dedup N)) known) V q'" using chunks_ok_cong [OF d(1)] h by blast
  then have db': "dbs_ok N V W imgs known (Some (q', ix))" using d(2) by (auto simp: dbs_ok_def)
  have "nydus_ok N V W I imgs known M'"
    using ok db' reader_ok_dbs [OF env nydus_okD(3) [OF ok] db'] by (auto simp: nydus_ok_def M' db)
  moreover have "case r of Inl e \<Rightarrow> True | Inr None \<Rightarrow> out w' = out w
     | Inr (Some m) \<Rightarrow> m = n \<and> out w' = out w @ slice x (a + start) (a + start + n)"
  proof -
    have "start + n < 2 ^ 63" using n by linarith
    then have add: "u64_add start n = start + n" using less_trans [of "start + n" "2 ^ 63" "2 ^ 64"] by (simp add: u64_add_exact)
    have st: "y = slice x a b" if "v_data V (env q) (disk_of cs) = Some y" for y
      using that d(1) x unfolding chunks_ok_def stored_ok_def right_def faithful_def by blast
    have part: "slice (slice x a b) start (start + n) = slice x (a + start) (a + start + n)"
      using slice_slice [of a "start + n" b x start] x n by (simp add: add.assoc)
    have len: "length (slice x (a + start) (a + start + n)) = n" using x n by (simp add: bytes_simps)
    consider e where "w' = w" "r1 = Inl e" | "w' = w" "r1 = Inr None"
      | z where "fw w (slice x (a + start) (a + start + n)) = (w', z)" "r1 = (case z of Inl e \<Rightarrow> Inl e | Inr m \<Rightarrow> Inr (Some m))"
      using h [THEN conjunct2, THEN conjunct2] st part by (auto simp: add)
    then show ?thesis
    proof cases
      case (3 z)
      show ?thesis
      proof (cases z)
        case (Inl e)
        then show ?thesis using 3 writer_okD(1) [OF fw] by (simp add: r)
      next
        case (Inr m)
        then show ?thesis using 3 writer_okD(2) [OF fw] len by (fastforce simp: r)
      qed
    qed (simp_all add: r)
  qed
  ultimately show ?thesis by blast
qed

text \<open>One chunk, from the position \<open>pos\<close> reached so far.\<close>

lemma read_chunk_step_ok:
  assumes ok: "nydus_ok N V W I imgs known M" and cf: "collision_free (d_digests (ne_dedup N)) known" and fd: "fdata \<in> known"
    and fok: "file_ok N imgs fdata inode" and fw: "writer_ok fw out" and k: "k = rs_chunk_size (ne_sb N)"
    and pos: "pos = max off (i * k)" "pos < (i + 1) * k" "pos < length fdata" and rem: "0 < rem" "rem \<le> length fdata"
    and run: "read_chunk_into_writer N fw now inode i off k (rem, tot) M w = (M', w', r)"
  shows "nydus_ok N V W I imgs known M' \<and> (isl r \<or> (let n = min rem (min ((i + 1) * k) (length fdata) - pos) in
    r = Inr (rem - n, tot + n) \<and> out w' = out w @ slice fdata pos (pos + n)))"
proof -
  define a b where "a = i * k" and "b = min ((i + 1) * k) (length fdata)"
  define n where "n = min rem (b - pos)"
  have ab: "a \<le> pos" "pos < b" "b \<le> length fdata" using pos by (auto simp: a_def b_def)
  have len: "length fdata < 2 ^ 63" "ri_size inode = length fdata" "length fdata \<le> k * 2 ^ 32"
    using fok by (simp_all add: file_ok_def k)
  have "i * k < k * 2 ^ 32" using ab len a_def by linarith
  then have i: "as_u32 i = i" by (intro as_u32_exact) (simp only: mult.commute [of i k] mult_less_cancel1)
  have piece: "piece N fdata i = slice fdata a b" by (simp add: piece_def Let_def a_def b_def k)
  have n: "n = min rem (b - a - (pos - a))" "pos - a + n \<le> b - a" "b < 2 ^ 63" using ab len by (auto simp: n_def)
  have co: "(if off > a then off - a else 0) = pos - a" using pos by (auto simp: a_def)
  have rn: "u64_sub rem n = rem - n" using rem len less_trans [of rem "2 ^ 63" "2 ^ 64"] by (intro u64_sub_exact) (auto simp: n_def)
  have "nydus_ok N V W I imgs known M' \<and> (isl r \<or> r = Inr (rem - n, tot + n) \<and> out w' = out w @ slice fdata pos (pos + n))"
  proof (cases "ri_chunk inode i")
    case (Inl e)
    then show ?thesis using run ok by (auto simp: read_chunk_into_writer_def i)
  next
    case chunk: (Inr chunk)
    show ?thesis
    proof (cases "get_blob N (ck_blob chunk)")
      case (Inl e)
      then show ?thesis using run ok chunk by (auto simp: read_chunk_into_writer_def i)
    next
      case blob: (Inr blob)
      have "i * rs_chunk_size (ne_sb N) < length fdata" using ab a_def k by simp
      then have ch: "chunk_ok N imgs (slice fdata a b) chunk blob" using fok chunk blob piece by (auto simp: file_ok_def)
      have us: "ck_usize chunk = b - a" using chunk_okD(1) [OF ch] ab by (simp add: bytes_simps)
      have "\<not> pos - a \<ge> b - a" using ab by linarith
      then have run1: "(case checksum_from_chunk chunk blob of
          Inl e \<Rightarrow> (M, w, Inl e)
        | Inr cs \<Rightarrow>
            (case read_from_chunkdb N fw cs (pos - a) n M w of
               (img1, w1, Inl e) \<Rightarrow> (img1, w1, Inl e)
             | (img1, w1, Inr (Some n)) \<Rightarrow> (img1, w1, Inr (u64_sub rem n, tot + n))
             | (img1, w1, Inr None) \<Rightarrow>
                 (case read_chunk_data N chunk blob img1 of
                    (img2, Inl e) \<Rightarrow> (img2, w1, Inl e)
                  | (img2, Inr data) \<Rightarrow>
                      if pos - a + n > length data then (img2, w1, Inl (Io InvalidData))
                      else
                        (case fw w1 (slice data (pos - a) (pos - a + n)) of
                           (w2, Inl e) \<Rightarrow> (img2, w2, Inl e)
                         | (w2, Inr n) \<Rightarrow>
                             (if length data = ck_usize chunk then store_chunk_bg now cs data img2 else img2,
                              w2, Inr (u64_sub rem n, tot + n)))))) = (M', w', r)"
        using run chunk blob unfolding read_chunk_into_writer_def
        by (simp only: i Let_def prod.case sum.case a_def [symmetric] co us if_False n(1) [symmetric])
      show ?thesis
      proof (cases "checksum_from_chunk chunk blob")
        case (Inl e)
        then show ?thesis using run1 ok by auto
      next
        case cs: (Inr cs)
        note dig = chunk_okD(3) [OF ch cs]
        have le: "a \<le> b" using ab by simp
        obtain M1 w1 r1 where db: "read_from_chunkdb N fw cs (pos - a) n M w = (M1, w1, r1)" by (rule prod_cases3)
        note h1 = read_from_chunkdb_ok [OF ok fw fd le ab(3) dig n(2,3) db]
        have sl: "a + (pos - a) = pos" using ab by simp
        show ?thesis
        proof (cases "r1 = Inr None")
          case False
          then show ?thesis using run1 cs db h1 rn by (auto simp: sl split: sum.splits option.splits)
        next
          case True
          obtain M2 r2 where rd: "read_chunk_data N chunk blob M1 = (M2, r2)" by (rule prod.exhaust)
          note h2 = read_chunk_data_ok [OF conjunct1 [OF h1] ch rd]
          show ?thesis
          proof (cases r2)
            case (Inl e)
            then show ?thesis using run1 cs db True rd h2 by auto
          next
            case (Inr data)
            have data: "data = slice fdata a b" "length data = b - a" using h2 Inr ab by (simp_all add: bytes_simps)
            obtain w2 r3 where f: "fw w1 (slice data (pos - a) (pos - a + n)) = (w2, r3)" by (rule prod.exhaust)
            have sd: "slice data (pos - a) (pos - a + n) = slice fdata pos (pos + n)"
              using slice_slice [of a "pos - a + n" b fdata "pos - a"] n(2) ab by (simp add: data(1) add.assoc [symmetric])
            have right: "right (d_digests (ne_dedup N)) known cs data" unfolding data(1) by (rule right_slice [OF cf fd le ab(3) dig])
            have run2: "(case r3 of Inl e \<Rightarrow> (M2, w2, Inl e)
                | Inr n \<Rightarrow> (store_chunk_bg now cs data M2, w2, Inr (u64_sub rem n, tot + n))) = (M', w', r)"
              using run1 cs db True rd Inr f n(2) data(2) us by (auto split: sum.splits)
            show ?thesis
            proof (cases r3)
              case (Inl e)
              then show ?thesis using run2 h2 by auto
            next
              case m: (Inr m)
              have "length (slice fdata pos (pos + n)) = n" using n ab by (simp add: bytes_simps)
              then have "m = n" "out w2 = out w @ slice fdata pos (pos + n)"
                using writer_okD(2) [OF fw f [unfolded m sd]] h1 True by simp_all
              then show ?thesis using run2 m store_chunk_ok [OF conjunct1 [OF h2] right] rn by auto
            qed
          qed
        qed
      qed
    qed
  qed
  then show ?thesis by (simp add: Let_def n_def b_def)
qed

lemma read_chunks_ok:
  assumes cf: "collision_free (d_digests (ne_dedup N)) known" and fd: "fdata \<in> known"
    and fok: "file_ok N imgs fdata inode" and fw: "writer_ok fw out" and k: "k = rs_chunk_size (ne_sb N)" "0 < k"
    and stop: "off + n \<le> length fdata" "j = Suc ((off + n - 1) div k)"
  shows "nydus_ok N V W I imgs known M \<Longrightarrow> off + tot = max off (i * k) \<Longrightarrow> off + tot < (i + 1) * k \<Longrightarrow> tot < n \<Longrightarrow>
    out w = out w0 @ slice fdata off (off + tot) \<Longrightarrow>
    read_chunks N fw now inode [i ..< j] off k (n - tot, tot) M w = (M', w', r) \<Longrightarrow>
    nydus_ok N V W I imgs known M' \<and> (isl r \<or> r = Inr n \<and> out w' = out w0 @ slice fdata off (off + n))"
proof (induction "j - i" arbitrary: i tot M w)
  case 0
  have "i * k \<le> off + n - 1" using 0 by linarith
  then have "i \<le> (off + n - 1) div k" using k(2) by (simp add: less_eq_div_iff_mult_less_eq)
  with 0(1) stop(2) show ?case by simp
next
  case (Suc d)
  have lt: "i < j" using Suc.hyps(2) by simp
  define m where "m = min (n - tot) (min ((i + 1) * k) (length fdata) - (off + tot))"
  obtain M1 w1 r1 where run1: "read_chunk_into_writer N fw now inode i off k (n - tot, tot) M w = (M1, w1, r1)" by (rule prod_cases3)
  have h: "nydus_ok N V W I imgs known M1 \<and> (isl r1 \<or> r1 = Inr (n - tot - m, tot + m) \<and>
      out w1 = out w @ slice fdata (off + tot) (off + tot + m))"
    using read_chunk_step_ok [OF Suc.prems(1) cf fd fok fw k(1) Suc.prems(2,3) _ _ _ run1] Suc.prems(4) stop(1)
    by (simp add: Let_def m_def)
  have run: "(case r1 of Inl e \<Rightarrow> (M1, w1, Inl e)
      | Inr c \<Rightarrow> if fst c = 0 then (M1, w1, Inr (snd c)) else read_chunks N fw now inode [Suc i ..< j] off k c M1 w1) = (M', w', r)"
    using Suc.prems(6) run1 by (simp add: upt_conv_Cons [OF lt])
  show ?case
  proof (cases "isl r1")
    case True
    then show ?thesis using run h by (auto simp: isl_def)
  next
    case False
    then have r1: "r1 = Inr (n - tot - m, tot + m)" using h by simp
    have w1: "out w1 = out w0 @ slice fdata off (off + (tot + m))"
      using h False Suc.prems(4,5) stop(1) slice_append [of off "off + tot" "off + (tot + m)" fdata]
      by (simp add: add.assoc m_def)
    show ?thesis
    proof (cases "n - tot - m = 0")
      case True
      then have "tot + m = n" using Suc.prems(4) unfolding m_def by linarith
      then show ?thesis using run r1 True h w1 by auto
    next
      case more: False
      then have em: "m = (i + 1) * k - (off + tot)" using stop(1) unfolding m_def by linarith
      have e: "off + (tot + m) = Suc i * k" using em Suc.prems(3) by simp
      have "off \<le> Suc i * k" using e by linarith
      then have max: "off + (tot + m) = max off (Suc i * k)" using e by simp
      have "off + (tot + m) < (Suc i + 1) * k" using e k(2) by simp
      moreover have "tot + m < n" using more by linarith
      moreover have "read_chunks N fw now inode [Suc i ..< j] off k (n - (tot + m), tot + m) M1 w1 = (M', w', r)"
        using run r1 more by simp
      ultimately show ?thesis using Suc.hyps(1) [of "Suc i" M1 "tot + m" w1] Suc.hyps(2) h max w1 by simp
    qed
  qed
qed


text \<open>A file of two chunks in one blob; the first chunk is in the database.  The digest is the data, padded.\<close>

definition pad_digests :: digests where
  "pad_digests = \<lparr>sha256_digest = \<lambda>x. x @ replicate (32 - length x) 0, blake3_digest = \<lambda>x. x @ replicate (32 - length x) 0\<rparr>"

lemma takeWhile_pad: "0 \<notin> set x \<Longrightarrow> takeWhile (\<lambda>v. v \<noteq> (0 :: byte)) (x @ replicate k 0) = x"
  by (subst takeWhile_append2) (auto simp: takeWhile_eq_Nil_iff hd_replicate)

lemma set_slice: "set (slice xs a b) \<subseteq> set xs"
  by (auto simp: slice_def dest!: in_set_takeD in_set_dropD)

lemma pad_collision_free: "0 \<notin> set x \<Longrightarrow> collision_free pad_digests {x}"
  unfolding collision_free_def
proof (intro ballI allI impI)
  fix y z a b a' b' and m :: CheckSumMethod
  assume "0 \<notin> set x" "y \<in> {x}" "z \<in> {x}"
    and eq: "CheckSum_from_data pad_digests (slice y a b) m = CheckSum_from_data pad_digests (slice z a' b') m"
  then have z: "0 \<notin> set (slice y a b)" "0 \<notin> set (slice z a' b')" using set_slice by fastforce+
  have "slice y a b @ replicate (32 - length (slice y a b)) 0 = slice z a' b' @ replicate (32 - length (slice z a' b')) 0"
    using eq by (simp add: CheckSum_from_data_def pad_digests_def split: CheckSumMethod.splits)
  then show "slice y a b = slice z a' b'" using takeWhile_pad z by metis
qed

definition demo_chunk :: "bytes \<Rightarrow> nat \<Rightarrow> chunk_info" where
  "demo_chunk x off =
     \<lparr>ck_id = x @ replicate 30 0, ck_blob = 0, ck_encrypted = False, ck_batch = False, ck_compressed = False,
      ck_coffset = off, ck_csize = 2, ck_usize = 2\<rparr>"

definition demo_inode :: rafs_inode where
  "demo_inode =
     (let a = \<lparr>fa_ino = 2, fa_uid = 0, fa_gid = 0, fa_atime = 0, fa_ctime = 0, fa_mtime = 0\<rparr> in
      \<lparr>ri_ino = 2, ri_dir = False, ri_reg = True, ri_size = 4, ri_parent = 1,
       ri_entry = \<lparr>fe_inode = 2, fe_attr = a, fe_attr_timeout = 0, fe_entry_timeout = 0\<rparr>, ri_attr = a,
       ri_symlink = Inl (Os 22), ri_xattr = \<lambda>_. Inr None, ri_xattrs = Inr [],
       ri_chunk = \<lambda>i. if i = 0 then Inr (demo_chunk [1, 2] 0) else Inr (demo_chunk [3, 4] 2)\<rparr>)"

definition demo_blob :: blob_info where
  "demo_blob = \<lparr>bl_index = 0, bl_id = ''b'', bl_digester = DigestBlake3, bl_compressor = 0\<rparr>"

definition demo_sb :: rafs where
  "demo_sb =
     \<lparr>rs_inode = \<lambda>_. Inr demo_inode, rs_ext_inode = \<lambda>_. Inr demo_inode, rs_child = \<lambda>_ _. Inl (Io NotFound),
      rs_blobs = [demo_blob], rs_v6 = False, rs_root = 1, rs_chunk_size = 2, rs_has_xattr = False,
      rs_explicit_uidgid = True, rs_attr_timeout = 0, rs_entry_timeout = 0, rs_magic = 0, rs_inodes_count = 2\<rparr>"

definition demo_nydus :: "(mem_chunks, (DedupRange \<times> DedupInfo) list, bytes) nydus_env" where
  "demo_nydus =
     \<lparr>ne_sb = demo_sb, ne_blobs = [0 \<mapsto> demo_blob], ne_source = mem_source, ne_get_reader = \<lambda>_. Inr [1, 2, 3, 4],
      ne_fs = mem_fs, ne_files = mem_files, ne_page = 1,
      ne_dedup = \<lparr>d_store = mem_chunk_env 5, d_index = mem_index, d_backend = cache_ops mem_fs mem_source,
        d_digests = pad_digests, d_id = [], d_client = None\<rparr>,
      ne_decompress = \<lambda>_ _ buf. (buf, Inl (Io Other)), ne_cache_dir = [], ne_uid = 0, ne_gid = 0, ne_time = 0\<rparr>"

definition demo_cs_12 :: CheckSum where
  "demo_cs_12 = \<lparr>cs_raw = [1, 2] @ replicate 30 0, cs_method = Blake3\<rparr>"

definition demo_image :: "(mem_chunks, (DedupRange \<times> DedupInfo) list, bytes) NydusImage" where
  "demo_image =
     \<lparr>ni_readers = Map.empty,
      ni_db = Some (chunkdb_new \<lparr>m_data = [(disk_of demo_cs_12, [1, 2])], m_access = [], m_index = []\<rparr> False, []),
      ni_queue = [], ni_worker = True, ni_dropped = 0, ni_limiter = RateLimitedLog_new 5\<rparr>"

lemma demo_pad_free: "collision_free pad_digests {[1, 2, 3, 4]}"
  by (rule pad_collision_free) simp

lemma demo_right: "right pad_digests {[1, 2, 3, 4]} demo_cs_12 [1, 2]"
proof -
  have "right pad_digests {[1, 2, 3, 4]} demo_cs_12 (slice [1, 2, 3, 4] 0 2)"
    by (rule right_slice [OF demo_pad_free]) (simp_all add: demo_cs_12_def CheckSum_from_data_def pad_digests_def slice_def)
  then show ?thesis by (simp add: slice_def)
qed

lemma demo_env_sel [simp]:
  "ne_sb demo_nydus = demo_sb" "ne_source demo_nydus = mem_source" "ne_get_reader demo_nydus bid = Inr [1, 2, 3, 4]"
  "ne_fs demo_nydus = mem_fs" "ne_files demo_nydus = mem_files" "d_store (ne_dedup demo_nydus) = mem_chunk_env 5"
  "d_index (ne_dedup demo_nydus) = mem_index" "d_backend (ne_dedup demo_nydus) = cache_ops mem_fs mem_source"
  "d_digests (ne_dedup demo_nydus) = pad_digests" "d_client (ne_dedup demo_nydus) = None"
  "ne_cache_dir demo_nydus = []" "rs_chunk_size demo_sb = 2" "rs_ext_inode demo_sb i = Inr demo_inode"
  by (simp_all add: demo_nydus_def demo_sb_def)

lemma demo_nydus_ok: "nydus_ok demo_nydus mem_views map_of (\<lambda>_ b. b = [1, 2, 3, 4]) (\<lambda>_. [1, 2, 3, 4]) {[1, 2, 3, 4]} demo_image"
proof -
  have "nydus_env_ok demo_nydus mem_views map_of (\<lambda>_ b. b = [1, 2, 3, 4]) (\<lambda>_. [1, 2, 3, 4]) {[1, 2, 3, 4]}"
    by (simp add: nydus_env_ok_def mem_chunk_env_ok mem_index_ok mem_fs_ok mem_source_backend client_keeps_def
        set_len_ok_def mem_files_def)
  moreover have "dbs_ok demo_nydus mem_views map_of (\<lambda>_. [1, 2, 3, 4]) {[1, 2, 3, 4]} (ni_db demo_image)"
    using demo_right by (auto simp: dbs_ok_def demo_image_def chunks_ok_def stored_ok_def mem_views_def chunkdb_new_def)
  ultimately show ?thesis by (simp add: nydus_ok_def demo_image_def)
qed

lemma demo_file_ok: "file_ok demo_nydus (\<lambda>_. [1, 2, 3, 4]) [1, 2, 3, 4] demo_inode"
proof -
  have blob: "get_blob demo_nydus (ck_blob (demo_chunk x off)) = Inr demo_blob" for x off
    by (simp add: get_blob_def demo_chunk_def demo_nydus_def)
  have p: "piece demo_nydus [1, 2, 3, 4] 0 = [1, 2]" "piece demo_nydus [1, 2, 3, 4] 1 = [3, 4]"
    by (simp_all add: piece_def slice_def)
  have c: "chunk_ok demo_nydus (\<lambda>_. [1, 2, 3, 4]) [1, 2] (demo_chunk [1, 2] 0) demo_blob"
    "chunk_ok demo_nydus (\<lambda>_. [1, 2, 3, 4]) [3, 4] (demo_chunk [3, 4] 2) demo_blob"
    by (auto simp: chunk_ok_def demo_chunk_def slice_def checksum_from_chunk_def CheckSum_new_def CheckSum_from_data_def
        pad_digests_def demo_blob_def)
  have "chunk_ok demo_nydus (\<lambda>_. [1, 2, 3, 4]) (piece demo_nydus [1, 2, 3, 4] i) chunk b"
    if i: "i * 2 < 4" and ch: "ri_chunk demo_inode i = Inr chunk" "get_blob demo_nydus (ck_blob chunk) = Inr b" for i chunk b
  proof -
    consider "i = 0" | "i = 1" using i by linarith
    then show ?thesis by cases (use ch blob p c in \<open>auto simp: demo_inode_def Let_def\<close>)
  qed
  then show ?thesis by (simp add: file_ok_def) (simp add: demo_inode_def Let_def)
qed

lemma demo_checksums:
  "checksum_from_chunk (demo_chunk [1, 2] 0) demo_blob = Inr demo_cs_12"
  "checksum_from_chunk (demo_chunk [3, 4] 2) demo_blob = Inr \<lparr>cs_raw = [3, 4] @ replicate 30 0, cs_method = Blake3\<rparr>"
  by (simp_all add: checksum_from_chunk_def CheckSum_new_def demo_chunk_def demo_blob_def demo_cs_12_def)

lemma demo_chunks:
  "ri_chunk demo_inode (as_u32 0) = Inr (demo_chunk [1, 2] 0)" "ri_chunk demo_inode (as_u32 (Suc 0)) = Inr (demo_chunk [3, 4] 2)"
  "get_blob demo_nydus (ck_blob (demo_chunk x off)) = Inr demo_blob" "ck_usize (demo_chunk x off) = 2"
  by (simp_all add: demo_inode_def as_u32_def get_blob_def demo_chunk_def demo_nydus_def Let_def)

lemma demo_first:
  "\<exists>q. read_chunk_into_writer demo_nydus mem_writer 0 demo_inode 0 1 2 (3, 0) demo_image [9] =
    (demo_image\<lparr>ni_db := Some (q, [])\<rparr>, [9, 2], Inr (2, 1)) \<and> map_of (m_data (env q)) = [disk_of demo_cs_12 \<mapsto> [1, 2]]"
  by (simp add: read_chunk_into_writer_def demo_chunks demo_checksums read_from_chunkdb_def demo_image_def with_chunk_range_def
      mem_writer_def chunkdb_new_def u64_add_def u64_sub_def slice_def enqueue_access_def Let_def)

lemma demo_second:
  assumes q: "map_of (m_data (env q)) = [disk_of demo_cs_12 \<mapsto> [1, 2]]"
  shows "\<exists>M. read_chunk_into_writer demo_nydus mem_writer 0 demo_inode 1 1 2 (2, 1) (demo_image\<lparr>ni_db := Some (q, [])\<rparr>) [9, 2] =
    (M, [9, 2, 3, 4], Inr (0, 3))"
proof -
  let ?M = "demo_image\<lparr>ni_db := Some (q, [])\<rparr>"
  let ?cs = "\<lparr>cs_raw = [3, 4] @ replicate 30 0, cs_method = Blake3\<rparr>"
  have "?cs \<noteq> demo_cs_12" by (simp add: demo_cs_12_def)
  then have miss: "read_from_chunkdb demo_nydus mem_writer ?cs 0 2 ?M [9, 2] = (?M, [9, 2], Inr None)"
    using q by (simp add: read_from_chunkdb_def with_chunk_range_def del: append.simps)
  have loop: "range_loop (reader_fetch demo_nydus) 2 2 [0, 0] 0 (db, Direct [1, 2, 3, 4]) = ((db, Direct [1, 2, 3, 4]), Inr [3, 4])" for db
    by (simp add: range_loop.simps reader_fetch_def mem_source_def splice_def slice_def u64_add_def Let_def)
  obtain M where data: "read_chunk_data demo_nydus (demo_chunk [3, 4] 2) demo_blob ?M = (M, Inr [3, 4])"
    using loop by (simp add: read_chunk_data_def get_blob_reader_def new_blob_reader_def read_blob_range_def demo_chunk_def
        demo_image_def numeral_2_eq_2)
  show ?thesis
    using miss data by (simp add: read_chunk_into_writer_def demo_chunks demo_checksums slice_def mem_writer_def u64_sub_def)
qed

lemma demo_nydus_run:
  "\<exists>M. nydus_read demo_nydus mem_writer 0 2 9 1 demo_image [9] = (M, [9, 2, 3, 4], Inr 3)"
proof -
  obtain q where 1: "read_chunk_into_writer demo_nydus mem_writer 0 demo_inode 0 1 2 (3, 0) demo_image [9] =
      (demo_image\<lparr>ni_db := Some (q, [])\<rparr>, [9, 2], Inr (2, 1))" and "map_of (m_data (env q)) = [disk_of demo_cs_12 \<mapsto> [1, 2]]"
    using demo_first by blast
  from demo_second [OF this(2)] obtain M where
    2: "read_chunk_into_writer demo_nydus mem_writer 0 demo_inode 1 1 2 (2, 1) (demo_image\<lparr>ni_db := Some (q, [])\<rparr>) [9, 2] =
      (M, [9, 2, 3, 4], Inr (0, 3))" by blast
  have c: "check_read_range demo_inode 9 1 = Inr 3"
    by (simp add: check_read_range_def checked_add_u64_def demo_inode_def Let_def)
  have idx: "[0 ..< Suc (Suc 0)] = [0, 1]" by (simp add: upt_rec)
  show ?thesis using 1 2 c by (simp add: nydus_read_def Let_def idx del: upt_Suc)
qed


subsection \<open>The worker\<close>

lemma add_chunks_keeps:
  assumes ok: "chunk_env_ok L V" and q: "chunks_ok R V q" and new: "\<forall>(cs, d) \<in> set chunks. R cs d" "now < 2 ^ 64"
    and run: "add_chunks L now chunks q = Some (q', r)"
  shows "chunks_ok R V q'"
proof (cases "chunks = []")
  case True
  then show ?thesis using q run by (simp add: add_chunks_def)
next
  case False
  let ?q = "submit_high (AddChunksBatch chunks (next_reply q)) (q\<lparr>next_reply := Suc (next_reply q)\<rparr>)"
  obtain x where w: "writer_round L now ?q = Some (q', x)"
    using run False by (auto simp: add_chunks_def wait_reply_def split: option.splits)
  have h: "chunk_env_ok L V \<and> stored_ok R V (env ?q)"
    "\<forall>req \<in> set (high ?q). \<forall>x \<in> set (request_chunks req). R (fst x) (snd x)"
    using ok q new by (auto simp: chunks_ok_def submit_high_def)
  have "chunk_env_ok L V \<and> stored_ok R V (env q')"
    by (rule stored.writer_round [OF h _ new(2) w]) simp
  then show ?thesis using high_writer_round [OF w] by (simp add: chunks_ok_def)
qed

text \<open>What the worker stores is right, so the image stays as it should be; the turns at the end empty the channel.\<close>

lemma store_turn_ok:
  assumes ok: "nydus_ok N V W I imgs known M" and now: "now < 2 ^ 64" and run: "store_turn N now M = Some M'"
  shows "nydus_ok N V W I imgs known M'"
proof (cases "ni_db M")
  case None
  then show ?thesis using ok run by (simp add: store_turn_def)
next
  case (Some p)
  obtain q ix where db: "ni_db M = Some (q, ix)" using Some by (cases p) auto
  obtain q' r where add: "add_chunks (d_store (ne_dedup N)) now (take CHUNK_STORE_BATCH_SIZE (ni_queue M)) q = Some (q', r)"
    and M': "M' = M\<lparr>ni_db := Some (q', ix), ni_queue := drop CHUNK_STORE_BATCH_SIZE (ni_queue M)\<rparr>"
    using run db by (auto simp: store_turn_def split: option.splits)
  note env = nydus_okD(1) [OF ok]
  note d = dbs_okD [OF nydus_okD(2) [OF ok, unfolded db]]
  have "\<forall>(cs, x) \<in> set (take CHUNK_STORE_BATCH_SIZE (ni_queue M)). right (d_digests (ne_dedup N)) known cs x"
    using nydus_okD(4) [OF ok] by (auto dest: in_set_takeD)
  from add_chunks_keeps [OF nydus_env_okD(1) [OF env] d(1) this now add]
  have db': "dbs_ok N V W imgs known (Some (q', ix))" using d(2) by (auto simp: dbs_ok_def)
  show ?thesis
    using ok db' reader_ok_dbs [OF env nydus_okD(3) [OF ok] db']
    by (auto simp: nydus_ok_def M' db dest: in_set_dropD)
qed

lemma store_rest_ok:
  assumes "store_rest N now M = Some M'" "nydus_ok N V W I imgs known M" "now < 2 ^ 64"
  shows "nydus_ok N V W I imgs known M' \<and> (ni_db M \<noteq> None \<longrightarrow> ni_queue M' = [])"
  using assms
proof (induction N now M rule: store_rest.induct)
  case (1 N now M)
  show ?case
  proof (cases "ni_queue M = [] \<or> ni_db M = None")
    case True
    then show ?thesis using "1.prems"(1,2) by (auto simp: store_rest.simps nydus_ok_def)
  next
    case False
    obtain M1 where t: "store_turn N now M = Some M1" and r: "store_rest N now M1 = Some M'"
      using "1.prems"(1) False by (subst (asm) store_rest.simps) (auto split: option.splits)
    have "ni_db M1 \<noteq> None" using t False by (auto simp: store_turn_def split: option.splits)
    then show ?thesis
      using "1.IH" [OF False t r store_turn_ok [OF "1.prems"(2,3) t] "1.prems"(3)] by simp
  qed
qed

end
