(* ===== verification/CliProps.thy ===== *)
theory CliProps
  imports Cli NydusProps RawImageProps
begin

text \<open>
  The components put together: what the mount command builds over a storage backend serves the bytes of
  the object, through the cache, with or without deduplication; the image of the RAFS mount starts in
  the state its reads rely on.
\<close>

subsection \<open>Databases\<close>

text \<open>Both databases are opened or none, and only a consistent configuration is accepted.\<close>

lemma setup_dbs_both:
  assumes "setup_chunk_and_index_db M cdir sz mdir ctl = Inr db"
  shows "(db = None \<longleftrightarrow> cdir = []) \<and> (cdir = [] \<longleftrightarrow> mdir = []) \<and> (cdir = [] \<longrightarrow> sz = None) \<and>
    (\<forall>q ix. db = Some (q, ix) \<longrightarrow> ChunkDB_open (me_open_chunks M cdir) (int (me_page M)) sz ctl = Inr q \<and>
       IndexDB_open (me_open_index M mdir) = Inr ix)"
  using assms by (auto simp: setup_chunk_and_index_db_def Let_def and_then_Inr split: if_splits)

definition dbs_right ::
  "('s, 'i, 'f, 'c, 'k, 'r, 'w) mount_env \<Rightarrow> FsOptions \<Rightarrow> 's views \<Rightarrow> ('i \<Rightarrow> DedupRange \<rightharpoonup> DedupInfo) \<Rightarrow> bytes \<Rightarrow> bool" where
  "dbs_right M opts V W img \<longleftrightarrow>
     chunk_env_ok (me_store M) V \<and> index_env_ok (me_index M) W \<and>
     (\<forall>q ix. setup_dbs M opts = Inr (Some (q, ix)) \<longrightarrow> chunks_ok (faithful (me_digests M) img) V q \<and>
        (\<forall>k v. W ix k = Some v \<longrightarrow> dr_id k = blake3_digest (me_digests M) (string_bytes (o_name opts)) \<longrightarrow>
           record_ok (me_digests M) img v)) \<and>
     (\<forall>prefetch cs q. build_local_chunk_client M opts = Some prefetch \<longrightarrow>
        chunks_ok (faithful (me_digests M) img) V q \<longrightarrow> chunks_ok (faithful (me_digests M) img) V (prefetch cs q))"

subsection \<open>The image of an object\<close>

lemma cache_stream_ok:
  assumes fw: "writer_ok fw out"
  shows "stream_ok (cache_write_to_fuse_writer B fw) (cache_ok F B I img) img out"
  unfolding stream_ok_def
proof (intro allI impI)
  fix c off n w c' w' and r :: "error + nat"
  assume ok: "cache_ok F B I img c" and off: "off < length img"
    and run: "cache_write_to_fuse_writer B fw c off n w = (c', w', r)"
  define stop_at where "stop_at = min (off + n) (length img)"
  have s: "off \<le> stop_at" "stop_at \<le> length img" using off by (auto simp: stop_at_def)
  have fx: "fix_range B off n c = Inr (off, stop_at)" using off cache_okD(5) [OF ok] by (auto simp: fix_range_def stop_at_def)
  obtain c1 r1 where f: "fetch_data B off (stop_at - off) c = (c1, r1)" by (rule prod.exhaust)
  have h: "cache_ok F B I img c1 \<and> (r1 = Inr () \<longrightarrow> slice (c_raw c1) off stop_at = slice img off stop_at)"
    using fetch_data_ok [OF ok _ f] s by simp
  have len: "length (c_raw c1) = length img" using h cache_ok_raw(1) by blast
  have e: "stop_at = off + min n (length img - off)" using off by (auto simp: stop_at_def min_def)
  show "cache_ok F B I img c' \<and> (isl r \<or> r = Inr (min n (length img - off)) \<and>
      out w' = out w @ slice img off (off + min n (length img - off)))"
  proof (cases r1)
    case (Inl x)
    then show ?thesis using run fx f h by (auto simp: cache_write_to_fuse_writer_def cache_io_def)
  next
    case (Inr u)
    then have run2: "fw w (slice img off stop_at) = (w', r)" "c' = c1"
      using run fx f h len s by (auto simp: cache_write_to_fuse_writer_def cache_io_def split: prod.splits)
    have l: "length (slice img off stop_at) = min n (length img - off)" using s e by (simp add: bytes_simps)
    show ?thesis
    proof (cases r)
      case r: (Inr m)
      then show ?thesis using writer_okD(2) [OF fw run2(1) [unfolded r]] run2(2) h l e by simp
    qed (use run2 h in simp)
  qed
qed

lemma raw_image_over_ok:
  assumes c: "cache_ok (me_fs M) B I img c" and fw: "writer_ok (me_fuse M) out" and db: "dbs_right M opts V W img"
    and run: "raw_image_over M opts B c = Inr (E, R)"
  shows "raw_ok E V W (cache_ok (me_fs M) B I img) img out R"
proof -
  let ?C = "cache_ops (me_fs M) B"
  let ?D = "dedup_env_for M opts ?C"
  let ?E = "\<lparr>rw_dedup = ?D, rw_stream = cache_write_to_fuse_writer B (me_fuse M), rw_fuse = me_fuse M\<rparr>"
  obtain dbs where s: "setup_dbs M opts = Inr dbs"
    and r: "RawImage_new ?E (string_bytes (o_name opts)) c dbs (me_now M) = Inr (E, R)"
    using run by (auto simp: raw_image_over_def and_then_Inr split: if_splits)
  have sz: "be_size ?C c = length img" "length img < 2 ^ 63" using cache.size_image [OF c] cache.image_range [OF c] by simp_all
  have st: "stream_ok (cache_write_to_fuse_writer B (me_fuse M)) (cache_ok (me_fs M) B I img) img out"
    by (rule cache_stream_ok [OF fw])
  show ?thesis
  proof (cases dbs)
    case None
    then have "E = ?E" "R = \<lparr>raw_name = string_bytes (o_name opts), raw_size = length img, create_tm = me_now M, raw_b = RawPlain c\<rparr>"
      using r sz by (simp_all add: RawImage_new_def dedup_env_for_def)
    then show ?thesis using c fw st sz by (simp add: raw_ok_def)
  next
    case (Some p)
    obtain q ix where p: "dbs = Some (q, ix)" using Some by (cases p) auto
    obtain D d where new: "DedupReader_new ?D (string_bytes (o_name opts)) q ix c = Inr (D, d)"
      and E: "E = ?E\<lparr>rw_dedup := D\<rparr>"
      and R: "R = \<lparr>raw_name = string_bytes (o_name opts), raw_size = length img, create_tm = me_now M, raw_b = RawDedup d\<rparr>"
      using r sz p by (auto simp: RawImage_new_def dedup_env_for_def Let_def split: sum.splits)
    have sel: "d_backend ?D = ?C" "d_store ?D = me_store M" "d_index ?D = me_index M" "d_digests ?D = me_digests M"
      "d_client ?D = build_local_chunk_client M opts" by (simp_all add: dedup_env_for_def)
    have be: "backend_ex (d_backend ?D) (cache_ok (me_fs M) B I img) img" unfolding sel by (rule cache.backend_ex_axioms)
    have env1: "chunk_env_ok (d_store ?D) V" using db unfolding sel dbs_right_def by blast
    have env2: "index_env_ok (d_index ?D) W" using db unfolding sel dbs_right_def by blast
    have ch: "chunks_ok (faithful (d_digests ?D) img) V q" using db s p unfolding sel dbs_right_def by blast
    have cl: "client_ok ?D V img" using db unfolding client_ok_def sel dbs_right_def by blast
    have rec: "\<forall>k v. W ix k = Some v \<longrightarrow> dr_id k = blake3_digest (d_digests ?D) (string_bytes (o_name opts)) \<longrightarrow>
      record_ok (d_digests ?D) img v" using db s p unfolding sel dbs_right_def by blast
    have "dedup_ok D V W (cache_ok (me_fs M) B I img) img d"
      by (rule conjunct1 [OF new_reader_ok [OF be c env1 env2 cl ch rec new]])
    then show ?thesis using fw st sz by (simp add: raw_ok_def E R)
  qed
qed

subsection \<open>The mount of an object\<close>

text \<open>
  What happens to a mounted image: reads of the kernel, and over deduplication the steps of its workers
  and the changes other users of the two databases make.
\<close>

inductive raw_step ::
  "('s, 'i, 'b, 'w) raw_env \<Rightarrow> 's views \<Rightarrow> ('i \<Rightarrow> DedupRange \<rightharpoonup> DedupInfo) \<Rightarrow> bytes \<Rightarrow>
   ('b, ('s, 'i, 'b) dedup_state) RawImage \<Rightarrow> ('b, ('s, 'i, 'b) dedup_state) RawImage \<Rightarrow> bool" for E V W img where
  step_raw_read: "sz < 2 ^ 32 \<Longrightarrow> raw_read E R IMAGE_FILE_ID sz off w = (R', w', r) \<Longrightarrow> raw_step E V W img R R'"
| step_raw_dedup: "raw_b R = RawDedup D \<Longrightarrow> dedup_step (rw_dedup E) V W img D D' \<Longrightarrow>
    raw_step E V W img R (R\<lparr>raw_b := RawDedup D'\<rparr>)"

lemma raw_steps_keep:
  assumes "(raw_step E V W img)\<^sup>*\<^sup>* R R'" "raw_ok E V W I img out R" "distinguishes (d_digests (rw_dedup E)) img"
  shows "raw_ok E V W I img out R'"
  using assms
proof (induction rule: rtranclp_induct)
  case (step R1 R2)
  then have ok: "raw_ok E V W I img out R1" by blast
  from step.hyps(2) show ?case
  proof cases
    case (step_raw_read sz off w w' r)
    then show ?thesis using raw_read_ok [OF ok] by blast
  next
    case (step_raw_dedup D D')
    then show ?thesis using ok dedup_step_keeps [OF step_raw_dedup(3) raw_okD(6) [OF ok step_raw_dedup(2)] step.prems(2)]
      by (simp add: raw_ok_def)
  qed
qed

lemma new_reader_digests: "DedupReader_new E data_id q ix b = Inr (E', D) \<Longrightarrow> d_digests E' = d_digests E"
  by (auto simp: DedupReader_new_def split: option.splits)

lemma raw_image_over_digests:
  assumes "raw_image_over M opts B c = Inr (E, R)"
  shows "d_digests (rw_dedup E) = me_digests M"
proof -
  obtain dbs where "RawImage_new
       \<lparr>rw_dedup = dedup_env_for M opts (cache_ops (me_fs M) B),
          rw_stream = cache_write_to_fuse_writer B (me_fuse M), rw_fuse = me_fuse M\<rparr>
         (string_bytes (o_name opts)) c dbs (me_now M) = Inr (E, R)"
    using assms by (auto simp: raw_image_over_def and_then_Inr split: if_splits)
  then show ?thesis
    by (auto simp: RawImage_new_def dedup_env_for_def Let_def dest!: new_reader_digests split: option.splits sum.splits prod.splits)
qed

lemma cache_any_Inr: "cache_any r = Inr x \<longleftrightarrow> r = Inr x"
  by (auto simp: cache_any_def split: sum.splits CacheError.splits)

lemma prepare_oss_ok:
  assumes blob: "blob_ok (me_blob M) I img"
    and opened: "\<And>k r. backend_get_reader (me_factory M) k (o_name opts) = Inr r \<Longrightarrow> I r"
    and host: "fs_ok (me_fs M)" "set_len_ok (me_files M)" "writer_ok (me_fuse M) out"
    and fresh: "open_or_create (me_files M) (o_cache_file opts) = Inr []"
      "open_or_create (me_files M) (o_cache_file opts @ ''.bitmap'') = Inr []"
    and db: "dbs_right M opts V W img" and mount: "prepare_oss M opts = Inr (E, R)"
  shows "raw_ok E V W (cache_ok (me_fs M) (BackendReader_ops (me_blob M)) (reader_inv (me_blob M) I img) img) img out R \<and>
    d_digests (rw_dedup E) = me_digests M"
proof -
  let ?B = "BackendReader_ops (me_blob M)"
  obtain gb b c where rd: "GeneralBackend_get_reader (me_factory M) (me_blob M) gb (o_name opts) = Inr b"
    and c: "Cache_new (me_files M) (me_page M) ?B b (o_cache_file opts) = Inr c"
    and over: "raw_image_over M opts ?B c = Inr (E, R)"
    using mount by (auto simp: prepare_oss_def and_then_Inr cache_any_Inr split: if_splits)
  have b: "reader_inv (me_blob M) I img b" by (rule get_reader_inv(1) [OF blob opened rd])
  have B: "backend ?B (reader_inv (me_blob M) I img) img" by (rule backend_ex.axioms(1) [OF reader.backend_ex_axioms])
  have "cache_ok (me_fs M) ?B (reader_inv (me_blob M) I img) img c"
    using new_cache_ok [OF host(1) B b host(2) fresh c] by blast
  from raw_image_over_ok [OF this host(3) db over] raw_image_over_digests [OF over] show ?thesis by blast
qed

lemma mount_serves_ok:
  assumes blob: "blob_ok (me_blob M) I img"
    and opened: "\<And>k r. backend_get_reader (me_factory M) k (o_name opts) = Inr r \<Longrightarrow> I r"
    and host: "fs_ok (me_fs M)" "set_len_ok (me_files M)" "writer_ok (me_fuse M) out"
    and fresh: "open_or_create (me_files M) (o_cache_file opts) = Inr []"
      "open_or_create (me_files M) (o_cache_file opts @ ''.bitmap'') = Inr []"
    and db: "dbs_right M opts V W img" and dist: "distinguishes (me_digests M) img"
    and mount: "prepare_oss M opts = Inr (E, R0)" and steps: "(raw_step E V W img)\<^sup>*\<^sup>* R0 R"
    and sz: "sz < 2 ^ 32" and run: "raw_read E R IMAGE_FILE_ID sz off w = (R', w', r)"
  shows "isl r \<or> r = Inr (min sz (length img - off)) \<and> out w' = out w @ slice img off (off + min sz (length img - off))"
proof -
  let ?J = "cache_ok (me_fs M) (BackendReader_ops (me_blob M)) (reader_inv (me_blob M) I img) img"
  have start: "raw_ok E V W ?J img out R0 \<and> d_digests (rw_dedup E) = me_digests M"
    by (rule prepare_oss_ok [OF blob _ host fresh db mount]) (rule opened)
  have "raw_ok E V W ?J img out R"
    by (rule raw_steps_keep [OF steps conjunct1 [OF start]]) (simp add: conjunct2 [OF start] dist)
  from raw_read_ok [OF this sz run] show ?thesis by blast
qed


subsection \<open>The mount of a RAFS image\<close>

text \<open>
  A mount over fresh cache files starts in a state that reads of its files rely on, whatever chunks of the
  known images and records of its blobs the databases hold already.
\<close>

lemma prepare_nydus_ok:
  assumes blob: "\<And>bid. blob_ok (me_blob M) (I bid) (imgs bid)"
    and opened: "\<And>bid k r. backend_get_reader (me_factory M) k bid = Inr r \<Longrightarrow> I bid r"
    and host: "fs_ok (me_fs M)" "set_len_ok (me_files M)" "\<forall>path xs. open_or_create (me_files M) path = Inr xs \<longrightarrow> xs = []"
    and stores: "chunk_env_ok (me_store M) V" "index_env_ok (me_index M) W" and known: "range imgs \<subseteq> known"
    and client: "\<And>K prefetch cs q. K \<subseteq> known \<Longrightarrow> build_local_chunk_client M opts = Some prefetch \<Longrightarrow>
      chunks_ok (right (me_digests M) K) V q \<Longrightarrow> chunks_ok (right (me_digests M) K) V (prefetch cs q)"
    and dbs: "\<And>q ix. setup_dbs M opts = Inr (Some (q, ix)) \<Longrightarrow> chunks_ok (right (me_digests M) known) V q \<and>
      (\<forall>bid k v. W ix k = Some v \<longrightarrow> dr_id k = blake3_digest (me_digests M) (string_bytes bid) \<longrightarrow>
         record_ok (me_digests M) (imgs bid) v)"
    and mount: "prepare_nydus M opts = Inr (N, X)"
  shows "nydus_ok N V W (\<lambda>bid. reader_inv (me_blob M) (I bid) (imgs bid)) imgs known X"
proof -
  let ?B = "BackendReader_ops (me_blob M)"
  let ?E = "dedup_env_for M opts (cache_ops (me_fs M) ?B)"
  obtain db gb sb where db: "setup_dbs M opts = Inr db"
    and N: "ne_source N = ?B" "ne_get_reader N = GeneralBackend_get_reader (me_factory M) (me_blob M) gb" "ne_fs N = me_fs M"
      "ne_files N = me_files M" "ne_dedup N = ?E\<lparr>d_backend := cache_ops (me_fs M) ?B\<rparr>"
    and X: "X = \<lparr>ni_readers = Map.empty, ni_db = db, ni_queue = [], ni_worker = True, ni_dropped = 0, ni_limiter = RateLimitedLog_new 5\<rparr>"
    using mount by (auto simp: prepare_nydus_def NydusImage_new_def and_then_Inr split: if_splits sum.splits)
  have E: "?E\<lparr>d_backend := cache_ops (me_fs M) ?B\<rparr> = ?E" by (simp add: dedup_env_for_def)
  have D: "d_store ?E = me_store M" "d_index ?E = me_index M" "d_digests ?E = me_digests M" "d_backend ?E = cache_ops (me_fs M) ?B"
    by (simp_all add: dedup_env_for_def)
  have rd: "reader_inv (me_blob M) (I bid) (imgs bid) b" if "GeneralBackend_get_reader (me_factory M) (me_blob M) gb bid = Inr b" for bid b
    by (rule get_reader_inv(1) [OF blob opened that])
  have B: "backend ?B (reader_inv (me_blob M) (I bid) (imgs bid)) (imgs bid)" for bid
    by (rule backend_ex.axioms(1) [OF reader.backend_ex_axioms])
  have keeps: "client_keeps (right (me_digests M) K) V ?E" if "K \<subseteq> known" for K
    using client [OF that] by (simp add: client_keeps_def dedup_env_for_def)
  have "nydus_env_ok N V W (\<lambda>bid. reader_inv (me_blob M) (I bid) (imgs bid)) imgs known"
    unfolding nydus_env_ok_def N E D using host stores known keeps rd B by auto
  moreover have "dbs_ok N V W imgs known (ni_db X)"
    unfolding dbs_ok_def N E D X using db dbs by auto
  ultimately show ?thesis by (simp add: nydus_ok_def X)
qed

text \<open>
  A host in memory with both databases, empty; the object has four bytes.  \<open>rt\<close> tells whether there is a
  runtime, and so a client \<open>cl\<close>.
\<close>

definition mem_open_any :: "'s \<Rightarrow> 's open_ops" where
  "mem_open_any s0 =
     \<lparr>open_env = \<lambda>_. Inr s0, clear_stale_readers = \<lambda>_. Inr 0, o_read_txn = Inr, open_database = \<lambda>s n. Inr True,
      o_commit_read = \<lambda>_. Inr (), o_write_txn = Inr, create_database = \<lambda>s n. Inr s, o_commit = Inr\<rparr>"

definition demo_mount ::
  "bool \<Rightarrow> (string \<Rightarrow> CheckSum \<Rightarrow> mem_chunks chunkdb \<Rightarrow> mem_chunks chunkdb) \<Rightarrow>
   (mem_chunks, (DedupRange \<times> DedupInfo) list, unit, unit, unit, bytes, bytes) mount_env" where
  "demo_mount rt cl =
     \<lparr>me_factory = \<lparr>open_config = \<lambda>_. Inr (), from_reader = Inr, config_validate = \<lambda>_. True, new_backend = Inr,
        backend_get_reader = \<lambda>_ _. Inr [1, 2, 3, 4]\<rparr>,
      me_blob = \<lparr>blob_size = \<lambda>r. Inr (length r), blob_read = \<lambda>r buf off. be_fetch mem_source r off buf\<rparr>,
      me_is_file = \<lambda>_. True, me_load_rafs = \<lambda>_ _. Inl (Io NotFound), me_decompress = \<lambda>_ _ buf. (buf, Inl (Io Other)),
      me_fs = mem_fs, me_files = mem_files, me_page = 1,
      me_open_chunks = \<lambda>_. mem_open_any \<lparr>m_data = [], m_access = [], m_index = []\<rparr>, me_open_index = \<lambda>_. mem_open_any [],
      me_store = mem_chunk_env 5, me_index = mem_index, me_digests = plain_digests, me_runtime = \<lambda>_. rt,
      me_client = cl, me_fuse = mem_writer, me_uid = 0, me_gid = 0, me_now = 0\<rparr>"

definition demo_options :: FsOptions where
  "demo_options =
     \<lparr>o_name = ''o'', o_cache_file = ''c'', o_cache_dir = [], o_cfg = ''cfg'', o_src = Oss, o_chunk_db_dir = ''d'',
      o_chunk_db_size = None, o_image_meta_dir = ''m'', o_bootstrap = [], o_chunk_server_sock = [], o_tokio_worker_threads = 1\<rparr>"

lemma demo_mount_dbs: "setup_dbs (demo_mount rt cl) demo_options = Inr (Some (chunkdb_new \<lparr>m_data = [], m_access = [], m_index = []\<rparr> rt, []))"
  by (simp add: setup_dbs_def setup_chunk_and_index_db_def demo_mount_def demo_options_def build_local_chunk_client_def
      resolve_chunk_server_socket_def ChunkDB_open_def IndexDB_open_def mem_open_any_def open_or_create_databases_def
      and_then_def validate_size_def CHUNK_DB_SIZE_def Let_def)

lemma demo_mount_right: "dbs_right (demo_mount False cl) demo_options mem_views map_of [1, 2, 3, 4]"
  unfolding dbs_right_def demo_mount_dbs
  using mem_chunk_env_ok [of 5]
  by (simp add: demo_mount_def mem_index_ok build_local_chunk_client_def resolve_chunk_server_socket_def
      demo_options_def chunks_ok_def stored_ok_def mem_views_def chunkdb_new_def)

lemma demo_blob_ok: "blob_ok (me_blob (demo_mount rt cl)) (\<lambda>r. r = [1, 2, 3, 4]) [1, 2, 3, 4]"
proof -
  have fetch: "r' = [1, 2, 3, 4] \<and> length buf' = length buf \<and>
      (\<forall>n. res = Inr n \<longrightarrow> off < 4 \<longrightarrow> n = min (length buf) (4 - off) \<and> take n buf' = slice [1, 2, 3, 4] off (off + n))"
    if run: "be_fetch mem_source [1, 2, 3, 4] off buf = (r', buf', res)" for off buf r' buf' and res :: "error + nat"
  proof -
    define n where "n = min (length buf) (4 - off)"
    have l: "length (slice [1, 2, 3, 4 :: byte] off (off + n)) = n"
      by (cases "off < 4") (auto simp: length_slice n_def min_def)
    have "r' = [1, 2, 3, 4]" "buf' = splice buf 0 (slice [1, 2, 3, 4] off (off + n))" "res = Inr n"
      using run by (auto simp: mem_source_def Let_def n_def numeral_eq_Suc)
    then show ?thesis
      using l take_splice [of 0 "slice [1, 2, 3, 4] off (off + n)" buf] length_splice [of 0 "slice [1, 2, 3, 4] off (off + n)" buf]
      by (simp add: n_def)
  qed
  have four: "length [1, 2, 3, 4 :: byte] = 4" by simp
  have sel: "blob_read (me_blob (demo_mount rt cl)) r buf off = be_fetch mem_source r off buf" "blob_size (me_blob (demo_mount rt cl)) r = Inr (length r)"
    for r buf off by (simp_all add: demo_mount_def)
  show ?thesis unfolding blob_ok_def sel four using fetch by (auto simp: four)
qed

definition demo_oss_cache :: "bytes BackendReader cache" where
  "demo_oss_cache =
     \<lparr>c_raw = [0, 0, 0, 0], c_bitmap = [0], c_inner = \<lparr>br_name = ''o'', br_size = 4, br_reader = [1, 2, 3, 4]\<rparr>\<rparr>"

definition demo_oss_env ::
  "bool \<Rightarrow> (string \<Rightarrow> CheckSum \<Rightarrow> mem_chunks chunkdb \<Rightarrow> mem_chunks chunkdb) \<Rightarrow>
   (mem_chunks, (DedupRange \<times> DedupInfo) list, bytes BackendReader cache, bytes) raw_env" where
  "demo_oss_env rt cl =
     \<lparr>rw_dedup = (dedup_env_for (demo_mount rt cl) demo_options (cache_ops mem_fs (BackendReader_ops (me_blob (demo_mount rt cl)))))
        \<lparr>d_id := blake3_digest plain_digests (string_bytes ''o'')\<rparr>,
      rw_stream = cache_write_to_fuse_writer (BackendReader_ops (me_blob (demo_mount rt cl))) mem_writer, rw_fuse = mem_writer\<rparr>"

definition demo_oss_dedup ::
  "bool \<Rightarrow> (mem_chunks, (DedupRange \<times> DedupInfo) list, bytes BackendReader cache) dedup_state" where
  "demo_oss_dedup rt =
     \<lparr>dd_chunks = chunkdb_new \<lparr>m_data = [], m_access = [], m_index = []\<rparr> rt, dd_index = [], dd_b = demo_oss_cache,
      dd_bits = [0], dd_sync = [], dd_reqs = []\<rparr>"

definition demo_oss_image ::
  "bool \<Rightarrow> (bytes BackendReader cache, (mem_chunks, (DedupRange \<times> DedupInfo) list, bytes BackendReader cache) dedup_state) RawImage" where
  "demo_oss_image rt = \<lparr>raw_name = string_bytes ''o'', raw_size = 4, create_tm = 0, raw_b = RawDedup (demo_oss_dedup rt)\<rparr>"

lemma demo_oss_new: "prepare_oss (demo_mount rt cl) demo_options = Inr ((demo_oss_env rt cl), (demo_oss_image rt))"
proof -
  have backend: "GeneralBackend_new (me_factory (demo_mount rt cl)) (o_cfg demo_options) = Inr \<lparr>gb_config = (), gb_backend = ()\<rparr>"
    by (simp add: GeneralBackend_new_def demo_mount_def io_other_def)
  have reader: "GeneralBackend_get_reader (me_factory (demo_mount rt cl)) (me_blob (demo_mount rt cl)) g (o_name demo_options) = Inr (c_inner demo_oss_cache)" for g
    by (simp add: GeneralBackend_get_reader_def BackendReader_new_def demo_mount_def demo_options_def io_other_def demo_oss_cache_def)
  have "bitmap_file_size 1 4 = Some 1"
    by (simp add: bitmap_file_size_def align_up_def usize_max_def CHUNK_SIZE_def)
  moreover have "replicate 4 0 = [0, 0, 0, 0 :: byte]" by (simp add: numeral_eq_Suc)
  ultimately have cache: "Cache_new (me_files (demo_mount rt cl)) (me_page (demo_mount rt cl)) (BackendReader_ops (me_blob (demo_mount rt cl))) (c_inner demo_oss_cache)
      (o_cache_file demo_options) = Inr demo_oss_cache"
    by (simp add: Cache_new_def demo_mount_def mem_files_def BackendReader_ops_def demo_oss_cache_def cache_raw_def
        cache_any_def)
  have over: "raw_image_over (demo_mount rt cl) demo_options (BackendReader_ops (me_blob (demo_mount rt cl))) demo_oss_cache = Inr ((demo_oss_env rt cl), (demo_oss_image rt))"
    unfolding raw_image_over_def demo_mount_dbs and_then_def
    by (simp add: client_panics_def runtime_panics_def RawImage_new_def DedupReader_new_def dedup_env_for_def demo_oss_env_def demo_oss_image_def demo_oss_dedup_def
        cache_ops_def BackendReader_ops_def demo_oss_cache_def align_up_def usize_max_def CHUNK_SIZE_def demo_mount_def demo_options_def)
  have "be_size (BackendReader_ops (me_blob (demo_mount rt cl))) (c_inner demo_oss_cache) = 4"
    by (simp add: BackendReader_ops_def demo_oss_cache_def)
  then show ?thesis by (simp add: prepare_oss_def backend reader cache over and_then_def cache_any_def)
qed

lemma demo_oss_stream:
  "\<exists>c. cache_write_to_fuse_writer (BackendReader_ops (me_blob (demo_mount rt cl))) mem_writer demo_oss_cache 1 3 w = (c, w @ [2, 3, 4], Inr 3)"
  by (simp add: cache_write_to_fuse_writer_def fix_range_def fetch_data_def fetch_chunk_def demo_oss_cache_def mem_source_def
      CHUNK_SIZE_def bit_set_def slice_def splice_def Let_def cache_io_def BackendReader_ops_def demo_mount_def
      mem_writer_def io_other_def)

lemma demo_oss_read: "\<exists>R'. raw_read (demo_oss_env rt cl) (demo_oss_image rt) IMAGE_FILE_ID 9 1 [9] = (R', [9, 2, 3, 4], Inr 3)"
proof -
  let ?E = "rw_dedup (demo_oss_env rt cl)" and ?X = "FuseWriteOp (rw_stream (demo_oss_env rt cl)) (rw_fuse (demo_oss_env rt cl))"
  have sel: "d_index ?E = mem_index" "rw_stream (demo_oss_env rt cl) = cache_write_to_fuse_writer (BackendReader_ops (me_blob (demo_mount rt cl))) mem_writer"
    and sz: "be_size (d_backend ?E) (dd_b (demo_oss_dedup rt)) = 4"
    by (simp_all add: demo_oss_env_def dedup_env_for_def demo_mount_def cache_ops_def BackendReader_ops_def demo_oss_dedup_def demo_oss_cache_def)
  obtain c where "cache_write_to_fuse_writer (BackendReader_ops (me_blob (demo_mount rt cl))) mem_writer demo_oss_cache 1 3 [9] = (c, [9] @ [2, 3, 4], Inr 3)"
    using demo_oss_stream by blast
  then have copy: "backend_copy ?X 1 0 3 (demo_oss_dedup rt) [9] = ((demo_oss_dedup rt)\<lparr>dd_b := c\<rparr>, [9, 2, 3, 4], Inr 3)"
    by (simp add: backend_copy_def FuseWriteOp_def sel as_u32_def demo_oss_dedup_def)
  have "dedup_range mem_index (d_id ?E) 1 3 (dd_index (demo_oss_dedup rt)) = Inr [(DedupInfo_new 1 3 CheckSum_empty, 3)]"
    by (simp add: dedup_range_def mem_index_def mem_db_def mem_list_def demo_oss_dedup_def as_u32_def)
  then have "process_dedup_op ?E ?X 1 3 (demo_oss_dedup rt) [9] = ((demo_oss_dedup rt)\<lparr>dd_b := c\<rparr>, [9, 2, 3, 4], Inr 3)"
    using copy by (simp add: process_dedup_op_def process_segment_def sel u64_add_def)
  moreover have "\<exists>D2. try_dedup_chunk 1 3 Blake3 ((demo_oss_dedup rt)\<lparr>dd_b := c\<rparr>) = (D2, Inr ())"
    using try_chunk_ok [of 1 3 "(demo_oss_dedup rt)\<lparr>dd_b := c\<rparr>" Blake3]
    by (cases "try_dedup_chunk 1 3 Blake3 ((demo_oss_dedup rt)\<lparr>dd_b := c\<rparr>)") (simp add: CHUNK_SIZE_def demo_oss_dedup_def)
  ultimately have "\<exists>D'. DedupReader_write ?E (rw_stream (demo_oss_env rt cl)) (rw_fuse (demo_oss_env rt cl)) (demo_oss_dedup rt) 1 3 [9] = (D', [9, 2, 3, 4], Inr 3)"
    unfolding DedupReader_write_def dedup_read_def sz by auto
  moreover have "be_size (DedupReader_ops ?E) (demo_oss_dedup rt) = 4" using sz by (simp add: DedupReader_ops_def)
  ultimately show ?thesis
    by (auto simp: raw_read_def raw_write_def RawDedup_write_def demo_oss_image_def validate_range_def u64_add_def as_u32_def)
qed


end
