(* ===== verification/Node.thy ===== *)
theory Node
  imports CliProps PeerServerProps
begin

text \<open>
  A node: a mount whose client is the chunk server of the same node.  The server is another process over the
  same store; it fetches what is missing from other peers, which may answer anything.  The theory
  discharges what the mount relies on of its client, so that no peer can change what a mount serves.
\<close>

subsection \<open>The client of the chunk server\<close>

text \<open>
  \<open>LocalChunkClient::prefetch_chunk\<close>, with the request handled by the server: the server works on the store
  the mount sees, with a queue of its own (that of \<open>S\<close>).  The answer is dropped by the caller.
\<close>

definition server_prefetch ::
  "('s, 'x, 'a, 'p) server_env \<Rightarrow> nat \<Rightarrow> ('s, 'x, 'p) server \<Rightarrow> CheckSum \<Rightarrow> 's chunkdb \<Rightarrow> 's chunkdb" where
  "server_prefetch SE now S cs q =
     (case process_prefetch SE now (whole_chunk PrefetchChunk cs) (S\<lparr>sv_chunks := (sv_chunks S)\<lparr>env := env q\<rparr>\<rparr>) of
        None \<Rightarrow> q
      | Some (S', resp) \<Rightarrow> q\<lparr>env := env (sv_chunks S')\<rparr>)"

text \<open>
  What is asked of the peers: none answers with data whose digest is that of a range of the image and that is
  not that range.
\<close>

definition peers_no_collision :: "('s, 'x, 'a, 'p) server_env \<Rightarrow> bytes \<Rightarrow> bool" where
  "peers_no_collision SE img \<longleftrightarrow>
     (\<forall>c cs p p' data. sv_client SE = Some c \<longrightarrow> pc_fetch c cs p = (p', Some data) \<longrightarrow>
        (\<forall>m a b. a \<le> b \<longrightarrow> b \<le> length img \<longrightarrow>
           CheckSum_from_data (sv_digests SE) data m = CheckSum_from_data (sv_digests SE) (slice img a b) m \<longrightarrow>
           data = slice img a b))"

definition server_queue_ok :: "('s, 'x, 'a, 'p) server_env \<Rightarrow> bytes \<Rightarrow> ('s, 'x, 'p) server \<Rightarrow> bool" where
  "server_queue_ok SE img S \<longleftrightarrow>
     (\<forall>req \<in> set (high (sv_chunks S)). \<forall>x \<in> set (request_chunks req). faithful (sv_digests SE) img (fst x) (snd x))"

lemma prefetch_from_peer_faithful:
  assumes ok: "chunk_env_ok (sv_store SE) V" and now: "now < 2 ^ 64" and nc: "peers_no_collision SE img"
    and q: "chunks_ok (faithful (sv_digests SE) img) V (sv_chunks S)"
    and run: "prefetch_from_peer SE now r S = Some (S', x)"
  shows "chunks_ok (faithful (sv_digests SE) img) V (sv_chunks S')"
proof (cases "sv_chunks S' = sv_chunks S")
  case False
  then obtain c p data q' y where c: "sv_client SE = Some c" "pc_fetch c (checksum r) (sv_peer S) = (p, Some data)"
    and cs: "CheckSum_from_data (sv_digests SE) data (cs_method (checksum r)) = checksum r"
    and add: "add_chunk (sv_store SE) now (checksum r) data (sv_chunks S) = Some (q', y)" and S': "sv_chunks S' = q'"
    using run unfolding prefetch_from_peer_def
    by (auto split: sum.splits bool.splits option.splits prod.splits if_splits)
  have "data = slice img a b"
    if "a \<le> b" "b \<le> length img" "CheckSum_from_data (sv_digests SE) (slice img a b) (cs_method (checksum r)) = checksum r" for a b
    using nc c that cs unfolding peers_no_collision_def by metis
  then have "faithful (sv_digests SE) img (checksum r) data" by (simp add: faithful_def)
  from add_chunk_keeps [OF ok q this now add] show ?thesis by (simp add: S')
qed (use q in simp)

lemma server_prefetch_faithful:
  assumes ok: "chunk_env_ok (sv_store SE) V" and now: "now < 2 ^ 64" and nc: "peers_no_collision SE img"
    and sq: "server_queue_ok SE img S" and q: "chunks_ok (faithful (sv_digests SE) img) V q"
  shows "chunks_ok (faithful (sv_digests SE) img) V (server_prefetch SE now S cs q)"
proof -
  let ?S = "S\<lparr>sv_chunks := (sv_chunks S)\<lparr>env := env q\<rparr>\<rparr>" and ?r = "whole_chunk PrefetchChunk cs"
  have start: "chunks_ok (faithful (sv_digests SE) img) V (sv_chunks ?S)"
    using q sq by (simp add: chunks_ok_def server_queue_ok_def)
  have "chunks_ok (faithful (sv_digests SE) img) V (sv_chunks S')" if "process_prefetch SE now ?r ?S = Some (S', resp)" for S' resp
    using that start prefetch_from_peer_faithful [OF ok now nc start]
    by (auto simp: process_prefetch_def split: sum.splits option.splits bool.splits)
  then show ?thesis using q
    by (auto simp: server_prefetch_def chunks_ok_def split: option.splits)
qed

subsection \<open>The mount on the node\<close>


text \<open>A server whose peers answer every request with one wrong byte.\<close>

definition lying_server :: "(mem_chunks, unit, nat, unit) server_env" where
  "lying_server =
     \<lparr>sv_store = mem_chunk_env 5, sv_digests = plain_digests,
      sv_client = Some \<lparr>pc_fetch = \<lambda>_ p. (p, Some [77]), pc_index = None\<rparr>\<rparr>"

definition idle_server :: "(mem_chunks, unit, unit) server" where
  "idle_server =
     \<lparr>sv_chunks = chunkdb_new \<lparr>m_data = [], m_access = [], m_index = []\<rparr> False, sv_index = (), sv_peer = ()\<rparr>"

definition demo_node :: "(mem_chunks, (DedupRange \<times> DedupInfo) list, unit, unit, unit, bytes, bytes) mount_env" where
  "demo_node = demo_mount True (\<lambda>_. server_prefetch lying_server 0 idle_server)"


end
