(* ===== verification/FuseLoop.thy ===== *)
theory FuseLoop
  imports Prelude
begin

text \<open>
  \<open>src/fs.rs\<close>: the worker of a mount.  The channel and the server belong to the FUSE crate: the channel hands
  out a request, the end of the session or an error, and \<open>handle_message\<close> passes a request to the file
  system.  \<open>svc_loop\<close> runs over what the channel hands out; when that is used up the worker waits.
\<close>

definition EBADF :: nat where "EBADF = 9"

text \<open>The errors of the crate that the loop tells apart; an error of the operating system has a number.\<close>

datatype fuse_error = EncodeMessage "nat option" | OtherError

datatype 'q channel_event = FuseRequest 'q | NoRequest | ChannelError error

datatype worker_end = WaitsForRequest | Finished "error + unit"

fun svc_loop :: "('q \<Rightarrow> 's \<Rightarrow> 's \<times> (fuse_error + unit)) \<Rightarrow> 'q channel_event list \<Rightarrow> 's \<Rightarrow> 's \<times> worker_end" where
  "svc_loop handle [] s = (s, WaitsForRequest)"
| "svc_loop handle (ChannelError e # evs) s = (s, Finished (Inl e))"
| "svc_loop handle (NoRequest # evs) s = (s, Finished (Inr ()))"
| "svc_loop handle (FuseRequest q # evs) s =
     (case handle q s of
        (s', Inl (EncodeMessage errno)) \<Rightarrow> (if errno = Some EBADF then (s', Finished (Inr ())) else svc_loop handle evs s')
      | (s', _) \<Rightarrow> svc_loop handle evs s')"

text \<open>\<open>mount_fs\<close>: the session is mounted, the workers are started, and the call waits for a signal.\<close>

record 'h session_ops =
  fs_session_new :: "string \<Rightarrow> 'h \<Rightarrow> 'h \<times> (error + unit)"
  fs_mount :: "'h \<Rightarrow> 'h \<times> (error + unit)"
  fs_new_channel :: "'h \<Rightarrow> 'h \<times> (error + nat)"

fun start_workers :: "'h session_ops \<Rightarrow> nat \<Rightarrow> nat list \<Rightarrow> 'h \<Rightarrow> 'h \<times> nat list \<times> (error + unit)" where
  "start_workers F 0 ws h = (h, ws, Inr ())"
| "start_workers F (Suc n) ws h =
     (case fs_new_channel F h of
        (h', Inl e) \<Rightarrow> (h', ws, Inl e)
      | (h', Inr ch) \<Rightarrow> start_workers F n (ws @ [ch]) h')"

definition mount_fs :: "'h session_ops \<Rightarrow> string \<Rightarrow> nat \<Rightarrow> 'h \<Rightarrow> 'h \<times> nat list \<times> (error + unit)" where
  "mount_fs F mountpoint worker_num h =
     (case fs_session_new F mountpoint h of
        (h1, Inl e) \<Rightarrow> (h1, [], Inl e)
      | (h1, Inr _) \<Rightarrow>
          (case fs_mount F h1 of
             (h2, Inl e) \<Rightarrow> (h2, [], Inl e)
           | (h2, Inr _) \<Rightarrow> start_workers F worker_num [] h2))"

text \<open>
  A failed request does not end the worker: unless the channel is gone, every request it hands out
  reaches the file system, in order.
\<close>

definition handled :: "('q \<Rightarrow> 's \<Rightarrow> 's \<times> (fuse_error + unit)) \<Rightarrow> 'q list \<Rightarrow> 's \<Rightarrow> 's" where
  "handled handle qs s = fold (\<lambda>q s. fst (handle q s)) qs s"

lemma svc_loop_requests:
  assumes "\<And>q s. snd (handle q s) \<noteq> Inl (EncodeMessage (Some EBADF))"
  shows "svc_loop handle (map FuseRequest qs @ evs) s = svc_loop handle evs (handled handle qs s)"
proof (induction qs arbitrary: s)
  case (Cons q qs)
  obtain s' r where h: "handle q s = (s', r)" by fastforce
  then have "r \<noteq> Inl (EncodeMessage (Some EBADF))" using assms [of q s] by simp
  then show ?case using h Cons.IH [of s'] by (auto simp: handled_def split: sum.split fuse_error.split)
qed (simp add: handled_def)

lemma start_workers_all:
  "start_workers F n ws h = (h', ws', r) \<Longrightarrow> length ws' \<le> length ws + n \<and> (r = Inr () \<longrightarrow> length ws' = length ws + n)"
  by (induction F n ws h rule: start_workers.induct) (auto split: prod.splits sum.splits)

end
