(* ===== verification/WriterThread.thy ===== *)
theory WriterThread
  imports ChunkSpec
begin

text \<open>
  \<open>src/backend/chunkdb.rs\<close>: the callers of the chunk database beside its writer thread.  In
  \<open>ChunkApi\<close> a caller runs a round of the writer itself; here the callers and the writer take steps
  in any order.  A step is the work of one thread between two points at which it lets go of the lock
  of the queue: a caller that pushes a request, that notifies the writer, that takes its reply; the
  writer that drains the queue, does one request, or commits one batch of access times.
\<close>

subsection \<open>The state\<close>

text \<open>
  Where the writer is in \<open>run\<close>, with what it has drained and not yet done: \<open>TopOfLoop\<close> before it takes
  the lock, \<open>Parked\<close> in \<open>wait_timeout\<close>, \<open>DoHigh\<close>, \<open>DoMedium\<close> and \<open>DoAccess\<close> in the three phases of a
  round (the last with the clock reading of its batches), the flag is \<open>should_stop\<close>.  \<open>Died\<close> is the
  thread that ran into \<open>unreachable!\<close>.
\<close>

datatype writer_pc =
    TopOfLoop | Parked
  | DoHigh "WriteRequest list" "WriteRequest list" "CheckSumOnDisk list" bool
  | DoMedium "WriteRequest list" "CheckSumOnDisk list" bool
  | DoAccess nat "CheckSumOnDisk list" bool
  | Ended | Died

text \<open>
  \<open>ws_woken\<close>: the condition variable has been signalled for the parked writer.  \<open>ws_notifies\<close>: threads
  that have released the lock and not yet called \<open>notify_one\<close>.  \<open>ws_waiting\<close>: the reply channels a
  caller waits on.
\<close>

record 's writer_sys =
  ws_chunks :: "'s chunkdb"
  ws_pc :: writer_pc
  ws_woken :: bool
  ws_notifies :: nat
  ws_waiting :: "nat list"

definition writer_new :: "'s \<Rightarrow> bool \<Rightarrow> 's writer_sys" where
  "writer_new s ctl =
     \<lparr>ws_chunks = chunkdb_new s ctl, ws_pc = TopOfLoop, ws_woken = False, ws_notifies = 0, ws_waiting = []\<rparr>"

subsection \<open>The writer\<close>

text \<open>The test before the wait.\<close>

definition queue_idle :: "'s chunkdb \<Rightarrow> bool" where
  "queue_idle q \<longleftrightarrow> high q = [] \<and> medium q = [] \<and> access_pending q = [] \<and> \<not> stop q"

definition take_queues :: "'s writer_sys \<Rightarrow> 's writer_sys" where
  "take_queues s =
     (let q = ws_chunks s
      in s\<lparr>ws_chunks := drain q, ws_pc := DoHigh (high q) (medium q) (access_pending q) (stop q), ws_woken := False\<rparr>)"

definition end_round :: "bool \<Rightarrow> writer_pc" where
  "end_round should_stop = (if should_stop then Ended else TopOfLoop)"

text \<open>One turn of the writer, \<open>None\<close> when an addition does not return.  A parked writer takes its turn when it is
  notified, when its wait times out, or for no reason.\<close>

definition writer_turn ::
  "('s, 'm) chunk_env_scheme \<Rightarrow> nat \<Rightarrow> 's writer_sys \<Rightarrow> 's writer_sys option" where
  "writer_turn L now s =
     (let q = ws_chunks s in
      case ws_pc s of
        TopOfLoop \<Rightarrow> Some (if queue_idle q then s\<lparr>ws_pc := Parked, ws_woken := False\<rparr> else take_queues s)
      | Parked \<Rightarrow> Some (take_queues s)
      | DoHigh [] ms css st \<Rightarrow> Some (s\<lparr>ws_pc := DoMedium ms css st\<rparr>)
      | DoHigh (req # hs) ms css st \<Rightarrow>
          (case process_high L [req] q of
             None \<Rightarrow> None
           | Some (q', Inl _) \<Rightarrow> Some (s\<lparr>ws_chunks := q', ws_pc := Died\<rparr>)
           | Some (q', Inr _) \<Rightarrow> Some (s\<lparr>ws_chunks := q', ws_pc := DoHigh hs ms css st\<rparr>))
      | DoMedium (req # ms) css st \<Rightarrow>
          (case process_medium L [req] q of
             (q', Inl _) \<Rightarrow> Some (s\<lparr>ws_chunks := q', ws_pc := Died\<rparr>)
           | (q', Inr _) \<Rightarrow> Some (s\<lparr>ws_chunks := q', ws_pc := DoMedium ms css st\<rparr>))
      | DoMedium [] css st \<Rightarrow>
          Some (if css = [] then s\<lparr>ws_pc := end_round st\<rparr>
                else s\<lparr>ws_chunks := commit_access_batch L now (take ACCESS_BATCH_SIZE css) q,
                       ws_pc := DoAccess now (drop ACCESS_BATCH_SIZE css) st\<rparr>)
      | DoAccess now' css st \<Rightarrow>
          Some (if css = [] then s\<lparr>ws_pc := end_round st\<rparr>
                else if high q \<noteq> [] \<or> medium q \<noteq> [] then
                  s\<lparr>ws_chunks := enqueue_access_many css q, ws_pc := end_round st\<rparr>
                else s\<lparr>ws_chunks := commit_access_batch L now' (take ACCESS_BATCH_SIZE css) q,
                       ws_pc := DoAccess now' (drop ACCESS_BATCH_SIZE css) st\<rparr>)
      | Ended \<Rightarrow> Some s
      | Died \<Rightarrow> Some s)"

text \<open>Turns one after the other, with the clock readings of each.\<close>

fun writer_turns ::
  "('s, 'm) chunk_env_scheme \<Rightarrow> nat list \<Rightarrow> 's writer_sys \<Rightarrow> 's writer_sys option" where
  "writer_turns L [] s = Some s"
| "writer_turns L (now # nows) s = (case writer_turn L now s of None \<Rightarrow> None | Some s' \<Rightarrow> writer_turns L nows s')"

subsection \<open>The callers\<close>

text \<open>A caller makes its reply channel, pushes the request, and then has to notify and to wait.\<close>

definition call_high :: "(nat \<Rightarrow> WriteRequest) \<Rightarrow> 's writer_sys \<Rightarrow> 's writer_sys" where
  "call_high req s =
     (let q = ws_chunks s; i = next_reply q
      in s\<lparr>ws_chunks := submit_high (req i) (q\<lparr>next_reply := Suc i\<rparr>), ws_notifies := Suc (ws_notifies s),
           ws_waiting := i # ws_waiting s\<rparr>)"

definition call_medium :: "(nat \<Rightarrow> WriteRequest) \<Rightarrow> 's writer_sys \<Rightarrow> 's writer_sys" where
  "call_medium req s =
     (let q = ws_chunks s; i = next_reply q
      in s\<lparr>ws_chunks := submit_medium (req i) (q\<lparr>next_reply := Suc i\<rparr>), ws_notifies := Suc (ws_notifies s),
           ws_waiting := i # ws_waiting s\<rparr>)"

text \<open>An access is notified only when the set of pending ones has grown.\<close>

definition call_access :: "CheckSumOnDisk list \<Rightarrow> 's writer_sys \<Rightarrow> 's writer_sys" where
  "call_access css s =
     (let q = ws_chunks s
      in s\<lparr>ws_chunks := enqueue_access_many css q,
           ws_notifies := (if set css \<subseteq> set (access_pending q) then ws_notifies s else Suc (ws_notifies s))\<rparr>)"

definition notify_one :: "'s writer_sys \<Rightarrow> 's writer_sys" where
  "notify_one s = s\<lparr>ws_notifies := ws_notifies s - 1, ws_woken := ws_woken s \<or> ws_pc s = Parked\<rparr>"

definition take_reply :: "nat \<Rightarrow> 's writer_sys \<Rightarrow> 's writer_sys" where
  "take_reply i s = s\<lparr>ws_waiting := remove1 i (ws_waiting s)\<rparr>"

text \<open>\<open>Drop\<close>: no reference is left, so no call is under way.\<close>

definition drop_chunkdb :: "'s writer_sys \<Rightarrow> 's writer_sys" where
  "drop_chunkdb s = s\<lparr>ws_chunks := (ws_chunks s)\<lparr>stop := True\<rparr>, ws_notifies := Suc (ws_notifies s)\<rparr>"

text \<open>
  The steps of callers that add only chunks of \<open>A\<close> and access only checksums of \<open>B\<close>; there is no caller
  once the database is dropped.
\<close>

inductive caller_step ::
  "(CheckSum \<times> bytes \<Rightarrow> bool) \<Rightarrow> (CheckSumOnDisk \<Rightarrow> bool) \<Rightarrow> 's writer_sys \<Rightarrow> 's writer_sys \<Rightarrow> bool" for A B where
  cs_add: "\<not> stop (ws_chunks s) \<Longrightarrow> A (cs, data) \<Longrightarrow> caller_step A B s (call_high (AddChunk cs data) s)"
| cs_add_batch: "\<not> stop (ws_chunks s) \<Longrightarrow> chunks \<noteq> [] \<Longrightarrow> \<forall>x \<in> set chunks. A x \<Longrightarrow>
     caller_step A B s (call_high (AddChunksBatch chunks) s)"
| cs_delete: "\<not> stop (ws_chunks s) \<Longrightarrow> keys \<noteq> [] \<Longrightarrow> caller_step A B s (call_medium (DeleteKeys keys) s)"
| cs_access: "\<not> stop (ws_chunks s) \<Longrightarrow> \<forall>cs \<in> set css. B cs \<Longrightarrow> caller_step A B s (call_access css s)"
| cs_notify: "0 < ws_notifies s \<Longrightarrow> caller_step A B s (notify_one s)"
| cs_reply: "i \<in> set (ws_waiting s) \<Longrightarrow> i \<in> fst ` set (replies (ws_chunks s)) \<Longrightarrow> caller_step A B s (take_reply i s)"
| cs_drop: "\<not> stop (ws_chunks s) \<Longrightarrow> ws_waiting s = [] \<Longrightarrow> ws_notifies s = 0 \<Longrightarrow> caller_step A B s (drop_chunkdb s)"

inductive writer_step :: "('s, 'm) chunk_env_scheme \<Rightarrow> 's writer_sys \<Rightarrow> 's writer_sys \<Rightarrow> bool" for L where
  ws_turn: "ws_pc s \<noteq> Ended \<Longrightarrow> ws_pc s \<noteq> Died \<Longrightarrow> now < 2 ^ 64 \<Longrightarrow> writer_turn L now s = Some s' \<Longrightarrow> writer_step L s s'"

definition writer_sys_step ::
  "('s, 'm) chunk_env_scheme \<Rightarrow> (CheckSum \<times> bytes \<Rightarrow> bool) \<Rightarrow> (CheckSumOnDisk \<Rightarrow> bool) \<Rightarrow>
   's writer_sys \<Rightarrow> 's writer_sys \<Rightarrow> bool" where
  "writer_sys_step L A B s s' \<longleftrightarrow> writer_step L s s' \<or> caller_step A B s s'"

abbreviation writer_reaches ::
  "('s, 'm) chunk_env_scheme \<Rightarrow> (CheckSum \<times> bytes \<Rightarrow> bool) \<Rightarrow> (CheckSumOnDisk \<Rightarrow> bool) \<Rightarrow>
   's writer_sys \<Rightarrow> 's writer_sys \<Rightarrow> bool" where
  "writer_reaches L A B \<equiv> (writer_sys_step L A B)\<^sup>*\<^sup>*"

inductive_cases caller_stepE: "caller_step A B s s'"
inductive_cases writer_stepE: "writer_step L s s'"

subsection \<open>Where a request is\<close>

fun req_id :: "WriteRequest \<Rightarrow> nat" where
  "req_id (AddChunk _ _ i) = i"
| "req_id (AddChunksBatch _ i) = i"
| "req_id (DeleteKeys _ i) = i"

fun is_deletion :: "WriteRequest \<Rightarrow> bool" where
  "is_deletion (DeleteKeys _ _) = True"
| "is_deletion _ = False"

fun is_add_reply :: "nat \<times> Reply \<Rightarrow> bool" where
  "is_add_reply (_, AddReply _) = True"
| "is_add_reply (_, DeleteReply _) = False"

fun held_high :: "writer_pc \<Rightarrow> WriteRequest list" where
  "held_high (DoHigh hs _ _ _) = hs"
| "held_high _ = []"

fun held_medium :: "writer_pc \<Rightarrow> WriteRequest list" where
  "held_medium (DoHigh _ ms _ _) = ms"
| "held_medium (DoMedium ms _ _) = ms"
| "held_medium _ = []"

fun held_access :: "writer_pc \<Rightarrow> CheckSumOnDisk list" where
  "held_access (DoHigh _ _ css _) = css"
| "held_access (DoMedium _ css _) = css"
| "held_access (DoAccess _ css _) = css"
| "held_access _ = []"

fun stopping :: "writer_pc \<Rightarrow> bool" where
  "stopping (DoHigh _ _ _ st) = st"
| "stopping (DoMedium _ _ st) = st"
| "stopping (DoAccess _ _ st) = st"
| "stopping Ended = True"
| "stopping _ = False"

definition unanswered_high :: "'s writer_sys \<Rightarrow> WriteRequest list" where
  "unanswered_high s = held_high (ws_pc s) @ high (ws_chunks s)"

definition unanswered_medium :: "'s writer_sys \<Rightarrow> WriteRequest list" where
  "unanswered_medium s = held_medium (ws_pc s) @ medium (ws_chunks s)"

text \<open>The numbers of all additions, and of all deletions: first the answered ones in the order of the
  answers, then those that wait in the order in which the writer will come to them.\<close>

definition add_order :: "'s writer_sys \<Rightarrow> nat list" where
  "add_order s = map fst (filter is_add_reply (replies (ws_chunks s))) @ map req_id (unanswered_high s)"

definition delete_order :: "'s writer_sys \<Rightarrow> nat list" where
  "delete_order s = map fst (filter (Not \<circ> is_add_reply) (replies (ws_chunks s))) @ map req_id (unanswered_medium s)"

text \<open>The typing of the queues and the bookkeeping of the requests.\<close>

definition writer_typed :: "'s writer_sys \<Rightarrow> bool" where
  "writer_typed s \<longleftrightarrow>
     list_all (Not \<circ> is_deletion) (unanswered_high s) \<and> list_all is_deletion (unanswered_medium s) \<and>
     sorted_wrt (<) (add_order s) \<and> sorted_wrt (<) (delete_order s) \<and>
     set (add_order s) \<inter> set (delete_order s) = {} \<and>
     set (add_order s) \<union> set (delete_order s) = {..<next_reply (ws_chunks s)} \<and> ws_pc s \<noteq> Died"

text \<open>Who waits, what holds while the database is dropped, and that no wake-up is lost.\<close>

definition callers_ok :: "'s writer_sys \<Rightarrow> bool" where
  "callers_ok s \<longleftrightarrow>
     req_id ` set (unanswered_high s @ unanswered_medium s) \<subseteq> set (ws_waiting s) \<and>
     distinct (ws_waiting s) \<and> set (ws_waiting s) \<subseteq> {..<next_reply (ws_chunks s)} \<and>
     (stop (ws_chunks s) \<longrightarrow> ws_waiting s = []) \<and>
     (stopping (ws_pc s) \<longrightarrow> stop (ws_chunks s) \<and> access_pending (ws_chunks s) = []) \<and>
     (ws_pc s = Parked \<longrightarrow> \<not> ws_woken s \<longrightarrow> \<not> queue_idle (ws_chunks s) \<longrightarrow> 0 < ws_notifies s)"

end
