(* ===== verification/WriterThreadProps.thy ===== *)
theory WriterThreadProps
  imports WriterThread
begin

text \<open>
  The callers and the writer thread of the chunk database in every interleaving: the typing of the
  queues and the bookkeeping of the requests, the waiting callers and their wake-ups, the contents of
  the store, the answer that every request gets, and the agreement with the rounds of \<open>ChunkApi\<close>.
\<close>

subsection \<open>The turns of the writer\<close>

lemma client_view_sub_batches: "add_sub_batches L bs q = Some (q', r) \<Longrightarrow> client_view q' = client_view q"
proof (induction bs arbitrary: q)
  case (Cons b bs)
  from Cons.prems obtain q1 r1 where run: "do_add_chunks_sub_batch L b q = Some (q1, r1)"
    by (auto split: option.splits)
  with Cons client_view_sub_batch [OF run] show ?case by (cases r1) auto
qed simp

lemma high_turn:
  assumes "process_high L [req] q = Some (q', r)" "\<not> is_deletion req"
  shows "r = Inr () \<and> (\<exists>x. replies q' = replies q @ [(req_id req, AddReply x)]) \<and> high q' = high q \<and>
    medium q' = medium q \<and> next_reply q' = next_reply q \<and> stop q' = stop q"
proof -
  obtain q1 x where "client_view q1 = client_view q" "q' = send_reply (req_id req) (AddReply x) q1" "r = Inr ()"
  proof (cases req)
    case (AddChunk cs data i)
    with assms(1) obtain q1 x where a: "do_add_chunks_sub_batch L [(cs, data)] q = Some (q1, x)"
      and "q' = send_reply (req_id req) (AddReply x) q1" "r = Inr ()"
      by (auto simp: do_add_chunk_single split: option.splits)
    then show ?thesis using that client_view_sub_batch [OF a] by blast
  next
    case (AddChunksBatch chunks i)
    with assms(1) obtain q1 x where a: "add_sub_batches L (chunks_of ADD_CHUNKS_BATCH_SIZE chunks) q = Some (q1, x)"
      and "q' = send_reply (req_id req) (AddReply x) q1" "r = Inr ()"
      by (auto simp: do_add_chunks_batch_def split: option.splits)
    then show ?thesis using that client_view_sub_batches [OF a] by blast
  qed (use assms in simp)
  then show ?thesis by (auto simp: client_view_def send_reply_def)
qed

lemma medium_turn:
  assumes "process_medium L [req] q = (q', r)" "is_deletion req"
  shows "r = Inr () \<and> (\<exists>x. replies q' = replies q @ [(req_id req, DeleteReply x)]) \<and> high q' = high q \<and>
    medium q' = medium q \<and> next_reply q' = next_reply q \<and> stop q' = stop q \<and> access_pending q' = access_pending q"
proof (cases req)
  case (DeleteKeys keys i)
  obtain q1 x where d: "do_delete_keys L keys q = (q1, x)" by fastforce
  then have "client_view q1 = client_view q \<and> access_pending q1 = access_pending q"
    by (auto simp: do_delete_keys_def client_view_def split: sum.splits if_splits)
  then show ?thesis using assms d DeleteKeys by (auto simp: client_view_def send_reply_def)
qed (use assms in simp_all)

lemma access_frame [simp]:
  "replies (commit_access_batch L now css q) = replies q" "high (commit_access_batch L now css q) = high q"
  "medium (commit_access_batch L now css q) = medium q" "next_reply (commit_access_batch L now css q) = next_reply q"
  "stop (commit_access_batch L now css q) = stop q"
  "access_pending (commit_access_batch L now css q) = access_pending q"
  "replies (enqueue_access_many css q) = replies q" "high (enqueue_access_many css q) = high q"
  "medium (enqueue_access_many css q) = medium q" "next_reply (enqueue_access_many css q) = next_reply q"
  "stop (enqueue_access_many css q) = stop q"
proof -
  show "access_pending (commit_access_batch L now css q) = access_pending q"
    by (simp add: commit_access_batch_def split: sum.split)
qed (use client_view_commit_access [of L now css q] client_view_enqueue_many [of css q] in \<open>simp_all add: client_view_def\<close>)

lemma access_pending_enqueue_many:
  "set (access_pending (enqueue_access_many css q)) = set (access_pending q) \<union> set css"
proof (induction css arbitrary: q)
  case (Cons cs css)
  have "enqueue_access_many (cs # css) q = enqueue_access_many css (enqueue_access cs q)"
    by (simp add: enqueue_access_many_def)
  with Cons show ?case by (auto simp: enqueue_access_def)
qed (simp add: enqueue_access_many_def)

lemma drain_frame [simp]:
  "high (drain q) = []" "medium (drain q) = []" "access_pending (drain q) = []" "replies (drain q) = replies q"
  "next_reply (drain q) = next_reply q" "stop (drain q) = stop q" "env (drain q) = env q"
  by (simp_all add: drain_def)

text \<open>What a turn of the writer leaves alone.\<close>

definition turn_kept :: "'s writer_sys \<Rightarrow> 's writer_sys \<Rightarrow> bool" where
  "turn_kept s s' \<longleftrightarrow> add_order s' = add_order s \<and> delete_order s' = delete_order s \<and>
     next_reply (ws_chunks s') = next_reply (ws_chunks s) \<and> stop (ws_chunks s') = stop (ws_chunks s) \<and>
     set (unanswered_high s') \<subseteq> set (unanswered_high s) \<and> set (unanswered_medium s') \<subseteq> set (unanswered_medium s) \<and>
     ws_waiting s' = ws_waiting s \<and> ws_notifies s' = ws_notifies s \<and> ws_pc s' \<noteq> Died"

lemmas turn_simps = turn_kept_def add_order_def delete_order_def unanswered_high_def unanswered_medium_def

lemma turn_take: "held_high (ws_pc s) = [] \<Longrightarrow> held_medium (ws_pc s) = [] \<Longrightarrow> turn_kept s (take_queues s)"
  by (simp add: turn_simps take_queues_def Let_def)

lemma turn_kept_turn:
  assumes turn: "writer_turn L now s = Some s'" and pc: "ws_pc s \<noteq> Died"
    and hi: "list_all (Not \<circ> is_deletion) (unanswered_high s)" and me: "list_all is_deletion (unanswered_medium s)"
  shows "turn_kept s s'"
proof (cases "ws_pc s")
  case TopOfLoop
  then show ?thesis using turn turn_take [of s] by (auto simp: writer_turn_def Let_def turn_simps split: if_splits)
next
  case Parked
  then show ?thesis using turn turn_take [of s] by (auto simp: writer_turn_def Let_def)
next
  case (DoHigh hs ms css st)
  show ?thesis
  proof (cases hs)
    case Nil
    then show ?thesis using turn DoHigh by (auto simp: writer_turn_def Let_def turn_simps)
  next
    case (Cons req hs')
    have "\<not> is_deletion req" using hi DoHigh Cons by (simp add: unanswered_high_def)
    moreover obtain q' r where run: "process_high L [req] (ws_chunks s) = Some (q', r)"
      using turn DoHigh Cons by (auto simp: writer_turn_def Let_def simp del: process_high.simps split: option.splits)
    ultimately have fr: "r = Inr () \<and> (\<exists>x. replies q' = replies (ws_chunks s) @ [(req_id req, AddReply x)]) \<and>
        high q' = high (ws_chunks s) \<and> medium q' = medium (ws_chunks s) \<and>
        next_reply q' = next_reply (ws_chunks s) \<and> stop q' = stop (ws_chunks s)"
      by (intro high_turn)
    then have "s' = s\<lparr>ws_chunks := q', ws_pc := DoHigh hs' ms css st\<rparr>"
      using turn DoHigh Cons run by (simp add: writer_turn_def Let_def del: process_high.simps)
    then show ?thesis using fr DoHigh Cons by (auto simp: turn_simps)
  qed
next
  case (DoMedium ms css st)
  show ?thesis
  proof (cases ms)
    case Nil
    then show ?thesis using turn DoMedium
      by (auto simp: writer_turn_def Let_def turn_simps end_round_def split: if_splits)
  next
    case (Cons req ms')
    have "is_deletion req" using me DoMedium Cons by (simp add: unanswered_medium_def)
    moreover obtain q' r where run: "process_medium L [req] (ws_chunks s) = (q', r)" by fastforce
    ultimately have fr: "r = Inr () \<and> (\<exists>x. replies q' = replies (ws_chunks s) @ [(req_id req, DeleteReply x)]) \<and>
        high q' = high (ws_chunks s) \<and> medium q' = medium (ws_chunks s) \<and>
        next_reply q' = next_reply (ws_chunks s) \<and> stop q' = stop (ws_chunks s)"
      using medium_turn [OF run] by blast
    then have "s' = s\<lparr>ws_chunks := q', ws_pc := DoMedium ms' css st\<rparr>"
      using turn DoMedium Cons run by (simp add: writer_turn_def Let_def del: process_medium.simps)
    then show ?thesis using fr DoMedium Cons by (auto simp: turn_simps)
  qed
next
  case (DoAccess now' css st)
  then show ?thesis using turn
    by (auto simp: writer_turn_def Let_def turn_simps end_round_def split: if_splits)
qed (use turn pc in \<open>simp_all add: writer_turn_def Let_def turn_kept_def\<close>)

subsection \<open>The typing of the queues and the order of the answers\<close>

lemma writer_typed_turn:
  assumes "writer_step L s s'" "writer_typed s"
  shows "turn_kept s s'" "writer_typed s'"
proof -
  obtain now where "writer_turn L now s = Some s'" "ws_pc s \<noteq> Died" using assms(1) by (auto elim: writer_stepE)
  then show k: "turn_kept s s'" by (rule turn_kept_turn) (use assms(2) in \<open>simp_all add: writer_typed_def\<close>)
  then show "writer_typed s'"
    using assms(2) by (auto simp: writer_typed_def turn_kept_def list_all_iff)
qed

lemma sorted_wrt_snoc: "sorted_wrt (<) (xs @ [n]) \<longleftrightarrow> sorted_wrt (<) xs \<and> (\<forall>x \<in> set xs. x < (n :: nat))"
  by (auto simp: sorted_wrt_append)

lemma typed_call_high:
  assumes "writer_typed s" "req_id (req (next_reply (ws_chunks s))) = next_reply (ws_chunks s)"
    "\<not> is_deletion (req (next_reply (ws_chunks s)))"
  shows "writer_typed (call_high req s)"
proof -
  let ?n = "next_reply (ws_chunks s)"
  have shape: "unanswered_high (call_high req s) = unanswered_high s @ [req ?n]"
    "unanswered_medium (call_high req s) = unanswered_medium s"
    "add_order (call_high req s) = add_order s @ [?n]" "delete_order (call_high req s) = delete_order s"
    using assms(2) by (simp_all add: unanswered_high_def unanswered_medium_def add_order_def delete_order_def call_high_def
        submit_high_def Let_def)
  have "set (add_order s) \<union> set (delete_order s) = {..<?n}" using assms(1) by (simp add: writer_typed_def)
  then have lt: "x < ?n" if "x \<in> set (add_order s) \<or> x \<in> set (delete_order s)" for x using that by auto
  show ?thesis
    using assms(1,3) lt unfolding writer_typed_def shape
    by (auto simp: sorted_wrt_snoc call_high_def submit_high_def Let_def)
qed

lemma typed_call_medium:
  assumes "writer_typed s" "req_id (req (next_reply (ws_chunks s))) = next_reply (ws_chunks s)"
    "is_deletion (req (next_reply (ws_chunks s)))"
  shows "writer_typed (call_medium req s)"
proof -
  let ?n = "next_reply (ws_chunks s)"
  have shape: "unanswered_medium (call_medium req s) = unanswered_medium s @ [req ?n]"
    "unanswered_high (call_medium req s) = unanswered_high s"
    "delete_order (call_medium req s) = delete_order s @ [?n]" "add_order (call_medium req s) = add_order s"
    using assms(2) by (simp_all add: unanswered_high_def unanswered_medium_def add_order_def delete_order_def call_medium_def
        submit_medium_def Let_def)
  have "set (add_order s) \<union> set (delete_order s) = {..<?n}" using assms(1) by (simp add: writer_typed_def)
  then have lt: "x < ?n" if "x \<in> set (add_order s) \<or> x \<in> set (delete_order s)" for x using that by auto
  show ?thesis
    using assms(1,3) lt unfolding writer_typed_def shape
    by (auto simp: sorted_wrt_snoc call_medium_def submit_medium_def Let_def)
qed

lemma writer_typed_frame:
  assumes "writer_typed s" "client_view (ws_chunks s') = client_view (ws_chunks s)" "ws_pc s' = ws_pc s"
  shows "writer_typed s'"
  using assms by (simp add: writer_typed_def add_order_def delete_order_def unanswered_high_def unanswered_medium_def
      client_view_def)

lemma writer_typed_drop: "writer_typed (drop_chunkdb s) = writer_typed s"
  by (simp add: drop_chunkdb_def writer_typed_def add_order_def delete_order_def unanswered_high_def unanswered_medium_def)

lemma writer_typed_step: "writer_sys_step L A B s s' \<Longrightarrow> writer_typed s \<Longrightarrow> writer_typed s'"
  unfolding writer_sys_step_def
proof (elim disjE)
  assume "caller_step A B s s'" "writer_typed s"
  then show "writer_typed s'"
    by (cases rule: caller_step.cases)
      (auto intro: typed_call_high typed_call_medium writer_typed_frame [of s]
        simp: writer_typed_drop call_access_def notify_one_def take_reply_def Let_def)
qed (rule writer_typed_turn)

lemma writer_typed_new: "writer_typed (writer_new s ctl)"
  by (simp add: writer_typed_def add_order_def delete_order_def unanswered_high_def unanswered_medium_def writer_new_def
      chunkdb_new_def)

lemma writer_typed_reaches: "writer_reaches L A B s s' \<Longrightarrow> writer_typed s \<Longrightarrow> writer_typed s'"
  by (induction rule: rtranclp_induct) (auto intro: writer_typed_step)

subsection \<open>The callers that wait\<close>

lemma callers_turn:
  assumes step: "writer_step L s s'" and ok: "writer_typed s" "callers_ok s"
  shows "callers_ok s'"
proof -
  have k: "turn_kept s s'" by (rule writer_typed_turn [OF step ok(1)])
  obtain now where turn: "writer_turn L now s = Some s'" "ws_pc s \<noteq> Ended" "ws_pc s \<noteq> Died"
    using step by (auto elim: writer_stepE)
  have c: "req_id ` set (unanswered_high s @ unanswered_medium s) \<subseteq> set (ws_waiting s)"
    "stop (ws_chunks s) \<Longrightarrow> ws_waiting s = []"
    "stopping (ws_pc s) \<Longrightarrow> stop (ws_chunks s) \<and> access_pending (ws_chunks s) = []"
    using ok(2) by (simp_all add: callers_ok_def)
  have none: "unanswered_high s = []" "unanswered_medium s = []" if "stop (ws_chunks s)"
    using c(1,2) that by auto
  have stopping: "stop (ws_chunks s') \<and> access_pending (ws_chunks s') = []" if st': "stopping (ws_pc s')"
  proof (cases "ws_pc s")
    case (DoHigh hs ms css st)
    then have "st" using turn st' by (auto simp: writer_turn_def Let_def simp del: process_high.simps split: list.splits option.splits sum.splits)
    then have "hs = []" using none(1) c(3) DoHigh by (simp add: unanswered_high_def)
    then show ?thesis using turn DoHigh c(3) \<open>st\<close> by (auto simp: writer_turn_def Let_def)
  next
    case (DoMedium ms css st)
    then have "st" using turn st'
      by (auto simp: writer_turn_def Let_def end_round_def simp del: process_medium.simps split: list.splits sum.splits prod.splits if_splits)
    then have "ms = []" using none(2) c(3) DoMedium by (simp add: unanswered_medium_def)
    then show ?thesis using turn DoMedium c(3) \<open>st\<close> by (auto simp: writer_turn_def Let_def split: if_splits)
  next
    case (DoAccess now' css st)
    then have "st" using turn st' by (auto simp: writer_turn_def Let_def end_round_def split: if_splits)
    then have "high (ws_chunks s) = []" "medium (ws_chunks s) = []"
      using none c(3) DoAccess by (simp_all add: unanswered_high_def unanswered_medium_def)
    then show ?thesis using turn DoAccess c(3) \<open>st\<close> by (auto simp: writer_turn_def Let_def split: if_splits)
  qed (use turn st' in \<open>auto simp: writer_turn_def take_queues_def Let_def split: if_splits\<close>)
  have parked: "queue_idle (ws_chunks s')" if "ws_pc s' = Parked"
    using turn that
    by (auto simp: writer_turn_def Let_def take_queues_def end_round_def simp del: process_high.simps process_medium.simps
        split: writer_pc.splits list.splits option.splits sum.splits prod.splits if_splits)
  show ?thesis
    using ok(2) k stopping parked unfolding callers_ok_def turn_kept_def by (auto simp: image_subset_iff)
qed

lemma answered_not_waiting:
  assumes "writer_typed s" "i \<in> fst ` set (replies (ws_chunks s))"
  shows "i \<notin> req_id ` set (unanswered_high s @ unanswered_medium s)"
proof -
  have t: "sorted_wrt (<) (add_order s)" "sorted_wrt (<) (delete_order s)" "set (add_order s) \<inter> set (delete_order s) = {}"
    using assms(1) by (simp_all add: writer_typed_def)
  have d: "distinct (add_order s)" "distinct (delete_order s)"
    using t(1,2) by (simp_all add: strict_sorted_iff)
  obtain x where "(i, x) \<in> set (replies (ws_chunks s))" using assms(2) by auto
  then consider "i \<in> fst ` set (filter is_add_reply (replies (ws_chunks s)))"
    | "i \<in> fst ` set (filter (Not \<circ> is_add_reply) (replies (ws_chunks s)))"
    by (cases "is_add_reply (i, x)") force+
  then show ?thesis
  proof cases
    case 1
    then show ?thesis using d(1) t(3) by (auto simp: add_order_def delete_order_def)
  next
    case 2
    then show ?thesis using d(2) t(3) by (auto simp: add_order_def delete_order_def)
  qed
qed

lemma enqueue_known: "set css \<subseteq> set (access_pending q) \<Longrightarrow> enqueue_access_many css q = q"
  unfolding enqueue_access_many_def by (induction css) (simp_all add: enqueue_access_def)

lemma callers_caller:
  assumes "caller_step A B s s'" "writer_typed s" "callers_ok s"
  shows "callers_ok s'"
  using assms(1)
proof cases
  case (cs_add cs data)
  then show ?thesis
    using assms(3) by (auto simp: callers_ok_def call_high_def submit_high_def Let_def unanswered_high_def unanswered_medium_def)
next
  case (cs_add_batch chunks)
  then show ?thesis
    using assms(3) by (auto simp: callers_ok_def call_high_def submit_high_def Let_def unanswered_high_def unanswered_medium_def)
next
  case (cs_delete keys)
  then show ?thesis
    using assms(3) by (auto simp: callers_ok_def call_medium_def submit_medium_def Let_def unanswered_high_def unanswered_medium_def)
next
  case (cs_access css)
  then show ?thesis
    using assms(3) enqueue_known [of css "ws_chunks s"]
    by (auto simp: callers_ok_def call_access_def Let_def unanswered_high_def unanswered_medium_def)
next
  case cs_notify
  then show ?thesis
    using assms(3) by (auto simp: callers_ok_def notify_one_def unanswered_high_def unanswered_medium_def)
next
  case (cs_reply i)
  have "i \<notin> req_id ` set (unanswered_high s @ unanswered_medium s)" by (rule answered_not_waiting [OF assms(2) cs_reply(3)])
  then show ?thesis
    using assms(3) cs_reply
    by (auto simp: callers_ok_def take_reply_def unanswered_high_def unanswered_medium_def)
next
  case cs_drop
  then show ?thesis
    using assms(3) by (auto simp: callers_ok_def drop_chunkdb_def unanswered_high_def unanswered_medium_def)
qed

lemma callers_new: "callers_ok (writer_new s ctl)"
  by (simp add: callers_ok_def writer_new_def chunkdb_new_def unanswered_high_def unanswered_medium_def)

lemma callers_reaches: "writer_reaches L A B s s' \<Longrightarrow> writer_typed s \<Longrightarrow> callers_ok s \<Longrightarrow> callers_ok s'"
proof (induction rule: rtranclp_induct)
  case (step t u)
  then have "writer_typed t" by (blast intro: writer_typed_reaches)
  with step show ?case unfolding writer_sys_step_def by (blast intro: callers_turn callers_caller)
qed

lemmas reached_ok =
  writer_typed_reaches [OF _ writer_typed_new]
  callers_reaches [OF _ writer_typed_new callers_new]

subsection \<open>Every queue has its kind of request, and every request its place\<close>

text \<open>
  C14: in every interleaving of callers and writer the queue of high priority holds only
  additions and the one of medium priority only deletions, so the writer never runs into
  \<open>unreachable!\<close>; every request ever made is in exactly one place, a queue, the writer's hands or
  among the answers; and the additions, and likewise the deletions, are answered in the order in
  which they were made.
\<close>

theorem requests_typed_and_in_order:
  assumes "writer_reaches L A B (writer_new e ctl) s"
  shows "list_all (Not \<circ> is_deletion) (unanswered_high s) \<and> list_all is_deletion (unanswered_medium s) \<and>
    ws_pc s \<noteq> Died \<and> sorted_wrt (<) (add_order s) \<and> sorted_wrt (<) (delete_order s) \<and>
    set (add_order s) \<inter> set (delete_order s) = {} \<and>
    set (add_order s) \<union> set (delete_order s) = {..<next_reply (ws_chunks s)}"
  using reached_ok(1) [OF assms] unfolding writer_typed_def by blast

definition demo_calls :: "mem_chunks \<Rightarrow> mem_chunks writer_sys" where
  "demo_calls e = call_medium (DeleteKeys [AccessKey_new 5 (disk_of (demo_cs 1))])
     (call_high (AddChunk (demo_cs 3) [3, 4]) (writer_new e True))"

lemma demo_calls_reached:
  assumes "A (demo_cs 3, [3, 4])"
  shows "writer_reaches L A B (writer_new e True) (demo_calls e)"
proof -
  have "writer_sys_step L A B (writer_new e True) (call_high (AddChunk (demo_cs 3) [3, 4]) (writer_new e True))"
    unfolding writer_sys_step_def by (intro disjI2 cs_add assms) (simp add: writer_new_def chunkdb_new_def)
  moreover have "writer_sys_step L A B (call_high (AddChunk (demo_cs 3) [3, 4]) (writer_new e True)) (demo_calls e)"
    unfolding writer_sys_step_def demo_calls_def
    by (intro disjI2 cs_delete) (simp_all add: call_high_def submit_high_def writer_new_def chunkdb_new_def)
  ultimately show ?thesis by simp
qed

lemma demo_calls_taken:
  assumes "A (demo_cs 3, [3, 4])"
  shows "writer_reaches L A B (writer_new e True) (take_queues (demo_calls e))"
proof -
  have "writer_step L (demo_calls e) (take_queues (demo_calls e))"
    by (rule ws_turn [of _ 900])
      (simp_all add: writer_turn_def queue_idle_def demo_calls_def call_high_def call_medium_def submit_high_def submit_medium_def writer_new_def chunkdb_new_def)
  then show ?thesis
    using demo_calls_reached [where A = A and L = L and B = B, OF assms] by (meson rtranclp.rtrancl_into_rtrancl writer_sys_step_def)
qed

theorem requests_typed_and_in_order_witness:
  "add_order (take_queues (demo_calls demo_store)) = [0] \<and> delete_order (take_queues (demo_calls demo_store)) = [1] \<and>
   set (add_order (take_queues (demo_calls demo_store))) \<union> set (delete_order (take_queues (demo_calls demo_store))) =
     {..<next_reply (ws_chunks (take_queues (demo_calls demo_store)))}"
proof -
  have "add_order (take_queues (demo_calls demo_store)) = [0]" "delete_order (take_queues (demo_calls demo_store)) = [1]"
    by (simp_all add: add_order_def delete_order_def unanswered_high_def unanswered_medium_def take_queues_def demo_calls_def
        call_high_def call_medium_def submit_high_def submit_medium_def writer_new_def chunkdb_new_def)
  then show ?thesis
    using requests_typed_and_in_order
      [OF demo_calls_taken [where L = "mem_chunk_env 5" and A = "\<lambda>_. True" and B = "\<lambda>_. True"]] by blast
qed

subsection \<open>Waiting, and the end of the writer\<close>

text \<open>
  C22: no wake-up is lost.  While the writer is parked and nobody has signalled it, a queue that is not
  empty, or the request to stop, always comes with a thread that is about to notify.  When the
  database is dropped no request is unanswered, and a writer that has ended has left nothing: no
  request and no access that waits to be recorded.
\<close>

theorem no_lost_wakeup:
  assumes "writer_reaches L A B (writer_new e ctl) s"
  shows "(ws_pc s = Parked \<and> \<not> ws_woken s \<and> ws_notifies s = 0 \<longrightarrow> queue_idle (ws_chunks s)) \<and>
    (stop (ws_chunks s) \<longrightarrow> unanswered_high s = [] \<and> unanswered_medium s = []) \<and>
    (ws_pc s = Ended \<longrightarrow> stop (ws_chunks s) \<and> access_pending (ws_chunks s) = [])"
  using reached_ok(2) [OF assms] by (auto simp: callers_ok_def)

lemma parked_reached: "writer_reaches L A B (writer_new e ctl) ((writer_new e ctl)\<lparr>ws_pc := Parked\<rparr>)"
proof -
  have "writer_step L (writer_new e ctl) ((writer_new e ctl)\<lparr>ws_pc := Parked\<rparr>)"
    by (rule ws_turn [of _ 900]) (simp_all add: writer_turn_def writer_new_def queue_idle_def chunkdb_new_def)
  then show ?thesis unfolding writer_sys_step_def by blast
qed

theorem no_lost_wakeup_witness: "queue_idle (ws_chunks ((writer_new demo_store True)\<lparr>ws_pc := Parked\<rparr>))"
proof -
  let ?s = "(writer_new demo_store True)\<lparr>ws_pc := Parked\<rparr>"
  have "ws_pc ?s = Parked \<and> \<not> ws_woken ?s \<and> ws_notifies ?s = 0" by (simp add: writer_new_def)
  then show ?thesis
    using no_lost_wakeup [OF parked_reached [where L = "mem_chunk_env 5" and A = "\<lambda>_. True" and B = "\<lambda>_. True"]] by blast
qed

subsection \<open>The store\<close>

lemma pending_sub_batch:
  assumes "do_add_chunks_sub_batch L batch q = Some (q', r)"
  shows "set (access_pending q') \<subseteq> set (access_pending q) \<union> (disk_of \<circ> fst) ` set batch"
proof -
  have gc: "access_pending q2 = access_pending q1" if "gc_lru_direct L n q1 = (q2, x)" for n x and q1 q2 :: "'a chunkdb"
    using that by (auto simp: gc_lru_direct_def Let_def unregister_chunks_def split: sum.splits if_splits)
  have evicted: "access_pending q2 = access_pending q1" if "evicted L q1 q2" for q1 q2
    using that by (induction rule: evicted.induct) (auto dest: gc)
  show ?thesis
    using sub_batch_result [OF assms] evicted
    by (cases r) (fastforce simp: access_pending_enqueue_many register_chunks_def split: if_splits)+
qed

lemma pending_sub_batches:
  "add_sub_batches L bs q = Some (q', r) \<Longrightarrow>
   set (access_pending q') \<subseteq> set (access_pending q) \<union> (disk_of \<circ> fst) ` set (concat bs)"
proof (induction bs arbitrary: q)
  case (Cons b bs)
  from Cons.prems obtain q1 r1 where run: "do_add_chunks_sub_batch L b q = Some (q1, r1)"
    by (auto split: option.splits)
  show ?case
  proof (cases r1)
    case (Inl e)
    then show ?thesis using Cons.prems run pending_sub_batch [OF run] by auto
  next
    case (Inr u)
    then have "add_sub_batches L bs q1 = Some (q', r)" using Cons.prems run by simp
    then show ?thesis using Cons.IH pending_sub_batch [OF run] by fastforce
  qed
qed simp

lemma pending_high_turn:
  assumes "process_high L [req] q = Some (q', r)"
  shows "set (access_pending q') \<subseteq> set (access_pending q) \<union> (disk_of \<circ> fst) ` set (request_chunks req)"
proof (cases req)
  case (AddChunk cs data i)
  with assms obtain q1 x where a: "do_add_chunks_sub_batch L [(cs, data)] q = Some (q1, x)"
    and "access_pending q' = access_pending q1"
    by (auto simp: do_add_chunk_single send_reply_def split: option.splits)
  then show ?thesis using AddChunk pending_sub_batch [OF a] by simp
next
  case (AddChunksBatch chunks i)
  with assms obtain q1 x where a: "add_sub_batches L (chunks_of ADD_CHUNKS_BATCH_SIZE chunks) q = Some (q1, x)"
    and "access_pending q' = access_pending q1"
    by (auto simp: do_add_chunks_batch_def send_reply_def split: option.splits)
  moreover have "concat (chunks_of ADD_CHUNKS_BATCH_SIZE chunks) = chunks"
    by (rule concat_chunks_of) (simp add: ADD_CHUNKS_BATCH_SIZE_def)
  ultimately show ?thesis using AddChunksBatch pending_sub_batches [OF a] by (simp del: set_concat)
qed (use assms in simp)

fun access_clock :: "writer_pc \<Rightarrow> nat" where
  "access_clock (DoAccess now _ _) = now"
| "access_clock _ = 0"

text \<open>The committed contents satisfy \<open>P\<close>, and so does the work that waits.\<close>

definition work_ok ::
  "('s \<Rightarrow> bool) \<Rightarrow> (CheckSum \<times> bytes \<Rightarrow> bool) \<Rightarrow> (CheckSumOnDisk \<Rightarrow> bool) \<Rightarrow> 's writer_sys \<Rightarrow> bool" where
  "work_ok P Q A s \<longleftrightarrow> P (env (ws_chunks s)) \<and>
     (\<forall>req \<in> set (unanswered_high s). \<forall>x \<in> set (request_chunks req). Q x) \<and>
     (\<forall>cs \<in> set (held_access (ws_pc s)) \<union> set (access_pending (ws_chunks s)). A cs) \<and> access_clock (ws_pc s) < 2 ^ 64"

lemma work_okI:
  "P (env (ws_chunks s)) \<Longrightarrow> (\<And>req x. req \<in> set (unanswered_high s) \<Longrightarrow> x \<in> set (request_chunks req) \<Longrightarrow> Q x) \<Longrightarrow>
   (\<And>cs. cs \<in> set (held_access (ws_pc s)) \<Longrightarrow> A cs) \<Longrightarrow> (\<And>cs. cs \<in> set (access_pending (ws_chunks s)) \<Longrightarrow> A cs) \<Longrightarrow>
   access_clock (ws_pc s) < 2 ^ 64 \<Longrightarrow> work_ok P Q A s"
  by (auto simp: work_ok_def)

text \<open>An invariant of the writer whose additions queue only accesses that it allows.\<close>

locale writer_run = writer_invariant +
  assumes enqueued: "Q x \<Longrightarrow> A (disk_of (fst x))"
begin

lemma turn_work:
  assumes turn: "writer_turn L now s = Some s'" and now: "now < 2 ^ 64" and ok: "work_ok P Q A s"
  shows "work_ok P Q A s'"
proof -
  have p: "P (env (ws_chunks s))" and c: "access_clock (ws_pc s) < 2 ^ 64"
    and rq: "\<And>req x. req \<in> set (unanswered_high s) \<Longrightarrow> x \<in> set (request_chunks req) \<Longrightarrow> Q x"
    and ac: "\<And>cs. cs \<in> set (held_access (ws_pc s)) \<Longrightarrow> A cs" "\<And>cs. cs \<in> set (access_pending (ws_chunks s)) \<Longrightarrow> A cs"
    using ok by (auto simp: work_ok_def)
  have take: "work_ok P Q A (take_queues s)"
    by (rule work_okI) (use p rq ac in \<open>auto simp: take_queues_def Let_def unanswered_high_def\<close>)
  show ?thesis
  proof (cases "ws_pc s")
    case TopOfLoop
    then show ?thesis
      using turn take ok by (auto simp: writer_turn_def Let_def work_ok_def unanswered_high_def split: if_splits)
  next
    case Parked
    then show ?thesis using turn take by (simp add: writer_turn_def Let_def)
  next
    case (DoHigh hs ms css st)
    show ?thesis
    proof (cases hs)
      case Nil
      then show ?thesis using turn DoHigh ok by (auto simp: writer_turn_def Let_def work_ok_def unanswered_high_def)
    next
      case (Cons req hs')
      obtain q' r where run: "process_high L [req] (ws_chunks s) = Some (q', r)"
        using turn DoHigh Cons by (auto simp: writer_turn_def Let_def simp del: process_high.simps split: option.splits)
      have qs: "\<forall>x \<in> set (request_chunks req). Q x" using rq DoHigh Cons by (auto simp: unanswered_high_def)
      have p': "P (env q')" using process_high [OF p _ run] qs by simp
      have hi: "high q' = high (ws_chunks s)" using high_process_high [OF run] .
      have pend: "A cs" if "cs \<in> set (access_pending q')" for cs
        using that pending_high_turn [OF run] ac(2) qs enqueued by fastforce
      have "s' = s\<lparr>ws_chunks := q', ws_pc := (case r of Inl _ \<Rightarrow> Died | Inr _ \<Rightarrow> DoHigh hs' ms css st)\<rparr>"
        using turn DoHigh Cons run by (cases r) (simp_all add: writer_turn_def Let_def del: process_high.simps)
      then show ?thesis
        using p' pend rq ac DoHigh Cons hi by (intro work_okI) (auto simp: unanswered_high_def split: sum.splits)
    qed
  next
    case (DoMedium ms css st)
    show ?thesis
    proof (cases ms)
      case Nil
      have "P (env (commit_access_batch L now (take ACCESS_BATCH_SIZE css) (ws_chunks s)))"
        by (rule access_batch [OF p _ now]) (use ac DoMedium in \<open>auto dest: in_set_takeD\<close>)
      moreover have "\<forall>cs \<in> set (drop ACCESS_BATCH_SIZE css). A cs" using ac(1) DoMedium by (auto dest: in_set_dropD)
      ultimately show ?thesis using turn DoMedium Nil p rq ac now
        by (intro work_okI) (auto simp: writer_turn_def Let_def unanswered_high_def end_round_def split: if_splits)
    next
      case (Cons req ms')
      obtain q' r where run: "process_medium L [req] (ws_chunks s) = (q', r)" by fastforce
      have p': "P (env q')" by (rule process_medium [OF p run])
      have hi: "high q' = high (ws_chunks s)" using high_process_medium [OF run] .
      have pe: "access_pending q' = access_pending (ws_chunks s)"
        using run by (cases req) (auto simp: do_delete_keys_def send_reply_def split: sum.splits if_splits)
      have "s' = s\<lparr>ws_chunks := q', ws_pc := (case r of Inl _ \<Rightarrow> Died | Inr _ \<Rightarrow> DoMedium ms' css st)\<rparr>"
        using turn DoMedium Cons run by (cases r) (simp_all add: writer_turn_def Let_def del: process_medium.simps)
      then show ?thesis
        using p' pe rq ac DoMedium Cons hi by (intro work_okI) (auto simp: unanswered_high_def split: sum.splits)
    qed
  next
    case (DoAccess now' css st)
    have "P (env (commit_access_batch L now' (take ACCESS_BATCH_SIZE css) (ws_chunks s)))"
      by (rule access_batch [OF p]) (use ac c DoAccess in \<open>auto dest: in_set_takeD\<close>)
    moreover have "\<forall>cs \<in> set (drop ACCESS_BATCH_SIZE css). A cs" using ac(1) DoAccess by (auto dest: in_set_dropD)
    ultimately show ?thesis using turn DoAccess p rq ac c
      by (intro work_okI) (auto simp: writer_turn_def Let_def unanswered_high_def end_round_def access_pending_enqueue_many
          split: if_splits)
  qed (use turn ok in \<open>simp_all add: writer_turn_def Let_def\<close>)
qed

lemma call_work:
  assumes "caller_step Q A s s'" "work_ok P Q A s"
  shows "work_ok P Q A s'"
  using assms(1)
proof cases
  case (cs_access css)
  then show ?thesis
    using assms(2) by (auto simp: work_ok_def call_access_def Let_def unanswered_high_def access_pending_enqueue_many)
qed (use assms(2) in \<open>auto simp: work_ok_def call_high_def call_medium_def submit_high_def submit_medium_def Let_def
  unanswered_high_def notify_one_def take_reply_def drop_chunkdb_def\<close>)

lemma reached_work: "writer_reaches L Q A s s' \<Longrightarrow> work_ok P Q A s \<Longrightarrow> work_ok P Q A s'"
  by (induction rule: rtranclp_induct)
    (auto simp: writer_sys_step_def elim!: writer_stepE intro: turn_work call_work)

lemma reached_contents: "writer_reaches L Q A (writer_new e ctl) s \<Longrightarrow> P e \<Longrightarrow> P (env (ws_chunks s))"
  using reached_work [of "writer_new e ctl" s]
  by (simp add: work_ok_def writer_new_def chunkdb_new_def unanswered_high_def)

end

interpretation stored_run: writer_run L "\<lambda>s. chunk_env_ok L V \<and> stored_ok R V s" "\<lambda>x. R (fst x) (snd x)" "\<lambda>_. True"
  for L :: "('s, 'm) chunk_env_scheme" and V R
  by unfold_locales simp

interpretation index_run: writer_run L
  "\<lambda>s. chunk_env_ok L V \<and> deletes_ok L \<and> puts_ok L \<and> index_inv V s" "\<lambda>x. wf_disk (disk_of (fst x))" wf_disk
  for L :: "('s, 'm) chunk_env_scheme" and V
  by unfold_locales (use index.add_batch index.delete index.access_batch in \<open>blast+\<close>)

text \<open>
  C6: as long as every caller adds data that matches its checksum, every stored payload matches the
  checksum it is stored under, in every interleaving of callers, writer and shutdown.
\<close>

theorem concurrent_content:
  assumes "chunk_env_ok L V" "content_ok H V e"
    and "writer_reaches L (chunk_matches H) (\<lambda>_. True) (writer_new e ctl) s"
  shows "content_ok H V (env (ws_chunks s))"
proof -
  have "writer_reaches L (\<lambda>x. CheckSum_from_data H (snd x) (cs_method (fst x)) = fst x) (\<lambda>_. True) (writer_new e ctl) s"
    using assms(3) by (simp add: chunk_matches_def [abs_def])
  from stored_run.reached_contents [OF this] show ?thesis using assms(1,2) by (simp add: content_ok_def)
qed

theorem concurrent_content_witness:
  "content_ok demo_digests mem_views (env (ws_chunks (take_queues (demo_calls \<lparr>m_data = [], m_access = [], m_index = []\<rparr>))))"
proof -
  have "content_ok demo_digests mem_views \<lparr>m_data = [], m_access = [], m_index = []\<rparr>"
    by (simp add: content_ok_def stored_ok_def mem_views_def)
  moreover have "chunk_matches demo_digests (demo_cs 3, [3, 4])"
    by (simp add: chunk_matches_def CheckSum_from_data_def demo_digests_def demo_cs_def)
  ultimately show ?thesis by (intro concurrent_content [OF mem_chunk_env_ok _ demo_calls_taken])
qed

text \<open>
  C12: in every interleaving every chunk with a recorded access time has the index entry with this
  time, and the entries are well-formed, so eviction and expiry find every such chunk in the order of
  the access times.
\<close>

theorem concurrent_index:
  assumes "chunk_env_ok L V" "deletes_ok L" "puts_ok L" "access_indexed V e" "index_wf V e"
    and "writer_reaches L (\<lambda>x. wf_disk (disk_of (fst x))) wf_disk (writer_new e ctl) s"
  shows "access_indexed V (env (ws_chunks s)) \<and> index_wf V (env (ws_chunks s))"
  using index_run.reached_contents [OF assms(6), of V] assms(1-5) by (simp add: index_inv_def)

theorem concurrent_index_witness:
  "access_indexed mem_views (env (ws_chunks (take_queues (demo_calls demo_store))))"
proof -
  have "wf_disk (disk_of (demo_cs 3))" by (simp add: demo_cs_def wf_checksum_def)
  then show ?thesis
    using concurrent_index [OF mem_chunk_env_ok mem_deletes_ok mem_puts_ok demo_index
        demo_calls_taken [where L = "mem_chunk_env 5" and B = wf_disk and A = "\<lambda>x. wf_disk (disk_of (fst x))"]]
    by simp
qed

end
