(* ===== verification/WriterRuns.thy ===== *)
theory WriterRuns
  imports WriterThreadProps
begin

text \<open>
  Runs of the writer thread: a round of \<open>ChunkApi\<close> is what the turns of the writer do when no caller
  comes between, and in every fair run each request is answered.
\<close>

subsection \<open>Rounds and turns\<close>

lemma process_high_Cons:
  "process_high L (req # reqs) q =
     (case process_high L [req] q of
        None \<Rightarrow> None
      | Some (q', Inl e) \<Rightarrow> Some (q', Inl e)
      | Some (q', Inr _) \<Rightarrow> process_high L reqs q')"
  by (cases req) (auto split: option.split)

lemma process_medium_Cons:
  "process_medium L (req # reqs) q =
     (case process_medium L [req] q of
        (q', Inl e) \<Rightarrow> (q', Inl e)
      | (q', Inr _) \<Rightarrow> process_medium L reqs q')"
  by (cases req) (auto split: prod.split)

lemma writer_turns_append:
  "writer_turns L (ms @ ns) s = (case writer_turns L ms s of None \<Rightarrow> None | Some s' \<Rightarrow> writer_turns L ns s')"
  by (induction ms arbitrary: s) (auto split: option.split)

text \<open>Turns compose: runs of turns of the same clock reading, one after the other.\<close>

lemma turns_then:
  assumes "writer_turns L (replicate m now) s = Some s1" "\<exists>n. writer_turns L (replicate n now) s1 = x"
  shows "\<exists>n. writer_turns L (replicate n now) s = x"
proof -
  obtain n where "writer_turns L (replicate n now) s1 = x" using assms(2) by blast
  then have "writer_turns L (replicate (m + n) now) s = x"
    using assms(1) by (simp add: replicate_add writer_turns_append)
  then show ?thesis by blast
qed

lemma turn_then:
  assumes "writer_turn L now s = Some s1" "\<exists>n. writer_turns L (replicate n now) s1 = x"
  shows "\<exists>n. writer_turns L (replicate n now) s = x"
  by (rule turns_then [of L 1 now s s1]) (use assms in simp_all)

lemma turn_stops: "writer_turn L now s = None \<Longrightarrow> \<exists>n. writer_turns L (replicate n now) s = None"
  by (rule exI [of _ 1]) simp

lemma turns_zero: "x = Some s \<Longrightarrow> \<exists>n. writer_turns L (replicate n now) s = x"
  by (rule exI [of _ 0]) simp

abbreviation phase_end :: "'s writer_sys \<Rightarrow> writer_pc \<Rightarrow> 's chunkdb \<times> (error + unit) \<Rightarrow> 's writer_sys" where
  "phase_end s pc x \<equiv> s\<lparr>ws_chunks := fst x, ws_pc := (case snd x of Inl _ \<Rightarrow> Died | Inr _ \<Rightarrow> pc)\<rparr>"

lemma high_turns:
  "ws_pc s = DoHigh hs ms css st \<Longrightarrow>
   \<exists>n. writer_turns L (replicate n now) s =
     map_option (phase_end s (DoHigh [] ms css st)) (process_high L hs (ws_chunks s))"
proof (induction hs arbitrary: s)
  case Nil
  then show ?case by (intro turns_zero) simp
next
  case (Cons req hs)
  show ?case
  proof (cases "process_high L [req] (ws_chunks s)")
    case None
    then have "writer_turn L now s = None" using Cons.prems by (simp add: writer_turn_def del: process_high.simps)
    then show ?thesis by (simp only: process_high_Cons [of L req hs] None) (simp add: turn_stops)
  next
    case (Some x)
    obtain q' r where x: "x = (q', r)" by fastforce
    show ?thesis
    proof (cases r)
      case (Inl e)
      have t: "writer_turn L now s = Some (s\<lparr>ws_chunks := q', ws_pc := Died\<rparr>)"
        using Cons.prems Some x Inl by (simp add: writer_turn_def del: process_high.simps)
      show ?thesis
        by (rule turn_then [OF t], rule turns_zero)
          (simp only: process_high_Cons [of L req hs] Some x Inl, simp)
    next
      case (Inr u)
      let ?s = "s\<lparr>ws_chunks := q', ws_pc := DoHigh hs ms css st\<rparr>"
      have t: "writer_turn L now s = Some ?s"
        using Cons.prems Some x Inr by (simp add: writer_turn_def del: process_high.simps)
      have "process_high L (req # hs) (ws_chunks s) = process_high L hs q'"
        by (simp only: process_high_Cons [of L req hs] Some x Inr) simp
      then show ?thesis using turn_then [OF t Cons.IH [of ?s]] by (simp del: process_high.simps)
    qed
  qed
qed

lemma medium_turns:
  "ws_pc s = DoMedium ms css st \<Longrightarrow>
   \<exists>n. writer_turns L (replicate n now) s = Some (phase_end s (DoMedium [] css st) (process_medium L ms (ws_chunks s)))"
proof (induction ms arbitrary: s)
  case Nil
  then show ?case by (intro turns_zero) simp
next
  case (Cons req ms)
  obtain q' r where x: "process_medium L [req] (ws_chunks s) = (q', r)" by fastforce
  show ?case
  proof (cases r)
    case (Inl e)
    have t: "writer_turn L now s = Some (s\<lparr>ws_chunks := q', ws_pc := Died\<rparr>)"
      using Cons.prems x Inl by (simp add: writer_turn_def del: process_medium.simps)
    show ?thesis
      by (rule turn_then [OF t], rule turns_zero) (simp only: process_medium_Cons [of L req ms] x Inl, simp)
  next
    case (Inr u)
    let ?s = "s\<lparr>ws_chunks := q', ws_pc := DoMedium ms css st\<rparr>"
    have t: "writer_turn L now s = Some ?s"
      using Cons.prems x Inr by (simp add: writer_turn_def del: process_medium.simps)
    have "process_medium L (req # ms) (ws_chunks s) = process_medium L ms q'"
      by (simp only: process_medium_Cons [of L req ms] x Inr) simp
    then show ?thesis using turn_then [OF t Cons.IH [of ?s]] by (simp del: process_medium.simps)
  qed
qed

lemma access_turns:
  "ws_pc s = DoAccess now css st \<Longrightarrow>
   \<exists>n. writer_turns L (replicate n now) s =
     Some (s\<lparr>ws_chunks := access_rest L now css (ws_chunks s), ws_pc := end_round st\<rparr>)"
proof (induction "length css" arbitrary: s css rule: less_induct)
  case less
  show ?case
  proof (cases "css = [] \<or> high (ws_chunks s) \<noteq> [] \<or> medium (ws_chunks s) \<noteq> []")
    case True
    then have "writer_turn L now s = Some (s\<lparr>ws_chunks := access_rest L now css (ws_chunks s), ws_pc := end_round st\<rparr>)"
      using less.prems by (auto simp: writer_turn_def Let_def access_rest.simps [of L now css])
    then show ?thesis by (rule turn_then) (rule turns_zero, simp)
  next
    case False
    let ?s = "s\<lparr>ws_chunks := commit_access_batch L now (take ACCESS_BATCH_SIZE css) (ws_chunks s),
      ws_pc := DoAccess now (drop ACCESS_BATCH_SIZE css) st\<rparr>"
    have t: "writer_turn L now s = Some ?s" using less.prems False by (simp add: writer_turn_def Let_def)
    have "length (drop ACCESS_BATCH_SIZE css) < length css" using False by (simp add: ACCESS_BATCH_SIZE_def)
    from turn_then [OF t less.hyps [OF this, of ?s]] False show ?thesis
      by (simp add: access_rest.simps [of L now css])
  qed
qed

lemma access_phase:
  assumes "ws_pc s = DoMedium [] css st"
  shows "\<exists>n. writer_turns L (replicate n now) s =
    Some (s\<lparr>ws_chunks := process_access_updates L now css (ws_chunks s), ws_pc := end_round st\<rparr>)"
proof (cases "css = []")
  case True
  then have "writer_turn L now s = Some (s\<lparr>ws_pc := end_round st\<rparr>)" using assms by (simp add: writer_turn_def)
  then show ?thesis
    by (rule turn_then) (rule turns_zero, simp add: process_access_updates_def True)
next
  case False
  let ?s = "s\<lparr>ws_chunks := commit_access_batch L now (take ACCESS_BATCH_SIZE css) (ws_chunks s),
      ws_pc := DoAccess now (drop ACCESS_BATCH_SIZE css) st\<rparr>"
  have t: "writer_turn L now s = Some ?s" using assms False by (simp add: writer_turn_def Let_def)
  then show ?thesis
    using turn_then [OF t access_turns [of ?s]] False by (simp add: process_access_updates_def)
qed

text \<open>What the end of a round looks like.\<close>

definition round_result :: "'s writer_sys \<Rightarrow> 's chunkdb \<times> (error + bool) \<Rightarrow> 's writer_sys" where
  "round_result s x = s\<lparr>ws_woken := False, ws_chunks := fst x,
     ws_pc := (case snd x of Inl _ \<Rightarrow> Died | Inr should_stop \<Rightarrow> end_round should_stop)\<rparr>"

lemma round_turns:
  assumes start: "ws_pc s = TopOfLoop \<and> \<not> queue_idle (ws_chunks s) \<or> ws_pc s = Parked"
  shows "\<exists>n. writer_turns L (replicate n now) s = map_option (round_result s) (writer_round L now (ws_chunks s))"
proof -
  let ?q = "ws_chunks s"
  define s0 where "s0 = take_queues s"
  have t0: "writer_turn L now s = Some s0" using start by (auto simp: writer_turn_def s0_def)
  have s0: "ws_pc s0 = DoHigh (high ?q) (medium ?q) (access_pending ?q) (stop ?q)" "ws_chunks s0 = drain ?q"
    "s0\<lparr>ws_chunks := q, ws_pc := p\<rparr> = s\<lparr>ws_woken := False, ws_chunks := q, ws_pc := p\<rparr>" for q p
    by (simp_all add: s0_def take_queues_def Let_def)
  note high = high_turns [OF s0(1), of L now, unfolded s0(2)]
  show ?thesis
  proof (cases "process_high L (high ?q) (drain ?q)")
    case None
    then show ?thesis using turn_then [OF t0 high] by (simp add: writer_round_def)
  next
    case (Some x)
    obtain q1 r1 where x: "x = (q1, r1)" by fastforce
    show ?thesis
    proof (cases r1)
      case (Inl e)
      then show ?thesis using turn_then [OF t0 high] Some x by (simp add: writer_round_def s0(3) round_result_def)
    next
      case (Inr u)
      let ?s1 = "s0\<lparr>ws_chunks := q1, ws_pc := DoMedium (medium ?q) (access_pending ?q) (stop ?q)\<rparr>"
      obtain n where n: "writer_turns L (replicate n now) s0 =
          Some (s0\<lparr>ws_chunks := q1, ws_pc := DoHigh [] (medium ?q) (access_pending ?q) (stop ?q)\<rparr>)"
        using high Some x Inr by auto
      have t1: "\<exists>m. writer_turns L (replicate m now) s = y" if "\<exists>m. writer_turns L (replicate m now) ?s1 = y" for y
        by (rule turn_then [OF t0], rule turns_then [OF n], rule turn_then [OF _ that]) (simp add: writer_turn_def)
      obtain q2 r2 where m: "process_medium L (medium ?q) q1 = (q2, r2)" by fastforce
      have med: "\<exists>m. writer_turns L (replicate m now) ?s1 =
          Some (phase_end ?s1 (DoMedium [] (access_pending ?q) (stop ?q)) (q2, r2))"
        using medium_turns [of ?s1 "medium ?q" _ _ L now] m by simp
      show ?thesis
      proof (cases r2)
        case (Inl e)
        then show ?thesis using t1 [OF med] Some x Inr m by (simp add: writer_round_def s0(3) round_result_def)
      next
        case r2: (Inr v)
        let ?s2 = "s0\<lparr>ws_chunks := q2, ws_pc := DoMedium [] (access_pending ?q) (stop ?q)\<rparr>"
        obtain k where k: "writer_turns L (replicate k now) ?s1 = Some ?s2" using med r2 by auto
        have "\<exists>m. writer_turns L (replicate m now) ?s1 =
            Some (?s2\<lparr>ws_chunks := process_access_updates L now (access_pending ?q) q2, ws_pc := end_round (stop ?q)\<rparr>)"
          by (rule turns_then [OF k]) (use access_phase [of ?s2 _ _ L now] in simp)
        from t1 [OF this] show ?thesis
          using Some x Inr m r2 by (simp add: writer_round_def s0(3) round_result_def)
      qed
    qed
  qed
qed



subsection \<open>Every request is answered\<close>

text \<open>The writer is never stuck.\<close>

lemma writer_turn_total:
  assumes "chunk_env_ok L V" "deletes_ok L"
  shows "\<exists>s'. writer_turn L now s = Some s'"
proof -
  have one: "process_high L [req] q \<noteq> None" for req q
    using add_batches_returns(1,3) [OF assms] by (cases req) (auto split: option.splits)
  show ?thesis
  proof (cases "ws_pc s")
    case (DoHigh hs ms css st)
    then show ?thesis
      using one by (cases hs)
        (auto simp: writer_turn_def Let_def simp del: process_high.simps split: option.splits sum.splits)
  next
    case (DoMedium ms css st)
    then show ?thesis
      by (cases ms) (auto simp: writer_turn_def Let_def simp del: process_medium.simps split: prod.splits sum.splits)
  qed (auto simp: writer_turn_def Let_def)
qed

definition waits :: "nat \<Rightarrow> 's writer_sys \<Rightarrow> bool" where
  "waits i s \<longleftrightarrow> i \<in> req_id ` set (unanswered_high s @ unanswered_medium s)"

definition answered :: "nat \<Rightarrow> 's writer_sys \<Rightarrow> bool" where
  "answered i s \<longleftrightarrow> i \<in> fst ` set (replies (ws_chunks s))"

text \<open>A request that has been made waits or is answered.\<close>

lemma waits_or_answered:
  assumes "writer_typed s" "i < next_reply (ws_chunks s)"
  shows "waits i s \<or> answered i s"
proof -
  have "i \<in> set (add_order s) \<union> set (delete_order s)" using assms by (auto simp: writer_typed_def)
  then show ?thesis by (auto simp: waits_def answered_def add_order_def delete_order_def)
qed

lemma waits_below:
  assumes "writer_typed s" "waits i s"
  shows "i < next_reply (ws_chunks s)"
proof -
  have "i \<in> set (add_order s) \<union> set (delete_order s)"
    using assms(2) by (auto simp: waits_def add_order_def delete_order_def)
  then show ?thesis using assms(1) by (auto simp: writer_typed_def)
qed

text \<open>
  How far the writer is from a waiting request: the turns to its answer once the writer holds it, and
  before that the turns to the end of the round.  A request is taken with the next round.
\<close>

fun place :: "nat \<Rightarrow> WriteRequest list \<Rightarrow> nat" where
  "place i [] = 0"
| "place i (req # reqs) = (if req_id req = i then 0 else Suc (place i reqs))"

fun high_left :: "writer_pc \<Rightarrow> nat" where
  "high_left (DoHigh hs _ _ _) = Suc (length hs)"
| "high_left _ = 0"

fun round_left :: "writer_pc \<Rightarrow> nat" where
  "round_left (DoHigh hs ms css _) = Suc (length hs) + Suc (length ms) + Suc (length css) + 1"
| "round_left (DoMedium ms css _) = Suc (length ms) + Suc (length css) + 1"
| "round_left (DoAccess _ css _) = Suc (length css)"
| "round_left _ = 0"

definition distance :: "nat \<Rightarrow> 's writer_sys \<Rightarrow> nat \<times> nat" where
  "distance i s =
     (if i \<in> req_id ` set (held_high (ws_pc s)) then (0, Suc (place i (held_high (ws_pc s))))
      else if i \<in> req_id ` set (held_medium (ws_pc s)) then (0, high_left (ws_pc s) + Suc (place i (held_medium (ws_pc s))))
      else (1, round_left (ws_pc s)))"

lemma distance_drop: "i \<notin> req_id ` set (held_high (ws_pc s)) \<Longrightarrow> i \<notin> req_id ` set (held_medium (ws_pc s)) \<Longrightarrow>
  distance i s = (1, round_left (ws_pc s))"
  by (simp add: distance_def)

lemma caller_step_frame:
  assumes "caller_step A B s s'"
  shows "ws_pc s' = ws_pc s" "replies (ws_chunks s') = replies (ws_chunks s)"
    "next_reply (ws_chunks s) \<le> next_reply (ws_chunks s')" "waits i s \<Longrightarrow> waits i s'"
  using assms
  by (cases rule: caller_step.cases, auto simp: call_high_def call_medium_def submit_high_def submit_medium_def Let_def
      call_access_def notify_one_def take_reply_def drop_chunkdb_def waits_def unanswered_high_def unanswered_medium_def)+

lemma take_distance:
  assumes "waits i s" "held_high (ws_pc s) = []" "held_medium (ws_pc s) = []"
  shows "fst (distance i (take_queues s)) = 0"
  using assms by (auto simp: waits_def unanswered_high_def unanswered_medium_def distance_def take_queues_def Let_def)

text \<open>One turn: the request is answered or the writer is nearer to it.\<close>

abbreviation nearer :: "((nat \<times> nat) \<times> nat \<times> nat) set" where
  "nearer \<equiv> less_than <*lex*> less_than"

lemma turn_nearer:
  assumes turn: "writer_turn L now s = Some s'" and ok: "writer_typed s" "callers_ok s" and w: "waits i s"
  shows "answered i s' \<or> waits i s' \<and> (distance i s', distance i s) \<in> nearer"
proof -
  have hi: "list_all (Not \<circ> is_deletion) (unanswered_high s)" and me: "list_all is_deletion (unanswered_medium s)"
    and died: "ws_pc s \<noteq> Died" using ok(1) by (simp_all add: writer_typed_def)
  have k: "turn_kept s s'" by (rule turn_kept_turn [OF turn died hi me])
  have typed: "writer_typed s'" using k ok(1) by (auto simp: writer_typed_def turn_kept_def list_all_iff)
  have "i < next_reply (ws_chunks s')" using waits_below [OF ok(1) w] k by (simp add: turn_kept_def)
  then have wa: "waits i s' \<or> answered i s'" by (rule waits_or_answered [OF typed])
  have "ws_waiting s \<noteq> []" using w ok(2) by (auto simp: waits_def callers_ok_def)
  then have st: "\<not> stopping (ws_pc s)" using ok(2) by (auto simp: callers_ok_def)
  have "answered i s' \<or> (distance i s', distance i s) \<in> nearer"
  proof (cases "ws_pc s")
    case TopOfLoop
    then have "\<not> queue_idle (ws_chunks s)"
      using w by (auto simp: waits_def unanswered_high_def unanswered_medium_def queue_idle_def)
    then have "s' = take_queues s" using turn TopOfLoop by (simp add: writer_turn_def)
    moreover have "distance i s = (1, 0)" using TopOfLoop by (simp add: distance_def)
    ultimately show ?thesis using take_distance [OF w] TopOfLoop by (cases "distance i s'") auto
  next
    case Parked
    then have "s' = take_queues s" using turn by (simp add: writer_turn_def)
    moreover have "distance i s = (1, 0)" using Parked by (simp add: distance_def)
    ultimately show ?thesis using take_distance [OF w] Parked by (cases "distance i s'") auto
  next
    case (DoHigh hs ms css b)
    show ?thesis
    proof (cases hs)
      case Nil
      then have "s' = s\<lparr>ws_pc := DoMedium ms css b\<rparr>" using turn DoHigh by (simp add: writer_turn_def)
      then show ?thesis using DoHigh Nil by (auto simp: distance_def)
    next
      case (Cons req hs')
      have "\<not> is_deletion req" using hi DoHigh Cons by (simp add: unanswered_high_def)
      moreover obtain q' r where run: "process_high L [req] (ws_chunks s) = Some (q', r)"
        using turn DoHigh Cons by (auto simp: writer_turn_def Let_def simp del: process_high.simps split: option.splits)
      ultimately have fr: "r = Inr () \<and> (\<exists>x. replies q' = replies (ws_chunks s) @ [(req_id req, AddReply x)])"
        using high_turn [OF run] by blast
      then have s': "s' = s\<lparr>ws_chunks := q', ws_pc := DoHigh hs' ms css b\<rparr>"
        using turn DoHigh Cons run by (simp add: writer_turn_def Let_def del: process_high.simps)
      show ?thesis
      proof (cases "req_id req = i")
        case True
        then show ?thesis using fr s' by (auto simp: answered_def)
      next
        case False
        then show ?thesis using DoHigh Cons s' by (auto simp: distance_def)
      qed
    qed
  next
    case (DoMedium ms css b)
    show ?thesis
    proof (cases ms)
      case Nil
      then show ?thesis using turn DoMedium
        by (auto simp: writer_turn_def Let_def distance_def end_round_def split: if_splits)
    next
      case (Cons req ms')
      have "is_deletion req" using me DoMedium Cons by (simp add: unanswered_medium_def)
      moreover obtain q' r where run: "process_medium L [req] (ws_chunks s) = (q', r)" by fastforce
      ultimately have fr: "r = Inr () \<and> (\<exists>x. replies q' = replies (ws_chunks s) @ [(req_id req, DeleteReply x)])"
        using medium_turn [OF run] by blast
      then have s': "s' = s\<lparr>ws_chunks := q', ws_pc := DoMedium ms' css b\<rparr>"
        using turn DoMedium Cons run by (simp add: writer_turn_def Let_def del: process_medium.simps)
      show ?thesis
      proof (cases "req_id req = i")
        case True
        then show ?thesis using fr s' by (auto simp: answered_def)
      next
        case False
        then show ?thesis using DoMedium Cons s' by (auto simp: distance_def)
      qed
    qed
  next
    case (DoAccess now' css b)
    then show ?thesis using turn
      by (cases css) (auto simp: writer_turn_def Let_def distance_def end_round_def ACCESS_BATCH_SIZE_def split: if_splits)
  qed (use died st in simp_all)
  then show ?thesis using wa by blast
qed

lemma caller_same_distance:
  assumes "caller_step A B s s'"
  shows "distance i s' = distance i s"
  using caller_step_frame(1) [OF assms] by (simp add: distance_def)

text \<open>
  A run of callers and writer in which the writer, until it has ended, gets its turn again and again.
\<close>

definition fair_run ::
  "('s, 'm) chunk_env_scheme \<Rightarrow> (CheckSum \<times> bytes \<Rightarrow> bool) \<Rightarrow> (CheckSumOnDisk \<Rightarrow> bool) \<Rightarrow> (nat \<Rightarrow> 's writer_sys) \<Rightarrow> bool" where
  "fair_run L A B f \<longleftrightarrow>
     (\<forall>n. f (Suc n) = f n \<or> writer_sys_step L A B (f n) (f (Suc n))) \<and>
     (\<forall>n. \<exists>m \<ge> n. writer_step L (f m) (f (Suc m)) \<or> ws_pc (f m) = Ended)"

lemma fair_steps:
  assumes "fair_run L A B f" "writer_typed (f n)" "callers_ok (f n)"
  shows "writer_typed (f (n + k)) \<and> callers_ok (f (n + k))"
proof (induction k)
  case (Suc k)
  have "f (Suc (n + k)) = f (n + k) \<or> writer_sys_step L A B (f (n + k)) (f (Suc (n + k)))"
    using assms(1) by (simp add: fair_run_def)
  then show ?case
    using Suc writer_typed_step callers_turn callers_caller by (fastforce simp: writer_sys_step_def)
qed (use assms in simp)

lemma nearer_trans: "(x, y) \<in> nearer \<Longrightarrow> y = z \<or> (y, z) \<in> nearer \<Longrightarrow> (x, z) \<in> nearer"
  by (cases x; cases y; cases z) auto

text \<open>
  A goal \<open>G\<close> that every turn of the writer reaches or brings nearer, while \<open>W\<close> holds and no caller sets
  it back, is reached in every fair run.
\<close>

lemma fair_goal:
  assumes run: "fair_run L A B f"
    and turn: "\<And>s s' now. writer_turn L now s = Some s' \<Longrightarrow> writer_typed s \<Longrightarrow> callers_ok s \<Longrightarrow> W s \<Longrightarrow>
      G s' \<or> W s' \<and> (d s', d s) \<in> nearer"
    and call: "\<And>s s'. caller_step A B s s' \<Longrightarrow> W s \<Longrightarrow> W s' \<and> d s' = d s"
    and live: "\<And>s. callers_ok s \<Longrightarrow> W s \<Longrightarrow> ws_pc s \<noteq> Ended"
  shows "writer_typed (f n) \<Longrightarrow> callers_ok (f n) \<Longrightarrow> W (f n) \<Longrightarrow> \<exists>m \<ge> n. G (f m)"
proof (induction "d (f n)" arbitrary: n rule: wf_induct_rule [OF wf_lex_prod [OF wf_less_than wf_less_than]])
  case 1
  have step: "f (Suc m) = f m \<or> writer_sys_step L A B (f m) (f (Suc m))" for m
    using run by (simp add: fair_run_def)
  have oks: "writer_typed (f (n + k)) \<and> callers_ok (f (n + k))" for k using fair_steps [OF run 1(2,3)] .
  have wait: "(\<exists>m \<ge> n. G (f m)) \<or> W (f (n + k)) \<and> (d (f (n + k)) = d (f n) \<or> (d (f (n + k)), d (f n)) \<in> nearer)" for k
  proof (induction k)
    case (Suc k)
    consider "f (Suc (n + k)) = f (n + k)" | "caller_step A B (f (n + k)) (f (Suc (n + k)))"
      | now where "writer_turn L now (f (n + k)) = Some (f (Suc (n + k)))"
      using step [of "n + k"] unfolding writer_sys_step_def by (blast elim: writer_stepE)
    then show ?case
    proof cases
      case 2
      then show ?thesis using Suc call [OF 2] by auto
    next
      case (3 now)
      then have "(\<exists>m \<ge> n. G (f m)) \<or> G (f (Suc (n + k))) \<or> W (f (Suc (n + k))) \<and> (d (f (Suc (n + k))), d (f (n + k))) \<in> nearer"
        using Suc turn [OF 3] oks [of k] by blast
      moreover have "n \<le> Suc (n + k)" by simp
      ultimately show ?thesis using Suc nearer_trans unfolding add_Suc_right by metis
    qed (use Suc in simp)
  qed (use 1 in simp)
  obtain m where m: "n \<le> m" "writer_step L (f m) (f (Suc m)) \<or> ws_pc (f m) = Ended"
    using run unfolding fair_run_def by blast
  obtain k where k: "m = n + k" using m(1) le_Suc_ex by blast
  show ?case
  proof (cases "\<exists>m \<ge> n. G (f m)")
    case False
    from wait [of k] False have w: "W (f m)" "d (f m) = d (f n) \<or> (d (f m), d (f n)) \<in> nearer"
      unfolding k by blast+
    have om: "writer_typed (f m)" "callers_ok (f m)" using oks [of k] k by simp_all
    obtain now where "writer_turn L now (f m) = Some (f (Suc m))"
      using m(2) live [OF om(2) w(1)] by (auto elim: writer_stepE)
    from turn [OF this om w(1)] have "G (f (Suc m)) \<or> W (f (Suc m)) \<and> (d (f (Suc m)), d (f n)) \<in> nearer"
      using nearer_trans w(2) by metis
    moreover have "writer_typed (f (Suc m)) \<and> callers_ok (f (Suc m))" using oks [of "Suc k"] k by simp
    ultimately show ?thesis using 1(1) [of "Suc m"] m(1) by (meson Suc_leD le_Suc_eq le_trans)
  qed
qed

lemma fair_answered:
  assumes "fair_run L A B f" "writer_typed (f n)" "callers_ok (f n)" "waits i (f n)"
  shows "\<exists>m. answered i (f m)"
proof -
  have "\<exists>m \<ge> n. answered i (f m)"
  proof (rule fair_goal [where W = "waits i" and d = "distance i", OF assms(1) turn_nearer _ _ assms(2-4)])
    show "waits i s' \<and> distance i s' = distance i s" if "caller_step A B s s'" "waits i s" for s s' :: "'a writer_sys"
      using caller_step_frame(4) [OF that] caller_same_distance [OF that(1)] by blast
    show "ws_pc s \<noteq> Ended" if "callers_ok s" "waits i s" for s :: "'a writer_sys"
      using that by (auto simp: waits_def callers_ok_def)
  qed
  then show ?thesis by blast
qed

text \<open>
  C13: every request is answered.  In every run of callers and writer in which the writer gets
  its turn again and again until it has ended, whatever the callers do meanwhile, each request made
  so far has its answer at some point; and the writer is never stuck, provided deletes of the store
  do not fail, because then the retries of the additions end.
\<close>

theorem every_request_answered:
  assumes "chunk_env_ok L V" "deletes_ok L"
    and "fair_run L A B f" "f 0 = writer_new e ctl" "i < next_reply (ws_chunks (f n))"
  shows "(\<exists>m x. (i, x) \<in> set (replies (ws_chunks (f m)))) \<and> (\<forall>s now. \<exists>s'. writer_turn L now s = Some s')"
proof -
  have ok: "writer_typed (f n)" "callers_ok (f n)"
    using fair_steps [OF assms(3), of 0 n] by (simp_all add: assms(4) writer_typed_new callers_new)
  have "\<exists>m. answered i (f m)"
    using waits_or_answered [OF ok(1) assms(5)] fair_answered [OF assms(3) ok] by blast
  then show ?thesis using writer_turn_total [OF assms(1,2)] by (force simp: answered_def)
qed

text \<open>A fair run: one addition, and then the turns of the writer for ever.\<close>

fun demo_run :: "nat \<Rightarrow> mem_chunks writer_sys" where
  "demo_run 0 = writer_new demo_store True"
| "demo_run (Suc 0) = call_high (AddChunk (demo_cs 3) [3, 4]) (demo_run 0)"
| "demo_run (Suc (Suc n)) = the (writer_turn (mem_chunk_env 5) 900 (demo_run (Suc n)))"

lemma demo_run_turn: "writer_turn (mem_chunk_env 5) 900 (demo_run (Suc n)) = Some (demo_run (Suc (Suc n)))"
  using writer_turn_total [OF mem_chunk_env_ok mem_deletes_ok, of 5 900 "demo_run (Suc n)"] by auto

lemma demo_run_ok:
  "writer_typed (demo_run (Suc n)) \<and> callers_ok (demo_run (Suc n)) \<and> \<not> stop (ws_chunks (demo_run (Suc n)))"
proof (induction n)
  case 0
  have "caller_step (\<lambda>_. True) (\<lambda>_. True) (demo_run 0) (demo_run (Suc 0))"
    by (simp add: cs_add writer_new_def chunkdb_new_def)
  then have "writer_typed (demo_run (Suc 0))" "callers_ok (demo_run (Suc 0))"
    using writer_typed_step [of "mem_chunk_env 5" _ _ "demo_run 0"] callers_caller [of _ _ "demo_run 0"]
      writer_typed_new callers_new unfolding writer_sys_step_def by (metis demo_run.simps(1))+
  then show ?case by (simp add: call_high_def submit_high_def writer_new_def chunkdb_new_def)
next
  case (Suc n)
  have step: "writer_step (mem_chunk_env 5) (demo_run (Suc n)) (demo_run (Suc (Suc n)))"
    by (rule ws_turn [OF _ _ _ demo_run_turn]) (use Suc in \<open>auto simp: callers_ok_def writer_typed_def\<close>)
  show ?case
    using writer_typed_turn [OF step] callers_turn [OF step] Suc by (simp add: turn_kept_def del: demo_run.simps)
qed

lemma demo_run_fair: "fair_run (mem_chunk_env 5) (\<lambda>_. True) (\<lambda>_. True) demo_run"
proof -
  have turn: "writer_step (mem_chunk_env 5) (demo_run (Suc n)) (demo_run (Suc (Suc n)))" for n
    by (rule ws_turn [OF _ _ _ demo_run_turn]) (use demo_run_ok [of n] in \<open>auto simp: callers_ok_def writer_typed_def\<close>)
  have "caller_step (\<lambda>_. True) (\<lambda>_. True) (demo_run 0) (demo_run (Suc 0))"
    by (simp add: cs_add writer_new_def chunkdb_new_def)
  then have "writer_sys_step (mem_chunk_env 5) (\<lambda>_. True) (\<lambda>_. True) (demo_run n) (demo_run (Suc n))" for n
    using turn by (cases n) (auto simp: writer_sys_step_def simp del: demo_run.simps)
  moreover have "\<exists>m \<ge> n. writer_step (mem_chunk_env 5) (demo_run m) (demo_run (Suc m))" for n
    by (rule exI [of _ "Suc n"]) (simp add: turn del: demo_run.simps)
  ultimately show ?thesis unfolding fair_run_def by blast
qed

theorem every_request_answered_witness:
  "\<exists>m x. (0, x) \<in> set (replies (ws_chunks (demo_run m)))"
proof -
  have "0 < next_reply (ws_chunks (demo_run (Suc 0)))" by (simp add: call_high_def submit_high_def Let_def)
  from every_request_answered [OF mem_chunk_env_ok mem_deletes_ok demo_run_fair demo_run.simps(1) this]
  show ?thesis by blast
qed

subsection \<open>The end of the writer\<close>

definition end_distance :: "'s writer_sys \<Rightarrow> nat \<times> nat" where
  "end_distance s = (if stopping (ws_pc s) then 0 else 1, round_left (ws_pc s))"

lemma turn_nearer_end:
  assumes turn: "writer_turn L now s = Some s'" and ok: "writer_typed s" and w: "stop (ws_chunks s) \<and> ws_pc s \<noteq> Ended"
  shows "ws_pc s' = Ended \<or> (stop (ws_chunks s') \<and> ws_pc s' \<noteq> Ended) \<and> (end_distance s', end_distance s) \<in> nearer"
proof -
  have hi: "list_all (Not \<circ> is_deletion) (unanswered_high s)" and me: "list_all is_deletion (unanswered_medium s)"
    and died: "ws_pc s \<noteq> Died" using ok by (simp_all add: writer_typed_def)
  have k: "stop (ws_chunks s') = stop (ws_chunks s)" "ws_pc s' \<noteq> Died"
    using turn_kept_turn [OF turn died hi me] by (simp_all add: turn_kept_def)
  have "(end_distance s', end_distance s) \<in> nearer \<or> ws_pc s' = Ended"
  proof (cases "ws_pc s")
    case (DoHigh hs ms css b)
    then show ?thesis using turn k(2)
      by (cases hs) (auto simp: writer_turn_def Let_def end_distance_def simp del: process_high.simps
          split: option.splits sum.splits)
  next
    case (DoMedium ms css b)
    then show ?thesis using turn k(2)
      by (cases ms) (auto simp: writer_turn_def Let_def end_distance_def end_round_def simp del: process_medium.simps
          split: prod.splits sum.splits if_splits)
  next
    case (DoAccess now' css b)
    then show ?thesis using turn
      by (cases css) (auto simp: writer_turn_def Let_def end_distance_def end_round_def ACCESS_BATCH_SIZE_def split: if_splits)
  qed (use turn died w in \<open>auto simp: writer_turn_def take_queues_def queue_idle_def end_distance_def Let_def split: if_splits\<close>)
  then show ?thesis using k(1) w by blast
qed

text \<open>
  C23: dropping the database returns: once \<open>Drop\<close> has set \<open>stop\<close>, in every fair run the writer
  ends, so the join in \<open>Drop\<close> gets through, and then every request has been answered and no access
  is left unrecorded in the queue.
\<close>

theorem drop_joins_the_writer:
  assumes "fair_run L A B f" "f 0 = writer_new e ctl" "stop (ws_chunks (f n))"
  shows "\<exists>m. ws_pc (f m) = Ended \<and> unanswered_high (f m) = [] \<and> unanswered_medium (f m) = [] \<and>
    access_pending (ws_chunks (f m)) = []"
proof -
  have ok: "writer_typed (f k)" "callers_ok (f k)" for k
    using fair_steps [OF assms(1), of 0 k] by (simp_all add: assms(2) writer_typed_new callers_new)
  have "\<exists>m. ws_pc (f m) = Ended"
  proof (cases "ws_pc (f n) = Ended")
    case False
    have call: "(stop (ws_chunks s') \<and> ws_pc s' \<noteq> Ended) \<and> end_distance s' = end_distance s"
      if "caller_step A B s s'" "stop (ws_chunks s) \<and> ws_pc s \<noteq> Ended" for s s' :: "'a writer_sys"
      using that by cases (auto simp: notify_one_def take_reply_def end_distance_def)
    have "\<exists>m \<ge> n. ws_pc (f m) = Ended"
      by (rule fair_goal [where W = "\<lambda>s. stop (ws_chunks s) \<and> ws_pc s \<noteq> Ended" and d = end_distance,
            OF assms(1) turn_nearer_end call _ ok]) (use assms(3) False in simp_all)
    then show ?thesis by blast
  qed blast
  then obtain m where m: "ws_pc (f m) = Ended" by blast
  then have "stop (ws_chunks (f m)) \<and> access_pending (ws_chunks (f m)) = []" using ok(2) [of m] by (simp add: callers_ok_def)
  then show ?thesis using m ok(2) [of m] by (auto simp: callers_ok_def)
qed

fun demo_drop :: "nat \<Rightarrow> mem_chunks writer_sys" where
  "demo_drop 0 = writer_new demo_store True"
| "demo_drop (Suc 0) = drop_chunkdb (demo_drop 0)"
| "demo_drop (Suc (Suc n)) = the (writer_turn (mem_chunk_env 5) 900 (demo_drop (Suc n)))"

lemma demo_drop_step:
  assumes "writer_typed (demo_drop (Suc n))"
  shows "if ws_pc (demo_drop (Suc n)) = Ended then demo_drop (Suc (Suc n)) = demo_drop (Suc n)
    else writer_step (mem_chunk_env 5) (demo_drop (Suc n)) (demo_drop (Suc (Suc n)))"
proof -
  obtain s' where s': "writer_turn (mem_chunk_env 5) 900 (demo_drop (Suc n)) = Some s'"
    using writer_turn_total [OF mem_chunk_env_ok mem_deletes_ok] by blast
  show ?thesis
  proof (cases "ws_pc (demo_drop (Suc n)) = Ended")
    case True
    then show ?thesis by (simp add: writer_turn_def)
  next
    case False
    have "writer_step (mem_chunk_env 5) (demo_drop (Suc n)) s'"
      by (rule ws_turn [OF _ _ _ s']) (use assms False in \<open>simp_all add: writer_typed_def\<close>)
    then show ?thesis using s' False by simp
  qed
qed

lemma demo_drop_typed: "writer_typed (demo_drop (Suc n))"
proof (induction n)
  case 0
  then show ?case by (simp add: writer_typed_drop writer_typed_new)
next
  case (Suc n)
  then show ?case using demo_drop_step [OF Suc] writer_typed_turn(2) by (metis (full_types))
qed

lemma demo_drop_fair: "fair_run (mem_chunk_env 5) (\<lambda>_. True) (\<lambda>_. True) demo_drop"
proof -
  have "caller_step (\<lambda>_. True) (\<lambda>_. True) (demo_drop 0) (demo_drop (Suc 0))"
    by (simp add: cs_drop writer_new_def chunkdb_new_def)
  then have "demo_drop (Suc n) = demo_drop n \<or>
      writer_sys_step (mem_chunk_env 5) (\<lambda>_. True) (\<lambda>_. True) (demo_drop n) (demo_drop (Suc n))" for n
    using demo_drop_step [OF demo_drop_typed, of "n - 1"]
    by (cases n) (auto simp: writer_sys_step_def simp del: demo_drop.simps split: if_splits)
  moreover have "\<exists>m \<ge> n. writer_step (mem_chunk_env 5) (demo_drop m) (demo_drop (Suc m)) \<or> ws_pc (demo_drop m) = Ended" for n
    by (rule exI [of _ "Suc n"]) (use demo_drop_step [OF demo_drop_typed, of n] in \<open>simp del: demo_drop.simps split: if_splits\<close>)
  ultimately show ?thesis unfolding fair_run_def by blast
qed

theorem drop_joins_the_writer_witness:
  "\<exists>m. ws_pc (demo_drop m) = Ended \<and> access_pending (ws_chunks (demo_drop m)) = []"
proof -
  have "stop (ws_chunks (demo_drop (Suc 0)))" by (simp add: drop_chunkdb_def)
  from drop_joins_the_writer [OF demo_drop_fair demo_drop.simps(1) this] show ?thesis by blast
qed

end
