(* ===== verification/Bench.thy ===== *)
theory Bench
  imports Complex_Main ChunkApi Capacity
begin

text \<open>
  \<open>src/bin/chunkdb_bench.rs\<close>: the benchmark of the chunk database.  It opens a database, fills it for
  the read scenarios, runs one or more workers until a deadline, and reports sums, rates and latency
  percentiles; with several processes the workers are children of the program that print their
  figures as a line of JSON.

  The random generator works on 64-bit words.  Counters are \<open>u64\<close> values that saturate.  An \<open>f64\<close> is
  a rational number, without rounding.  The readings of the clock are a list, one entry per turn of a
  loop: when it is used up before the deadline the result is \<open>None\<close>.
\<close>

definition DEFAULT_CHUNK_SIZE :: nat where "DEFAULT_CHUNK_SIZE = 4 * 1024 * 1024"
definition LATENCY_SAMPLE_CAP :: nat where "LATENCY_SAMPLE_CAP = 50000"
definition WORKER_PREFIX :: string where "WORKER_PREFIX = ''WORKER_METRICS ''"

definition u64_saturating_add :: "nat \<Rightarrow> nat \<Rightarrow> nat" where
  "u64_saturating_add a b = min (a + b) (2 ^ 64 - 1)"

subsection \<open>Options\<close>

datatype Scenario = Write | Read | Mixed

definition scenario_name :: "Scenario \<Rightarrow> string" where
  "scenario_name sc = (case sc of Write \<Rightarrow> ''write'' | Read \<Rightarrow> ''read'' | Mixed \<Rightarrow> ''mixed'')"

datatype HashMethod = HashBlake3 | HashSha256

definition hash_name :: "HashMethod \<Rightarrow> string" where
  "hash_name h = (case h of HashBlake3 \<Rightarrow> ''blake3'' | HashSha256 \<Rightarrow> ''sha256'')"

definition checksum_method :: "HashMethod \<Rightarrow> CheckSumMethod" where
  "checksum_method h = (case h of HashBlake3 \<Rightarrow> Blake3 | HashSha256 \<Rightarrow> Sha256)"

record bench_opts =
  o_db_path :: string
  o_scenario :: Scenario
  o_chunk_size :: nat
  o_duration_secs :: nat
  o_preload_chunks :: nat
  o_processes :: nat
  o_write_percent :: nat
  o_write_keyspace :: nat
  o_reset_db :: bool
  o_hash_method :: HashMethod
  o_read_copy :: bool
  o_mixed_concurrent :: bool
  o_reader_threads :: nat
  o_writer_threads :: nat
  o_worker_index :: "nat option"
  o_run_salt :: "nat option"
  o_json_only :: bool
  o_skip_preload :: bool

subsection \<open>The random generator\<close>

record Lcg =
  lcg_state :: "64 word"

definition Lcg_new :: "64 word \<Rightarrow> Lcg" where
  "Lcg_new seed = \<lparr>lcg_state = (if seed = 0 then 0x9E3779B97F4A7C15 else seed)\<rparr>"

definition next_u64 :: "Lcg \<Rightarrow> Lcg \<times> 64 word" where
  "next_u64 g =
     (let x = lcg_state g;
          x = x XOR drop_bit 12 x;
          x = x XOR push_bit 25 x;
          x = x XOR drop_bit 27 x
      in (g\<lparr>lcg_state := x\<rparr>, x * 0x2545F4914F6CDD1D))"

subsection \<open>Latency samples\<close>

record LatencySampler =
  ls_cap :: nat
  ls_seen :: nat
  ls_samples :: "nat list"
  ls_rng :: Lcg

definition LatencySampler_new :: "nat \<Rightarrow> 64 word \<Rightarrow> LatencySampler" where
  "LatencySampler_new cap seed = \<lparr>ls_cap = cap, ls_seen = 0, ls_samples = [], ls_rng = Lcg_new seed\<rparr>"

definition observe :: "nat \<Rightarrow> LatencySampler \<Rightarrow> LatencySampler" where
  "observe ns l =
     (let seen = u64_saturating_add (ls_seen l) 1; l = l\<lparr>ls_seen := seen\<rparr> in
      if length (ls_samples l) < ls_cap l then l\<lparr>ls_samples := ls_samples l @ [ns]\<rparr>
      else case next_u64 (ls_rng l) of (g, x) \<Rightarrow>
        (let l = l\<lparr>ls_rng := g\<rparr>; slot = unat x mod seen
         in if slot < ls_cap l then l\<lparr>ls_samples := (ls_samples l)[slot := ns]\<rparr> else l))"

subsection \<open>Figures\<close>

record ThreadMetrics =
  ops_total :: nat
  read_ops :: nat
  write_ops :: nat
  read_misses :: nat
  bytes_read :: nat
  bytes_written :: nat
  latency_seen :: nat
  latency_samples :: "nat list"

record WorkerMetrics = ThreadMetrics +
  worker_index :: nat
  process_count :: nat
  elapsed_ns :: nat

definition ThreadMetrics_default :: ThreadMetrics where
  "ThreadMetrics_default = \<lparr>ops_total = 0, read_ops = 0, write_ops = 0, read_misses = 0, bytes_read = 0, bytes_written = 0,
     latency_seen = 0, latency_samples = []\<rparr>"

definition worker_metrics :: "ThreadMetrics \<Rightarrow> nat \<Rightarrow> nat \<Rightarrow> nat \<Rightarrow> WorkerMetrics" where
  "worker_metrics m i n ns = ThreadMetrics.extend m \<lparr>worker_index = i, process_count = n, elapsed_ns = ns\<rparr>"

definition ns_to_secs :: "nat \<Rightarrow> rat" where
  "ns_to_secs ns = of_nat ns / 1000000000"

definition rate :: "nat \<Rightarrow> rat \<Rightarrow> rat" where
  "rate v secs = (if secs \<le> 0 then 0 else of_nat v / secs)"

definition bytes_rate_mb :: "nat \<Rightarrow> rat \<Rightarrow> rat" where
  "bytes_rate_mb b secs = (if secs \<le> 0 then 0 else of_nat b / secs / (1024 * 1024))"

definition percentile :: "nat list \<Rightarrow> rat \<Rightarrow> nat" where
  "percentile xs p =
     (if xs = [] then 0
      else xs ! min (nat \<lceil>of_nat (length xs) * p\<rceil> - 1) (length xs - 1))"

text \<open>The values of \<open>serde_json\<close>.\<close>

datatype json = JNull | JBool bool | JNat nat | JFloat rat | JText string | JArray "json list" | JObject "(string \<times> json) list"

definition figures :: "nat \<Rightarrow> nat list \<Rightarrow> ThreadMetrics \<Rightarrow> (string \<times> json) list" where
  "figures ns samples m =
     (let secs = ns_to_secs ns in
      [(''elapsed_ns'', JNat ns), (''elapsed_secs'', JFloat secs),
       (''ops_total'', JNat (ops_total m)), (''read_ops'', JNat (read_ops m)), (''write_ops'', JNat (write_ops m)),
       (''read_misses'', JNat (read_misses m)), (''bytes_read'', JNat (bytes_read m)),
       (''bytes_written'', JNat (bytes_written m)),
       (''ops_per_sec'', JFloat (rate (ops_total m) secs)), (''read_ops_per_sec'', JFloat (rate (read_ops m) secs)),
       (''write_ops_per_sec'', JFloat (rate (write_ops m) secs)),
       (''mb_read_per_sec'', JFloat (bytes_rate_mb (bytes_read m) secs)),
       (''mb_write_per_sec'', JFloat (bytes_rate_mb (bytes_written m) secs)),
       (''latency_seen'', JNat (latency_seen m)), (''latency_sample_count'', JNat (length samples)),
       (''latency_ns_p50'', JNat (percentile samples (50 / 100))), (''latency_ns_p95'', JNat (percentile samples (95 / 100))),
       (''latency_ns_p99'', JNat (percentile samples (99 / 100)))])"

definition to_json :: "WorkerMetrics \<Rightarrow> json" where
  "to_json m = JObject
     ([(''worker_index'', JNat (worker_index m)), (''process_count'', JNat (process_count m))] @
      figures (elapsed_ns m) (sort (latency_samples m)) (ThreadMetrics.truncate m))"

subsection \<open>Keys and data\<close>

definition le_bytes :: "nat \<Rightarrow> nat \<Rightarrow> bytes" where
  "le_bytes k n = rev (be_bytes k n)"

definition key_seed :: "nat \<Rightarrow> nat \<Rightarrow> bytes" where
  "key_seed salt key_idx = le_bytes 8 salt @ le_bytes 8 key_idx"

definition checksum_for_key :: "digests \<Rightarrow> nat \<Rightarrow> nat \<Rightarrow> CheckSumMethod \<Rightarrow> CheckSum" where
  "checksum_for_key H salt key_idx m = CheckSum_from_data H (key_seed salt key_idx) m"

definition prepare_data :: "nat \<Rightarrow> nat \<Rightarrow> bytes" where
  "prepare_data chunk_size i = (let base = of_nat (i mod 251) in map (\<lambda>k. base + of_nat (k mod 251)) [0 ..< chunk_size])"

fun preload_keys ::
  "('s, 'm) chunk_env_scheme \<Rightarrow> digests \<Rightarrow> nat \<Rightarrow> bytes \<Rightarrow> CheckSumMethod \<Rightarrow> nat \<Rightarrow> nat list \<Rightarrow> 's chunkdb \<Rightarrow>
   ('s chunkdb \<times> (error + unit)) option" where
  "preload_keys L H now data m salt [] q = Some (q, Inr ())"
| "preload_keys L H now data m salt (i # ks) q =
     (case add_chunk L now (checksum_for_key H salt i m) data q of
        None \<Rightarrow> None
      | Some (q', Inl e) \<Rightarrow> Some (q', Inl e)
      | Some (q', Inr _) \<Rightarrow> preload_keys L H now data m salt ks q')"

definition preload_for_reads ::
  "('s, 'm) chunk_env_scheme \<Rightarrow> digests \<Rightarrow> nat \<Rightarrow> bench_opts \<Rightarrow> nat \<Rightarrow> 's chunkdb \<Rightarrow> ('s chunkdb \<times> (error + unit)) option" where
  "preload_for_reads L H now o' salt q =
     (if o_scenario o' = Write then Some (q, Inr ())
      else preload_keys L H now (prepare_data (o_chunk_size o') 0) (checksum_method (o_hash_method o')) salt
             [0 ..< o_preload_chunks o'] q)"

text \<open>The callback copies into \<open>read_buf[..slice.len()]\<close>, which panics when the buffer is shorter.\<close>

definition read_once ::
  "('s, 'm) chunk_env_scheme \<Rightarrow> CheckSum \<Rightarrow> nat \<Rightarrow> bool \<Rightarrow> 's chunkdb \<Rightarrow> bytes \<Rightarrow> 's chunkdb \<times> bytes \<times> (error + bool)" where
  "read_once L cs chunk_size read_copy q buf =
     (case with_chunk_range L cs 0 chunk_size
             (\<lambda>w d. if read_copy then (if length d \<le> length w then (splice w 0 d, Inr ()) else (w, Inl Panic)) else (w, Inr ()))
             q buf of
        (q', w, Inl e) \<Rightarrow> (q', w, Inl e)
      | (q', w, Inr got) \<Rightarrow> (q', w, Inr (got \<noteq> None)))"

subsection \<open>One worker\<close>

text \<open>
  The loop of a worker: a turn takes three readings of the clock, the test against the deadline and
  the two around the operation, in nanoseconds since the start.
\<close>

fun timed_loop ::
  "(nat \<Rightarrow> 'st \<Rightarrow> ('st \<times> (error + unit)) option) \<Rightarrow> nat \<Rightarrow> (nat \<times> nat \<times> nat) list \<Rightarrow> 'st \<Rightarrow> ('st \<times> (error + unit)) option" where
  "timed_loop body deadline [] st = None"
| "timed_loop body deadline ((t, t0, t1) # ts) st =
     (if t \<ge> deadline then Some (st, Inr ())
      else case body ((t1 - t0) mod 2 ^ 64) st of
        None \<Rightarrow> None
      | Some (st', Inl e) \<Rightarrow> Some (st', Inl e)
      | Some (st', Inr _) \<Rightarrow> timed_loop body deadline ts st')"

record bench_thread =
  bt_rng :: Lcg
  bt_lat :: LatencySampler
  bt_buf :: bytes
  bt_seq :: nat
  bt_m :: ThreadMetrics

definition bench_thread_new :: "64 word \<Rightarrow> bytes \<Rightarrow> bench_thread" where
  "bench_thread_new seed buf =
     (case next_u64 (Lcg_new seed) of (g, x) \<Rightarrow>
        \<lparr>bt_rng = g, bt_lat = LatencySampler_new LATENCY_SAMPLE_CAP x, bt_buf = buf, bt_seq = 0, bt_m = ThreadMetrics_default\<rparr>)"

definition worker_seed :: "nat \<Rightarrow> nat \<Rightarrow> 64 word" where
  "worker_seed salt w = of_nat salt XOR push_bit 32 (of_nat w)"

definition write_base :: "nat \<Rightarrow> nat \<Rightarrow> nat" where
  "write_base preload w = u64_saturating_add (u64_saturating_add preload (w * 2 ^ 40 mod 2 ^ 64)) 1"

definition write_key :: "nat \<Rightarrow> nat \<Rightarrow> nat \<Rightarrow> nat" where
  "write_key base keyspace seq = u64_saturating_add base (if keyspace = 0 then seq else seq mod keyspace)"

definition count_write :: "nat \<Rightarrow> ThreadMetrics \<Rightarrow> ThreadMetrics" where
  "count_write chunk_size m = m\<lparr>write_ops := u64_saturating_add (write_ops m) 1,
     bytes_written := u64_saturating_add (bytes_written m) chunk_size\<rparr>"

definition count_read :: "nat \<Rightarrow> bool \<Rightarrow> ThreadMetrics \<Rightarrow> ThreadMetrics" where
  "count_read chunk_size got m =
     (let m = m\<lparr>read_ops := u64_saturating_add (read_ops m) 1\<rparr>
      in if got then m\<lparr>bytes_read := u64_saturating_add (bytes_read m) chunk_size\<rparr>
         else m\<lparr>read_misses := u64_saturating_add (read_misses m) 1\<rparr>)"

definition finish_op :: "nat \<Rightarrow> bench_thread \<Rightarrow> bench_thread" where
  "finish_op ns s = s\<lparr>bt_lat := observe ns (bt_lat s),
     bt_m := (bt_m s)\<lparr>ops_total := u64_saturating_add (ops_total (bt_m s)) 1\<rparr>\<rparr>"

definition write_op ::
  "('s, 'm) chunk_env_scheme \<Rightarrow> digests \<Rightarrow> nat \<Rightarrow> bench_opts \<Rightarrow> nat \<Rightarrow> nat \<Rightarrow> bytes \<Rightarrow> nat \<Rightarrow>
   's chunkdb \<times> bench_thread \<Rightarrow> (('s chunkdb \<times> bench_thread) \<times> (error + unit)) option" where
  "write_op L H now o' salt base data ns = (\<lambda>(q, s).
     case add_chunk L now (checksum_for_key H salt (write_key base (o_write_keyspace o') (bt_seq s))
                             (checksum_method (o_hash_method o'))) data q of
       None \<Rightarrow> None
     | Some (q', Inl e) \<Rightarrow> Some ((q', s), Inl e)
     | Some (q', Inr _) \<Rightarrow>
         Some ((q', finish_op ns (s\<lparr>bt_seq := u64_saturating_add (bt_seq s) 1, bt_m := count_write (o_chunk_size o') (bt_m s)\<rparr>)),
               Inr ()))"

definition read_op ::
  "('s, 'm) chunk_env_scheme \<Rightarrow> digests \<Rightarrow> bench_opts \<Rightarrow> nat \<Rightarrow> nat \<Rightarrow>
   's chunkdb \<times> bench_thread \<Rightarrow> ('s chunkdb \<times> bench_thread) \<times> (error + unit)" where
  "read_op L H o' salt ns = (\<lambda>(q, s).
     case next_u64 (bt_rng s) of (g, x) \<Rightarrow>
       (let key = unat x mod max (o_preload_chunks o') 1; s = s\<lparr>bt_rng := g\<rparr>
        in case read_once L (checksum_for_key H salt key (checksum_method (o_hash_method o'))) (o_chunk_size o')
                  (o_read_copy o') q (bt_buf s) of
             (q', w, Inl e) \<Rightarrow> ((q', s\<lparr>bt_buf := w\<rparr>), Inl e)
           | (q', w, Inr got) \<Rightarrow>
               ((q', finish_op ns (s\<lparr>bt_buf := w, bt_m := count_read (o_chunk_size o') got (bt_m s)\<rparr>)), Inr ())))"

text \<open>In the mixed scenario a draw of the generator decides whether the turn writes.\<close>

definition single_op ::
  "('s, 'm) chunk_env_scheme \<Rightarrow> digests \<Rightarrow> nat \<Rightarrow> bench_opts \<Rightarrow> nat \<Rightarrow> nat \<Rightarrow> nat \<Rightarrow>
   's chunkdb \<times> bench_thread \<Rightarrow> (('s chunkdb \<times> bench_thread) \<times> (error + unit)) option" where
  "single_op L H now o' salt w ns = (\<lambda>(q, s).
     let write = write_op L H now o' salt (write_base (o_preload_chunks o') w) (prepare_data (o_chunk_size o') w) ns
     in case o_scenario o' of
          Write \<Rightarrow> write (q, s)
        | Read \<Rightarrow> Some (read_op L H o' salt ns (q, s))
        | Mixed \<Rightarrow>
            (case next_u64 (bt_rng s) of (g, x) \<Rightarrow>
               if unat x mod 100 < o_write_percent o' then write (q, s\<lparr>bt_rng := g\<rparr>)
               else Some (read_op L H o' salt ns (q, s\<lparr>bt_rng := g\<rparr>))))"

definition thread_metrics :: "bench_thread \<Rightarrow> ThreadMetrics" where
  "thread_metrics s = (bt_m s)\<lparr>latency_seen := ls_seen (bt_lat s), latency_samples := ls_samples (bt_lat s)\<rparr>"

definition nanos :: "nat \<Rightarrow> nat" where
  "nanos secs = secs * 1000000000"

definition read_buffer :: "bench_opts \<Rightarrow> bytes" where
  "read_buffer o' = (if o_read_copy o' then replicate (o_chunk_size o') 0 else [])"

text \<open>\<open>mkdir\<close> is the result of creating the directory, \<open>ts\<close> the readings of the clock, \<open>fin\<close> the last one.\<close>

definition run_worker_single ::
  "('s, 'm) chunk_env_scheme \<Rightarrow> digests \<Rightarrow> nat \<Rightarrow> error + unit \<Rightarrow> bench_opts \<Rightarrow> nat \<Rightarrow> nat \<Rightarrow> nat \<Rightarrow>
   (nat \<times> nat \<times> nat) list \<Rightarrow> nat \<Rightarrow> 's chunkdb \<Rightarrow> ('s chunkdb \<times> (error + WorkerMetrics)) option" where
  "run_worker_single L H now mkdir o' w n salt ts fin q =
     (if o_write_percent o' > 100 then Some (q, Inl (Anyhow ''write_percent must be in [0, 100]''))
      else case mkdir of
        Inl _ \<Rightarrow> Some (q, Inl (Anyhow ''failed to create db directory''))
      | Inr _ \<Rightarrow>
          (case timed_loop (single_op L H now o' salt w) (nanos (o_duration_secs o')) ts
                  (q, bench_thread_new (worker_seed salt w) (read_buffer o')) of
             None \<Rightarrow> None
           | Some ((q', _), Inl e) \<Rightarrow> Some (q', Inl e)
           | Some ((q', s), Inr _) \<Rightarrow> Some (q', Inr (worker_metrics (thread_metrics s) w n fin))))"

subsection \<open>Readers and writers side by side\<close>

text \<open>
  The threads of the concurrent mixed scenario share the database.  A schedule says which thread
  takes its next turn with which readings; a thread is done at the deadline or with an error.
\<close>

datatype bench_role = Reader | Writer nat bytes

record mixed_thread =
  mt_role :: bench_role
  mt_state :: bench_thread
  mt_done :: "(error + unit) option"

definition thread_base :: "nat \<Rightarrow> nat \<Rightarrow> nat \<Rightarrow> nat" where
  "thread_base preload w t =
     u64_saturating_add (u64_saturating_add (u64_saturating_add preload (w * 2 ^ 40 mod 2 ^ 64)) (t * 2 ^ 24 mod 2 ^ 64)) 1"

definition reader_thread :: "bench_opts \<Rightarrow> nat \<Rightarrow> nat \<Rightarrow> nat \<Rightarrow> mixed_thread" where
  "reader_thread o' salt w t =
     \<lparr>mt_role = Reader,
      mt_state = bench_thread_new (worker_seed salt w XOR push_bit 8 (of_nat t) XOR 0xA5A5A5A5) (read_buffer o'),
      mt_done = None\<rparr>"

definition writer_thread :: "bench_opts \<Rightarrow> nat \<Rightarrow> nat \<Rightarrow> nat \<Rightarrow> mixed_thread" where
  "writer_thread o' salt w t =
     \<lparr>mt_role = Writer (thread_base (o_preload_chunks o') w t) (prepare_data (o_chunk_size o') (as_u32 (w + t))),
      mt_state = bench_thread_new (worker_seed salt w XOR push_bit 8 (of_nat t) XOR 0x5A5A5A5A) [],
      mt_done = None\<rparr>"

definition mixed_op ::
  "('s, 'm) chunk_env_scheme \<Rightarrow> digests \<Rightarrow> nat \<Rightarrow> bench_opts \<Rightarrow> nat \<Rightarrow> bench_role \<Rightarrow> nat \<Rightarrow>
   's chunkdb \<times> bench_thread \<Rightarrow> (('s chunkdb \<times> bench_thread) \<times> (error + unit)) option" where
  "mixed_op L H now o' salt role ns qs =
     (case role of Reader \<Rightarrow> Some (read_op L H o' salt ns qs) | Writer base data \<Rightarrow> write_op L H now o' salt base data ns qs)"

definition mixed_turn ::
  "('s, 'm) chunk_env_scheme \<Rightarrow> digests \<Rightarrow> nat \<Rightarrow> bench_opts \<Rightarrow> nat \<Rightarrow> nat \<times> nat \<times> nat \<times> nat \<Rightarrow>
   's chunkdb \<times> mixed_thread list \<Rightarrow> ('s chunkdb \<times> mixed_thread list) option" where
  "mixed_turn L H now o' salt = (\<lambda>(k, t, t0, t1) (q, ths).
     if k < length ths \<and> mt_done (ths ! k) = None then
       (if t \<ge> nanos (o_duration_secs o') then Some (q, ths[k := (ths ! k)\<lparr>mt_done := Some (Inr ())\<rparr>])
        else case mixed_op L H now o' salt (mt_role (ths ! k)) ((t1 - t0) mod 2 ^ 64) (q, mt_state (ths ! k)) of
          None \<Rightarrow> None
        | Some ((q', s), Inl e) \<Rightarrow> Some (q', ths[k := (ths ! k)\<lparr>mt_state := s, mt_done := Some (Inl e)\<rparr>])
        | Some ((q', s), Inr _) \<Rightarrow> Some (q', ths[k := (ths ! k)\<lparr>mt_state := s\<rparr>]))
     else Some (q, ths))"

fun mixed_run ::
  "('s, 'm) chunk_env_scheme \<Rightarrow> digests \<Rightarrow> nat \<Rightarrow> bench_opts \<Rightarrow> nat \<Rightarrow> (nat \<times> nat \<times> nat \<times> nat) list \<Rightarrow>
   's chunkdb \<times> mixed_thread list \<Rightarrow> ('s chunkdb \<times> mixed_thread list) option" where
  "mixed_run L H now o' salt [] st = Some st"
| "mixed_run L H now o' salt (x # xs) st =
     (case mixed_turn L H now o' salt x st of None \<Rightarrow> None | Some st' \<Rightarrow> mixed_run L H now o' salt xs st')"

text \<open>The threads are joined in order; a panic of a thread is an error of the run.\<close>

definition add_metrics :: "ThreadMetrics \<Rightarrow> ThreadMetrics \<Rightarrow> ThreadMetrics" where
  "add_metrics a p =
     \<lparr>ops_total = u64_saturating_add (ops_total a) (ops_total p), read_ops = u64_saturating_add (read_ops a) (read_ops p),
      write_ops = u64_saturating_add (write_ops a) (write_ops p),
      read_misses = u64_saturating_add (read_misses a) (read_misses p),
      bytes_read = u64_saturating_add (bytes_read a) (bytes_read p),
      bytes_written = u64_saturating_add (bytes_written a) (bytes_written p),
      latency_seen = u64_saturating_add (latency_seen a) (latency_seen p),
      latency_samples = latency_samples a @ latency_samples p\<rparr>"

fun join_threads :: "ThreadMetrics \<Rightarrow> mixed_thread list \<Rightarrow> (error + ThreadMetrics) option" where
  "join_threads acc [] = Some (Inr acc)"
| "join_threads acc (th # ths) =
     (case mt_done th of
        None \<Rightarrow> None
      | Some (Inl e) \<Rightarrow> Some (Inl (if e = Panic then Anyhow ''mixed concurrent worker thread panicked'' else e))
      | Some (Inr _) \<Rightarrow> join_threads (add_metrics acc (thread_metrics (mt_state th))) ths)"

definition run_worker_mixed_concurrent ::
  "('s, 'm) chunk_env_scheme \<Rightarrow> digests \<Rightarrow> nat \<Rightarrow> bench_opts \<Rightarrow> nat \<Rightarrow> nat \<Rightarrow> nat \<Rightarrow>
   (nat \<times> nat \<times> nat \<times> nat) list \<Rightarrow> nat \<Rightarrow> 's chunkdb \<Rightarrow> ('s chunkdb \<times> (error + WorkerMetrics)) option" where
  "run_worker_mixed_concurrent L H now o' w n salt schedule fin q =
     (let threads = map (reader_thread o' salt w) [0 ..< o_reader_threads o'] @
                    map (writer_thread o' salt w) [0 ..< o_writer_threads o']
      in case mixed_run L H now o' salt schedule (q, threads) of
           None \<Rightarrow> None
         | Some (q', ths) \<Rightarrow>
             (case join_threads ThreadMetrics_default ths of
                None \<Rightarrow> None
              | Some (Inl e) \<Rightarrow> Some (q', Inl e)
              | Some (Inr m) \<Rightarrow> Some (q', Inr (worker_metrics m w n fin))))"

subsection \<open>The line of a worker process\<close>

definition worker_metrics_to_wire :: "WorkerMetrics \<Rightarrow> json" where
  "worker_metrics_to_wire m = JObject
     [(''worker_index'', JNat (worker_index m)), (''process_count'', JNat (process_count m)),
      (''elapsed_ns'', JNat (elapsed_ns m mod 2 ^ 64)), (''ops_total'', JNat (ops_total m)),
      (''read_ops'', JNat (read_ops m)), (''write_ops'', JNat (write_ops m)), (''read_misses'', JNat (read_misses m)),
      (''bytes_read'', JNat (bytes_read m)), (''bytes_written'', JNat (bytes_written m)),
      (''latency_seen'', JNat (latency_seen m)), (''latency_samples_ns'', JArray (map JNat (latency_samples m)))]"

text \<open>Indexing a value that is no object, or has no such key, gives null.\<close>

definition json_get :: "json \<Rightarrow> string \<Rightarrow> json" where
  "json_get v k = (case v of JObject kvs \<Rightarrow> (case map_of kvs k of Some x \<Rightarrow> x | None \<Rightarrow> JNull) | _ \<Rightarrow> JNull)"

definition as_u64 :: "json \<Rightarrow> nat option" where
  "as_u64 v = (case v of JNat n \<Rightarrow> (if n < 2 ^ 64 then Some n else None) | _ \<Rightarrow> None)"

definition as_array :: "json \<Rightarrow> json list option" where
  "as_array v = (case v of JArray xs \<Rightarrow> Some xs | _ \<Rightarrow> None)"

definition u64_or :: "json \<Rightarrow> string \<Rightarrow> nat \<Rightarrow> nat" where
  "u64_or v k d = (case as_u64 (json_get v k) of Some n \<Rightarrow> n | None \<Rightarrow> d)"

fun all_u64 :: "json list \<Rightarrow> error + nat list" where
  "all_u64 [] = Inr []"
| "all_u64 (x # xs) =
     (case as_u64 x of
        None \<Rightarrow> Inl (Anyhow ''invalid latency sample value'')
      | Some n \<Rightarrow> (case all_u64 xs of Inl e \<Rightarrow> Inl e | Inr ns \<Rightarrow> Inr (n # ns)))"

text \<open>\<open>from_str\<close> is the parser of \<open>serde_json\<close>; the output of a worker is a list of lines.\<close>

definition parse_worker_metrics :: "(string \<Rightarrow> json option) \<Rightarrow> string list \<Rightarrow> error + WorkerMetrics" where
  "parse_worker_metrics from_str out =
     (case find (\<lambda>l. take (length WORKER_PREFIX) l = WORKER_PREFIX) out of
        None \<Rightarrow> Inl (Anyhow ''worker output missing metrics line'')
      | Some line \<Rightarrow>
          (case from_str (drop (length WORKER_PREFIX) line) of
             None \<Rightarrow> Inl (Anyhow ''invalid worker metrics JSON'')
           | Some v \<Rightarrow>
               (case as_array (json_get v ''latency_samples_ns'') of
                  None \<Rightarrow> Inl (Anyhow ''missing latency_samples_ns'')
                | Some xs \<Rightarrow>
                    (case all_u64 xs of
                       Inl e \<Rightarrow> Inl e
                     | Inr samples \<Rightarrow> Inr
                         \<lparr>ops_total = u64_or v ''ops_total'' 0, read_ops = u64_or v ''read_ops'' 0,
                          write_ops = u64_or v ''write_ops'' 0, read_misses = u64_or v ''read_misses'' 0,
                          bytes_read = u64_or v ''bytes_read'' 0, bytes_written = u64_or v ''bytes_written'' 0,
                          latency_seen = u64_or v ''latency_seen'' 0, latency_samples = samples,
                          worker_index = as_u32 (u64_or v ''worker_index'' 0),
                          process_count = as_u32 (u64_or v ''process_count'' 1),
                          elapsed_ns = u64_or v ''elapsed_ns'' 0\<rparr>))))"

subsection \<open>The report\<close>

text \<open>\<open>iter().sum()\<close> of \<open>u64\<close> values wraps.\<close>

definition sum_u64 :: "nat list \<Rightarrow> nat" where
  "sum_u64 xs = foldl u64_add 0 xs"

definition total_metrics :: "WorkerMetrics list \<Rightarrow> ThreadMetrics" where
  "total_metrics ws =
     \<lparr>ops_total = sum_u64 (map ops_total ws), read_ops = sum_u64 (map read_ops ws), write_ops = sum_u64 (map write_ops ws),
      read_misses = sum_u64 (map read_misses ws), bytes_read = sum_u64 (map bytes_read ws),
      bytes_written = sum_u64 (map bytes_written ws),
      latency_seen = foldl u64_saturating_add 0 (map latency_seen ws),
      latency_samples = concat (map latency_samples ws)\<rparr>"

definition max_elapsed :: "WorkerMetrics list \<Rightarrow> nat" where
  "max_elapsed ws = fold max (map elapsed_ns ws) 0"

definition aggregate :: "bench_opts \<Rightarrow> WorkerMetrics list \<Rightarrow> nat \<Rightarrow> json" where
  "aggregate o' ws salt =
     (let m = total_metrics ws in JObject
       [(''bench'', JObject
          [(''scenario'', JText (scenario_name (o_scenario o'))), (''db_path'', JText (o_db_path o')),
           (''chunk_size'', JNat (o_chunk_size o')), (''duration_secs'', JNat (o_duration_secs o')),
           (''preload_chunks'', JNat (o_preload_chunks o')), (''processes'', JNat (length ws)),
           (''write_percent'', JNat (o_write_percent o')), (''write_keyspace_chunks'', JNat (o_write_keyspace o')),
           (''reset_db'', JBool (o_reset_db o')), (''read_copy'', JBool (o_read_copy o')),
           (''mixed_concurrent'', JBool (o_mixed_concurrent o')),
           (''mixed_reader_threads'', JNat (o_reader_threads o')), (''mixed_writer_threads'', JNat (o_writer_threads o')),
           (''hash_method'', JText (hash_name (o_hash_method o'))), (''run_salt'', JNat salt)]),
        (''aggregate'', JObject (figures (max_elapsed ws) (sort (latency_samples m)) m)),
        (''workers'', JArray (map to_json ws))])"

subsection \<open>The program\<close>

text \<open>The arguments of a worker process.\<close>

definition flag :: "bool \<Rightarrow> string \<Rightarrow> string list" where
  "flag b s = (if b then [s] else [])"

definition worker_args :: "bench_opts \<Rightarrow> nat \<Rightarrow> nat \<Rightarrow> string list" where
  "worker_args o' salt i =
     [''--db-path'', o_db_path o', ''--scenario'', scenario_name (o_scenario o'),
      ''--chunk-size'', decimal (o_chunk_size o'), ''--duration-secs'', decimal (o_duration_secs o'),
      ''--preload-chunks'', decimal (o_preload_chunks o'), ''--processes'', ''1'',
      ''--write-percent'', decimal (o_write_percent o'), ''--write-keyspace-chunks'', decimal (o_write_keyspace o')] @
     flag (o_reset_db o') ''--reset-db'' @ [''--hash-method'', hash_name (o_hash_method o')] @
     flag (o_read_copy o') ''--read-copy'' @ flag (o_mixed_concurrent o') ''--mixed-concurrent'' @
     [''--mixed-reader-threads'', decimal (o_reader_threads o'), ''--mixed-writer-threads'', decimal (o_writer_threads o'),
      ''--worker-index'', decimal i, ''--run-salt'', decimal salt, ''--json-only'', ''--skip-preload'']"

text \<open>
  The outside of the program: the directory of the database and its opening (told whether the
  directory was removed before), the clock for the salt, child processes, the parser of JSON.  The
  result of a child says whether its exit was a success, with its lines of output.
\<close>

record ('s, 'c) bench_env =
  be_mkdir :: "error + unit"
  be_open :: "bool \<Rightarrow> error + 's chunkdb"
  be_salt :: nat
  be_spawn :: "string list \<Rightarrow> error + 'c"
  be_wait :: "'c \<Rightarrow> error + bool \<times> string list"
  be_from_str :: "string \<Rightarrow> json option"

fun spawn_all :: "(string list \<Rightarrow> error + 'c) \<Rightarrow> string list list \<Rightarrow> error + 'c list" where
  "spawn_all spawn [] = Inr []"
| "spawn_all spawn (a # args) =
     (case spawn a of
        Inl _ \<Rightarrow> Inl (Anyhow ''failed to spawn worker process'')
      | Inr c \<Rightarrow> (case spawn_all spawn args of Inl e \<Rightarrow> Inl e | Inr cs \<Rightarrow> Inr (c # cs)))"

fun wait_all ::
  "('c \<Rightarrow> error + bool \<times> string list) \<Rightarrow> (string \<Rightarrow> json option) \<Rightarrow> 'c list \<Rightarrow> error + WorkerMetrics list" where
  "wait_all wait from_str [] = Inr []"
| "wait_all wait from_str (c # cs) =
     (case wait c of
        Inl _ \<Rightarrow> Inl (Anyhow ''failed waiting for worker output'')
      | Inr (success, out) \<Rightarrow>
          (if \<not> success then Inl (Anyhow ''worker exited with status'')
           else case parse_worker_metrics from_str out of
             Inl e \<Rightarrow> Inl e
           | Inr m \<Rightarrow> (case wait_all wait from_str cs of Inl e \<Rightarrow> Inl e | Inr ms \<Rightarrow> Inr (m # ms))))"

definition spawn_workers :: "('s, 'c) bench_env \<Rightarrow> bench_opts \<Rightarrow> nat \<Rightarrow> error + WorkerMetrics list" where
  "spawn_workers W o' salt =
     (case spawn_all (be_spawn W) (map (worker_args o' salt) [0 ..< o_processes o']) of
        Inl e \<Rightarrow> Inl e
      | Inr children \<Rightarrow> wait_all (be_wait W) (be_from_str W) children)"

text \<open>The readings of the clock: those of a single worker, the schedule of concurrent threads, the last one.\<close>

record bench_clock =
  bc_single :: "(nat \<times> nat \<times> nat) list"
  bc_schedule :: "(nat \<times> nat \<times> nat \<times> nat) list"
  bc_end :: nat

definition run_worker ::
  "('s, 'm) chunk_env_scheme \<Rightarrow> digests \<Rightarrow> nat \<Rightarrow> error + unit \<Rightarrow> bench_opts \<Rightarrow> nat \<Rightarrow> nat \<Rightarrow> nat \<Rightarrow> bench_clock \<Rightarrow>
   's chunkdb \<Rightarrow> ('s chunkdb \<times> (error + WorkerMetrics)) option" where
  "run_worker L H now mkdir o' w n salt c q =
     (if o_scenario o' = Mixed \<and> o_mixed_concurrent o' then run_worker_mixed_concurrent L H now o' w n salt (bc_schedule c) (bc_end c) q
      else run_worker_single L H now mkdir o' w n salt (bc_single c) (bc_end c) q)"

definition check_opts :: "bench_opts \<Rightarrow> error + unit" where
  "check_opts o' =
     (if o_processes o' = 0 then Inl (Anyhow ''processes must be >= 1'')
      else if o_chunk_size o' = 0 then Inl (Anyhow ''chunk_size must be > 0'')
      else if o_mixed_concurrent o' \<and> o_scenario o' \<noteq> Mixed then
        Inl (Anyhow ''mixed_concurrent is only valid when scenario is mixed'')
      else if o_mixed_concurrent o' \<and> (o_reader_threads o' = 0 \<or> o_writer_threads o' = 0) then
        Inl (Anyhow ''mixed concurrent mode requires reader/writer threads > 0'')
      else Inr ())"

datatype bench_output = WorkerLine json | Report json

definition preload_unless_skipped ::
  "('s, 'm) chunk_env_scheme \<Rightarrow> digests \<Rightarrow> nat \<Rightarrow> bench_opts \<Rightarrow> nat \<Rightarrow> 's chunkdb \<Rightarrow> ('s chunkdb \<times> (error + unit)) option" where
  "preload_unless_skipped L H now o' salt q =
     (if o_skip_preload o' then Some (q, Inr ()) else preload_for_reads L H now o' salt q)"

text \<open>The directory is made, the database opened and filled.\<close>

definition open_and_preload ::
  "('s, 'm) chunk_env_scheme \<Rightarrow> digests \<Rightarrow> nat \<Rightarrow> ('s, 'c) bench_env \<Rightarrow> bench_opts \<Rightarrow> nat \<Rightarrow> bool \<Rightarrow> (error + 's chunkdb) option" where
  "open_and_preload L H now W o' salt wiped =
     (case be_mkdir W of
        Inl e \<Rightarrow> Some (Inl e)
      | Inr _ \<Rightarrow>
          (case be_open W wiped of
             Inl e \<Rightarrow> Some (Inl e)
           | Inr q \<Rightarrow>
               (case preload_unless_skipped L H now o' salt q of
                  None \<Rightarrow> None
                | Some (q', Inl e) \<Rightarrow> Some (Inl e)
                | Some (q', Inr _) \<Rightarrow> Some (Inr q'))))"

definition bench_worker_main ::
  "('s, 'm) chunk_env_scheme \<Rightarrow> digests \<Rightarrow> nat \<Rightarrow> ('s, 'c) bench_env \<Rightarrow> bench_opts \<Rightarrow> nat \<Rightarrow> nat \<Rightarrow> bench_clock \<Rightarrow>
   (error + bench_output) option" where
  "bench_worker_main L H now W o' salt w c =
     (case open_and_preload L H now W o' salt False of
        None \<Rightarrow> None
      | Some (Inl e) \<Rightarrow> Some (Inl e)
      | Some (Inr q) \<Rightarrow>
          (case run_worker L H now (be_mkdir W) o' w 1 salt c q of
             None \<Rightarrow> None
           | Some (q', Inl e) \<Rightarrow> Some (Inl e)
           | Some (q', Inr m) \<Rightarrow> Some (Inr (WorkerLine (worker_metrics_to_wire m)))))"

definition bench_main ::
  "('s, 'm) chunk_env_scheme \<Rightarrow> digests \<Rightarrow> nat \<Rightarrow> ('s, 'c) bench_env \<Rightarrow> bench_opts \<Rightarrow> bench_clock \<Rightarrow>
   (error + bench_output) option" where
  "bench_main L H now W o' c =
     (case check_opts o' of
        Inl e \<Rightarrow> Some (Inl e)
      | Inr _ \<Rightarrow>
          (let salt = (case o_run_salt o' of Some s \<Rightarrow> s | None \<Rightarrow> be_salt W) in
           case o_worker_index o' of
             Some w \<Rightarrow> bench_worker_main L H now W o' salt w c
           | None \<Rightarrow>
               (case open_and_preload L H now W o' salt (o_reset_db o') of
                  None \<Rightarrow> None
                | Some (Inl e) \<Rightarrow> Some (Inl e)
                | Some (Inr q) \<Rightarrow>
                    (if o_processes o' = 1 then
                       (case run_worker L H now (be_mkdir W) o' 0 1 salt c q of
                          None \<Rightarrow> None
                        | Some (q', Inl e) \<Rightarrow> Some (Inl e)
                        | Some (q', Inr m) \<Rightarrow> Some (Inr (Report (aggregate o' [m] salt))))
                     else
                       (case spawn_workers W o' salt of
                          Inl e \<Rightarrow> Some (Inl e)
                        | Inr ms \<Rightarrow> Some (Inr (Report (aggregate o' ms salt))))))))"

end
