(* ===== verification/PeerBench.thy ===== *)
theory PeerBench
  imports Bench PeerClient OpenDb
begin

text \<open>
  \<open>src/bin/peer_bench.rs\<close>: the benchmark of the peer service.  It fills a database with chunks, starts
  a chunk server on it, and lets workers fetch these chunks over TCP with one peer client until a
  deadline.  The random generator, the sampler, the percentiles and the rates are the same code as in
  \<open>Bench\<close>; here the loops over the client are modelled.

  The workers are tasks of one runtime that share the client: a schedule says which worker takes its
  next turn, with the readings of the clock in nanoseconds; a fetch is one step.  The server and the
  network are the client's environment.
\<close>

definition DEFAULT_UNIQUE_CHUNKS :: nat where "DEFAULT_UNIQUE_CHUNKS = 64"
definition DEFAULT_WORKERS :: nat where "DEFAULT_WORKERS = 4"
definition DEFAULT_DURATION_SECS :: nat where "DEFAULT_DURATION_SECS = 10"
definition DEFAULT_WARMUP_SECS :: nat where "DEFAULT_WARMUP_SECS = 2"

record peer_bench_opts =
  p_db_path :: string
  p_chunk_size :: nat
  p_unique_chunks :: nat
  p_workers :: nat
  p_warmup_secs :: nat
  p_duration_secs :: nat
  p_reset_db :: bool
  p_hash_method :: HashMethod
  p_verify_payload :: bool
  p_json_only :: bool

record PeerMetrics =
  pm_worker_index :: nat
  pm_elapsed_ns :: nat
  pm_ops_total :: nat
  pm_bytes_read :: nat
  pm_misses :: nat
  pm_verify_failures :: nat
  pm_latency_seen :: nat
  pm_latency_samples :: "nat list"

definition PeerMetrics_new :: "nat \<Rightarrow> PeerMetrics" where
  "PeerMetrics_new i = \<lparr>pm_worker_index = i, pm_elapsed_ns = 0, pm_ops_total = 0, pm_bytes_read = 0, pm_misses = 0,
     pm_verify_failures = 0, pm_latency_seen = 0, pm_latency_samples = []\<rparr>"

subsection \<open>The chunks\<close>

fun preload_indices ::
  "('s, 'm) chunk_env_scheme \<Rightarrow> digests \<Rightarrow> nat \<Rightarrow> nat \<Rightarrow> CheckSumMethod \<Rightarrow> CheckSum list \<Rightarrow> nat list \<Rightarrow> 's chunkdb \<Rightarrow>
   ('s chunkdb \<times> (error + CheckSum list)) option" where
  "preload_indices L H now chunk_size m css [] q = Some (q, Inr css)"
| "preload_indices L H now chunk_size m css (i # ks) q =
     (let data = prepare_data chunk_size i; checksum = CheckSum_from_data H data m in
      case add_chunk L now checksum data q of
        None \<Rightarrow> None
      | Some (q', Inl e) \<Rightarrow> Some (q', Inl e)
      | Some (q', Inr _) \<Rightarrow> preload_indices L H now chunk_size m (css @ [checksum]) ks q')"

definition preload_chunks ::
  "('s, 'm) chunk_env_scheme \<Rightarrow> digests \<Rightarrow> nat \<Rightarrow> nat \<Rightarrow> nat \<Rightarrow> CheckSumMethod \<Rightarrow> 's chunkdb \<Rightarrow>
   ('s chunkdb \<times> (error + CheckSum list)) option" where
  "preload_chunks L H now unique_chunks chunk_size m q = preload_indices L H now chunk_size m [] [0 ..< unique_chunks] q"

text \<open>
  The wait for the server: a turn reads the clock, looks for the socket and tries to connect; the
  connection is tried only when the socket is there.  \<open>None\<close>: the readings are used up.
\<close>

fun wait_for_server_ready :: "(nat \<times> bool \<times> bool) list \<Rightarrow> nat \<Rightarrow> (error + unit) option" where
  "wait_for_server_ready [] deadline = None"
| "wait_for_server_ready ((t, exists, connects) # ts) deadline =
     (if t \<ge> deadline then Some (Inl (Anyhow ''chunk server did not become ready in time''))
      else if exists \<and> connects then Some (Inr ())
      else wait_for_server_ready ts deadline)"

subsection \<open>A worker\<close>

text \<open>\<open>Started\<close>: before the first reading; then until the end of the warm-up, and until the deadline of
  the measurement that began at the given time.\<close>

datatype peer_phase = Started | WarmUp nat | Measure nat | Done

record peer_worker =
  pw_phase :: peer_phase
  pw_cursor :: nat
  pw_lat :: LatencySampler
  pw_out :: PeerMetrics

definition peer_worker_new :: "nat \<Rightarrow> peer_worker" where
  "peer_worker_new i = \<lparr>pw_phase = Started, pw_cursor = i, pw_lat = LatencySampler_new LATENCY_SAMPLE_CAP (of_nat i + 1),
     pw_out = PeerMetrics_new i\<rparr>"

text \<open>What a fetched payload counts as: its bytes or a failure, and, when payloads are verified, a
  failure if it is not what was stored.\<close>

definition count_payload :: "peer_bench_opts \<Rightarrow> nat \<Rightarrow> bytes option \<Rightarrow> PeerMetrics \<Rightarrow> PeerMetrics" where
  "count_payload o' chunk_idx got m =
     (case got of
        None \<Rightarrow> m\<lparr>pm_misses := u64_saturating_add (pm_misses m) 1\<rparr>
      | Some data \<Rightarrow>
          (let m = (if length data = p_chunk_size o' then m\<lparr>pm_bytes_read := u64_saturating_add (pm_bytes_read m) (length data)\<rparr>
                    else m\<lparr>pm_verify_failures := u64_saturating_add (pm_verify_failures m) 1\<rparr>)
           in if p_verify_payload o' \<and> data \<noteq> prepare_data (p_chunk_size o') chunk_idx
              then m\<lparr>pm_verify_failures := u64_saturating_add (pm_verify_failures m) 1\<rparr> else m))"

definition finish_fetch :: "nat \<Rightarrow> peer_worker \<Rightarrow> peer_worker" where
  "finish_fetch ns s =
     s\<lparr>pw_lat := observe ns (pw_lat s), pw_out := (pw_out s)\<lparr>pm_ops_total := u64_saturating_add (pm_ops_total (pw_out s)) 1\<rparr>,
       pw_cursor := u64_saturating_add (pw_cursor s) 1\<rparr>"

text \<open>
  One turn with the readings \<open>t\<close> of the loop test (or of the start), and \<open>t0\<close>, \<open>t1\<close> around the fetch;
  at the end of the warm-up \<open>t0\<close> is the start of the measurement, at the deadline \<open>t0\<close> is the last
  reading.
\<close>

definition peer_turn ::
  "('x, 'a, 'w) client_env \<Rightarrow> 'a peer_config \<Rightarrow> peer_bench_opts \<Rightarrow> CheckSum list \<Rightarrow> nat \<times> nat \<times> nat \<Rightarrow>
   ('x, 'a, 'w) peer_client \<times> peer_worker \<Rightarrow> ('x, 'a, 'w) peer_client \<times> peer_worker" where
  "peer_turn E c o' css = (\<lambda>(t, t0, t1) (P, s).
     case pw_phase s of
       Started \<Rightarrow> (P, s\<lparr>pw_phase := WarmUp (t + nanos (p_warmup_secs o'))\<rparr>)
     | WarmUp deadline \<Rightarrow>
         (if t \<ge> deadline then (P, s\<lparr>pw_phase := Measure t0\<rparr>)
          else case fetch_chunk_from_peers E c (css ! (pw_cursor s mod length css)) P of
            (P', _) \<Rightarrow> (P', s\<lparr>pw_cursor := u64_saturating_add (pw_cursor s) 1\<rparr>))
     | Measure start \<Rightarrow>
         (if t \<ge> start + nanos (p_duration_secs o') then
            (P, s\<lparr>pw_phase := Done, pw_out := (pw_out s)\<lparr>pm_elapsed_ns := t0 - start, pm_latency_seen := ls_seen (pw_lat s),
                                                       pm_latency_samples := ls_samples (pw_lat s)\<rparr>\<rparr>)
          else
            (let chunk_idx = pw_cursor s mod length css in
             case fetch_chunk_from_peers E c (css ! chunk_idx) P of
               (P', got) \<Rightarrow>
                 (P', finish_fetch ((t1 - t0) mod 2 ^ 64) (s\<lparr>pw_out := count_payload o' chunk_idx got (pw_out s)\<rparr>))))
     | Done \<Rightarrow> (P, s))"

fun peer_schedule ::
  "('x, 'a, 'w) client_env \<Rightarrow> 'a peer_config \<Rightarrow> peer_bench_opts \<Rightarrow> CheckSum list \<Rightarrow> (nat \<times> nat \<times> nat \<times> nat) list \<Rightarrow>
   ('x, 'a, 'w) peer_client \<times> peer_worker list \<Rightarrow> ('x, 'a, 'w) peer_client \<times> peer_worker list" where
  "peer_schedule E c o' css [] st = st"
| "peer_schedule E c o' css ((k, r) # sched) (P, ws) =
     (if k < length ws then
        (case peer_turn E c o' css r (P, ws ! k) of (P', s) \<Rightarrow> peer_schedule E c o' css sched (P', ws[k := s]))
      else peer_schedule E c o' css sched (P, ws))"

text \<open>The reports are awaited in order; \<open>None\<close> when a worker is not done.\<close>

definition run_workers ::
  "('x, 'a, 'w) client_env \<Rightarrow> 'a peer_config \<Rightarrow> peer_bench_opts \<Rightarrow> CheckSum list \<Rightarrow> (nat \<times> nat \<times> nat \<times> nat) list \<Rightarrow>
   ('x, 'a, 'w) peer_client \<Rightarrow> PeerMetrics list option" where
  "run_workers E c o' css sched P =
     (let ws = snd (peer_schedule E c o' css sched (P, map peer_worker_new [0 ..< p_workers o']))
      in if list_all (\<lambda>s. pw_phase s = Done) ws then Some (map pw_out ws) else None)"

subsection \<open>The report\<close>

definition peer_figures :: "nat \<Rightarrow> nat list \<Rightarrow> PeerMetrics \<Rightarrow> (string \<times> json) list" where
  "peer_figures ns samples m =
     (let secs = ns_to_secs ns in
      [(''elapsed_ns'', JNat ns), (''elapsed_secs'', JFloat secs), (''ops_total'', JNat (pm_ops_total m)),
       (''bytes_read'', JNat (pm_bytes_read m)), (''misses'', JNat (pm_misses m)),
       (''verify_failures'', JNat (pm_verify_failures m)), (''ops_per_sec'', JFloat (rate (pm_ops_total m) secs)),
       (''mb_read_per_sec'', JFloat (bytes_rate_mb (pm_bytes_read m) secs)), (''latency_seen'', JNat (pm_latency_seen m)),
       (''latency_sample_count'', JNat (length samples)), (''latency_ns_p50'', JNat (percentile samples (50 / 100))),
       (''latency_ns_p95'', JNat (percentile samples (95 / 100))), (''latency_ns_p99'', JNat (percentile samples (99 / 100)))])"

definition peer_to_json :: "PeerMetrics \<Rightarrow> json" where
  "peer_to_json m = JObject ((''worker_index'', JNat (pm_worker_index m)) # peer_figures (pm_elapsed_ns m) (sort (pm_latency_samples m)) m)"

definition peer_totals :: "PeerMetrics list \<Rightarrow> PeerMetrics" where
  "peer_totals ws =
     \<lparr>pm_worker_index = 0, pm_elapsed_ns = fold max (map pm_elapsed_ns ws) 0, pm_ops_total = sum_u64 (map pm_ops_total ws),
      pm_bytes_read = sum_u64 (map pm_bytes_read ws), pm_misses = sum_u64 (map pm_misses ws),
      pm_verify_failures = sum_u64 (map pm_verify_failures ws),
      pm_latency_seen = foldl u64_saturating_add 0 (map pm_latency_seen ws),
      pm_latency_samples = concat (map pm_latency_samples ws)\<rparr>"

definition peer_aggregate :: "peer_bench_opts \<Rightarrow> PeerMetrics list \<Rightarrow> json" where
  "peer_aggregate o' ws =
     (let m = peer_totals ws in JObject
       [(''bench'', JObject
          [(''mode'', JText ''peer_local_tcp''), (''db_path'', JText (p_db_path o')), (''chunk_size'', JNat (p_chunk_size o')),
           (''unique_chunks'', JNat (p_unique_chunks o')), (''workers'', JNat (p_workers o')),
           (''warmup_secs'', JNat (p_warmup_secs o')), (''duration_secs'', JNat (p_duration_secs o')),
           (''reset_db'', JBool (p_reset_db o')), (''hash_method'', JText (hash_name (p_hash_method o'))),
           (''verify_payload'', JBool (p_verify_payload o'))]),
        (''aggregate'', JObject (peer_figures (pm_elapsed_ns m) (sort (pm_latency_samples m)) m)),
        (''workers'', JArray (map peer_to_json ws))])"

subsection \<open>The program\<close>

definition check_peer_opts :: "peer_bench_opts \<Rightarrow> error + unit" where
  "check_peer_opts o' =
     (if p_chunk_size o' = 0 then Inl (Anyhow ''chunk_size must be > 0'')
      else if p_chunk_size o' > CHUNK_SIZE then Inl (Anyhow ''chunk_size must be <= CHUNK_SIZE bytes'')
      else if p_unique_chunks o' = 0 then Inl (Anyhow ''unique_chunks must be > 0'')
      else if p_workers o' = 0 then Inl (Anyhow ''workers must be > 0'')
      else Inr ())"

text \<open>
  The outside of the program: the directory, the two runtimes, the opening of the database (told
  whether the directory was removed before), the socket directory, the start of the server, what the
  wait for it sees, the join of its thread, the client of the filled database and the schedule.
\<close>

record ('s, 'x, 'a, 'w) peer_bench_env =
  pb_mkdir :: "error + unit"
  pb_runtimes :: "error + unit"
  pb_open :: "bool \<Rightarrow> error + 's chunkdb"
  pb_start :: "'s chunkdb \<Rightarrow> error + unit"
  pb_ready :: "(nat \<times> bool \<times> bool) list"
  pb_client :: "'s chunkdb \<Rightarrow> ('x, 'a, 'w) peer_client"
  pb_schedule :: "(nat \<times> nat \<times> nat \<times> nat) list"
  pb_join :: "error + unit"

definition verify_first ::
  "('x, 'a, 'w) client_env \<Rightarrow> 'a peer_config \<Rightarrow> peer_bench_opts \<Rightarrow> CheckSum list \<Rightarrow> ('x, 'a, 'w) peer_client \<Rightarrow>
   error + ('x, 'a, 'w) peer_client" where
  "verify_first E c o' css P =
     (if p_verify_payload o' then
        (case fetch_chunk_from_peers E c (css ! 0) P of
           (P', None) \<Rightarrow> Inl (Anyhow ''verification fetch returned miss'')
         | (P', Some data) \<Rightarrow>
             (if data \<noteq> prepare_data (p_chunk_size o') 0 then Inl (Anyhow ''verification fetch did not match expected payload'')
              else Inr P'))
      else Inr P)"

definition peer_bench_main ::
  "('s, 'm) chunk_env_scheme \<Rightarrow> digests \<Rightarrow> nat \<Rightarrow> ('x, 'a, 'w) client_env \<Rightarrow> 'a peer_config \<Rightarrow> ('s, 'x, 'a, 'w) peer_bench_env \<Rightarrow>
   peer_bench_opts \<Rightarrow> (error + json) option" where
  "peer_bench_main L H now E c W o' =
     (case and_then (check_peer_opts o') (\<lambda>_. and_then (pb_mkdir W) (\<lambda>_. and_then (pb_runtimes W) (\<lambda>_. pb_open W (p_reset_db o')))) of
        Inl e \<Rightarrow> Some (Inl e)
      | Inr q \<Rightarrow>
          (case preload_chunks L H now (p_unique_chunks o') (p_chunk_size o') (checksum_method (p_hash_method o')) q of
             None \<Rightarrow> None
           | Some (q', Inl e) \<Rightarrow> Some (Inl e)
           | Some (q', Inr css) \<Rightarrow>
               (case pb_start W q' of
                  Inl e \<Rightarrow> Some (Inl e)
                | Inr _ \<Rightarrow>
                    (case wait_for_server_ready (pb_ready W) (nanos 5) of
                       None \<Rightarrow> None
                     | Some (Inl e) \<Rightarrow> Some (Inl e)
                     | Some (Inr _) \<Rightarrow>
                         (case verify_first E c o' css (pb_client W q') of
                            Inl e \<Rightarrow> Some (Inl e)
                          | Inr P \<Rightarrow>
                              (case run_workers E c o' css (pb_schedule W) P of
                                 None \<Rightarrow> None
                               | Some ms \<Rightarrow>
                                   (case pb_join W of
                                      Inl _ \<Rightarrow> Some (Inl (Anyhow ''chunk server thread panicked''))
                                    | Inr _ \<Rightarrow> Some (Inr (peer_aggregate o' ms)))))))))"

end
