(* ===== verification/BenchProps.thy ===== *)
theory BenchProps
  imports Bench ChunkSpec
begin

text \<open>
  The benchmark of the chunk database: its latency samples and percentiles, the figures of a worker,
  the keys it reads and writes, and the line a worker process prints.
\<close>

subsection \<open>The random generator\<close>

lemma bit_zeroI: "(\<And>n. n < 64 \<Longrightarrow> \<not> bit (x :: 64 word) n) \<Longrightarrow> x = 0"
  by (rule bit_word_eqI) simp

lemma xor_self_cancel: "(x :: 64 word) XOR y = 0 \<Longrightarrow> y = x"
  by (metis xor.left_neutral xor.right_neutral xor_self_eq xor.assoc)

lemma shift_right_fixed:
  assumes "drop_bit k x = (x :: 64 word)" "0 < k"
  shows "x = 0"
proof (rule bit_zeroI)
  fix n
  have high: "\<not> bit x n" if "64 \<le> n + m" for m n
    using that
  proof (induction m arbitrary: n)
    case (Suc m)
    have "bit x n = bit (drop_bit k x) n" using assms(1) by simp
    also have "\<dots> = bit x (k + n)" by (simp add: bit_drop_bit_eq)
    finally show ?case using Suc.IH [of "k + n"] Suc.prems assms(2) by simp
  next
    case 0
    then show ?case using bit_imp_le_length [of x n] by auto
  qed
  show "\<not> bit x n" by (rule high [of n 64]) simp
qed

lemma shift_left_fixed:
  assumes "push_bit k x = (x :: 64 word)" "0 < k"
  shows "x = 0"
proof (rule bit_zeroI)
  show "\<not> bit x n" for n
  proof (induction n rule: less_induct)
    case (less n)
    have "bit x n = bit (push_bit k x) n" using assms(1) by simp
    then show ?case using less [of "n - k"] assms(2) by (auto simp: bit_push_bit_iff)
  qed
qed

lemma xor_shift_nonzero:
  assumes "(x :: 64 word) \<noteq> 0" "0 < k"
  shows "x XOR drop_bit k x \<noteq> 0" "x XOR push_bit k x \<noteq> 0"
  using assms xor_self_cancel shift_right_fixed shift_left_fixed by metis+

lemma next_u64_nonzero:
  assumes "lcg_state g \<noteq> 0" "next_u64 g = (g', x)"
  shows "lcg_state g' \<noteq> 0"
proof -
  define a where "a = lcg_state g XOR drop_bit 12 (lcg_state g)"
  define b where "b = a XOR push_bit 25 a"
  have "a \<noteq> 0" unfolding a_def by (rule xor_shift_nonzero) (use assms in simp_all)
  then have "b \<noteq> 0" unfolding b_def by (intro xor_shift_nonzero) simp_all
  then have "b XOR drop_bit 27 b \<noteq> 0" by (intro xor_shift_nonzero) simp_all
  moreover have "g' = g\<lparr>lcg_state := b XOR drop_bit 27 b\<rparr>"
    using assms(2) unfolding next_u64_def Let_def a_def b_def by (simp only: prod.inject)
  ultimately show ?thesis by simp
qed

lemma Lcg_new_nonzero: "lcg_state (Lcg_new seed) \<noteq> 0"
  by (simp add: Lcg_new_def)

subsection \<open>Latency samples\<close>

definition sampler_ok :: "nat list \<Rightarrow> LatencySampler \<Rightarrow> bool" where
  "sampler_ok xs l \<longleftrightarrow> ls_seen l = length xs \<and> length (ls_samples l) = min (ls_cap l) (length xs) \<and>
     set (ls_samples l) \<subseteq> set xs \<and> lcg_state (ls_rng l) \<noteq> 0"

lemma sampler_new: "sampler_ok [] (LatencySampler_new cap seed)"
  by (simp add: sampler_ok_def LatencySampler_new_def Lcg_new_nonzero)

lemma sampler_observe:
  assumes ok: "sampler_ok xs l" and small: "length xs < 2 ^ 64 - 1"
  shows "sampler_ok (xs @ [ns]) (observe ns l)" "ls_cap (observe ns l) = ls_cap l"
proof -
  obtain g x where n: "next_u64 (ls_rng l) = (g, x)" by fastforce
  have g: "lcg_state g \<noteq> 0" using next_u64_nonzero [OF _ n] ok by (simp add: sampler_ok_def)
  have seen: "u64_saturating_add (length xs) (Suc 0) = Suc (length xs)"
    using small by (simp add: u64_saturating_add_def)
  have upd: "set ((ls_samples l)[k := ns]) \<subseteq> set (xs @ [ns])" for k
    using set_update_subset_insert [of "ls_samples l" k ns] ok by (auto simp: sampler_ok_def)
  show "sampler_ok (xs @ [ns]) (observe ns l)"
    using ok g upd by (auto simp: observe_def Let_def seen n sampler_ok_def min_def)
  show "ls_cap (observe ns l) = ls_cap l" by (simp add: observe_def Let_def n split: prod.split)
qed

subsection \<open>Percentiles\<close>

lemma filter_split: "filter P xs = filter P (take n xs) @ filter P (drop n xs)"
  by (metis append_take_drop_id filter_append)

text \<open>
  The percentile of a sorted list is one of its values, at least the share \<open>p\<close> of the values is
  at most that large, and less than the share \<open>p\<close> is smaller.
\<close>

theorem percentile_nearest_rank:
  assumes "sorted xs" "xs \<noteq> []" "0 < p" "p \<le> 1"
  shows "percentile xs p \<in> set xs \<and> of_nat (length xs) * p \<le> of_nat (length (filter (\<lambda>x. x \<le> percentile xs p) xs)) \<and>
    of_nat (length (filter (\<lambda>x. x < percentile xs p) xs)) < of_nat (length xs) * p"
proof -
  let ?n = "length xs" and ?c = "nat \<lceil>of_nat (length xs) * p\<rceil>"
  have n: "0 < ?n" using assms(2) by simp
  then have pos: "0 < of_nat ?n * p" using assms(3) by simp
  have "of_nat ?n * p \<le> of_nat ?n" using assms(4) by (simp add: mult_left_le)
  then have le: "?c \<le> ?n" by (simp add: ceiling_le_iff nat_le_iff)
  have c: "0 < ?c" using pos by simp
  define k where "k = ?c - 1"
  have k: "k < ?n" "Suc k = ?c" unfolding k_def using le c by linarith+
  have v: "percentile xs p = xs ! k" using assms(2) k by (simp add: percentile_def k_def min_def)
  have "Suc k \<le> length (filter (\<lambda>x. x \<le> xs ! k) xs)"
  proof -
    have "filter (\<lambda>x. x \<le> xs ! k) (take (Suc k) xs) = take (Suc k) xs"
      using assms(1) k(1) by (auto simp: filter_id_conv in_set_conv_nth less_Suc_eq_le sorted_iff_nth_mono)
    then show ?thesis using k(1) by (simp add: filter_split [of _ xs "Suc k"])
  qed
  moreover have "of_nat ?n * p \<le> of_nat (Suc k)" using k(2) pos by (simp add: of_nat_ceiling)
  ultimately have up: "of_nat ?n * p \<le> of_nat (length (filter (\<lambda>x. x \<le> xs ! k) xs))"
    by (meson of_nat_mono order_trans)
  have "length (filter (\<lambda>x. x < xs ! k) xs) \<le> k"
  proof -
    have "filter (\<lambda>x. x < xs ! k) (drop k xs) = []"
      using assms(1) k(1) by (auto simp: filter_empty_conv in_set_conv_nth not_less intro!: sorted_nth_mono)
    then show ?thesis using length_filter_le [of "\<lambda>x. x < xs ! k" "take k xs"] k(1) by (simp add: filter_split [of _ xs k])
  qed
  moreover have "of_nat k < of_nat ?n * p"
  proof -
    have "int k < \<lceil>of_nat ?n * p\<rceil>" using k(2) c by linarith
    then show ?thesis by (simp add: less_ceiling_iff)
  qed
  ultimately have "of_nat (length (filter (\<lambda>x. x < xs ! k) xs)) < of_nat ?n * p"
    by (meson of_nat_mono order_le_less_trans)
  then show ?thesis using v k(1) up by simp
qed

theorem percentile_nearest_rank_witness: "percentile [10, 20, 30, 40] (50 / 100) \<in> {10, 20, 30, 40}"
  using percentile_nearest_rank [of "[10, 20, 30, 40]" "50 / 100"] by auto

subsection \<open>The figures of a worker\<close>

definition bench_acc :: "nat \<Rightarrow> nat \<Rightarrow> nat \<Rightarrow> bench_thread \<Rightarrow> bool" where
  "bench_acc cs r w s \<longleftrightarrow> (let m = bt_m s in
     ops_total m = r + w \<and> read_ops m = r \<and> write_ops m = w \<and> read_misses m \<le> r \<and> bytes_written m = w * cs \<and>
     bytes_read m = (r - read_misses m) * cs \<and> ls_cap (bt_lat s) = LATENCY_SAMPLE_CAP \<and>
     (\<exists>xs. length xs = r + w \<and> sampler_ok xs (bt_lat s)))"

lemma bench_acc_new: "bench_acc cs 0 0 (bench_thread_new seed buf)"
  by (auto simp: bench_acc_def bench_thread_new_def ThreadMetrics_default_def LatencySampler_new_def sampler_new
      [unfolded LatencySampler_new_def] split: prod.split)

lemma sat_exact: "a + b < 2 ^ 64 \<Longrightarrow> u64_saturating_add a b = a + b"
  by (simp add: u64_saturating_add_def)

lemma acc_rng: "bench_acc cs r w (s\<lparr>bt_rng := g\<rparr>) = bench_acc cs r w s"
  by (simp add: bench_acc_def)

lemma acc_finish:
  assumes ok: "bench_acc cs r w s" and small: "r + w < 2 ^ 64 - 1"
    and m: "read_ops m = r'" "write_ops m = w'" "r' + w' = Suc (r + w)" "read_misses m \<le> r'" "ops_total m = r + w"
      "bytes_written m = w' * cs" "bytes_read m = (r' - read_misses m) * cs"
  shows "bench_acc cs r' w' (finish_op ns (s\<lparr>bt_seq := x, bt_buf := b, bt_m := m\<rparr>))"
proof -
  obtain xs where xs: "length xs = r + w" "sampler_ok xs (bt_lat s)" using ok by (auto simp: bench_acc_def Let_def)
  have "ls_cap (bt_lat s) = LATENCY_SAMPLE_CAP" using ok by (simp add: bench_acc_def Let_def)
  moreover have "length xs < 2 ^ 64 - 1" using small xs(1) by simp
  ultimately show ?thesis
    using sampler_observe [OF xs(2), of ns] m xs(1) small
    by (auto simp: bench_acc_def finish_op_def sat_exact intro!: exI [of _ "xs @ [ns]"])
qed

lemma acc_write:
  assumes "bench_acc cs r w s" "Suc (r + w) * cs < 2 ^ 64" "r + w < 2 ^ 64 - 1"
  shows "bench_acc cs r (Suc w) (finish_op ns (s\<lparr>bt_seq := x, bt_m := count_write cs (bt_m s)\<rparr>))"
proof -
  have "w * cs + cs \<le> Suc (r + w) * cs" by (simp add: algebra_simps)
  from sat_exact [OF le_less_trans [OF this assms(2)]] have "u64_saturating_add (w * cs) cs = Suc w * cs" by simp
  moreover have "u64_saturating_add w 1 = Suc w" using assms(3) by (simp add: sat_exact)
  ultimately have "bench_acc cs r (Suc w) (finish_op ns (s\<lparr>bt_seq := x, bt_buf := bt_buf s, bt_m := count_write cs (bt_m s)\<rparr>))"
    using assms(1,3) by (intro acc_finish [OF assms(1,3)]) (auto simp: bench_acc_def count_write_def Let_def)
  then show ?thesis by simp
qed

lemma acc_read:
  assumes "bench_acc cs r w s" "Suc (r + w) * cs < 2 ^ 64" "r + w < 2 ^ 64 - 1"
  shows "bench_acc cs (Suc r) w (finish_op ns (s\<lparr>bt_buf := b, bt_m := count_read cs got (bt_m s)\<rparr>))"
proof -
  let ?k = "read_misses (bt_m s)"
  have k: "?k \<le> r" using assms(1) by (simp add: bench_acc_def Let_def)
  have "(r - ?k) * cs \<le> (r + w) * cs" by (rule mult_le_mono1) simp
  then have "(r - ?k) * cs + cs \<le> Suc (r + w) * cs" by simp
  from sat_exact [OF le_less_trans [OF this assms(2)]] have b: "u64_saturating_add ((r - ?k) * cs) cs = (Suc r - ?k) * cs"
    using k by (simp add: Suc_diff_le)
  have "u64_saturating_add r 1 = Suc r" "u64_saturating_add ?k 1 = Suc ?k" using assms(3) k by (simp_all add: sat_exact)
  then have "bench_acc cs (Suc r) w (finish_op ns (s\<lparr>bt_seq := bt_seq s, bt_buf := b, bt_m := count_read cs got (bt_m s)\<rparr>))"
    using assms(1,3) b by (intro acc_finish [OF assms(1,3)]) (auto simp: bench_acc_def count_read_def Let_def)
  then show ?thesis by simp
qed

lemma acc_write_op:
  assumes "write_op L H now p salt base data ns (q, s) = Some ((q', s'), Inr u)" "bench_acc (o_chunk_size p) r w s"
    "Suc (r + w) * o_chunk_size p < 2 ^ 64" "r + w < 2 ^ 64 - 1"
  shows "bench_acc (o_chunk_size p) r (Suc w) s'"
  using assms(1) acc_write [OF assms(2-4)] by (auto simp: write_op_def split: option.splits sum.splits)

lemma acc_read_op:
  assumes "read_op L H p salt ns (q, s) = ((q', s'), Inr u)" "bench_acc (o_chunk_size p) r w s"
    "Suc (r + w) * o_chunk_size p < 2 ^ 64" "r + w < 2 ^ 64 - 1"
  shows "bench_acc (o_chunk_size p) (Suc r) w s'"
proof -
  obtain g x where n: "next_u64 (bt_rng s) = (g, x)" by fastforce
  have a: "bench_acc (o_chunk_size p) r w (s\<lparr>bt_rng := g\<rparr>)" using assms(2) by (simp add: acc_rng)
  show ?thesis using assms(1) acc_read [OF a assms(3,4)]
    by (auto simp: read_op_def n Let_def split: prod.splits sum.splits)
qed

lemma acc_single_op:
  assumes op: "single_op L H now p salt i ns (q, s) = Some ((q', s'), Inr u)" and ok: "bench_acc (o_chunk_size p) r w s"
    and small: "Suc (r + w) * o_chunk_size p < 2 ^ 64" "r + w < 2 ^ 64 - 1"
  shows "\<exists>r' w'. bench_acc (o_chunk_size p) r' w' s' \<and> r' + w' = Suc (r + w) \<and>
    (o_scenario p = Write \<longrightarrow> r' = r) \<and> (o_scenario p = Read \<longrightarrow> w' = w)"
proof -
  let ?b = "write_base (o_preload_chunks p) i" and ?d = "prepare_data (o_chunk_size p) i"
  obtain g x where n: "next_u64 (bt_rng s) = (g, x)" by fastforce
  have ok': "bench_acc (o_chunk_size p) r w (s\<lparr>bt_rng := g\<rparr>)" using ok by (simp add: acc_rng)
  consider "o_scenario p \<noteq> Read" "write_op L H now p salt ?b ?d ns (q, s) = Some ((q', s'), Inr u)"
    | "o_scenario p \<noteq> Write" "read_op L H p salt ns (q, s) = ((q', s'), Inr u)"
    | "o_scenario p = Mixed" "write_op L H now p salt ?b ?d ns (q, s\<lparr>bt_rng := g\<rparr>) = Some ((q', s'), Inr u)"
    | "o_scenario p = Mixed" "read_op L H p salt ns (q, s\<lparr>bt_rng := g\<rparr>) = ((q', s'), Inr u)"
    using op by (auto simp: single_op_def Let_def n split: Scenario.splits if_splits)
  then show ?thesis
  proof cases
    case 1
    then show ?thesis using acc_write_op [OF 1(2) ok small] by (intro exI [of _ r] exI [of _ "Suc w"]) simp
  next
    case 2
    then show ?thesis using acc_read_op [OF 2(2) ok small] by (intro exI [of _ "Suc r"] exI [of _ w]) simp
  next
    case 3
    then show ?thesis using acc_write_op [OF 3(2) ok' small] by (intro exI [of _ r] exI [of _ "Suc w"]) simp
  next
    case 4
    then show ?thesis using acc_read_op [OF 4(2) ok' small] by (intro exI [of _ "Suc r"] exI [of _ w]) simp
  qed
qed

lemma acc_loop:
  "timed_loop (single_op L H now p salt i) d ts (q, s) = Some ((q', s'), Inr u) \<Longrightarrow> bench_acc (o_chunk_size p) r w s \<Longrightarrow>
   (r + w + length ts) * o_chunk_size p < 2 ^ 64 \<Longrightarrow> r + w + length ts < 2 ^ 64 - 1 \<Longrightarrow>
   \<exists>r' w'. bench_acc (o_chunk_size p) r' w' s' \<and> r' + w' < r + w + length ts \<and>
     (o_scenario p = Write \<longrightarrow> r' = r) \<and> (o_scenario p = Read \<longrightarrow> w' = w)"
proof (induction ts arbitrary: q s r w)
  case (Cons x ts)
  obtain t t0 t1 where x: "x = (t, t0, t1)" by (cases x)
  show ?case
  proof (cases "d \<le> t")
    case True
    then show ?thesis using Cons.prems x by (intro exI [of _ r] exI [of _ w]) simp
  next
    case False
    let ?ns = "(t1 - t0) mod 2 ^ 64"
    obtain q1 s1 v where op: "single_op L H now p salt i ?ns (q, s) = Some ((q1, s1), Inr v)"
      and rest: "timed_loop (single_op L H now p salt i) d ts (q1, s1) = Some ((q', s'), Inr u)"
      using Cons.prems(1) x False by (auto split: option.splits sum.splits)
    have "Suc (r + w) * o_chunk_size p \<le> (r + w + length (x # ts)) * o_chunk_size p" by (rule mult_le_mono1) simp
    then have "Suc (r + w) * o_chunk_size p < 2 ^ 64" by (rule le_less_trans) (rule Cons.prems(3))
    moreover have "r + w < 2 ^ 64 - 1" using Cons.prems(4) by simp
    ultimately obtain r1 w1 where 1: "bench_acc (o_chunk_size p) r1 w1 s1"
      "r1 + w1 = Suc (r + w)" "o_scenario p = Write \<longrightarrow> r1 = r" "o_scenario p = Read \<longrightarrow> w1 = w"
      using acc_single_op [OF op Cons.prems(2)] by blast
    have "(r1 + w1 + length ts) * o_chunk_size p < 2 ^ 64" "r1 + w1 + length ts < 2 ^ 64 - 1"
      using Cons.prems(3,4) 1(2) by simp_all
    from Cons.IH [OF rest 1(1) this] show ?thesis using 1(2-4) by auto
  qed
qed simp

text \<open>
  C39: the figures of a worker that ends are consistent: every operation is a read or a write,
  each write counts one chunk of bytes, each read one chunk or a miss, a latency was taken for every
  operation, the samples are as many as were taken or the limit, and the write and read scenarios do
  only the one or the other.  No counter saturates as long as the bytes of all turns fit \<open>u64\<close>.
\<close>

theorem worker_figures_consistent:
  assumes "run_worker_single L H now mkdir p i n salt ts fin q = Some (q', Inr m)"
    and "length ts * o_chunk_size p < 2 ^ 64" "length ts < 2 ^ 64 - 1"
  shows "ops_total m = read_ops m + write_ops m \<and> ops_total m < length ts \<and> read_misses m \<le> read_ops m \<and>
    bytes_written m = write_ops m * o_chunk_size p \<and> bytes_read m = (read_ops m - read_misses m) * o_chunk_size p \<and>
    latency_seen m = ops_total m \<and> length (latency_samples m) = min LATENCY_SAMPLE_CAP (ops_total m) \<and>
    (o_scenario p = Write \<longrightarrow> read_ops m = 0) \<and> (o_scenario p = Read \<longrightarrow> write_ops m = 0)"
proof -
  let ?s0 = "bench_thread_new (worker_seed salt i) (read_buffer p)"
  obtain q1 s u where loop: "timed_loop (single_op L H now p salt i) (nanos (o_duration_secs p)) ts (q, ?s0) = Some ((q1, s), Inr u)"
    and m: "m = worker_metrics (thread_metrics s) i n fin"
    using assms(1) by (auto simp: run_worker_single_def split: if_splits sum.splits option.splits)
  obtain r w where "bench_acc (o_chunk_size p) r w s" "r + w < length ts"
    "o_scenario p = Write \<longrightarrow> r = 0" "o_scenario p = Read \<longrightarrow> w = 0"
    using acc_loop [OF loop bench_acc_new] assms(2,3) by auto
  then show ?thesis
    by (auto simp: m worker_metrics_def thread_metrics_def bench_acc_def sampler_ok_def Let_def ThreadMetrics.defs)
qed

definition demo_bench :: bench_opts where
  "demo_bench = \<lparr>o_db_path = ''/tmp/db'', o_scenario = Read, o_chunk_size = 4, o_duration_secs = 1, o_preload_chunks = 1,
     o_processes = 1, o_write_percent = 30, o_write_keyspace = 200000, o_reset_db = False, o_hash_method = HashBlake3,
     o_read_copy = True, o_mixed_concurrent = False, o_reader_threads = 1, o_writer_threads = 1, o_worker_index = None,
     o_run_salt = None, o_json_only = False, o_skip_preload = False\<rparr>"

abbreviation empty_store :: mem_chunks where
  "empty_store \<equiv> \<lparr>m_data = [], m_access = [], m_index = []\<rparr>"

lemma read_op_empty:
  assumes "env q = empty_store"
  shows "\<exists>s'. read_op (mem_chunk_env 5) H p salt ns (q, s) = ((q, s'), Inr ()) \<and>
    ops_total (bt_m s') = u64_saturating_add (ops_total (bt_m s)) 1"
proof -
  obtain g x where n: "next_u64 (bt_rng s) = (g, x)" by fastforce
  have "with_chunk_range (mem_chunk_env 5) cs 0 k f q w = (q, w, Inr None)" for cs k w and f :: "bytes \<Rightarrow> bytes \<Rightarrow> bytes \<times> (error + unit)"
    using assms by (simp add: with_chunk_range_def mem_chunk_env_def mem_db_def)
  then show ?thesis
    by (simp add: read_op_def n read_once_def Let_def finish_op_def count_read_def)
qed

theorem worker_figures_consistent_witness:
  "\<exists>q' m. run_worker_single (mem_chunk_env 5) demo_digests 900 (Inr ()) demo_bench 0 1 7
      [(0, 1, 5), (1000000000, 0, 0)] 1000000000 (chunkdb_new empty_store True) = Some (q', Inr m) \<and>
    ops_total m = 1 \<and> read_ops m = 1 \<and> write_ops m = 0 \<and> latency_seen m = 1"
proof -
  let ?q = "chunkdb_new empty_store True"
  let ?s = "bench_thread_new (worker_seed 7 0) (read_buffer demo_bench)"
  have "env ?q = empty_store" by (simp add: chunkdb_new_def)
  from read_op_empty [OF this] obtain s where s: "read_op (mem_chunk_env 5) demo_digests demo_bench 7 4 (?q, ?s) = ((?q, s), Inr ())"
    "ops_total (bt_m s) = u64_saturating_add (ops_total (bt_m ?s)) 1" by blast
  have 0: "ops_total (bt_m ?s) = 0" by (simp add: bench_thread_new_def ThreadMetrics_default_def split: prod.split)
  have op: "single_op (mem_chunk_env 5) demo_digests 900 demo_bench 7 0 4 (?q, ?s) = Some ((?q, s), Inr ())"
    using s(1) by (simp add: single_op_def demo_bench_def)
  define m where "m = worker_metrics (thread_metrics s) 0 1 1000000000"
  have one: "ops_total m = 1"
    using s(2) 0 by (simp add: m_def worker_metrics_def thread_metrics_def ThreadMetrics.defs u64_saturating_add_def)
  have run: "run_worker_single (mem_chunk_env 5) demo_digests 900 (Inr ()) demo_bench 0 1 7
      [(0, 1, 5), (1000000000, 0, 0)] 1000000000 ?q = Some (?q, Inr m)"
    using op by (simp add: run_worker_single_def m_def nanos_def) (simp add: demo_bench_def)
  have "length [(0::nat, 1::nat, 5::nat), (1000000000, 0, 0)] * o_chunk_size demo_bench < 2 ^ 64" "o_scenario demo_bench = Read"
    by (simp_all add: demo_bench_def)
  then show ?thesis using worker_figures_consistent [OF run] run one by auto
qed

subsection \<open>The keys of the threads\<close>

lemma key_seed_inj: "a < 2 ^ 64 \<Longrightarrow> b < 2 ^ 64 \<Longrightarrow> key_seed salt a = key_seed salt b \<longleftrightarrow> a = b"
  using be_bytes_inj [of a 8 b] by (auto simp: key_seed_def le_bytes_def)

lemma radix_eq:
  assumes "a * b + r = a' * b + r'" "r < b" "r' < (b :: nat)"
  shows "a = a' \<and> r = r'"
proof -
  have "(a * b + r) div b = a" "(a' * b + r') div b = a'" using assms(2,3) by simp_all
  then show ?thesis using assms(1) by simp
qed

lemma thread_key_exact:
  assumes "preload < 2 ^ 62" "w < 2 ^ 23" "t < 2 ^ 16" "0 < ks" "ks \<le> 2 ^ 24"
  shows "write_key (thread_base preload w t) ks seq = preload + w * 2 ^ 40 + t * 2 ^ 24 + 1 + seq mod ks"
    "write_key (thread_base preload w t) ks seq < 2 ^ 64"
proof -
  have s: "seq mod ks < 2 ^ 24" using mod_less_divisor [OF assms(4), of seq] assms(5) by linarith
  have w: "w * 2 ^ 40 < 2 ^ 63" using assms(2) by simp
  have t: "t * 2 ^ 24 < 2 ^ 40" using assms(3) by simp
  have m: "w * 2 ^ 40 mod 2 ^ 64 = w * 2 ^ 40" "t * 2 ^ 24 mod 2 ^ 64 = t * 2 ^ 24" using w t by simp_all
  have b: "preload + w * 2 ^ 40 + t * 2 ^ 24 + 1 + seq mod ks < 2 ^ 64" using assms(1) w t s by simp
  have base: "thread_base preload w t = preload + w * 2 ^ 40 + t * 2 ^ 24 + 1"
    unfolding thread_base_def m using b by (simp add: u64_saturating_add_def)
  then show key: "write_key (thread_base preload w t) ks seq = preload + w * 2 ^ 40 + t * 2 ^ 24 + 1 + seq mod ks"
    using b assms(4) by (simp add: write_key_def u64_saturating_add_def)
  show "write_key (thread_base preload w t) ks seq < 2 ^ 64" unfolding key by (rule b)
qed

text \<open>
  In the concurrent benchmark the writers do not get into each other's way: with at most
  2^24 keys per writer, different writers of all worker processes never write the same key, and no
  writer writes a key that was preloaded for the readers.
\<close>

theorem writer_keys_disjoint:
  assumes "preload < 2 ^ 62" "0 < ks" "ks \<le> 2 ^ 24" "w1 < 2 ^ 23" "w2 < 2 ^ 23" "t1 < 2 ^ 16" "t2 < 2 ^ 16"
    and "(w1, t1) \<noteq> (w2, t2)"
  shows "key_seed salt (write_key (thread_base preload w1 t1) ks s1) \<noteq> key_seed salt (write_key (thread_base preload w2 t2) ks s2) \<and>
    (\<forall>k < preload. key_seed salt k \<noteq> key_seed salt (write_key (thread_base preload w1 t1) ks s1))"
proof -
  let ?k1 = "write_key (thread_base preload w1 t1) ks s1" and ?k2 = "write_key (thread_base preload w2 t2) ks s2"
  note k1 = thread_key_exact [OF assms(1,4,6,2,3), of s1] and k2 = thread_key_exact [OF assms(1,5,7,2,3), of s2]
  have s: "s1 mod ks < 2 ^ 24" "s2 mod ks < 2 ^ 24"
    using mod_less_divisor [OF assms(2), of s1] mod_less_divisor [OF assms(2), of s2] assms(3) by linarith+
  have "?k1 \<noteq> ?k2"
  proof
    assume "?k1 = ?k2"
    then have eq: "(w1 * 2 ^ 16 + t1) * 2 ^ 24 + s1 mod ks = (w2 * 2 ^ 16 + t2) * 2 ^ 24 + s2 mod ks"
      using k1(1) k2(1) by simp
    have "w1 * 2 ^ 16 + t1 = w2 * 2 ^ 16 + t2" using radix_eq [OF eq s] by blast
    from radix_eq [OF this assms(6,7)] show False using assms(8) by blast
  qed
  moreover have "k \<noteq> ?k1" "k < 2 ^ 64" if "k < preload" for k using that k1 by simp_all
  ultimately show ?thesis using key_seed_inj k1(2) k2(2) by metis
qed

theorem writer_keys_disjoint_witness:
  "key_seed 7 (write_key (thread_base 1000 0 0) 200000 5) \<noteq> key_seed 7 (write_key (thread_base 1000 0 1) 200000 5)"
  using writer_keys_disjoint [of 1000 200000 0 0 0 1 7 5 5] by simp

text \<open>Without that bound they do: the first writer comes to the keys of the second.\<close>

lemma unbounded_writers_collide: "write_key (thread_base p 0 0) 0 (2 ^ 24) = write_key (thread_base p 0 1) 0 0"
  by (simp add: write_key_def thread_base_def u64_saturating_add_def)

subsection \<open>The line of a worker process\<close>

definition figures_in_range :: "WorkerMetrics \<Rightarrow> bool" where
  "figures_in_range m \<longleftrightarrow> worker_index m < 2 ^ 32 \<and> process_count m < 2 ^ 32 \<and> elapsed_ns m < 2 ^ 64 \<and>
     list_all (\<lambda>n. n < 2 ^ 64) ([ops_total m, read_ops m, write_ops m, read_misses m, bytes_read m, bytes_written m, latency_seen m] @
       latency_samples m)"

lemma all_u64_numbers: "list_all (\<lambda>n. n < 2 ^ 64) ns \<Longrightarrow> all_u64 (map JNat ns) = Inr ns"
  by (induction ns) (simp_all add: as_u64_def)

lemma find_first: "list_all (Not \<circ> P) xs \<Longrightarrow> P y \<Longrightarrow> find P (xs @ y # ys) = Some y"
  by (induction xs) auto

text \<open>
  The parent reads back the figures of a worker process as the worker measured them,
  whatever other lines the worker prints, when the parser of JSON reads what its printer wrote and
  the elapsed time fits \<open>u64\<close>.
\<close>

theorem worker_line_roundtrip:
  assumes "from_str (to_string (worker_metrics_to_wire m)) = Some (worker_metrics_to_wire m)" "figures_in_range m"
    and "list_all (\<lambda>l. take (length WORKER_PREFIX) l \<noteq> WORKER_PREFIX) before"
  shows "parse_worker_metrics from_str (before @ (WORKER_PREFIX @ to_string (worker_metrics_to_wire m)) # after) = Inr m"
proof -
  let ?v = "worker_metrics_to_wire m"
  have r: "worker_index m < 2 ^ 32" "process_count m < 2 ^ 32" "elapsed_ns m < 2 ^ 64"
    "ops_total m < 2 ^ 64" "read_ops m < 2 ^ 64" "write_ops m < 2 ^ 64" "read_misses m < 2 ^ 64" "bytes_read m < 2 ^ 64"
    "bytes_written m < 2 ^ 64" "latency_seen m < 2 ^ 64" "list_all (\<lambda>n. n < 2 ^ 64) (latency_samples m)"
    using assms(2) by (simp_all add: figures_in_range_def)
  have line: "find (\<lambda>l. take (length WORKER_PREFIX) l = WORKER_PREFIX) (before @ (WORKER_PREFIX @ to_string ?v) # after) =
      Some (WORKER_PREFIX @ to_string ?v)"
    by (rule find_first) (use assms(3) in \<open>simp_all add: comp_def\<close>)
  have get: "json_get ?v ''worker_index'' = JNat (worker_index m)" "json_get ?v ''process_count'' = JNat (process_count m)"
    "json_get ?v ''elapsed_ns'' = JNat (elapsed_ns m mod 2 ^ 64)" "json_get ?v ''ops_total'' = JNat (ops_total m)"
    "json_get ?v ''read_ops'' = JNat (read_ops m)" "json_get ?v ''write_ops'' = JNat (write_ops m)"
    "json_get ?v ''read_misses'' = JNat (read_misses m)" "json_get ?v ''bytes_read'' = JNat (bytes_read m)"
    "json_get ?v ''bytes_written'' = JNat (bytes_written m)" "json_get ?v ''latency_seen'' = JNat (latency_seen m)"
    "json_get ?v ''latency_samples_ns'' = JArray (map JNat (latency_samples m))"
    by (simp_all add: json_get_def worker_metrics_to_wire_def)
  have num: "u64_or ?v k d = n" if "json_get ?v k = JNat n" "n < 2 ^ 64" for k d n
    using that by (simp add: u64_or_def as_u64_def)
  have small: "worker_index m < 2 ^ 64" "process_count m < 2 ^ 64" using r(1,2) by simp_all
  have e: "elapsed_ns m mod 2 ^ 64 = elapsed_ns m" using r(3) by (rule mod_less)
  show ?thesis
    by (simp only: parse_worker_metrics_def line option.case append_eq_conv_conj drop_append length_append)
      (simp add: assms(1) as_array_def get(11) all_u64_numbers [OF r(11)] num [OF get(1) small(1)] num [OF get(2) small(2)]
        num [OF get(3) [unfolded e] r(3)] num [OF get(4) r(4)] num [OF get(5) r(5)] num [OF get(6) r(6)] num [OF get(7) r(7)]
        num [OF get(8) r(8)] num [OF get(9) r(9)] num [OF get(10) r(10)] as_u32_exact [OF r(1)] as_u32_exact [OF r(2)])
qed

definition demo_metrics :: WorkerMetrics where
  "demo_metrics = \<lparr>ops_total = 3, read_ops = 1, write_ops = 2, read_misses = 0, bytes_read = 4, bytes_written = 8,
     latency_seen = 3, latency_samples = [10, 20, 30], worker_index = 1, process_count = 1, elapsed_ns = 1000000001\<rparr>"

theorem worker_line_roundtrip_witness:
  "parse_worker_metrics (\<lambda>_. Some (worker_metrics_to_wire demo_metrics)) [''starting'', WORKER_PREFIX @ ''{}''] = Inr demo_metrics"
proof -
  have "list_all (\<lambda>l. take (length WORKER_PREFIX) l \<noteq> WORKER_PREFIX) [''starting'']" by (simp add: WORKER_PREFIX_def)
  from worker_line_roundtrip [OF _ _ this, of "\<lambda>_. Some (worker_metrics_to_wire demo_metrics)" "\<lambda>_. ''{}''" demo_metrics "[]"]
  show ?thesis by (simp add: figures_in_range_def demo_metrics_def)
qed

text \<open>A worker process always reports that it is one of one.\<close>

lemma process_count_worker: "process_count (worker_metrics m i n ns) = n"
  by (cases m) (simp add: worker_metrics_def ThreadMetrics.defs)

lemma run_worker_process_count:
  "run_worker L H now mkdir p w n salt c q = Some (q', Inr m) \<Longrightarrow> process_count m = n"
  by (auto simp: run_worker_def run_worker_single_def run_worker_mixed_concurrent_def process_count_worker Let_def
      split: option.splits sum.splits if_splits)

lemma worker_reports_one_process:
  assumes "bench_worker_main L H now W p salt w c = Some (Inr out)"
  shows "\<exists>m. out = WorkerLine (worker_metrics_to_wire m) \<and> process_count m = 1"
proof -
  obtain q q' m where run: "run_worker L H now (be_mkdir W) p w 1 salt c q = Some (q', Inr m)"
    and out: "out = WorkerLine (worker_metrics_to_wire m)"
    using assms by (auto simp: bench_worker_main_def split: option.splits sum.splits)
  show ?thesis using run_worker_process_count [OF run] out by blast
qed

end
