(* ===== verification/PeerBenchProps.thy ===== *)
theory PeerBenchProps
  imports PeerBench BenchProps PeerClientProps ChunkContract
begin

text \<open>
  The benchmark of the peer service: when the peers only hand out data that matches the checksum they
  were asked for, a run reports no failed verification; and how many of its chunks are different.
\<close>

subsection \<open>The data of the chunks\<close>

lemma prepare_data_nth: "k < n \<Longrightarrow> prepare_data n i ! k = of_nat (i mod 251) + of_nat (k mod 251)"
  by (simp add: prepare_data_def)

lemma length_prepare_data [simp]: "length (prepare_data n i) = n"
  by (simp add: prepare_data_def)

text \<open>
  Only 251 chunks differ: the chunks of a benchmark with more \<open>unique_chunks\<close> are not unique.
\<close>

lemma prepare_data_period:
  assumes "0 < n"
  shows "prepare_data n i = prepare_data n j \<longleftrightarrow> i mod 251 = j mod 251"
proof
  assume "prepare_data n i = prepare_data n j"
  then have "prepare_data n i ! 0 = prepare_data n j ! 0" by simp
  then have "(of_nat (i mod 251) :: byte) = of_nat (j mod 251)" using assms by (simp add: prepare_data_nth)
  from arg_cong [OF this, of unat] have "i mod 251 mod 256 = j mod 251 mod 256" by (simp add: unat_of_nat)
  moreover have "k mod 251 mod 256 = k mod 251" for k :: nat by (rule mod_less) (rule less_trans [of _ 251], simp_all)
  ultimately show "i mod 251 = j mod 251" by simp
qed (simp add: prepare_data_def)

subsection \<open>The preloaded checksums\<close>

definition chunk_checksum :: "digests \<Rightarrow> peer_bench_opts \<Rightarrow> nat \<Rightarrow> CheckSum" where
  "chunk_checksum H p i = CheckSum_from_data H (prepare_data (p_chunk_size p) i) (checksum_method (p_hash_method p))"

lemma preload_indices_result:
  "preload_indices L H now (p_chunk_size p) (checksum_method (p_hash_method p)) css ks q = Some (q', Inr css') \<Longrightarrow>
   css' = css @ map (chunk_checksum H p) ks"
proof (induction ks arbitrary: css q)
  case (Cons i ks)
  then obtain q1 where "preload_indices L H now (p_chunk_size p) (checksum_method (p_hash_method p))
      (css @ [chunk_checksum H p i]) ks q1 = Some (q', Inr css')"
    by (auto simp: Let_def chunk_checksum_def split: option.splits sum.splits)
  from Cons.IH [OF this] show ?case by simp
qed simp

subsection \<open>No failed verification\<close>

text \<open>What the peers promise: data for a chunk of the benchmark matches its checksum.  And no other
  data has the checksum of such a chunk.\<close>

definition honest_peers :: "('x, 'a, 'w) client_env \<Rightarrow> 'a peer_config \<Rightarrow> digests \<Rightarrow> peer_bench_opts \<Rightarrow> bool" where
  "honest_peers E c H p \<longleftrightarrow> (\<forall>i < p_unique_chunks p. \<forall>P P' d. fetch_chunk_from_peers E c (chunk_checksum H p i) P = (P', Some d) \<longrightarrow>
     CheckSum_from_data H d (checksum_method (p_hash_method p)) = chunk_checksum H p i)"

definition no_collision :: "digests \<Rightarrow> peer_bench_opts \<Rightarrow> bool" where
  "no_collision H p \<longleftrightarrow> (\<forall>i < p_unique_chunks p. \<forall>d. CheckSum_from_data H d (checksum_method (p_hash_method p)) = chunk_checksum H p i \<longrightarrow>
     d = prepare_data (p_chunk_size p) i)"

text \<open>A payload of another length counts as two failures when payloads are verified.\<close>

lemma wrong_length_counts_twice:
  assumes "length data \<noteq> p_chunk_size p" "p_verify_payload p" "pm_verify_failures m + 2 < 2 ^ 64"
  shows "pm_verify_failures (count_payload p i (Some data) m) = pm_verify_failures m + 2"
proof -
  let ?f = "pm_verify_failures m"
  have "u64_saturating_add (u64_saturating_add ?f 1) 1 = ?f + 2" using assms(3) by (simp add: u64_saturating_add_def)
  moreover have "data \<noteq> prepare_data (p_chunk_size p) i" using assms(1) by auto
  ultimately show ?thesis using assms(1,2) by (simp add: count_payload_def)
qed

lemma honest_turn:
  assumes "honest_peers E c H p" "no_collision H p" "0 < p_unique_chunks p"
    and turn: "peer_turn E c p (map (chunk_checksum H p) [0 ..< p_unique_chunks p]) r (P, s) = (P', s')"
    and ok: "pm_verify_failures (pw_out s) = 0"
  shows "pm_verify_failures (pw_out s') = 0"
proof -
  let ?css = "map (chunk_checksum H p) [0 ..< p_unique_chunks p]"
  obtain t t0 t1 where r: "r = (t, t0, t1)" by (cases r)
  show ?thesis
  proof (cases "\<exists>start. pw_phase s = Measure start \<and> t < start + nanos (p_duration_secs p)")
    case True
    then obtain start where s: "pw_phase s = Measure start" "\<not> start + nanos (p_duration_secs p) \<le> t" by auto
    let ?i = "pw_cursor s mod p_unique_chunks p"
    have i: "?i < p_unique_chunks p" using assms(3) by simp
    obtain P1 got where f: "fetch_chunk_from_peers E c (chunk_checksum H p ?i) P = (P1, got)" by fastforce
    have "d = prepare_data (p_chunk_size p) ?i" if "got = Some d" for d
      using assms(1,2) i f that unfolding honest_peers_def no_collision_def by blast
    then have "pm_verify_failures (count_payload p ?i got (pw_out s)) = 0"
      using ok by (cases got) (simp_all add: count_payload_def)
    moreover have "s' = finish_fetch ((t1 - t0) mod 2 ^ 64) (s\<lparr>pw_out := count_payload p ?i got (pw_out s)\<rparr>)"
      using turn s i f by (simp add: peer_turn_def r Let_def)
    ultimately show ?thesis by (simp add: finish_fetch_def)
  next
    case False
    then show ?thesis using turn ok
      by (auto simp: peer_turn_def r Let_def split: peer_phase.splits if_splits prod.splits)
  qed
qed

lemma honest_schedule:
  assumes "honest_peers E c H p" "no_collision H p" "0 < p_unique_chunks p"
  shows "list_all (\<lambda>s. pm_verify_failures (pw_out s) = 0) ws \<Longrightarrow>
    list_all (\<lambda>s. pm_verify_failures (pw_out s) = 0)
      (snd (peer_schedule E c p (map (chunk_checksum H p) [0 ..< p_unique_chunks p]) sched (P, ws)))"
proof (induction sched arbitrary: P ws)
  case (Cons x sched)
  obtain k r where x: "x = (k, r)" by (metis surj_pair)
  show ?case
  proof (cases "k < length ws")
    case True
    obtain P' s where turn: "peer_turn E c p (map (chunk_checksum H p) [0 ..< p_unique_chunks p]) r (P, ws ! k) = (P', s)"
      by fastforce
    have "pm_verify_failures (pw_out s) = 0"
      by (rule honest_turn [OF assms turn]) (use Cons.prems True in \<open>simp add: list_all_length\<close>)
    then have "list_all (\<lambda>s. pm_verify_failures (pw_out s) = 0) (ws[k := s])"
      using Cons.prems True by (auto simp: list_all_length nth_list_update)
    from Cons.IH [OF this, of P'] show ?thesis using True turn x by simp
  qed (use Cons x in simp)
qed simp

lemma honest_workers:
  assumes "honest_peers E c H p" "no_collision H p" "0 < p_unique_chunks p"
    and "run_workers E c p (map (chunk_checksum H p) [0 ..< p_unique_chunks p]) sched P = Some ms"
  shows "map pm_verify_failures ms = replicate (length ms) 0"
proof -
  let ?ws = "map peer_worker_new [0 ..< p_workers p]"
  have "list_all (\<lambda>s. pm_verify_failures (pw_out s) = 0) ?ws"
    by (simp add: list_all_length peer_worker_new_def PeerMetrics_new_def)
  from honest_schedule [OF assms(1-3) this, of sched P] assms(4) show ?thesis
    by (auto simp: run_workers_def Let_def list_all_iff map_replicate_const [symmetric] split: if_splits)
qed

lemma sum_u64_zeros: "sum_u64 (replicate n 0) = 0"
  unfolding sum_u64_def by (induction n) (simp_all add: u64_add_def)

text \<open>
  C40: a run of the benchmark that reports, against peers that hand out only data that matches the
  checksum asked for, reports no failed verification, in total and for every worker, in every
  schedule of the workers.
\<close>

theorem honest_peers_verify:
  assumes "peer_bench_main L H now E c W p = Some (Inr report)" "honest_peers E c H p" "no_collision H p"
  shows "json_get (json_get report ''aggregate'') ''verify_failures'' = JNat 0 \<and>
    (\<exists>ms. report = peer_aggregate p ms \<and> map pm_verify_failures ms = replicate (length ms) 0)"
proof -
  obtain q q' css P ms where pre: "preload_chunks L H now (p_unique_chunks p) (p_chunk_size p) (checksum_method (p_hash_method p)) q = Some (q', Inr css)"
    and run: "run_workers E c p css (pb_schedule W) P = Some ms" and rep: "report = peer_aggregate p ms"
    and opts: "check_peer_opts p = Inr ()"
    using assms(1) by (auto simp: peer_bench_main_def and_then_Inr split: sum.splits option.splits)
  have css: "css = map (chunk_checksum H p) [0 ..< p_unique_chunks p]"
    using preload_indices_result [OF pre [unfolded preload_chunks_def]] by simp
  have "0 < p_unique_chunks p" using opts by (simp add: check_peer_opts_def split: if_splits)
  from honest_workers [OF assms(2,3) this run [unfolded css]]
  have ms: "map pm_verify_failures ms = replicate (length ms) 0" .
  have "json_get (json_get report ''aggregate'') ''verify_failures'' = JNat (sum_u64 (map pm_verify_failures ms))"
    by (simp add: rep peer_aggregate_def peer_figures_def peer_totals_def json_get_def Let_def)
  then show ?thesis using ms rep by (auto simp: sum_u64_zeros)
qed

text \<open>One peer that has the only chunk.\<close>

definition bench_net :: "(unit, nat, unit) client_env" where
  "bench_net =
     \<lparr>ce_index = None, ce_discovery = \<lambda>_. [2],
      ce_exchange = \<lambda>a r w. (w, Inr \<lparr>resp_id = 0, resp_status = STATUS_HIT, resp_payload = [0]\<rparr>),
      ce_shuffle = \<lambda>xs w. xs, ce_secs = \<lambda>_. 100, ce_rtt = \<lambda>_ _. 1\<rparr>"

definition bench_config :: "nat peer_config" where
  "bench_config = \<lparr>cfg_local_addr = None, cfg_max_query_peers = 3\<rparr>"

lemma bench_net_fetch: "\<exists>P'. fetch_chunk_from_peers bench_net bench_config cs P = (P', Some [0])"
proof -
  have "ranked_peers_with_scores now None h [2 :: nat] scores = [2]" for now h scores
    by (simp add: ranked_peers_with_scores_def is_self_def Let_def)
  then have "\<exists>src. candidate_peers bench_net bench_config cs P = (P, [2], src)"
    by (simp add: candidate_peers_def index_owners_def discovery_peers_def select_peers_def bench_net_def bench_config_def
        is_self_def Let_def)
  then obtain src where "candidate_peers bench_net bench_config cs P = (P, [2], src)" by blast
  then show ?thesis by (simp add: fetch_chunk_from_peers_def query_peer_def bench_net_def)
qed

definition demo_peer_bench :: peer_bench_opts where
  "demo_peer_bench = \<lparr>p_db_path = ''/tmp/db'', p_chunk_size = 1, p_unique_chunks = 1, p_workers = 1, p_warmup_secs = 0,
     p_duration_secs = 1, p_reset_db = False, p_hash_method = HashBlake3, p_verify_payload = True, p_json_only = True\<rparr>"

definition same_digests :: digests where
  "same_digests = \<lparr>sha256_digest = \<lambda>d. d, blake3_digest = \<lambda>d. d\<rparr>"

definition demo_peer_env :: "(mem_chunks, unit, nat, unit) peer_bench_env" where
  "demo_peer_env =
     \<lparr>pb_mkdir = Inr (), pb_runtimes = Inr (), pb_open = \<lambda>_. Inr (chunkdb_new empty_store True), pb_start = \<lambda>_. Inr (),
      pb_ready = [(0, True, True)], pb_client = \<lambda>_. demo_client,
      pb_schedule = [(0, 0, 0, 0), (0, 0, 0, 0), (0, 0, 1, 2), (0, 1000000000, 1000000000, 0)], pb_join = Inr ()\<rparr>"

lemma mem_add_empty: "\<exists>q'. add_chunk (mem_chunk_env 5) now cs d (chunkdb_new empty_store True) = Some (q', Inr ())"
proof -
  let ?q = "chunkdb_new empty_store True"
  let ?start = "drain (?q\<lparr>next_reply := Suc (next_reply ?q)\<rparr>)"
  have i: "high ?q = []" "medium ?q = []" "replies_fresh ?q" by (simp_all add: chunkdb_new_def replies_fresh_def)
  obtain s where "db_get_or_put (data_db (mem_chunk_env 5)) empty_store (disk_of cs) d = Inr (s, None)"
    using mem_put_missing [of "disk_of cs" empty_store 5 d] by auto
  moreover have "env ?start = empty_store" by (simp add: chunkdb_new_def drain_def)
  ultimately have "\<exists>q1. do_add_chunks_sub_batch (mem_chunk_env 5) [(cs, d)] ?start = Some (q1, Inr ())"
    by (subst do_add_chunks_sub_batch.simps) simp
  then obtain q1 where "do_add_chunk (mem_chunk_env 5) cs d ?start = Some (q1, Inr ())"
    unfolding do_add_chunk_single by blast
  then show ?thesis unfolding add_chunk_alone [OF i] by simp
qed

theorem honest_peers_verify_witness:
  "\<exists>report. peer_bench_main (mem_chunk_env 5) same_digests 900 bench_net bench_config demo_peer_env demo_peer_bench = Some (Inr report) \<and>
    json_get (json_get report ''aggregate'') ''verify_failures'' = JNat 0"
proof -
  let ?p = demo_peer_bench
  have p: "p_chunk_size ?p = 1" "p_unique_chunks ?p = 1" "p_workers ?p = 1" "p_warmup_secs ?p = 0" "p_duration_secs ?p = 1"
    "p_hash_method ?p = HashBlake3" "p_verify_payload ?p" by (simp_all add: demo_peer_bench_def)
  have data: "prepare_data (Suc 0) 0 = [0]" by (simp add: prepare_data_def)
  have cs: "CheckSum_from_data same_digests d Blake3 = \<lparr>cs_raw = d, cs_method = Blake3\<rparr>" for d
    by (simp add: CheckSum_from_data_def same_digests_def)
  have honest: "honest_peers bench_net bench_config same_digests ?p"
    unfolding honest_peers_def
  proof (intro allI impI)
    fix i P P' d
    assume "i < p_unique_chunks ?p" and f: "fetch_chunk_from_peers bench_net bench_config (chunk_checksum same_digests ?p i) P = (P', Some d)"
    then have "i = 0" "d = [0]" using p bench_net_fetch [of "chunk_checksum same_digests ?p i" P] by auto
    then show "CheckSum_from_data same_digests d (checksum_method (p_hash_method ?p)) = chunk_checksum same_digests ?p i"
      by (simp add: chunk_checksum_def p data checksum_method_def cs)
  qed
  have coll: "no_collision same_digests ?p"
    by (simp add: no_collision_def chunk_checksum_def p checksum_method_def cs)
  obtain q' where "add_chunk (mem_chunk_env 5) 900 \<lparr>cs_raw = [0], cs_method = Blake3\<rparr> [0] (chunkdb_new empty_store True) = Some (q', Inr ())"
    using mem_add_empty by blast
  then have pre: "preload_chunks (mem_chunk_env 5) same_digests 900 1 1 Blake3 (chunkdb_new empty_store True) =
      Some (q', Inr [\<lparr>cs_raw = [0], cs_method = Blake3\<rparr>])"
    by (simp add: preload_chunks_def data cs Let_def)
  let ?cs = "\<lparr>cs_raw = [0], cs_method = Blake3\<rparr>"
  obtain P1 where f1: "fetch_chunk_from_peers bench_net bench_config ?cs demo_client = (P1, Some [0])" using bench_net_fetch by blast
  obtain P2 where f2: "fetch_chunk_from_peers bench_net bench_config ?cs P1 = (P2, Some [0])" using bench_net_fetch by blast
  have "\<exists>report. peer_bench_main (mem_chunk_env 5) same_digests 900 bench_net bench_config demo_peer_env ?p = Some (Inr report)"
    by (simp add: peer_bench_main_def check_peer_opts_def p CHUNK_SIZE_def and_then_def demo_peer_env_def pre [simplified] checksum_method_def
        verify_first_def f1 f2 data run_workers_def peer_turn_def peer_worker_new_def nanos_def finish_fetch_def Let_def)
  then obtain report where "peer_bench_main (mem_chunk_env 5) same_digests 900 bench_net bench_config demo_peer_env ?p = Some (Inr report)"
    by blast
  with honest_peers_verify [OF this honest coll] show ?thesis by blast
qed

end
