(* ===== verification/Maintenance.thy ===== *)
theory Maintenance
  imports PeerServerProps PeerIndex PeerClient
begin

text \<open>
  \<open>src/backend/peer.rs\<close>: the background tasks of the chunk server and its peer client: the first sync, the
  refresh loop of the index, the collection of old hints.  A task is the list of the events it sees: the
  ticks of its timer, each with what it reads then, the shutdown, and what the rest of the process and
  other nodes do to its state in between.  A chunk that stays stored is passed to the repair of
  the index after a bounded number of ticks, whatever chunks come and go meanwhile.
\<close>

definition HINT_GC_INTERVAL_SECS :: nat where "HINT_GC_INTERVAL_SECS = 30"

subsection \<open>A task with a timer\<close>

datatype ('q, 't) task_event = ShutDown | Slept | Tick 'q | Meanwhile "'t \<Rightarrow> 't"

text \<open>The state the events leave and whether the task has ended; \<open>None\<close> when a turn does not return.\<close>

fun ticker_run :: "('q \<Rightarrow> 't \<Rightarrow> 't option) \<Rightarrow> ('q, 't) task_event list \<Rightarrow> 't \<Rightarrow> ('t \<times> bool) option" where
  "ticker_run turn [] st = Some (st, False)"
| "ticker_run turn (ShutDown # evs) st = Some (st, True)"
| "ticker_run turn (Slept # evs) st = ticker_run turn evs st"
| "ticker_run turn (Tick q # evs) st = (case turn q st of None \<Rightarrow> None | Some st' \<Rightarrow> ticker_run turn evs st')"
| "ticker_run turn (Meanwhile f # evs) st = ticker_run turn evs (f st)"

text \<open>A sleep that the shutdown interrupts: the state and, when the sleep is over, the events that follow.\<close>

fun sleep_run :: "('q, 't) task_event list \<Rightarrow> 't \<Rightarrow> 't \<times> bool \<times> ('q, 't) task_event list option" where
  "sleep_run [] st = (st, False, None)"
| "sleep_run (ShutDown # evs) st = (st, True, None)"
| "sleep_run (Slept # evs) st = (st, False, Some evs)"
| "sleep_run (Tick q # evs) st = sleep_run evs st"
| "sleep_run (Meanwhile f # evs) st = sleep_run evs (f st)"

subsection \<open>The refresh loop of the index\<close>

type_synonym 'x maintainer = "'x \<times> CheckSum option"

definition refresh_turn ::
  "('s, 'm) chunk_env_scheme \<Rightarrow> ('x, 'a) chunk_index \<Rightarrow> nat \<Rightarrow> 's chunkdb \<Rightarrow> 'x maintainer \<Rightarrow> 'x maintainer option" where
  "refresh_turn L ix refresh_interval_secs q st = (case st of (x, repair_cursor) \<Rightarrow> refresh_tick L ix q refresh_interval_secs repair_cursor x)"

text \<open>The jitter, from what the random generator draws below a bound; an empty range panics.\<close>

definition refresh_jitter :: "(nat \<Rightarrow> nat) \<Rightarrow> nat \<Rightarrow> nat option" where
  "refresh_jitter gen_range refresh_interval_secs =
     (let max_jitter_ms = min (refresh_interval_secs * 1000) (2 ^ 64 - 1)
      in if max_jitter_ms = 0 then None else Some (gen_range max_jitter_ms))"

definition run_refresh_loop ::
  "('s, 'm) chunk_env_scheme \<Rightarrow> ('x, 'a) chunk_index \<Rightarrow> (nat \<Rightarrow> nat) \<Rightarrow> nat \<Rightarrow>
   ('s chunkdb, 'x maintainer) task_event list \<Rightarrow> 'x \<Rightarrow> ('x maintainer \<times> bool) option" where
  "run_refresh_loop L ix gen_range secs evs x =
     (case refresh_jitter gen_range secs of
        None \<Rightarrow> None
      | Some jitter \<Rightarrow>
          (case (if jitter = 0 then ((x, None), False, Some evs) else sleep_run evs (x, None)) of
             (st, ended, None) \<Rightarrow> Some (st, ended)
           | (st, _, Some evs') \<Rightarrow> ticker_run (refresh_turn L ix secs) evs' st))"

text \<open>What the server starts: nothing without a client, an index, or an interval of the index.\<close>

definition run_index_sync :: "('s, 'x, 'a, 'p) server_env \<Rightarrow> 's chunkdb \<Rightarrow> 'x \<Rightarrow> 'x option" where
  "run_index_sync E q x =
     (case client_index E of None \<Rightarrow> Some x | Some ix \<Rightarrow> map_option fst (maintainer_sync (sv_store E) ix q x))"

definition run_index_refresh ::
  "('s, 'x, 'a, 'p) server_env \<Rightarrow> (nat \<Rightarrow> nat) \<Rightarrow> ('s chunkdb, 'x maintainer) task_event list \<Rightarrow> 'x \<Rightarrow>
   ('x maintainer \<times> bool) option option" where
  "run_index_refresh E gen_range evs x =
     (case client_index E of
        None \<Rightarrow> None
      | Some ix \<Rightarrow> map_option (\<lambda>secs. run_refresh_loop (sv_store E) ix gen_range secs evs x) (refresh_interval ix))"

subsection \<open>The peer client\<close>

definition peer_client_new :: "'x \<Rightarrow> 'w \<Rightarrow> 'a peer_config \<times> ('x, 'a, 'w) peer_client" where
  "peer_client_new x w =
     (\<lparr>cfg_local_addr = None, cfg_max_query_peers = DEFAULT_MAX_QUERY_PEERS\<rparr>,
      \<lparr>pcl_hints = (\<lambda>_. None), pcl_health = (\<lambda>_. None), pcl_index = x, pcl_net = w\<rparr>)"

definition with_local_addr :: "'a \<Rightarrow> 'a peer_config \<Rightarrow> 'a peer_config" where
  "with_local_addr local_addr c = c\<lparr>cfg_local_addr := Some local_addr\<rparr>"

definition with_chunk_index :: "('x, 'a) chunk_index \<Rightarrow> ('x, 'a, 'w) client_env \<Rightarrow> ('x, 'a, 'w) client_env" where
  "with_chunk_index ix E = E\<lparr>ce_index := Some ix\<rparr>"

text \<open>The collection of hints; a tick carries the second it happens at.\<close>

definition start_background_tasks :: "(nat, 'a hints) task_event list \<Rightarrow> 'a hints \<Rightarrow> ('a hints \<times> bool) option" where
  "start_background_tasks evs h = ticker_run (\<lambda>now h. Some (hints_gc_expired now h)) evs h"

end
