(* ===== verification/MaintenanceProps.thy ===== *)
theory MaintenanceProps
  imports Maintenance
begin

text \<open>
  The background tasks: a chunk that stays stored is passed to the repair of the index after a bounded
  number of ticks; the loop of the Redis index always starts; old hints go and hints in use stay.
\<close>

subsection \<open>Tasks\<close>

lemma ticker_run_keeps:
  assumes "ticker_run turn evs st = Some (st', e)" "P st"
    and "\<And>q s s'. Tick q \<in> set evs \<Longrightarrow> turn q s = Some s' \<Longrightarrow> P s \<Longrightarrow> P s'"
    and "\<And>f s. Meanwhile f \<in> set evs \<Longrightarrow> P s \<Longrightarrow> P (f s)"
  shows "P st'"
  using assms by (induction turn evs st rule: ticker_run.induct) (auto split: option.splits)

lemma ticker_run_returns:
  assumes "\<And>q s. Tick q \<in> set evs \<Longrightarrow> \<exists>s'. turn q s = Some s'"
  shows "\<exists>y. ticker_run turn evs st = Some y"
  using assms by (induction turn evs st rule: ticker_run.induct) (fastforce split: option.splits)+

text \<open>After the shutdown nothing is done any more.\<close>

lemma ticker_run_shutdown:
  assumes "ticker_run turn evs st = Some (st', True)"
  shows "ticker_run turn (evs @ evs') st = Some (st', True)"
  using assms by (induction turn evs st rule: ticker_run.induct) (auto split: option.splits)

subsection \<open>One tick of the repair\<close>

definition key_bytes :: "CheckSum \<Rightarrow> bytes" where "key_bytes c = disk_encode (disk_of c)"

definition stored_chunks :: "'s views \<Rightarrow> 's chunkdb \<Rightarrow> CheckSum set" where
  "stored_chunks V q = {c. cs_method c \<noteq> Unknown \<and> v_data V (env q) (disk_of c) \<noteq> None}"

definition is_after :: "CheckSum option \<Rightarrow> CheckSum \<Rightarrow> bool" where
  "is_after cursor c = (case cursor of None \<Rightarrow> True | Some a \<Rightarrow> key_bytes a < key_bytes c)"

text \<open>
  A batch holds stored chunks behind the cursor; it holds a given one of them or ends before it.
\<close>

lemma batch_progress:
  assumes db: "chunk_env_ok L V" "keys_canonical V (env q)" "reads_ok L" and c: "c \<in> stored_chunks V q"
  shows "\<exists>b. next_chunk_batch L cursor n q = Inr b \<and> (\<forall>a \<in> set b. a \<in> stored_chunks V q \<and> is_after cursor a) \<and>
    (is_after cursor c \<longrightarrow> c \<in> set b \<or> b \<noteq> [] \<and> key_bytes (last b) < key_bytes c)"
proof -
  obtain r where r: "read_txn L (env q) = Inr r" using db(3) by (cases "read_txn L (env q)") (auto simp: reads_ok_def)
  obtain it where it: "db_iter (data_db L) r = Inr it"
    using db(3) by (cases "db_iter (data_db L) r") (auto simp: reads_ok_def)
  have l: "listing disk_encode (v_data V (env q)) it"
    using db_okD(6) [OF env_okD(2) [OF db(1)] it] env_txn(1) [OF db(1) r] by (simp add: same_view_def)
  define ys where "ys = filter (is_valid \<circ> fst) (after_cursor cursor it)"
  define m where "m = max n 1"
  define b where "b = map (checksum_of \<circ> fst) (take m ys)"
  have b: "next_chunk_batch L cursor n q = Inr b"
    by (simp add: next_chunk_batch_eq [OF db l] b_def m_def ys_def)
  have can: "disk_of (checksum_of (fst x)) = fst x" if "x \<in> set it" for x
    using db(2) listing_dom [OF l] that by (auto simp: keys_canonical_def)
  have sub: "set ys \<subseteq> set it" by (cases cursor) (auto simp: ys_def after_cursor_def)
  have "sorted_wrt (<) (map (disk_encode \<circ> fst) it)" using listing_enc_distinct(2) [OF l keys_inj [OF db(2)]] .
  then have s: "sorted_wrt (<) (map (disk_encode \<circ> fst) ys)"
    by (cases cursor) (simp_all add: ys_def after_cursor_def sorted_wrt_map sorted_wrt_filter)
  have valid: "checksum_of (fst x) \<in> stored_chunks V q \<and> is_after cursor (checksum_of (fst x))" if "x \<in> set ys" for x
  proof -
    have x: "x \<in> set it" "is_valid (fst x)" "x \<in> set (after_cursor cursor it)" using that sub by (auto simp: ys_def)
    then have "fst x \<in> dom (v_data V (env q))" using listing_dom [OF l] by auto
    moreover have "cs_method (checksum_of (fst x)) \<noteq> Unknown"
      using x(2) by (subst is_valid_disk_of [symmetric]) (simp add: can [OF x(1)])
    ultimately show ?thesis using x can [OF x(1)]
      by (cases cursor) (auto simp: stored_chunks_def is_after_def key_bytes_def after_cursor_def simp del: disk_of_inject)
  qed
  have "c \<in> set b \<or> b \<noteq> [] \<and> key_bytes (last b) < key_bytes c" if "is_after cursor c"
  proof -
    obtain d where d: "(disk_of c, d) \<in> set it" using c listing_dom [OF l] by (force simp: stored_chunks_def)
    then have "(disk_of c, d) \<in> set ys"
      using that c by (cases cursor) (auto simp: ys_def after_cursor_def is_after_def key_bytes_def stored_chunks_def)
    then have "(disk_of c, d) \<in> set (take m ys @ drop m ys)" by simp
    then consider "(disk_of c, d) \<in> set (take m ys)" | "(disk_of c, d) \<in> set (drop m ys)" by (auto simp del: append_take_drop_id)
    then show ?thesis
    proof cases
      case 1
      then have "checksum_of (fst (disk_of c, d)) \<in> set b" unfolding b_def by (force simp del: fst_conv)
      then show ?thesis by simp
    next
      case 2
      then have ne: "take m ys \<noteq> []" by (auto simp: m_def)
      have "sorted_wrt (\<lambda>x y. disk_encode (fst x) < disk_encode (fst y)) (take m ys @ drop m ys)"
        using s by (simp add: sorted_wrt_map)
      then have "disk_encode (fst (last (take m ys))) < disk_encode (disk_of c)"
        using 2 ne last_in_set [OF ne] by (force simp only: sorted_wrt_append fst_conv)
      moreover have "last (take m ys) \<in> set it" using last_in_set [OF ne] sub by (meson in_set_takeD subsetD)
      ultimately show ?thesis using ne can by (simp add: b_def key_bytes_def last_map)
    qed
  qed
  moreover have "\<forall>a \<in> set b. a \<in> stored_chunks V q \<and> is_after cursor a"
    using valid by (auto simp: b_def dest: in_set_takeD)
  ultimately show ?thesis using b by blast
qed

subsection \<open>A tick of the refresh loop\<close>

text \<open>
  \<open>goal\<close> is a state of the index that only the repair of \<open>c\<close> need reach and that no operation of the loop leaves.
\<close>

definition index_keeps :: "('x, 'a) chunk_index \<Rightarrow> ('x \<Rightarrow> bool) \<Rightarrow> CheckSum \<Rightarrow> bool" where
  "index_keeps ix goal c \<longleftrightarrow>
     (\<forall>t x. goal x \<longrightarrow> goal (fst (refresh_registered ix t x))) \<and> (\<forall>css x. goal x \<longrightarrow> goal (fst (register_batch ix css x))) \<and>
     (\<forall>css x. goal x \<or> c \<in> set css \<longrightarrow> goal (fst (repair_missing_owners ix css x)))"

lemma index_keepsD:
  assumes "index_keeps ix goal c"
  shows "refresh_registered ix t x = (y, r) \<Longrightarrow> goal x \<Longrightarrow> goal y"
    "register_batch ix css x = (y, r') \<Longrightarrow> goal x \<Longrightarrow> goal y"
    "repair_missing_owners ix css x = (y, r'') \<Longrightarrow> goal x \<or> c \<in> set css \<Longrightarrow> goal y"
  using assms unfolding index_keeps_def by (metis fst_conv)+

lemma refresh_loop_returns:
  assumes ix: "index_keeps ix goal c" and run: "list_batches L INDEX_SYNC_BATCH_SIZE cursor acc q = Some (Inr css)"
  shows "\<forall>x k. \<exists>y r. refresh_loop L ix q k cursor x = Some (y, r) \<and> (goal x \<longrightarrow> goal y)"
  using run
proof (induction rule: list_batches_induct)
  case (last_batch cursor)
  then show ?case by (simp add: refresh_loop.simps)
next
  case (batch cursor acc b)
  show ?case
  proof (intro allI)
    fix x k
    obtain x' r where reg: "register_batch ix b x = (x', r)" by (cases "register_batch ix b x")
    have "goal x \<longrightarrow> goal x'" using index_keepsD(2) [OF ix reg] by blast
    moreover obtain y r' where "refresh_loop L ix q (k + length b) (Some (last b)) x' = Some (y, r')" "goal x' \<longrightarrow> goal y"
      using batch.IH by blast
    ultimately show "\<exists>y r. refresh_loop L ix q k cursor x = Some (y, r) \<and> (goal x \<longrightarrow> goal y)"
      using batch.hyps reg by (subst refresh_loop.simps) (cases r, simp_all)
  qed
qed

lemma maintainer_refresh_returns:
  assumes db: "chunk_env_ok L V" "keys_canonical V (env q)" "reads_ok L" and ix: "index_keeps ix goal c"
  shows "\<exists>y r. maintainer_refresh L ix q t x = Some (y, r) \<and> (goal x \<longrightarrow> goal y)"
proof -
  obtain css where "list_batches L INDEX_SYNC_BATCH_SIZE None [] q = Some (Inr css)"
    using list_batches_all [OF db, of INDEX_SYNC_BATCH_SIZE] by blast
  note loop = refresh_loop_returns [OF ix this, rule_format]
  obtain x' r where reg: "refresh_registered ix t x = (x', r)" by (cases "refresh_registered ix t x")
  have "goal x \<longrightarrow> goal x'" using index_keepsD(1) [OF ix reg] by blast
  with loop [of 0 x'] reg show ?thesis by (auto simp: maintainer_refresh_def split: sum.splits option.splits)
qed

text \<open>The ticks after which \<open>c\<close> has been in a batch at the latest, when the stored chunks are within \<open>U\<close>.\<close>

definition ticks_left :: "CheckSum set \<Rightarrow> CheckSum \<Rightarrow> CheckSum option \<Rightarrow> nat" where
  "ticks_left U c cursor = card {k \<in> U. is_after cursor k} + (if is_after cursor c then 0 else Suc (card U))"

lemma ticks_left_bound: "finite U \<Longrightarrow> c \<in> U \<Longrightarrow> 0 < ticks_left U c cursor \<and> ticks_left U c cursor \<le> 2 * card U"
proof -
  assume U: "finite U" "c \<in> U"
  have "card {k \<in> U. is_after cursor k} \<le> card U" using U by (simp add: card_mono)
  moreover have "0 < card {k \<in> U. is_after cursor k}" if "is_after cursor c"
    using U that by (auto simp: card_gt_0_iff)
  moreover have "card {k \<in> U. is_after cursor k} < card U" if "\<not> is_after cursor c"
    using U that by (intro psubset_card_mono) auto
  ultimately show ?thesis by (cases "is_after cursor c") (fastforce simp: ticks_left_def)+
qed

lemma ticks_left_advance:
  assumes U: "finite U" "a \<in> U" and a: "is_after cursor a" "is_after cursor c \<Longrightarrow> key_bytes a < key_bytes c"
  shows "ticks_left U c (Some a) < ticks_left U c cursor"
proof -
  have "{k \<in> U. is_after (Some a) k} \<subset> {k \<in> U. is_after cursor k}"
    using U(2) a(1) by (cases cursor) (auto simp: is_after_def)
  then have "card {k \<in> U. is_after (Some a) k} < card {k \<in> U. is_after cursor k}"
    using U(1) by (intro psubset_card_mono) simp_all
  moreover have "is_after cursor c \<Longrightarrow> is_after (Some a) c" using a(2) by (simp add: is_after_def)
  ultimately show ?thesis by (auto simp: ticks_left_def)
qed

lemma ticks_left_restart: "\<not> is_after cursor c \<Longrightarrow> ticks_left U c None < ticks_left U c cursor"
  by (simp add: ticks_left_def is_after_def)

lemma refresh_turn_progress:
  assumes db: "chunk_env_ok L V" "keys_canonical V (env q)" "reads_ok L" and ix: "index_keeps ix goal c"
    and U: "finite U" "stored_chunks V q \<subseteq> U" and c: "c \<in> stored_chunks V q"
  shows "\<exists>x' cursor'. refresh_turn L ix t q (x, cursor) = Some (x', cursor') \<and> (goal x \<longrightarrow> goal x') \<and>
    (goal x' \<or> ticks_left U c cursor' < ticks_left U c cursor)"
proof -
  obtain y r where y: "maintainer_refresh L ix q t x = Some (y, r)" "goal x \<longrightarrow> goal y"
    using maintainer_refresh_returns [OF db ix] by blast
  obtain b where b: "next_chunk_batch L cursor INDEX_REPAIR_BATCH_SIZE q = Inr b"
      "\<forall>a \<in> set b. a \<in> stored_chunks V q \<and> is_after cursor a"
      "is_after cursor c \<longrightarrow> c \<in> set b \<or> b \<noteq> [] \<and> key_bytes (last b) < key_bytes c"
    using batch_progress [OF db c] by blast
  show ?thesis
  proof (cases "b = []")
    case True
    with b(3) have "\<not> is_after cursor c" by auto
    then show ?thesis using True y b(1) ticks_left_restart [of cursor c U]
      by (simp add: refresh_turn_def refresh_tick_def maintainer_repair_def)
  next
    case False
    obtain x' r' where rep: "repair_missing_owners ix b y = (x', r')" by (cases "repair_missing_owners ix b y")
    have run: "refresh_turn L ix t q (x, cursor) = Some (x', Some (last b))"
      using False y(1) b(1) rep by (simp add: refresh_turn_def refresh_tick_def maintainer_repair_def)
    have keep: "goal x \<longrightarrow> goal x'" "c \<in> set b \<Longrightarrow> goal x'" using y(2) index_keepsD(3) [OF ix rep] by blast+
    have "ticks_left U c (Some (last b)) < ticks_left U c cursor" if "c \<notin> set b"
    proof (rule ticks_left_advance [OF U(1)])
      show "last b \<in> U" "is_after cursor (last b)" using False b(2) U(2) by auto
      show "key_bytes (last b) < key_bytes c" if "is_after cursor c" using that b(3) \<open>c \<notin> set b\<close> by blast
    qed
    with run keep show ?thesis by blast
  qed
qed

subsection \<open>A chunk that stays is repaired\<close>

fun tick_reads :: "('q, 't) task_event list \<Rightarrow> 'q list" where
  "tick_reads [] = []"
| "tick_reads (Tick q # evs) = q # tick_reads evs"
| "tick_reads (_ # evs) = tick_reads evs"

lemma set_tick_reads: "q \<in> set (tick_reads evs) \<longleftrightarrow> Tick q \<in> set evs"
  by (induction evs rule: tick_reads.induct) auto

lemma refresh_run_reaches:
  assumes env: "chunk_env_ok L V" "reads_ok L" and ix: "index_keeps ix goal c" and U: "finite U" "c \<in> U"
    and reads: "\<forall>q \<in> set (tick_reads evs). keys_canonical V (env q) \<and> c \<in> stored_chunks V q \<and> stored_chunks V q \<subseteq> U"
    and evs: "ShutDown \<notin> set evs"
      "\<forall>f. Meanwhile f \<in> set evs \<longrightarrow> (\<forall>s. (goal (fst s) \<longrightarrow> goal (fst (f s))) \<and> snd (f s) = snd s)"
    and n: "goal (fst st) \<or> ticks_left U c (snd st) \<le> length (tick_reads evs)"
  shows "\<exists>st'. ticker_run (refresh_turn L ix t) evs st = Some (st', False) \<and> goal (fst st')"
  using reads evs n
proof (induction evs arbitrary: st)
  case Nil
  then show ?case using ticks_left_bound [OF U, of "snd st"] by auto
next
  case (Cons ev evs)
  have rest: "\<forall>q \<in> set (tick_reads evs). keys_canonical V (env q) \<and> c \<in> stored_chunks V q \<and> stored_chunks V q \<subseteq> U"
    "ShutDown \<notin> set evs" "\<forall>f. Meanwhile f \<in> set evs \<longrightarrow> (\<forall>s. (goal (fst s) \<longrightarrow> goal (fst (f s))) \<and> snd (f s) = snd s)"
    using Cons.prems(1-3) by (auto simp: set_tick_reads)
  note IH = Cons.IH [OF rest]
  show ?case
  proof (cases ev)
    case (Tick q)
    obtain x cursor where st: "st = (x, cursor)" by (cases st)
    have q: "keys_canonical V (env q)" "c \<in> stored_chunks V q" "stored_chunks V q \<subseteq> U" using Cons.prems(1) Tick by auto
    obtain x' cursor' where run: "refresh_turn L ix t q (x, cursor) = Some (x', cursor')" and x': "goal x \<longrightarrow> goal x'"
      "goal x' \<or> ticks_left U c cursor' < ticks_left U c cursor"
      using refresh_turn_progress [OF env(1) q(1) env(2) ix U(1) q(3,2), of t x cursor] by blast
    have "goal (fst (x', cursor')) \<or> ticks_left U c (snd (x', cursor')) \<le> length (tick_reads evs)"
      using x' Cons.prems(4) st Tick by auto
    from IH [OF this] obtain st' where
      "ticker_run (refresh_turn L ix t) evs (x', cursor') = Some (st', False)" "goal (fst st')" by blast
    then show ?thesis using Tick run st by simp
  next
    case (Meanwhile f)
    have "goal (fst (f st)) \<or> ticks_left U c (snd (f st)) \<le> length (tick_reads evs)"
    proof -
      have "goal (fst st) \<longrightarrow> goal (fst (f st))" "snd (f st) = snd st" using Cons.prems(3) Meanwhile by (metis list.set_intros(1))+
      then show ?thesis using Cons.prems(4) Meanwhile by auto
    qed
    from IH [OF this] show ?thesis using Meanwhile by simp
  qed (use Cons.prems IH in auto)
qed

text \<open>
  C21: a chunk that stays stored while others come and go is passed to the repair of the index: from any
  position of the repair cursor, twice as many ticks as there are chunks ever stored are enough,
  every refresh of a tick returns, and nothing ends the loop but the shutdown.
\<close>

theorem stored_chunk_gets_repaired:
  assumes "chunk_env_ok L V" "reads_ok L" and "index_keeps ix goal c" and "finite U" "c \<in> U"
    and "\<forall>q \<in> set (tick_reads evs). keys_canonical V (env q) \<and> c \<in> stored_chunks V q \<and> stored_chunks V q \<subseteq> U"
    and "ShutDown \<notin> set evs"
    and "\<And>f s. Meanwhile f \<in> set evs \<Longrightarrow> (goal (fst s) \<longrightarrow> goal (fst (f s))) \<and> snd (f s) = snd s"
    and "2 * card U \<le> length (tick_reads evs)"
  shows "\<exists>x' cursor'. ticker_run (refresh_turn L ix t) evs (x, cursor) = Some ((x', cursor'), False) \<and> goal x'"
proof -
  have "ticks_left U c cursor \<le> length (tick_reads evs)"
    using ticks_left_bound [OF assms(4,5), of cursor] assms(9) by simp
  with refresh_run_reaches [OF assms(1-7), of "(x, cursor)" t] assms(8) show ?thesis by fastforce
qed

lemma recording_keeps: "index_keeps recording_index (\<lambda>x. c \<in> set x) c"
proof -
  have f: "fold (\<lambda>cs x. x @ [cs]) css x = x @ css" for css x :: "CheckSum list"
    by (induction css arbitrary: x) simp_all
  show ?thesis by (simp add: index_keeps_def recording_index_def f)
qed

theorem stored_chunk_gets_repaired_witness:
  "\<exists>x' cursor'. ticker_run (refresh_turn (mem_chunk_env 5) recording_index 60)
      (Slept # Meanwhile id # replicate 4 (Tick (chunkdb_new demo_store True))) ([], Some (demo_cs 2)) = Some ((x', cursor'), False) \<and>
    demo_cs 1 \<in> set x'"
proof -
  let ?q = "chunkdb_new demo_store True"
  let ?evs = "Slept # Meanwhile id # replicate 4 (Tick ?q)"
  have can: "keys_canonical mem_views (env ?q)"
    by (auto simp: keys_canonical_def mem_views_def demo_store_def chunkdb_new_def split: if_splits)
  have reads: "reads_ok (mem_chunk_env 5)" by (simp add: reads_ok_def mem_chunk_env_def mem_db_def)
  have st: "stored_chunks mem_views ?q = {demo_cs 1, demo_cs 2}"
    by (auto simp: stored_chunks_def mem_views_def demo_store_def demo_cs_def chunkdb_new_def split: if_splits)
  have t: "tick_reads ?evs = [?q, ?q, ?q, ?q]" by (simp add: numeral_eq_Suc)
  have "card {demo_cs 1, demo_cs 2} \<le> 2" by (simp add: card_insert_if)
  then have n: "2 * card {demo_cs 1, demo_cs 2} \<le> length (tick_reads ?evs)" unfolding t by simp
  show ?thesis
    by (rule stored_chunk_gets_repaired [OF mem_chunk_env_ok reads recording_keeps _ _ _ _ _ n])
      (use can st t in \<open>auto simp: numeral_eq_Suc\<close>)
qed

subsection \<open>Starting the loop, and the hints\<close>

text \<open>Once the jitter is slept the loop is its ticks from a fresh cursor; a shutdown ends it even before.\<close>

lemma run_refresh_loop_ticks:
  "0 < secs \<Longrightarrow> run_refresh_loop L ix gen_range secs (Slept # evs) x = ticker_run (refresh_turn L ix secs) evs (x, None)"
  by (simp add: run_refresh_loop_def refresh_jitter_def Let_def min_def)

lemma run_refresh_loop_stops:
  "0 < secs \<Longrightarrow> run_refresh_loop L ix gen_range secs (ShutDown # evs) x = Some ((x, None), True)"
  by (simp add: run_refresh_loop_def refresh_jitter_def Let_def min_def)

text \<open>The interval of the Redis index is at least a second, so the range of the jitter is not empty.\<close>

lemma redis_refresh_starts:
  "\<exists>secs. refresh_interval (redis_chunk_index E ttl) = Some secs \<and> refresh_jitter gen_range secs \<noteq> None"
  by (auto simp: redis_chunk_index_def refresh_jitter_def Let_def)

lemma gc_keeps_recent:
  assumes run: "start_background_tasks evs h = Some (h', e)" and h: "h a = Some r"
    and recent: "\<And>now. Tick now \<in> set evs \<Longrightarrow> now - HINT_TTL_SECS \<le> last_hit_time r"
    and other: "\<And>f s. Meanwhile f \<in> set evs \<Longrightarrow> f s a = s a"
  shows "h' a = Some r"
proof -
  have "ticker_run (\<lambda>now h. Some (hints_gc_expired now h)) evs h = Some (h', e)"
    using run by (simp add: start_background_tasks_def)
  then show ?thesis using h
  proof (rule ticker_run_keeps [where P = "\<lambda>h. h a = Some r"])
    show "s' a = Some r" if "Tick q \<in> set evs" "Some (hints_gc_expired q s) = Some s'" "s a = Some r" for q s s'
      using that recent by (auto simp: hints_gc_expired_def)
    show "f s a = Some r" if "Meanwhile f \<in> set evs" "s a = Some r" for f s
      using that(2) other [OF that(1), of s] by simp
  qed
qed

lemma gc_drops_expired:
  assumes "h a = Some r" "last_hit_time r < now - HINT_TTL_SECS"
  shows "\<exists>h'. start_background_tasks [Tick now, ShutDown] h = Some (h', True) \<and> h' a = None"
  using assms by (simp add: start_background_tasks_def hints_gc_expired_def)

end
